(* ===== verification/Prelude.thy ===== *)
theory Prelude
  imports "HOL-Library.AList" "HOL-Library.Word" "HOL-Library.Monad_Syntax"
begin

text \<open>
  What every component of the model shares: the functions of the Go packages
  strings and strconv the server calls (a Go string is its list of bytes, here
  a list of 8-bit characters), Go maps as association lists, results that are
  an error or a value, and the collections of rules the component theories
  add to.  White space and letter case are those of ASCII: the server only
  compares configured numbers, user names and SIP tokens.
\<close>

named_theorems inv_intros \<open>preservation of component invariants\<close>
named_theorems string_simps \<open>evaluation of the string operations\<close>
named_theorems step_simps \<open>unfolding of the operations of a component\<close>

section \<open>Results and maps\<close>

type_synonym ('e, 'a) result = "'e + 'a"

abbreviation Ok :: "'a \<Rightarrow> ('e, 'a) result" where
  "Ok \<equiv> Inr"

abbreviation Err :: "'e \<Rightarrow> ('e, 'a) result" where
  "Err \<equiv> Inl"

text \<open>A Go map is an association list with distinct keys; the order of the
  list stands for the unspecified order in which Go ranges over a map.\<close>

type_synonym ('k, 'v) gomap = "('k \<times> 'v) list"

abbreviation keys :: "('k, 'v) gomap \<Rightarrow> 'k list" where
  "keys m \<equiv> List.map fst m"

abbreviation vals :: "('k, 'v) gomap \<Rightarrow> 'v list" where
  "vals m \<equiv> List.map snd m"

abbreviation get :: "('k, 'v) gomap \<Rightarrow> 'k \<Rightarrow> 'v option" where
  "get \<equiv> map_of"

abbreviation put :: "'k \<Rightarrow> 'v \<Rightarrow> ('k, 'v) gomap \<Rightarrow> ('k, 'v) gomap" where
  "put \<equiv> AList.update"

abbreviation del :: "'k \<Rightarrow> ('k, 'v) gomap \<Rightarrow> ('k, 'v) gomap" where
  "del \<equiv> AList.delete"

abbreviation has :: "('k, 'v) gomap \<Rightarrow> 'k \<Rightarrow> bool" where
  "has m k \<equiv> map_of m k \<noteq> None"

definition goget :: "'v \<Rightarrow> ('k, 'v) gomap \<Rightarrow> 'k \<Rightarrow> 'v" where
  "goget zero m k = (case get m k of None \<Rightarrow> zero | Some v \<Rightarrow> v)"

lemma get_put [simp]: "get (put k v m) k' = (if k' = k then Some v else get m k')"
  by (simp add: update_conv')

lemma get_del [simp]: "get (del k m) k' = (if k' = k then None else get m k')"
  by (simp add: delete_conv')

lemma goget_put [simp]: "goget z (put k v m) k' = (if k' = k then v else goget z m k')"
  by (simp add: goget_def)

lemma goget_del [simp]: "goget z (del k m) k' = (if k' = k then z else goget z m k')"
  by (simp add: goget_def)

lemma goget_Nil [simp]: "goget z [] k = z"
  by (simp add: goget_def)

lemma distinct_put [simp, intro]: "distinct (keys m) \<Longrightarrow> distinct (keys (put k v m))"
  by (rule distinct_update)

lemma keys_put [simp]: "set (keys (put k v m)) = insert k (set (keys m))"
  by (induction m) auto

lemma keys_del [simp]: "set (keys (del k m)) = set (keys m) - {k}"
  by (auto simp: AList.delete_keys)

lemma distinct_del [simp, intro]: "distinct (keys m) \<Longrightarrow> distinct (keys (del k m))"
  by (rule distinct_delete)

lemma has_iff_key: "has m k \<longleftrightarrow> k \<in> set (keys m)"
  by (induction m) auto

lemma get_in_set: "get m k = Some v \<Longrightarrow> (k, v) \<in> set m"
  by (rule map_of_SomeD)

lemma get_eq_iff: "distinct (keys m) \<Longrightarrow> get m k = Some v \<longleftrightarrow> (k, v) \<in> set m"
  by (simp add: map_of_eq_Some_iff)

lemma length_put: "length (put k v m) = (if has m k then length m else Suc (length m))"
  by (induction m) auto

lemma put_fresh: "\<not> has m k \<Longrightarrow> put k v m = m @ [(k, v)]"
  by (induction m) (auto split: if_splits)

lemma del_fresh: "\<not> has m k \<Longrightarrow> del k m = m"
  by (induction m) (auto split: if_splits)

lemma length_del:
  "distinct (keys m) \<Longrightarrow> length (del k m) = (if has m k then length m - 1 else length m)"
proof (induction m)
  case (Cons p m)
  have "0 < length m" if "has m k" using that by (cases m) auto
  with Cons show ?case
    by (cases "fst p = k") (auto simp: del_fresh has_iff_key Suc_diff_Suc simp del: length_greater_0_conv)
qed simp

section \<open>Strings\<close>

definition byte :: "char \<Rightarrow> nat" where
  "byte c = of_char c"

definition is_space :: "char \<Rightarrow> bool" where
  "is_space c = (byte c = 32 \<or> (9 \<le> byte c \<and> byte c \<le> 13))"

definition trim_left :: "string \<Rightarrow> string" where
  "trim_left s = dropWhile is_space s"

definition trim_right :: "string \<Rightarrow> string" where
  "trim_right s = rev (dropWhile is_space (rev s))"

text \<open>strings.TrimSpace\<close>
definition trim_space :: "string \<Rightarrow> string" where
  "trim_space s = trim_right (trim_left s)"

text \<open>strings.HasPrefix, strings.TrimPrefix, strings.HasSuffix, strings.TrimSuffix\<close>
definition has_prefix :: "string \<Rightarrow> string \<Rightarrow> bool" where
  "has_prefix s p = (take (length p) s = p)"

definition trim_prefix :: "string \<Rightarrow> string \<Rightarrow> string" where
  "trim_prefix s p = (if has_prefix s p then drop (length p) s else s)"

definition has_suffix :: "string \<Rightarrow> string \<Rightarrow> bool" where
  "has_suffix s p = has_prefix (rev s) (rev p)"

definition trim_suffix :: "string \<Rightarrow> string \<Rightarrow> string" where
  "trim_suffix s p = (if has_suffix s p then take (length s - length p) s else s)"

text \<open>strings.Contains and strings.Index\<close>
fun str_index :: "string \<Rightarrow> string \<Rightarrow> nat option" where
  "str_index [] p = (if p = [] then Some 0 else None)"
| "str_index (c # cs) p =
     (if has_prefix (c # cs) p then Some 0 else map_option Suc (str_index cs p))"

definition str_contains :: "string \<Rightarrow> string \<Rightarrow> bool" where
  "str_contains s p = (str_index s p \<noteq> None)"

text \<open>strings.ToLower, strings.ToUpper, strings.EqualFold\<close>
definition lower_char :: "char \<Rightarrow> char" where
  "lower_char c = (if 65 \<le> byte c \<and> byte c \<le> 90 then char_of (byte c + 32) else c)"

definition upper_char :: "char \<Rightarrow> char" where
  "upper_char c = (if 97 \<le> byte c \<and> byte c \<le> 122 then char_of (byte c - 32) else c)"

definition to_lower :: "string \<Rightarrow> string" where
  "to_lower s = List.map lower_char s"

definition to_upper :: "string \<Rightarrow> string" where
  "to_upper s = List.map upper_char s"

definition equal_fold :: "string \<Rightarrow> string \<Rightarrow> bool" where
  "equal_fold a b = (to_lower a = to_lower b)"

text \<open>strings.Split at a one-byte separator, and strings.SplitN with n = 2\<close>
fun split_on :: "char \<Rightarrow> string \<Rightarrow> string list" where
  "split_on c [] = [[]]"
| "split_on c (x # xs) =
     (if x = c then [] # split_on c xs
      else (case split_on c xs of [] \<Rightarrow> [[x]] | w # ws \<Rightarrow> (x # w) # ws))"

definition split2 :: "char \<Rightarrow> string \<Rightarrow> string list" where
  "split2 c s =
     (if c \<in> set s then [takeWhile (\<lambda>x. x \<noteq> c) s, tl (dropWhile (\<lambda>x. x \<noteq> c) s)] else [s])"

text \<open>strings.Join\<close>
fun join_with :: "string \<Rightarrow> string list \<Rightarrow> string" where
  "join_with sep [] = []"
| "join_with sep [w] = w"
| "join_with sep (w # ws) = w @ sep @ join_with sep ws"

text \<open>The order Go's comparison operators give two strings: bytewise.\<close>
fun str_le :: "string \<Rightarrow> string \<Rightarrow> bool" where
  "str_le [] _ = True"
| "str_le (_ # _) [] = False"
| "str_le (a # as) (b # bs) =
     (if byte a = byte b then str_le as bs else byte a < byte b)"

definition str_less :: "string \<Rightarrow> string \<Rightarrow> bool" where
  "str_less a b = (str_le a b \<and> a \<noteq> b)"

subsection \<open>Decimal numbers\<close>

definition is_digit :: "char \<Rightarrow> bool" where
  "is_digit c = (48 \<le> byte c \<and> byte c \<le> 57)"

definition digit_val :: "char \<Rightarrow> int" where
  "digit_val c = int (byte c) - 48"

fun digits_val :: "int \<Rightarrow> string \<Rightarrow> int option" where
  "digits_val acc [] = Some acc"
| "digits_val acc (c # cs) =
     (if is_digit c then digits_val (acc * 10 + digit_val c) cs else None)"

definition int64_range :: "int \<Rightarrow> bool" where
  "int64_range n = (- (2 ^ 63) \<le> n \<and> n < 2 ^ 63)"

text \<open>strconv.Atoi: an optional sign, at least one digit, a value that fits
  Go's 64-bit int\<close>
definition atoi :: "string \<Rightarrow> int option" where
  "atoi s =
     (case s of
        [] \<Rightarrow> None
      | c # cs \<Rightarrow>
          let v = (if c = CHR ''-'' then (if cs = [] then None else map_option uminus (digits_val 0 cs))
                   else if c = CHR ''+'' then (if cs = [] then None else digits_val 0 cs)
                   else digits_val 0 s)
          in (case v of None \<Rightarrow> None | Some n \<Rightarrow> if int64_range n then Some n else None))"

definition digit_char :: "nat \<Rightarrow> char" where
  "digit_char d = char_of (48 + d)"

fun nat_digits :: "nat \<Rightarrow> string" where
  "nat_digits n =
     (if n < 10 then [digit_char n] else nat_digits (n div 10) @ [digit_char (n mod 10)])"

declare nat_digits.simps [simp del]

text \<open>strconv.Itoa\<close>
definition itoa :: "int \<Rightarrow> string" where
  "itoa n = (if n < 0 then CHR ''-'' # nat_digits (nat (- n)) else nat_digits (nat n))"

subsection \<open>Laws of the string operations\<close>

lemma trim_left_idem [simp]: "trim_left (trim_left s) = trim_left s"
  by (simp add: trim_left_def dropWhile_idem)

lemma trim_right_idem [simp]: "trim_right (trim_right s) = trim_right s"
  by (simp add: trim_right_def dropWhile_idem)

lemma trim_right_Cons:
  "trim_right (c # s) = (if trim_right s = [] \<and> is_space c then [] else c # trim_right s)"
  by (auto simp: trim_right_def dropWhile_append dropWhile_eq_Nil_conv)

lemma trim_left_trim_right: "trim_left s = s \<Longrightarrow> trim_left (trim_right s) = trim_right s"
proof (cases s)
  case (Cons c cs)
  assume "trim_left s = s"
  then have "\<not> is_space c" using Cons
    by (metis hd_dropWhile list.distinct(1) list.sel(1) trim_left_def)
  with Cons show ?thesis by (simp add: trim_left_def trim_right_Cons)
qed (simp add: trim_left_def trim_right_def)

lemma trim_space_idem [simp]: "trim_space (trim_space s) = trim_space s"
  by (simp add: trim_space_def trim_left_trim_right)

lemma trim_space_Nil [simp]: "trim_space [] = []"
  by (simp add: trim_space_def trim_left_def trim_right_def)

lemma dropWhile_none: "\<forall>c \<in> set s. \<not> P c \<Longrightarrow> dropWhile P s = s"
  by (cases s) auto

lemma trim_space_id: "\<forall>c \<in> set s. \<not> is_space c \<Longrightarrow> trim_space s = s"
  by (simp add: trim_space_def trim_left_def trim_right_def dropWhile_none)

lemma set_dropWhile_subset: "set (dropWhile P s) \<subseteq> set s"
  by (auto dest: set_dropWhileD)

lemma set_trim_space: "set (trim_space s) \<subseteq> set s"
  using set_dropWhile_subset [of is_space s]
    set_dropWhile_subset [of is_space "rev (dropWhile is_space s)"]
  by (auto simp: trim_space_def trim_right_def trim_left_def)

lemma has_prefix_iff: "has_prefix s p \<longleftrightarrow> (\<exists>r. s = p @ r)"
proof
  assume "has_prefix s p"
  then have "s = p @ drop (length p) s" by (metis append_take_drop_id has_prefix_def)
  then show "\<exists>r. s = p @ r" ..
qed (auto simp: has_prefix_def)

lemma has_prefix_append [simp]: "has_prefix (p @ r) p"
  by (simp add: has_prefix_def)

lemma trim_prefix_append [simp]: "trim_prefix (p @ r) p = r"
  by (simp add: trim_prefix_def)

lemma str_index_iff: "str_index s p \<noteq> None \<longleftrightarrow> (\<exists>a b. s = a @ p @ b)"
proof (induction s)
  case (Cons c s)
  show ?case
  proof
    assume "str_index (c # s) p \<noteq> None"
    then consider "has_prefix (c # s) p" | "str_index s p \<noteq> None" by (auto split: if_splits)
    then show "\<exists>a b. c # s = a @ p @ b"
    proof cases
      case 1
      then obtain r where "c # s = [] @ p @ r" by (auto simp: has_prefix_iff)
      then show ?thesis by blast
    next
      case 2
      then obtain a b where "s = a @ p @ b" using Cons by blast
      then have "c # s = (c # a) @ p @ b" by simp
      then show ?thesis by blast
    qed
  next
    assume "\<exists>a b. c # s = a @ p @ b"
    then obtain a b where ab: "c # s = a @ p @ b" by blast
    show "str_index (c # s) p \<noteq> None"
    proof (cases a)
      case Nil
      then have "has_prefix (c # s) p" using ab by simp
      then show ?thesis by simp
    next
      case (Cons x xs)
      then have "s = xs @ p @ b" using ab by simp
      then have "str_index s p \<noteq> None" using Cons.IH by blast
      then show ?thesis by auto
    qed
  qed
qed simp

lemma str_contains_iff: "str_contains s p \<longleftrightarrow> (\<exists>a b. s = a @ p @ b)"
  using str_index_iff by (simp add: str_contains_def)

lemma str_contains_append: "str_contains s p \<Longrightarrow> str_contains (a @ s @ b) p"
  by (simp add: str_contains_iff) (metis append.assoc)

lemma str_contains_mid: "str_contains (a @ p @ b) p"
  unfolding str_contains_iff by blast

lemma has_suffix_iff: "has_suffix s p \<longleftrightarrow> (\<exists>r. s = r @ p)"
  by (auto simp: has_suffix_def has_prefix_iff) (metis rev_append rev_rev_ident)

lemma has_prefix_Nil [simp]: "has_prefix s []"
  by (simp add: has_prefix_def)

lemma has_prefix_Cons_Cons [simp]:
  "has_prefix (a # s) (b # p) \<longleftrightarrow> a = b \<and> has_prefix s p"
  by (auto simp: has_prefix_def)

lemma has_prefix_Nil_Cons [simp]: "\<not> has_prefix [] (b # p)"
  by (simp add: has_prefix_def)

lemma to_lower_Nil_iff [simp]: "to_lower s = [] \<longleftrightarrow> s = []"
  by (simp add: to_lower_def)

lemma byte_less_256 [simp]: "byte c < 256"
  using of_char_mod_256 [of c, where ?'a = nat] by (simp add: byte_def)

lemma byte_char_of [simp]: "byte (char_of n) = n mod 256"
  by (simp add: byte_def)

lemma byte_Char [simp]: "byte (Char b0 b1 b2 b3 b4 b5 b6 b7) = of_char (Char b0 b1 b2 b3 b4 b5 b6 b7)"
  by (simp add: byte_def)

lemma byte_inject [simp]: "byte a = byte b \<longleftrightarrow> a = b"
  by (simp add: byte_def)

lemma lower_char_idem [simp]: "lower_char (lower_char c) = lower_char c"
  by (auto simp: lower_char_def)

lemma to_lower_idem [simp]: "to_lower (to_lower s) = to_lower s"
  by (simp add: to_lower_def)

lemma length_to_lower [simp]: "length (to_lower s) = length s"
  by (simp add: to_lower_def)

lemma equal_fold_refl [simp]: "equal_fold s s"
  by (simp add: equal_fold_def)

lemma split_on_nonempty [simp]: "split_on c s \<noteq> []"
  by (induction s) (auto split: list.splits)

lemma join_split_on: "join_with [c] (split_on c s) = s"
proof (induction s)
  case (Cons x xs)
  then show ?case
    by (cases "split_on c xs"; cases "tl (split_on c xs)") (auto split: list.splits)
qed simp

lemma split_on_no_sep: "w \<in> set (split_on c s) \<Longrightarrow> c \<notin> set w"
  by (induction s arbitrary: w) (auto split: list.splits if_splits)

lemma split2_append:
  "c \<notin> set a \<Longrightarrow> split2 c (a @ c # b) = [a, b]"
  by (induction a) (auto simp: split2_def)

lemma str_le_refl [simp]: "str_le s s"
  by (induction s) auto

lemma str_le_antisym: "str_le a b \<Longrightarrow> str_le b a \<Longrightarrow> a = b"
proof (induction a b rule: str_le.induct)
  case (2 a as)
  then show ?case by simp
next
  case (1 b)
  then show ?case by (cases b) auto
qed (auto split: if_splits)

lemma str_le_trans: "str_le a b \<Longrightarrow> str_le b c \<Longrightarrow> str_le a c"
proof (induction a b arbitrary: c rule: str_le.induct)
  case (3 a as b bs)
  then show ?case by (cases c) (auto split: if_splits)
qed auto

lemma str_le_total: "str_le a b \<or> str_le b a"
proof (induction a b rule: str_le.induct)
  case (3 a as b bs)
  then show ?case using byte_inject [of a b] by (auto simp del: byte_inject)
qed auto

text \<open>The order of Go strings is a linear order, so the library's facts on
  sorted lists hold for it.\<close>
interpretation str_order: linorder str_le str_less
proof
  show "str_less x y \<longleftrightarrow> str_le x y \<and> \<not> str_le y x" for x y
    using str_le_antisym by (auto simp: str_less_def)
qed (auto intro: str_le_trans str_le_antisym simp: str_le_total)

lemma is_digit_digit_char [simp]: "d < 10 \<Longrightarrow> is_digit (digit_char d)"
  by (simp add: is_digit_def digit_char_def)

lemma digit_val_digit_char [simp]: "d < 10 \<Longrightarrow> digit_val (digit_char d) = int d"
  by (simp add: digit_val_def digit_char_def)

lemma digits_val_append:
  "digits_val acc (a @ b) = (case digits_val acc a of None \<Rightarrow> None | Some x \<Rightarrow> digits_val x b)"
  by (induction a arbitrary: acc) auto

lemma digits_val_nat_digits: "digits_val 0 (nat_digits n) = Some (int n)"
proof (induction n rule: nat_digits.induct)
  case (1 n)
  then show ?case
    by (subst nat_digits.simps) (auto simp: digits_val_append zdiv_int zmod_int)
qed

lemma nat_digits_digits: "c \<in> set (nat_digits n) \<Longrightarrow> is_digit c"
proof (induction n rule: nat_digits.induct)
  case (1 n)
  from 1(2) show ?case
    by (subst (asm) nat_digits.simps) (auto split: if_splits dest: 1(1))
qed

lemma nat_digits_nonempty [simp]: "nat_digits n \<noteq> []"
  by (subst nat_digits.simps) simp

lemma digits_val_digits: "digits_val acc s = Some n \<Longrightarrow> c \<in> set s \<Longrightarrow> is_digit c"
  by (induction s arbitrary: acc) (auto split: if_splits)

lemma digits_val_nonneg: "digits_val acc s = Some n \<Longrightarrow> 0 \<le> acc \<Longrightarrow> 0 \<le> n"
proof (induction s arbitrary: acc)
  case (Cons c s)
  then have "is_digit c" "digits_val (acc * 10 + digit_val c) s = Some n" by (auto split: if_splits)
  with Cons show ?case by (auto simp: is_digit_def digit_val_def)
qed simp

lemma is_digit_not_space: "is_digit c \<Longrightarrow> \<not> is_space c"
  by (auto simp: is_digit_def is_space_def)

lemma is_digit_not_sign: "is_digit c \<Longrightarrow> c \<noteq> CHR ''-'' \<and> c \<noteq> CHR ''+'' \<and> c \<noteq> CHR ''*''"
  by (auto simp: is_digit_def byte_def)

lemma atoi_nat_digits: "int n < 2 ^ 63 \<Longrightarrow> atoi (nat_digits n) = Some (int n)"
  using digits_val_nat_digits [of n] nat_digits_digits [of _ n] is_digit_not_sign
  by (cases "nat_digits n") (auto simp: atoi_def int64_range_def Let_def)

text \<open>strconv.Atoi inverts strconv.Itoa on every 64-bit int.\<close>
lemma atoi_itoa: "int64_range n \<Longrightarrow> atoi (itoa n) = Some n"
proof (cases "n < 0")
  case True
  assume "int64_range n"
  with True show ?thesis
    by (simp add: itoa_def atoi_def digits_val_nat_digits)
next
  case False
  assume "int64_range n"
  with False show ?thesis
    using atoi_nat_digits [of "nat n"] by (simp add: itoa_def int64_range_def)
qed

lemma itoa_not_space: "c \<in> set (itoa n) \<Longrightarrow> \<not> is_space c"
  by (auto simp: itoa_def is_space_def byte_def dest: nat_digits_digits is_digit_not_space
      split: if_splits) (auto dest: nat_digits_digits simp: is_digit_def byte_def)

lemma itoa_nonempty [simp]: "itoa n \<noteq> []"
  by (simp add: itoa_def)

lemma itoa_hd_not_star: "hd (itoa n) \<noteq> CHR ''*''"
proof (cases "n < 0")
  case False
  then have "hd (itoa n) \<in> set (nat_digits (nat n))" by (simp add: itoa_def)
  then show ?thesis using nat_digits_digits is_digit_not_sign by blast
qed (simp add: itoa_def)

end
