(* ===== verification/GoPath.thy ===== *)
theory GoPath
  imports Prelude
begin

text \<open>
  The functions of Go's path/filepath the server calls (slash-separated
  paths): Clean, Join, Dir, Base, Ext and IsAbs.  Paths of configuration
  files, sound prompts and the entries of a backup archive go through them.
\<close>

definition slash :: char where
  "slash = CHR ''/''"

definition IsAbs :: "string \<Rightarrow> bool" where
  "IsAbs p = has_prefix p ''/''"

text \<open>The components Clean keeps, the last one first: empty components and dots
  go, a double dot removes the component before it where there is one and
  stays at the front of a relative path.\<close>
fun clean_comps :: "bool \<Rightarrow> string list \<Rightarrow> string list \<Rightarrow> string list" where
  "clean_comps rooted acc [] = acc"
| "clean_comps rooted acc (c # cs) =
     (if c = [] \<or> c = ''.'' then clean_comps rooted acc cs
      else if c = ''..'' then
        (case acc of
           [] \<Rightarrow> clean_comps rooted (if rooted then [] else [c]) cs
         | a # as \<Rightarrow> if a = ''..'' then clean_comps rooted (c # acc) cs else clean_comps rooted as cs)
      else clean_comps rooted (c # acc) cs)"

definition Clean :: "string \<Rightarrow> string" where
  "Clean p =
     (let rooted = IsAbs p; comps = rev (clean_comps rooted [] (split_on slash p)) in
      if rooted then slash # join_with ''/'' comps
      else if comps = [] then ''.'' else join_with ''/'' comps)"

text \<open>filepath.Join drops empty elements and cleans the rest joined by slashes.\<close>
definition Join :: "string list \<Rightarrow> string" where
  "Join els =
     (let parts = filter (\<lambda>e. e \<noteq> []) els in
      if parts = [] then [] else Clean (join_with ''/'' parts))"

definition after_last :: "char \<Rightarrow> string \<Rightarrow> string" where
  "after_last c s = rev (takeWhile (\<lambda>x. x \<noteq> c) (rev s))"

definition upto_last :: "char \<Rightarrow> string \<Rightarrow> string" where
  "upto_last c s = rev (dropWhile (\<lambda>x. x \<noteq> c) (rev s))"

definition Dir :: "string \<Rightarrow> string" where
  "Dir p = Clean (upto_last slash p)"

definition Base :: "string \<Rightarrow> string" where
  "Base p =
     (if p = [] then ''.''
      else let q = rev (dropWhile (\<lambda>x. x = slash) (rev p)) in
        if q = [] then ''/'' else after_last slash q)"

text \<open>The suffix from the last dot of the last component, or nothing.\<close>
definition Ext :: "string \<Rightarrow> string" where
  "Ext p = (let b = after_last slash p in
     if CHR ''.'' \<in> set b then CHR ''.'' # after_last (CHR ''.'') b else [])"

text \<open>A component that names something below a directory.\<close>
definition plain_comp :: "string \<Rightarrow> bool" where
  "plain_comp c = (c \<noteq> [] \<and> c \<noteq> ''.'' \<and> c \<noteq> ''..'')"

lemma clean_comps_plain:
  assumes "\<forall>c \<in> set cs. c = [] \<or> c = ''.'' \<or> plain_comp c"
  shows "clean_comps r acc cs = rev (filter plain_comp cs) @ acc"
  using assms by (induction cs arbitrary: acc) (auto simp: plain_comp_def)

lemma clean_comps_rooted:
  "\<forall>a \<in> set acc. plain_comp a \<Longrightarrow> \<forall>a \<in> set (clean_comps True acc cs). plain_comp a"
proof (induction cs arbitrary: acc)
  case (Cons c cs)
  consider "c = [] \<or> c = ''.''" | "c = ''..''" "acc = []" | a as where "c = ''..''" "acc = a # as"
    | "plain_comp c" by (cases acc) (auto simp: plain_comp_def)
  then show ?case
  proof cases
    case 1
    then show ?thesis using Cons by simp
  next
    case 2
    then show ?thesis using Cons.IH [of "[]"] by simp
  next
    case (3 a as)
    then have "a \<noteq> ''..''" using Cons.prems by (auto simp: plain_comp_def)
    with 3 show ?thesis using Cons.IH [of as] Cons.prems by simp
  next
    case 4
    then have "c \<noteq> []" "c \<noteq> ''.''" "c \<noteq> ''..''" by (simp_all add: plain_comp_def)
    then show ?thesis using Cons.IH [of "c # acc"] Cons.prems 4 by simp
  qed
qed simp

text \<open>A rooted path, once cleaned, has no double dot left.\<close>
lemma Clean_rooted_comps:
  "\<forall>a \<in> set (clean_comps True [] (split_on slash p)). plain_comp a"
  by (rule clean_comps_rooted) simp

text \<open>filepath.Rel of a rooted target: the steps up from the base and then down to the
  target.  A base that is not rooted gives an error.\<close>
fun strip_common :: "string list \<Rightarrow> string list \<Rightarrow> string list \<times> string list" where
  "strip_common (b # bs) (t # ts) = (if b = t then strip_common bs ts else (b # bs, t # ts))"
| "strip_common bs ts = (bs, ts)"

definition rooted_comps :: "string \<Rightarrow> string list" where
  "rooted_comps p = rev (clean_comps True [] (split_on slash p))"

definition RelRooted :: "string \<Rightarrow> string \<Rightarrow> string option" where
  "RelRooted base targ =
     (if \<not> IsAbs base then None
      else if rooted_comps base = rooted_comps targ then Some ''.''
      else (case strip_common (rooted_comps base) (rooted_comps targ) of (bs, ts) \<Rightarrow>
        Some (join_with ''/'' (replicate (length bs) ''..'' @ ts))))"

subsection \<open>Clean paths\<close>

lemma split_on_append: "split_on c (a @ c # b) = split_on c a @ split_on c b"
  by (induction a) (auto split: list.splits)

lemma split_on_none: "c \<notin> set w \<Longrightarrow> split_on c w = [w]"
  by (induction w) auto

lemma split_on_join: "ws \<noteq> [] \<Longrightarrow> \<forall>w \<in> set ws. c \<notin> set w \<Longrightarrow> split_on c (join_with [c] ws) = ws"
  by (induction "[c]" ws rule: join_with.induct) (auto simp: split_on_none split_on_append)

lemma join_with_append:
  "xs \<noteq> [] \<Longrightarrow> ys \<noteq> [] \<Longrightarrow> join_with sep (xs @ ys) = join_with sep xs @ sep @ join_with sep ys"
proof (induction sep xs rule: join_with.induct)
  case (2 sep w)
  then show ?case by (cases ys) auto
qed auto

lemma clean_comps_append: "clean_comps r acc (xs @ ys) = clean_comps r (clean_comps r acc xs) ys"
  by (induction xs arbitrary: acc) (auto split: list.splits)

lemma clean_comps_subset: "set (clean_comps r acc cs) \<subseteq> set acc \<union> set cs"
proof (induction cs arbitrary: acc)
  case (Cons c cs)
  show ?case
    by (cases acc) (use Cons.IH [of "[]"] Cons.IH [of "c # acc"] Cons.IH [of acc] Cons.IH [of "[c]"] Cons.IH [of "tl acc"] in auto)
qed simp

text \<open>What Clean leaves: names below, after the steps up of a path that is not rooted.\<close>
definition clean_form :: "bool \<Rightarrow> string list \<Rightarrow> bool" where
  "clean_form r acc \<longleftrightarrow> (\<exists>ps k. acc = ps @ replicate k ''..'' \<and> (\<forall>p \<in> set ps. plain_comp p) \<and> (r \<longrightarrow> k = 0))"

lemma clean_formI: "\<forall>p \<in> set ps. plain_comp p \<Longrightarrow> r \<longrightarrow> k = 0 \<Longrightarrow> clean_form r (ps @ replicate k ''..'')"
  by (auto simp: clean_form_def)

lemma clean_form_comps: "clean_form r acc \<Longrightarrow> clean_form r (clean_comps r acc cs)"
proof (induction cs arbitrary: acc)
  case (Cons c cs)
  from Cons.prems obtain ps k where acc: "acc = ps @ replicate k ''..''"
    and ps: "\<forall>p \<in> set ps. plain_comp p" and k: "r \<longrightarrow> k = 0" by (auto simp: clean_form_def)
  consider "c = [] \<or> c = ''.''" | "c = ''..''" "ps = []" | p qs where "c = ''..''" "ps = p # qs" | "plain_comp c"
    by (cases ps) (auto simp: plain_comp_def)
  then show ?case
  proof cases
    case 1
    then show ?thesis using Cons by simp
  next
    case 2
    have "clean_form r (replicate (Suc k) ''..'')" if "\<not> r" using that clean_formI [of "[]" r "Suc k"] by simp
    then show ?thesis using 2 acc k Cons.IH [of "[]"] Cons.IH [of "replicate (Suc k) ''..''"] clean_formI [of "[]" r 0]
      by (cases k) auto
  next
    case (3 p qs)
    then have "p \<noteq> ''..''" using ps by (auto simp: plain_comp_def)
    with 3 show ?thesis using Cons.IH [of "qs @ replicate k ''..''"] clean_formI [of qs r k] ps k acc by simp
  next
    case 4
    then have "c \<noteq> []" "c \<noteq> ''.''" "c \<noteq> ''..''" by (simp_all add: plain_comp_def)
    then show ?thesis using Cons.IH [of "c # acc"] clean_formI [of "c # ps" r k] ps k acc 4 by simp
  qed
qed simp

lemma clean_comps_form: "clean_form r acc \<Longrightarrow> clean_comps r [] (rev acc) = acc"
proof -
  assume "clean_form r acc"
  then obtain ps k where acc: "acc = ps @ replicate k ''..''"
    and ps: "\<forall>p \<in> set ps. plain_comp p" and k: "r \<longrightarrow> k = 0" by (auto simp: clean_form_def)
  have "clean_comps False (replicate n ''..'') (replicate k ''..'') = replicate (n + k) ''..''" for n
  proof (induction k arbitrary: n)
    case (Suc k)
    then show ?case using Suc [of "Suc n"] by (cases n) (auto simp: replicate_app_Cons_same)
  qed simp
  from this [of 0] have "clean_comps r [] (replicate k ''..'') = replicate k ''..''" using k by (cases r) auto
  moreover have "filter plain_comp ps = ps" using ps by (simp add: filter_id_conv)
  ultimately show ?thesis using acc ps clean_comps_plain [of "rev ps" r "replicate k ''..''"]
    by (simp add: clean_comps_append rev_filter [symmetric])
qed

lemma clean_comps_slashless: "w \<in> set (clean_comps r [] (split_on slash p)) \<Longrightarrow> slash \<notin> set w"
  using clean_comps_subset [of r "[]" "split_on slash p"] split_on_no_sep by auto

definition path_of :: "bool \<Rightarrow> string list \<Rightarrow> string" where
  "path_of rooted comps =
     (if rooted then slash # join_with ''/'' comps
      else if comps = [] then ''.'' else join_with ''/'' comps)"

lemma Clean_path_of: "Clean p = path_of (IsAbs p) (rev (clean_comps (IsAbs p) [] (split_on slash p)))"
  by (simp add: Clean_def path_of_def Let_def)

lemma join_with_Nil_iff: "join_with [c] ws = [] \<longleftrightarrow> ws = [] \<or> ws = [[]]"
  by (cases "([c], ws)" rule: join_with.cases) auto

lemma clean_form_nonempty: "clean_form r acc \<Longrightarrow> [] \<notin> set acc"
  by (force simp add: clean_form_def plain_comp_def)

lemma IsAbs_path_of:
  assumes "clean_form r acc" "\<forall>w \<in> set acc. slash \<notin> set w"
  shows "IsAbs (path_of r (rev acc)) = r"
proof (cases "r \<or> acc = []")
  case True
  then show ?thesis by (auto simp: path_of_def IsAbs_def slash_def)
next
  case False
  then obtain w ws where w: "rev acc = w # ws" by (cases "rev acc") auto
  have "w \<in> set acc" using w by (metis list.set_intros(1) set_rev)
  then have "w \<noteq> []" "slash \<notin> set w" using assms clean_form_nonempty by auto
  then have "hd (join_with ''/'' (w # ws)) \<noteq> slash" "join_with ''/'' (w # ws) \<noteq> []"
    by (cases w; cases ws; auto)+
  then show ?thesis using False w by (cases "join_with ''/'' (w # ws)") (auto simp: path_of_def IsAbs_def slash_def)
qed

lemma comps_path_of:
  assumes "clean_form r acc" "\<forall>w \<in> set acc. slash \<notin> set w"
  shows "clean_comps r [] (split_on slash (path_of r (rev acc))) = acc"
proof (cases "acc = []")
  case True
  then show ?thesis by (auto simp: path_of_def slash_def)
next
  case False
  then have "split_on slash (join_with ''/'' (rev acc)) = rev acc"
    using assms split_on_join [of "rev acc" slash] by (simp add: slash_def)
  then have "clean_comps r [] (split_on slash (path_of r (rev acc))) = clean_comps r [] (rev acc)"
    using False by (auto simp: path_of_def)
  then show ?thesis using clean_comps_form [OF assms(1)] by simp
qed

lemma Clean_form: "clean_form r (clean_comps r [] (split_on slash p))"
  by (rule clean_form_comps) (use clean_formI [of "[]" r 0] in simp)

text \<open>Clean only needs to be applied once.\<close>
lemma Clean_idem [simp]: "Clean (Clean p) = Clean p"
proof -
  let ?r = "IsAbs p" and ?acc = "clean_comps (IsAbs p) [] (split_on slash p)"
  have s: "\<forall>w \<in> set ?acc. slash \<notin> set w" using clean_comps_slashless by blast
  show ?thesis
    by (simp add: Clean_path_of [of "path_of _ _"] Clean_path_of [of p] IsAbs_path_of [OF Clean_form s]
        comps_path_of [OF Clean_form s])
qed

text \<open>A relative path of names below a directory, as an archive entry without a double dot
  has: joining it to the directory gives the place below the directory, and nothing else.\<close>
definition plain_rel :: "string \<Rightarrow> bool" where
  "plain_rel rel = (\<forall>c \<in> set (split_on slash rel). plain_comp c)"

definition below :: "string \<Rightarrow> string \<Rightarrow> string" where
  "below d rel = (if Clean d = ''/'' then slash # rel
     else if Clean d = ''.'' then rel else Clean d @ slash # rel)"

lemma plain_rel_nonempty: "plain_rel rel \<Longrightarrow> rel \<noteq> []"
  by (cases rel) (simp_all add: plain_rel_def plain_comp_def)

lemma IsAbs_append: "d \<noteq> [] \<Longrightarrow> IsAbs (d @ s) = IsAbs d"
  by (cases d) (auto simp: IsAbs_def)

lemma path_of_append:
  assumes "clean_form r acc" "\<forall>w \<in> set acc. slash \<notin> set w" "plain_rel rel"
  shows "path_of r (rev acc @ split_on slash rel)
    = (if path_of r (rev acc) = ''/'' then slash # rel
       else if path_of r (rev acc) = ''.'' then rel else path_of r (rev acc) @ slash # rel)"
proof -
  have j: "join_with ''/'' (split_on slash rel) = rel" using join_split_on [of slash rel] by (simp add: slash_def)
  have dot: "w \<in> set acc \<Longrightarrow> w \<noteq> ''.''" for w
    using assms(1) by (force simp add: clean_form_def plain_comp_def)
  show ?thesis
  proof (cases "acc = []")
    case True
    then show ?thesis using j plain_rel_nonempty [OF assms(3)] by (auto simp: path_of_def slash_def)
  next
    case False
    have ne: "join_with ''/'' (rev acc) \<noteq> []"
      using False clean_form_nonempty [OF assms(1)] join_with_Nil_iff [of "CHR ''/''" "rev acc"] by force
    have sp: "split_on slash (join_with ''/'' (rev acc)) = rev acc"
      using False assms(2) split_on_join [of "rev acc" slash] by (simp add: slash_def)
    have "join_with ''/'' (rev acc) \<noteq> ''.''"
    proof
      assume "join_with ''/'' (rev acc) = ''.''"
      with sp have "rev acc = split_on slash ''.''" by simp
      then have "''.'' \<in> set acc" by (auto simp: slash_def)
      with dot show False by blast
    qed
    moreover have "join_with ''/'' (rev acc) \<noteq> ''/''"
    proof
      assume "join_with ''/'' (rev acc) = ''/''"
      with sp have "rev acc = split_on slash ''/''" by simp
      then have "[] \<in> set acc" by (auto simp: slash_def)
      with clean_form_nonempty [OF assms(1)] show False by blast
    qed
    ultimately show ?thesis using False j ne
      by (auto simp: path_of_def slash_def join_with_append)
  qed
qed

lemma Join_below:
  assumes "d \<noteq> []" "plain_rel rel"
  shows "Join [d, rel] = below d rel"
proof -
  let ?r = "IsAbs d" and ?acc = "clean_comps (IsAbs d) [] (split_on slash d)"
  have s: "\<forall>w \<in> set ?acc. slash \<notin> set w" using clean_comps_slashless by blast
  have "Join [d, rel] = Clean (d @ slash # rel)"
    using assms plain_rel_nonempty by (auto simp: Join_def slash_def)
  also have "\<dots> = path_of ?r (rev ?acc @ split_on slash rel)"
    using assms by (simp add: Clean_path_of IsAbs_append split_on_append clean_comps_append
        clean_comps_plain plain_rel_def rev_filter filter_id_conv)
  also have "\<dots> = below d rel"
    using path_of_append [OF Clean_form s assms(2)] by (simp add: below_def Clean_path_of)
  finally show ?thesis .
qed

lemma below_inject [simp]: "below d a = below d b \<longleftrightarrow> a = b"
  by (auto simp: below_def)

lemma Clean_below:
  assumes "d \<noteq> []" "plain_rel rel"
  shows "Clean (below d rel) = below d rel"
proof -
  have "below d rel = Clean (d @ slash # rel)"
    using Join_below [OF assms] plain_rel_nonempty [OF assms(2)] assms(1) by (simp add: Join_def slash_def)
  then show ?thesis by simp
qed

end
