(* ===== verification/Router.thy ===== *)
theory Router
  imports Prelude
begin

text \<open>
  The numbering plan of internal/router/router.go: the kinds of a dialled
  number, the star codes an administrator may change and RouteDial, which
  decides what a call is for.
\<close>

datatype kind = KindUnknown | KindExtension | KindHunt | KindConference | KindPaging | KindTrunk
  | KindRedial | KindCallReturn | KindTransfer | KindPark | KindParkRetrieve
  | KindDNDActivate | KindDNDDeactivate

record route =
  rKind :: kind
  rTarget :: string
  rPrefix :: string
  rRest :: string

definition route_of :: "kind \<Rightarrow> string \<Rightarrow> route" where
  "route_of k t = \<lparr>rKind = k, rTarget = t, rPrefix = [], rRest = []\<rparr>"

record feature_codes =
  fcRedial :: string
  fcCallReturn :: string
  fcTransfer :: string
  fcPark :: string
  fcParkRetrieve :: string
  fcDNDActivate :: string
  fcDNDDeactivate :: string

definition DefaultFeatureCodes :: feature_codes where
  "DefaultFeatureCodes =
     \<lparr>fcRedial = ''*66'', fcCallReturn = ''*69'', fcTransfer = ''*77'', fcPark = ''*85'',
      fcParkRetrieve = ''*86'', fcDNDActivate = ''*78'', fcDNDDeactivate = ''*79''\<rparr>"

text \<open>The branch of RouteDial for a number that starts with a star.\<close>
definition route_star :: "string \<Rightarrow> feature_codes \<Rightarrow> route" where
  "route_star dial fc =
     (if dial = fcRedial fc then route_of KindRedial []
      else if dial = fcCallReturn fc then route_of KindCallReturn []
      else if dial = fcTransfer fc then route_of KindTransfer []
      else if dial = fcPark fc then route_of KindPark []
      else if dial = fcParkRetrieve fc then route_of KindParkRetrieve []
      else if dial = fcDNDActivate fc then route_of KindDNDActivate []
      else if dial = fcDNDDeactivate fc then route_of KindDNDDeactivate []
      else
        let slot = trim_prefix dial (fcParkRetrieve fc); code = trim_prefix dial ''*'' in
        if fcParkRetrieve fc \<noteq> [] \<and> has_prefix dial (fcParkRetrieve fc)
             \<and> length (fcParkRetrieve fc) < length dial \<and> slot \<noteq> []
        then route_of KindParkRetrieve slot
        else (case atoi code of
                Some n \<Rightarrow> if 80 \<le> n \<and> n \<le> 99 then route_of KindPaging code
                           else route_of KindPaging code
              | None \<Rightarrow> route_of KindPaging code))"

text \<open>The branch for a plain number that is no trunk call.\<close>
definition route_plain :: "string \<Rightarrow> route" where
  "route_plain dial =
     (case atoi dial of
        Some n \<Rightarrow>
          if 100 \<le> n \<and> n \<le> 499 then route_of KindExtension dial
          else if 500 \<le> n \<and> n \<le> 599 then route_of KindHunt dial
          else if 600 \<le> n \<and> n \<le> 699 then route_of KindConference dial
          else route_of KindUnknown dial
      | None \<Rightarrow> route_of KindUnknown dial)"

definition RouteDial :: "string \<Rightarrow> feature_codes \<Rightarrow> route" where
  "RouteDial dial0 fc =
     (let dial = trim_space dial0 in
      if dial = [] then route_of KindUnknown []
      else if has_prefix dial ''*'' then route_star dial fc
      else
        let p2 = take 2 dial in
        if 2 \<le> length dial \<and> str_le ''90'' p2 \<and> str_le p2 ''99'' \<and> 2 < length dial
        then \<lparr>rKind = KindTrunk, rTarget = dial, rPrefix = p2, rRest = drop 2 dial\<rparr>
        else route_plain dial)"

section \<open>Lemmas\<close>

lemma route_of_simps [simp]:
  "rKind (route_of k t) = k" "rTarget (route_of k t) = t"
  "rPrefix (route_of k t) = []" "rRest (route_of k t) = []"
  by (simp_all add: route_of_def)

lemma RouteDial_trim [simp]: "RouteDial (trim_space d) fc = RouteDial d fc"
  by (simp add: RouteDial_def Let_def)

lemma route_star_kinds:
  "rKind (route_star d fc) \<notin> {KindUnknown, KindExtension, KindHunt, KindConference, KindTrunk}"
  by (auto simp: route_star_def Let_def split: option.splits)

lemma route_plain_kinds:
  "rKind (route_plain d) \<in> {KindUnknown, KindExtension, KindHunt, KindConference}"
  by (auto simp: route_plain_def split: option.splits)

lemma byte_eq_9: "byte c = 57 \<longleftrightarrow> c = CHR ''9''"
  using byte_inject [of c "CHR ''9''"] by (simp add: byte_def del: byte_inject)

text \<open>A number that falls between the trunk prefixes 90 and 99, as bytes.\<close>
lemma trunk_prefix_iff:
  "str_le ''90'' [a, b] \<and> str_le [a, b] ''99'' \<longleftrightarrow> a = CHR ''9'' \<and> is_digit b"
  by (auto simp: is_digit_def byte_eq_9 [symmetric] simp del: byte_inject)

lemma trunk_prefix_conv:
  assumes "2 \<le> length d"
  shows "str_le ''90'' (take 2 d) \<and> str_le (take 2 d) ''99''
           \<longleftrightarrow> d ! 0 = CHR ''9'' \<and> is_digit (d ! 1)"
proof -
  obtain a b r where "d = a # b # r"
    using assms by (auto simp: Suc_le_length_iff numeral_2_eq_2)
  then show ?thesis using trunk_prefix_iff [of a b] by (simp add: numeral_2_eq_2)
qed

lemma RouteDial_star:
  "trim_space d = CHR ''*'' # r \<Longrightarrow> RouteDial d fc = route_star (CHR ''*'' # r) fc"
  by (simp add: RouteDial_def)

lemma no_star_prefix: "s \<noteq> [] \<Longrightarrow> hd s \<noteq> CHR ''*'' \<Longrightarrow> \<not> has_prefix s ''*''"
  by (cases s) auto

lemma itoa_trim [simp]: "trim_space (itoa n) = itoa n"
  by (rule trim_space_id) (auto dest: itoa_not_space)

text \<open>The two digits a decimal from 0 to 999 that is at least 100 starts with.\<close>
lemma nat_digits_3:
  assumes "100 \<le> n" "n < 1000"
  shows "nat_digits n = [digit_char (n div 100), digit_char (n div 10 mod 10), digit_char (n mod 10)]"
proof -
  have "n div 10 div 10 = n div 100" by (simp add: div_mult2_eq [symmetric])
  moreover have "n div 100 < 10" "\<not> n div 10 < 10" "\<not> n < 10" using assms by auto
  ultimately show ?thesis by (simp add: nat_digits.simps)
qed

lemma digit_char_eq_9: "d < 10 \<Longrightarrow> digit_char d = CHR ''9'' \<longleftrightarrow> d = 9"
  by (simp add: byte_eq_9 [symmetric] digit_char_def)

lemma itoa_3:
  assumes "100 \<le> n" "n < 1000"
  shows "itoa n = [digit_char (nat n div 100), digit_char (nat n div 10 mod 10), digit_char (nat n mod 10)]"
  using assms nat_digits_3 [of "nat n"] by (simp add: itoa_def)

lemma itoa_3_first:
  assumes "100 \<le> n" "n < 1000"
  shows "length (itoa n) = 3" "itoa n ! 0 = CHR ''9'' \<longleftrightarrow> 900 \<le> n" "is_digit (itoa n ! 1)"
    "\<not> has_prefix (itoa n) ''*''"
proof -
  have "nat n div 100 < 10" using assms by simp
  moreover have "nat n div 100 = 9 \<longleftrightarrow> 900 \<le> n" using assms by linarith
  ultimately show "itoa n ! 0 = CHR ''9'' \<longleftrightarrow> 900 \<le> n"
    using assms by (simp add: itoa_3 digit_char_eq_9)
  show "\<not> has_prefix (itoa n) ''*''"
    by (rule no_star_prefix) (auto simp: itoa_hd_not_star)
qed (use assms in \<open>auto simp: itoa_3\<close>)

lemma route_plain_itoa:
  assumes "0 \<le> n" "n < 1000"
  shows "route_plain (itoa n) =
    (if 100 \<le> n \<and> n \<le> 499 then route_of KindExtension (itoa n)
     else if 500 \<le> n \<and> n \<le> 599 then route_of KindHunt (itoa n)
     else if 600 \<le> n \<and> n \<le> 699 then route_of KindConference (itoa n)
     else route_of KindUnknown (itoa n))"
  using assms atoi_itoa [of n] by (simp add: route_plain_def int64_range_def)

lemma RouteDial_trunk:
  "trim_space d = t \<Longrightarrow> 2 < length t \<Longrightarrow> t ! 0 = CHR ''9'' \<Longrightarrow> is_digit (t ! 1) \<Longrightarrow>
   RouteDial d fc = \<lparr>rKind = KindTrunk, rTarget = t, rPrefix = take 2 t, rRest = drop 2 t\<rparr>"
  using trunk_prefix_conv [of t] by (cases t) (auto simp: RouteDial_def Let_def)

text \<open>The star codes of a plan, each with the feature it stands for.\<close>
definition feature_table :: "feature_codes \<Rightarrow> (string \<times> kind) list" where
  "feature_table fc =
     [(fcRedial fc, KindRedial), (fcCallReturn fc, KindCallReturn), (fcTransfer fc, KindTransfer),
      (fcPark fc, KindPark), (fcParkRetrieve fc, KindParkRetrieve),
      (fcDNDActivate fc, KindDNDActivate), (fcDNDDeactivate fc, KindDNDDeactivate)]"

lemma route_star_feature:
  assumes "distinct (keys (feature_table fc))" "(code, k) \<in> set (feature_table fc)"
  shows "route_star code fc = route_of k []"
  using assms unfolding feature_table_def route_star_def by auto

lemma RouteDial_trunk_conv:
  "(rKind (RouteDial d fc) = KindTrunk
      \<longleftrightarrow> 2 < length (trim_space d) \<and> trim_space d ! 0 = CHR ''9'' \<and> is_digit (trim_space d ! 1))
   \<and> (rKind (RouteDial d fc) = KindTrunk \<longrightarrow>
        length (rPrefix (RouteDial d fc)) = 2 \<and> rRest (RouteDial d fc) \<noteq> []
        \<and> rPrefix (RouteDial d fc) @ rRest (RouteDial d fc) = trim_space d)"
proof -
  let ?t = "trim_space d"
  consider (trunk) "2 < length ?t" "?t ! 0 = CHR ''9''" "is_digit (?t ! 1)"
    | (other) "\<not> (2 < length ?t \<and> ?t ! 0 = CHR ''9'' \<and> is_digit (?t ! 1))" by blast
  then show ?thesis
  proof cases
    case trunk
    then show ?thesis using RouteDial_trunk [OF refl] by simp
  next
    case other
    then have "RouteDial d fc \<in> {route_of KindUnknown [], route_star ?t fc, route_plain ?t}"
      using trunk_prefix_conv [of ?t] by (auto simp: RouteDial_def Let_def)
    then have "rKind (RouteDial d fc) \<noteq> KindTrunk"
      using route_star_kinds [of ?t fc] route_plain_kinds [of ?t] by auto
    with other show ?thesis by blast
  qed
qed

text \<open>The numbering plan. A three-digit number dialled as digits reaches an
  extension from 100 to 499, a hunt group from 500 to 599, a conference from
  600 to 699 and nothing from 700 to 899; from 900 on it is a trunk call whose
  prefix is the first two digits and whose rest is the last one (so 911 leaves
  through trunk 91).  No star code and no configuration changes this.\<close>
theorem RouteDial_numbering_plan:
  assumes "100 \<le> n" "n < 1000"
  shows "RouteDial (itoa n) fc =
    (if n \<le> 499 then route_of KindExtension (itoa n)
     else if n \<le> 599 then route_of KindHunt (itoa n)
     else if n \<le> 699 then route_of KindConference (itoa n)
     else if n \<le> 899 then route_of KindUnknown (itoa n)
     else \<lparr>rKind = KindTrunk, rTarget = itoa n, rPrefix = itoa (n div 10), rRest = itoa (n mod 10)\<rparr>)"
proof (cases "900 \<le> n")
  case True
  have "nat_digits (nat n div 10) = [digit_char (nat n div 100), digit_char (nat n div 10 mod 10)]"
    proof -
    have "nat n div 100 < 10" "\<not> nat n div 10 < 10" using True assms by linarith+
    then show ?thesis by (simp add: nat_digits.simps div_mult2_eq [symmetric])
  qed
  moreover have "itoa (n div 10) = nat_digits (nat n div 10)" "itoa (n mod 10) = [digit_char (nat n mod 10)]"
    using True by (simp_all add: itoa_def nat_digits.simps [of "nat n mod 10"] nat_div_distrib nat_mod_distrib)
  ultimately have eq: "itoa (n div 10) = take 2 (itoa n)" "itoa (n mod 10) = drop 2 (itoa n)"
    using True assms by (simp_all add: itoa_3)
  show ?thesis unfolding eq using True assms itoa_3_first [OF assms]
    by (subst RouteDial_trunk [OF itoa_trim]) simp_all
next
  case False
  with assms have "RouteDial (itoa n) fc = route_plain (itoa n)"
    using trunk_prefix_conv [of "itoa n"] by (auto simp: RouteDial_def Let_def itoa_3_first)
  with False assms show ?thesis by (simp add: route_plain_itoa)
qed

lemma RouteDial_numbering_plan_witness:
  "RouteDial (itoa 205) DefaultFeatureCodes = route_of KindExtension (itoa 205)"
  using RouteDial_numbering_plan [of 205 DefaultFeatureCodes] by simp

text \<open>What reaches a trunk. A dialled number is a trunk call exactly when,
  blanks around it apart, it has at least three bytes and starts with 9 and a
  second digit; the route then splits it into its two-digit prefix and a
  non-empty rest that together are the number dialled.\<close>
theorem RouteDial_trunk_iff:
  "(rKind (RouteDial d fc) = KindTrunk
      \<longleftrightarrow> 2 < length (trim_space d) \<and> trim_space d ! 0 = CHR ''9'' \<and> is_digit (trim_space d ! 1))
   \<and> (rKind (RouteDial d fc) = KindTrunk \<longrightarrow>
        length (rPrefix (RouteDial d fc)) = 2 \<and> rRest (RouteDial d fc) \<noteq> []
        \<and> rPrefix (RouteDial d fc) @ rRest (RouteDial d fc) = trim_space d)"
  by (rule RouteDial_trunk_conv)

lemma RouteDial_trunk_iff_witness:
  "rPrefix (RouteDial '' 9105551 '' DefaultFeatureCodes) @ rRest (RouteDial '' 9105551 '' DefaultFeatureCodes)
     = ''9105551''"
proof -
  have "rKind (RouteDial '' 9105551 '' DefaultFeatureCodes) = KindTrunk"
    "trim_space '' 9105551 '' = ''9105551''" by code_simp+
  then show ?thesis
    using RouteDial_trunk_iff [of "'' 9105551 ''" DefaultFeatureCodes] by simp
qed

end
