(* ===== verification/Codecs.thy ===== *)
theory Codecs
  imports Prelude "HOL-Library.Multiset"
begin

text \<open>
  The voice codecs of internal/media/codecs.go: the table of codecs a call may
  negotiate, the spellings an administrator may use for them, VoiceCodecs,
  which turns the configured list into the SDP offer, and the sorted list of
  known identifiers.  The codec record is the one of the diago media package.
\<close>

record codec =
  cName :: string
  cPT :: "8 word"
  cRate :: "32 word"
  cDurMs :: int
  cChans :: int

definition mk_codec :: "string \<Rightarrow> 8 word \<Rightarrow> int \<Rightarrow> codec" where
  "mk_codec n pt dur = \<lparr>cName = n, cPT = pt, cRate = 8000, cDurMs = dur, cChans = 1\<rparr>"

definition CodecAudioUlaw :: codec where "CodecAudioUlaw = mk_codec ''PCMU'' 0 20"
definition CodecAudioAlaw :: codec where "CodecAudioAlaw = mk_codec ''PCMA'' 8 20"
definition CodecTelephoneEvent8000 :: codec where
  "CodecTelephoneEvent8000 = mk_codec ''telephone-event'' 101 20"

text \<open>Codec.SampleTimestamp: the RTP clock ticks of one frame.\<close>
definition SampleTimestamp :: "codec \<Rightarrow> 32 word" where
  "SampleTimestamp c = word_of_int (uint (cRate c) * cDurMs c div 1000)"

definition DefaultVoiceCodecIDs :: "string list" where
  "DefaultVoiceCodecIDs =
     [''PCMU'', ''PCMA'', ''G722'', ''G729'', ''G723-63'', ''G723-53'', ''G726-32'', ''G726-16'',
      ''G726-24'', ''G726-40'', ''telephone-event'']"

definition voiceCodecTable :: "(string, codec) gomap" where
  "voiceCodecTable =
     [(''PCMU'', CodecAudioUlaw), (''PCMA'', CodecAudioAlaw),
      (''G722'', mk_codec ''G722'' 9 20), (''G723'', mk_codec ''G723'' 4 30),
      (''G723-63'', mk_codec ''G723'' 4 30), (''G723-53'', mk_codec ''G723'' 104 30),
      (''G729'', mk_codec ''G729'' 18 10), (''G726-32'', mk_codec ''G726-32'' 2 20),
      (''G726-16'', mk_codec ''G726-16'' 111 20), (''G726-24'', mk_codec ''G726-24'' 112 20),
      (''G726-40'', mk_codec ''G726-40'' 113 20), (''telephone-event'', CodecTelephoneEvent8000)]"

definition codec_aliases :: "(string \<times> string) list" where
  "codec_aliases =
     [(''G711U'', ''PCMU''), (''G711ULAW'', ''PCMU''), (''ULAW'', ''PCMU''), (''G.711U'', ''PCMU''),
      (''G.711MU'', ''PCMU''),
      (''G711A'', ''PCMA''), (''G711ALAW'', ''PCMA''), (''ALAW'', ''PCMA''), (''G.711A'', ''PCMA''),
      (''G.722'', ''G722''),
      (''G.729'', ''G729''), (''G729A'', ''G729''), (''G.729A'', ''G729''),
      (''G.723'', ''G723-63''), (''G723.1'', ''G723-63''),
      (''G723(5.3KBPS)'', ''G723-53''), (''G723-5.3'', ''G723-53''), (''G723-53K'', ''G723-53''),
      (''G723-53KBPS'', ''G723-53''),
      (''G723(6.3KBPS)'', ''G723-63''), (''G723-6.3'', ''G723-63''), (''G723-63K'', ''G723-63''),
      (''G723-63KBPS'', ''G723-63''),
      (''G726(16KBPS)'', ''G726-16''), (''G726-16K'', ''G726-16''),
      (''G726(24KBPS)'', ''G726-24''), (''G726-24K'', ''G726-24''),
      (''G726(32KBPS)'', ''G726-32''), (''G726-32K'', ''G726-32''),
      (''G726(40KBPS)'', ''G726-40''), (''G726-40K'', ''G726-40''),
      (''DTMF'', ''telephone-event''), (''TELEPHONE-EVENT'', ''telephone-event'')]"

definition normalizeCodecID :: "string \<Rightarrow> string" where
  "normalizeCodecID raw = (let id = trim_space (to_upper raw) in goget id codec_aliases id)"

datatype codec_error = UnknownCodec string | NoValidCodecs

text \<open>The loop of VoiceCodecs: the payload types seen, the codecs chosen and
  whether telephone-event was configured.\<close>
fun voice_loop :: "8 word list \<Rightarrow> codec list \<Rightarrow> bool \<Rightarrow> string list
    \<Rightarrow> (codec_error, 8 word list \<times> codec list \<times> bool) result" where
  "voice_loop seen out hasDTMF [] = Ok (seen, out, hasDTMF)"
| "voice_loop seen out hasDTMF (raw # ids) =
     (let id = normalizeCodecID raw in
      if id = [] then voice_loop seen out hasDTMF ids
      else (case get voiceCodecTable id of
              None \<Rightarrow> Err (UnknownCodec raw)
            | Some c \<Rightarrow>
                let dtmf = (if id = ''telephone-event'' then True else hasDTMF) in
                if cPT c \<in> set seen then voice_loop seen out dtmf ids
                else voice_loop (cPT c # seen) (out @ [c]) dtmf ids))"

definition VoiceCodecs :: "string list \<Rightarrow> (codec_error, codec list) result" where
  "VoiceCodecs ids0 =
     (let ids = (if ids0 = [] then DefaultVoiceCodecIDs else ids0) in
      case voice_loop [] [] False ids of
        Inl e \<Rightarrow> Err e
      | Inr (seen, out, hasDTMF) \<Rightarrow>
          if out = [] then Err NoValidCodecs
          else if \<not> hasDTMF \<and> cPT CodecTelephoneEvent8000 \<notin> set seen
          then Ok (out @ [CodecTelephoneEvent8000])
          else Ok out)"

text \<open>sortStrings swaps in place: the pass for one position i compares its
  element with each later one and keeps the smaller, so the pass over the
  suffix x # ys yields the minimum and the rest as the swaps left it.\<close>
fun sort_pass :: "string \<Rightarrow> string list \<Rightarrow> string \<times> string list" where
  "sort_pass x [] = (x, [])"
| "sort_pass x (y # ys) =
     (if str_less y x then (let (m, r) = sort_pass y ys in (m, x # r))
      else (let (m, r) = sort_pass x ys in (m, y # r)))"

lemma length_sort_pass [simp]: "length (snd (sort_pass x ys)) = length ys"
  by (induction x ys rule: sort_pass.induct) (auto split: prod.splits)

function sortStrings :: "string list \<Rightarrow> string list" where
  "sortStrings [] = []"
| "sortStrings (x # xs) = fst (sort_pass x xs) # sortStrings (snd (sort_pass x xs))"
  by pat_completeness auto
termination by (relation "measure length") auto

definition SupportedVoiceCodecIDs :: "(string, codec) gomap \<Rightarrow> string list" where
  "SupportedVoiceCodecIDs table = sortStrings (filter (\<lambda>id. id \<noteq> ''G723'') (keys table))"

definition TranscodeSupportedCodecIDs :: "string list" where
  "TranscodeSupportedCodecIDs =
     [''PCMU'', ''PCMA'', ''G722'', ''G729'', ''G726-32'', ''G726-16'', ''G726-24'', ''G726-40'']"

definition TranscodeSupported :: "string \<Rightarrow> bool" where
  "TranscodeSupported c_id = (normalizeCodecID c_id \<in> set TranscodeSupportedCodecIDs)"

section \<open>Lemmas\<close>

lemma mk_codec_simps [simp]:
  "cName (mk_codec n pt d) = n" "cPT (mk_codec n pt d) = pt" "cDurMs (mk_codec n pt d) = d"
  "cRate (mk_codec n pt d) = 8000" "cChans (mk_codec n pt d) = 1"
  by (simp_all add: mk_codec_def)

lemmas table_defs = voiceCodecTable_def CodecAudioUlaw_def CodecAudioAlaw_def CodecTelephoneEvent8000_def

text \<open>Only telephone-event has payload type 101 in the table.\<close>
lemma table_pt_101:
  "get voiceCodecTable k = Some c \<Longrightarrow> cPT c = 101 \<longleftrightarrow> k = ''telephone-event''"
  by (auto simp: table_defs split: if_splits)

text \<open>What the loop keeps: the payload types seen are those of the codecs
  chosen, which are table entries with different payload types, and
  telephone-event has been seen exactly when its flag is set.\<close>
definition voice_inv :: "8 word list \<Rightarrow> codec list \<Rightarrow> bool \<Rightarrow> bool" where
  "voice_inv seen out dtmf =
     (set seen = cPT ` set out \<and> distinct (List.map cPT out) \<and> set out \<subseteq> snd ` set voiceCodecTable
      \<and> (dtmf \<longleftrightarrow> 101 \<in> set seen))"

lemma voice_loop_inv:
  "voice_loop seen out dtmf ids = Ok (seen', out', dtmf') \<Longrightarrow> voice_inv seen out dtmf
     \<Longrightarrow> voice_inv seen' out' dtmf'"
proof (induction seen out dtmf ids rule: voice_loop.induct)
  case (2 seen out dtmf raw ids)
  let ?id = "normalizeCodecID raw"
  show ?case
  proof (cases "?id = []")
    case True
    with 2 show ?thesis by simp
  next
    case False
    with 2(4) obtain c where c: "get voiceCodecTable ?id = Some c"
      by (auto simp: Let_def split: option.splits)
    then have t: "c \<in> snd ` set voiceCodecTable" by (force dest: get_in_set)
    show ?thesis
    proof (cases "cPT c \<in> set seen")
      case True
      have "voice_inv seen out (if ?id = ''telephone-event'' then True else dtmf)"
        using 2(5) True table_pt_101 [OF c] by (auto simp: voice_inv_def)
      then show ?thesis using 2(2) [OF refl False c refl True] 2(4) c False True
        by (simp add: Let_def)
    next
      case False': False
      have "voice_inv (cPT c # seen) (out @ [c]) (if ?id = ''telephone-event'' then True else dtmf)"
        using 2(5) False' table_pt_101 [OF c] t by (auto simp: voice_inv_def)
      then show ?thesis using 2(3) [OF refl False c refl False'] 2(4) c False False'
        by (simp add: Let_def)
    qed
  qed
qed auto

lemma voice_inv_start [simp]: "voice_inv [] [] False"
  by (simp add: voice_inv_def)

definition unknown_codec :: "string \<Rightarrow> bool" where
  "unknown_codec raw = (normalizeCodecID raw \<noteq> [] \<and> get voiceCodecTable (normalizeCodecID raw) = None)"

lemma voice_loop_errors:
  "voice_loop seen out dtmf ids =
     Inl e \<longleftrightarrow> (\<exists>raw. List.find unknown_codec ids = Some raw \<and> e = UnknownCodec raw)"
  by (induction seen out dtmf ids rule: voice_loop.induct)
    (auto simp: Let_def unknown_codec_def split: option.splits)

lemma voice_loop_grows:
  "voice_loop seen out dtmf ids = Ok (seen', out', dtmf') \<Longrightarrow>
     (out' = [] \<longleftrightarrow> out = [] \<and> (\<forall>r \<in> set ids. normalizeCodecID r = [] \<or>
        (\<exists>c. get voiceCodecTable (normalizeCodecID r) = Some c \<and> cPT c \<in> set seen)))"
proof (induction seen out dtmf ids rule: voice_loop.induct)
  case (2 seen out dtmf raw ids)
  show ?case
  proof (cases "normalizeCodecID raw = []")
    case True
    with 2 show ?thesis by simp
  next
    case False
    with 2(4) obtain c where c: "get voiceCodecTable (normalizeCodecID raw) = Some c"
      by (auto simp: Let_def split: option.splits)
    show ?thesis
      using 2(2) [OF refl False c refl] 2(3) [OF refl False c refl] 2(4) c False
      by (cases "cPT c \<in> set seen") (simp_all add: Let_def)
  qed
qed auto

lemma sort_pass_mset: "sort_pass x ys = (m, r) \<Longrightarrow> mset (m # r) = mset (x # ys)"
  by (induction x ys arbitrary: m r rule: sort_pass.induct) (auto split: if_splits prod.splits)

lemma sort_pass_min: "sort_pass x ys = (m, r) \<Longrightarrow> str_le m x \<and> (\<forall>y \<in> set r. str_le m y)"
proof (induction x ys arbitrary: m r rule: sort_pass.induct)
  case (2 x y ys)
  show ?case
  proof (cases "str_less y x")
    case True
    with 2 obtain r' where r': "sort_pass y ys = (m, r')" "r = x # r'" by (auto split: prod.splits)
    from 2(1) [OF True r'(1)] have "str_le m y" "\<forall>z \<in> set r'. str_le m z" by auto
    moreover have "str_le m x" using True \<open>str_le m y\<close> by (meson str_order.order.trans str_less_def)
    ultimately show ?thesis using r'(2) by auto
  next
    case False
    with 2 obtain r' where r': "sort_pass x ys = (m, r')" "r = y # r'" by (auto split: prod.splits)
    from 2(2) [OF False r'(1)] have "str_le m x" "\<forall>z \<in> set r'. str_le m z" by auto
    moreover have "str_le m y" using False \<open>str_le m x\<close> by (meson str_order.not_less str_order.order.trans)
    ultimately show ?thesis using r'(2) by auto
  qed
qed auto

lemma sortStrings_mset: "mset (sortStrings xs) = mset xs"
proof (induction xs rule: sortStrings.induct)
  case (2 x xs)
  then show ?case using sort_pass_mset [of x xs] by (cases "sort_pass x xs") auto
qed simp

lemma sortStrings_sorted: "str_order.sorted (sortStrings xs)"
proof (induction xs rule: sortStrings.induct)
  case (2 x xs)
  have "set (sortStrings (snd (sort_pass x xs))) = set (snd (sort_pass x xs))"
    using sortStrings_mset by (metis set_mset_mset)
  with 2 show ?case using sort_pass_min [of x xs] by (cases "sort_pass x xs") auto
qed simp


text \<open>The codecs offered in SDP. When VoiceCodecs succeeds, the offer is not
  empty, no payload type occurs twice, every codec is one of the table, and
  telephone-event (payload type 101) is among them, configured or not, so
  that feature codes and conference PINs can be dialled.\<close>
theorem VoiceCodecs_offer:
  assumes "VoiceCodecs ids = Ok cs"
  shows "cs \<noteq> [] \<and> distinct (List.map cPT cs) \<and> set cs \<subseteq> snd ` set voiceCodecTable
    \<and> (\<exists>c \<in> set cs. cPT c = 101 \<and> cName c = ''telephone-event'')"
proof -
  obtain seen out dtmf where l: "voice_loop [] [] False (if ids = [] then DefaultVoiceCodecIDs else ids)
      = Ok (seen, out, dtmf)"
    using assms by (auto simp: VoiceCodecs_def Let_def split: sum.splits)
  have inv: "voice_inv seen out dtmf" using voice_loop_inv [OF l voice_inv_start] .
  have cs: "out \<noteq> []" "cs = (if dtmf then out else out @ [CodecTelephoneEvent8000])"
    using assms l inv by (auto simp: VoiceCodecs_def Let_def voice_inv_def CodecTelephoneEvent8000_def
        split: sum.splits if_splits)
  have te: "CodecTelephoneEvent8000 \<in> snd ` set voiceCodecTable" by (simp add: table_defs)
  have name: "cName c = ''telephone-event''" if "c \<in> snd ` set voiceCodecTable" "cPT c = 101" for c
    using that by (auto simp: table_defs)
  show ?thesis
  proof (cases dtmf)
    case True
    with inv obtain c where c: "c \<in> set out" "cPT c = 101" unfolding voice_inv_def by (metis imageE)
    moreover have "c \<in> snd ` set voiceCodecTable" using inv c(1) unfolding voice_inv_def by blast
    ultimately have "\<exists>c \<in> set out. cPT c = 101 \<and> cName c = ''telephone-event''" using name by blast
    with inv cs True show ?thesis by (simp add: voice_inv_def)
  next
    case False
    then show ?thesis using inv cs te by (auto simp: voice_inv_def CodecTelephoneEvent8000_def)
  qed
qed

lemma VoiceCodecs_offer_witness:
  "\<exists>cs. VoiceCodecs ['' ulaw'', ''G711U'', ''g.722''] = Ok cs \<and> distinct (List.map cPT cs)"
proof -
  have "VoiceCodecs ['' ulaw'', ''G711U'', ''g.722''] =
    Ok [CodecAudioUlaw, mk_codec ''G722'' 9 20, CodecTelephoneEvent8000]" by code_simp
  then show ?thesis using VoiceCodecs_offer by blast
qed

text \<open>When a codec list is refused. VoiceCodecs fails with the first
  configured identifier it does not know (a comment of the code says such
  identifiers are skipped), and with a missing-codec error only when all the
  configured ones are blank; a list of known or blank identifiers with one
  known among them is accepted.\<close>
theorem VoiceCodecs_refused:
  "case List.find unknown_codec ids of
     Some raw \<Rightarrow> VoiceCodecs ids = Err (UnknownCodec raw)
   | None \<Rightarrow> if ids \<noteq> [] \<and> (\<forall>r \<in> set ids. normalizeCodecID r = [])
             then VoiceCodecs ids = Err NoValidCodecs
             else (\<exists>cs. VoiceCodecs ids = Ok cs)"
proof -
  let ?ids = "if ids = [] then DefaultVoiceCodecIDs else ids"
  have def: "List.find unknown_codec DefaultVoiceCodecIDs = None"
    "\<not> (\<forall>r \<in> set DefaultVoiceCodecIDs. normalizeCodecID r = [])" by code_simp+
  show ?thesis
  proof (cases "voice_loop [] [] False ?ids")
    case (Inl e)
    then obtain raw where "List.find unknown_codec ?ids = Some raw" "e = UnknownCodec raw"
      using voice_loop_errors by blast
    with Inl def show ?thesis by (auto simp: VoiceCodecs_def Let_def split: if_splits)
  next
    case (Inr r)
    obtain seen out dtmf where l: "voice_loop [] [] False ?ids = Ok (seen, out, dtmf)"
      using Inr by (cases r) auto
    have "List.find unknown_codec ?ids = None"
      using l voice_loop_errors [of "[]" "[]" False ?ids] by (cases "List.find unknown_codec ?ids") auto
    moreover have "out = [] \<longleftrightarrow> (\<forall>r \<in> set ?ids. normalizeCodecID r = [])"
      using voice_loop_grows [OF l] by auto
    ultimately show ?thesis using l def
      by (auto simp: VoiceCodecs_def Let_def split: if_splits)
  qed
qed

lemma VoiceCodecs_refused_witness:
  "VoiceCodecs [''PCMU'', ''speex''] = Err (UnknownCodec ''speex'')"
proof -
  have "List.find unknown_codec [''PCMU'', ''speex''] = Some ''speex''" by code_simp
  then show ?thesis using VoiceCodecs_refused [of "[''PCMU'', ''speex'']"] by simp
qed

text \<open>The list of known codecs shown to the user. For any order in which Go
  ranges over the codec table, the hand-written exchange sort returns the
  identifiers without the alias G723, sorted bytewise, each exactly as often
  as in the table.\<close>
theorem SupportedVoiceCodecIDs_sorted:
  "sorted_wrt str_le (SupportedVoiceCodecIDs table)
   \<and> mset (SupportedVoiceCodecIDs table) = filter_mset (\<lambda>k. k \<noteq> ''G723'') (mset (keys table))"
  using sortStrings_sorted sortStrings_mset
  by (simp add: SupportedVoiceCodecIDs_def mset_filter)

end
