(* ===== verification/Pcm.thy ===== *)
theory Pcm
  imports Codecs
begin

text \<open>
  PCM samples and the codec handlers of internal/media/pcmcodec, and the WAV
  helpers of internal/call/wav_normalize.go.  A sample is a 16-bit word read
  signed, a buffer a list of bytes.  The codec libraries (G.711 tables, G.722,
  G.726, G.729) are not part of the repository: they are the fields of
  codec_libs, with a state of any type.  The float64 arithmetic of
  resampleLinear is taken exactly, as the rational it approximates.
\<close>

unbundle bit_operations_syntax

type_synonym bytes = "8 word list"
type_synonym sample = "16 word"

section \<open>Samples and bytes\<close>

definition sample_le :: "8 word \<Rightarrow> 8 word \<Rightarrow> sample" where
  "sample_le lo hi = ucast lo OR push_bit 8 (ucast hi)"

definition sample_lo :: "sample \<Rightarrow> 8 word" where "sample_lo s = ucast s"
definition sample_hi :: "sample \<Rightarrow> 8 word" where "sample_hi s = ucast (drop_bit 8 s)"

text \<open>bytesLEToSamples: an odd last byte is dropped\<close>
fun bytesLEToSamples :: "bytes \<Rightarrow> sample list" where
  "bytesLEToSamples (a # b # p) = sample_le a b # bytesLEToSamples p"
| "bytesLEToSamples _ = []"

fun samplesToBytesLE :: "sample list \<Rightarrow> bytes" where
  "samplesToBytesLE [] = []"
| "samplesToBytesLE (s # ss) = sample_lo s # sample_hi s # samplesToBytesLE ss"

definition pcmBytesToInt16 :: "bytes \<Rightarrow> (nat, sample list) result" where
  "pcmBytesToInt16 raw =
     (if length raw mod 2 \<noteq> 0 then Err (length raw) else Ok (bytesLEToSamples raw))"

text \<open>Go's conversion of a quotient to an integer and its integer division both
  round toward zero.\<close>
definition quot0 :: "int \<Rightarrow> int \<Rightarrow> int" where
  "quot0 a b = sgn a * sgn b * (\<bar>a\<bar> div \<bar>b\<bar>)"

definition mix2 :: "sample \<Rightarrow> sample \<Rightarrow> sample" where
  "mix2 l r = word_of_int (quot0 (sint l + sint r) 2)"

fun stereo_pairs :: "sample list \<Rightarrow> sample list" where
  "stereo_pairs (l # r # ss) = mix2 l r # stereo_pairs ss"
| "stereo_pairs _ = []"

datatype wav_error = OddStereo nat | BadChannels int | BadBits int | OddPcm nat

definition downmixToMono :: "sample list \<Rightarrow> int \<Rightarrow> (wav_error, sample list) result" where
  "downmixToMono ss channels =
     (if channels = 1 then Ok ss
      else if channels = 2 then
        (if length ss mod 2 \<noteq> 0 then Err (OddStereo (length ss)) else Ok (stereo_pairs ss))
      else Err (BadChannels channels))"

text \<open>One sample of the interpolation: position i of the output lies at
  i * inRate / outRate of the input.\<close>
definition interp :: "sample \<Rightarrow> sample \<Rightarrow> int \<Rightarrow> int \<Rightarrow> sample" where
  "interp a b r d = word_of_int (quot0 (sint a * (d - r) + sint b * r) d)"

definition resample_at :: "sample list \<Rightarrow> int \<Rightarrow> int \<Rightarrow> nat \<Rightarrow> sample" where
  "resample_at xs inRate outRate i =
     (let j = nat (int i * inRate div outRate); last = length xs - 1 in
      if last \<le> j then xs ! last
      else interp (xs ! j) (xs ! (j + 1)) (int i * inRate mod outRate) outRate)"

definition resampleLinear :: "sample list \<Rightarrow> int \<Rightarrow> int \<Rightarrow> sample list" where
  "resampleLinear xs inRate outRate =
     (if xs = [] \<or> inRate \<le> 0 \<or> outRate \<le> 0 then []
      else if inRate = outRate then xs
      else List.map (resample_at xs inRate outRate) [0..<nat (int (length xs) * outRate div inRate)])"

text \<open>loadWavPCMForCodec after the headers are read: the data of the file at the
  codec's rate, mono.\<close>
definition normalize_wav :: "int \<Rightarrow> int \<Rightarrow> int \<Rightarrow> bytes \<Rightarrow> codec \<Rightarrow> (wav_error, bytes) result" where
  "normalize_wav bits channels inRate raw c =
     (if bits \<noteq> 16 then Err (BadBits bits)
      else case pcmBytesToInt16 raw of
        Inl n \<Rightarrow> Err (OddPcm n)
      | Inr ss \<Rightarrow>
          (case downmixToMono ss channels of
             Inl e \<Rightarrow> Err e
           | Inr chan \<Rightarrow>
               Ok (samplesToBytesLE
                 (if inRate \<noteq> uint (cRate c) then resampleLinear chan inRate (uint (cRate c)) else chan))))"

record wav_info =
  wiRate :: int
  wiChans :: int
  wiBits :: int

definition wavMatchesCodec :: "wav_info \<Rightarrow> codec \<Rightarrow> bool" where
  "wavMatchesCodec i c = (wiBits i = 16 \<and> wiRate i = uint (cRate c) \<and> wiChans i = cChans c)"

section \<open>Lemmas on samples\<close>

lemma sample_le_lo_hi [simp]: "sample_le (sample_lo s) (sample_hi s) = s"
  by (rule bit_word_eqI) (auto simp: sample_le_def sample_lo_def sample_hi_def bit_simps)

lemma sample_lo_le [simp]: "sample_lo (sample_le a b) = a"
  by (rule bit_word_eqI) (auto simp: sample_le_def sample_lo_def bit_simps)

lemma sample_hi_le [simp]: "sample_hi (sample_le a b) = b"
  by (rule bit_word_eqI) (auto simp: sample_le_def sample_hi_def bit_simps dest: bit_imp_le_length)

lemma bytes_samples_bytes [simp]: "bytesLEToSamples (samplesToBytesLE ss) = ss"
  by (induction ss) auto

lemma samples_bytes_samples:
  "even (length p) \<Longrightarrow> samplesToBytesLE (bytesLEToSamples p) = p"
  by (induction p rule: bytesLEToSamples.induct) auto

lemma length_bytesLEToSamples [simp]: "length (bytesLEToSamples p) = length p div 2"
  by (induction p rule: bytesLEToSamples.induct) auto

lemma length_samplesToBytesLE [simp]: "length (samplesToBytesLE ss) = 2 * length ss"
  by (induction ss) auto

lemma length_stereo_pairs [simp]: "length (stereo_pairs ss) = length ss div 2"
  by (induction ss rule: stereo_pairs.induct) auto

lemma sint16: "- 32768 \<le> sint (s :: sample)" "sint (s :: sample) \<le> 32767"
  using sint_ge [of s] sint_lt [of s] by simp_all

lemma sint_of_int16: "- 32768 \<le> i \<Longrightarrow> i \<le> 32767 \<Longrightarrow> sint (word_of_int i :: sample) = i"
  by (simp add: signed_of_int signed_take_bit_int_eq_self)

lemma quot0_between:
  assumes "0 < d" "lo * d \<le> x" "x \<le> hi * d"
  shows "lo \<le> quot0 x d \<and> quot0 x d \<le> hi"
proof (cases "0 \<le> x")
  case True
  have q: "quot0 x d = x div d" using True assms by (cases "x = 0") (simp_all add: quot0_def)
  have "lo \<le> x div d" using assms
    by (metis nonzero_mult_div_cancel_right order.strict_implies_not_eq zdiv_mono1)
  moreover have "x div d \<le> hi" using assms
    by (metis nonzero_mult_div_cancel_right order.strict_implies_not_eq zdiv_mono1)
  ultimately show ?thesis using q by simp
next
  case False
  have q: "quot0 x d = - ((- x) div d)" using False assms by (simp add: quot0_def)
  have "(- x) div d \<le> - lo" using assms
    by (metis minus_mult_left nonzero_mult_div_cancel_right order.strict_implies_not_eq zdiv_mono1 neg_le_iff_le)
  moreover have "- hi \<le> (- x) div d" using assms
    by (metis minus_mult_left nonzero_mult_div_cancel_right order.strict_implies_not_eq zdiv_mono1 neg_le_iff_le)
  ultimately show ?thesis using q by simp
qed

lemma sint_interp:
  assumes "0 \<le> r" "r < d"
  shows "min (sint a) (sint b) \<le> sint (interp a b r d)" "sint (interp a b r d) \<le> max (sint a) (sint b)"
proof -
  let ?x = "sint a * (d - r) + sint b * r" and ?lo = "min (sint a) (sint b)" and ?hi = "max (sint a) (sint b)"
  have "?lo * (d - r) + ?lo * r \<le> ?x" using assms by (intro add_mono mult_right_mono) auto
  moreover have "?x \<le> ?hi * (d - r) + ?hi * r" using assms by (intro add_mono mult_right_mono) auto
  ultimately have q: "?lo \<le> quot0 ?x d" "quot0 ?x d \<le> ?hi"
    using quot0_between [of d ?lo ?x ?hi] assms by (simp_all add: algebra_simps)
  have "- 32768 \<le> ?lo" "?hi \<le> 32767" using sint16 by auto
  with q have "- 32768 \<le> quot0 ?x d" "quot0 ?x d \<le> 32767" by linarith+
  then have "sint (interp a b r d) = quot0 ?x d" unfolding interp_def by (rule sint_of_int16)
  with q show "?lo \<le> sint (interp a b r d)" "sint (interp a b r d) \<le> ?hi" by simp_all
qed

lemma interp_zero [simp]: "0 < d \<Longrightarrow> interp a b 0 d = a"
  by (simp add: interp_def quot0_def abs_mult sgn_mult mult.assoc [symmetric] mult_sgn_abs)

lemma resample_at_even:
  "i < length xs div 2 \<Longrightarrow> resample_at xs 16000 8000 i = xs ! (2 * i)"
proof -
  assume i: "i < length xs div 2"
  have "int i * 16000 div 8000 = int (2 * i)" "int i * 16000 mod 8000 = 0" "nat (2 * int i) = 2 * i"
    by simp_all
  with i show ?thesis by (auto simp: resample_at_def Let_def)
qed

lemma resample_at_up:
  "i < length xs \<Longrightarrow> resample_at xs 8000 16000 (2 * i) = xs ! i"
proof -
  assume i: "i < length xs"
  have "int (2 * i) * 8000 div 16000 = int i" "int (2 * i) * 8000 mod 16000 = 0" by simp_all
  with i show ?thesis by (auto simp: resample_at_def Let_def intro!: arg_cong [of _ _ "(!) xs"])
qed

lemma resample_at_bounds:
  assumes "xs \<noteq> []" "0 < inRate" "0 < outRate"
  shows "\<exists>a \<in> set xs. \<exists>b \<in> set xs.
    sint a \<le> sint (resample_at xs inRate outRate i) \<and> sint (resample_at xs inRate outRate i) \<le> sint b"
proof -
  let ?j = "nat (int i * inRate div outRate)"
  show ?thesis
  proof (cases "length xs - 1 \<le> ?j")
    case True
    then show ?thesis using assms by (auto simp: resample_at_def Let_def)
  next
    case False
    then have m: "xs ! ?j \<in> set xs" "xs ! (?j + 1) \<in> set xs" by auto
    have r: "0 \<le> int i * inRate mod outRate" "int i * inRate mod outRate < outRate" using assms by simp_all
    show ?thesis using False m sint_interp [OF r, of "xs ! ?j" "xs ! (?j + 1)"]
      by (auto simp: resample_at_def Let_def min_def max_def split: if_splits)
  qed
qed

lemma length_resampleLinear:
  "xs \<noteq> [] \<Longrightarrow> 0 < inRate \<Longrightarrow> 0 < outRate \<Longrightarrow>
   length (resampleLinear xs inRate outRate) = nat (int (length xs) * outRate div inRate)"
  by (simp add: resampleLinear_def)

text \<open>Linear resampling. For positive rates the result has the length the
  rates call for, and every output sample lies between two samples of the
  input, so the conversion to int16 never overflows and never rings.\<close>
theorem resampleLinear_bounds:
  assumes "0 < inRate" "0 < outRate"
  shows "length (resampleLinear xs inRate outRate) = nat (int (length xs) * outRate div inRate)
    \<and> (\<forall>y \<in> set (resampleLinear xs inRate outRate).
         \<exists>a \<in> set xs. \<exists>b \<in> set xs. sint a \<le> sint y \<and> sint y \<le> sint b)"
proof (cases "xs = []")
  case False
  have "\<exists>a \<in> set xs. \<exists>b \<in> set xs. sint a \<le> sint y \<and> sint y \<le> sint b"
    if "y \<in> set (resampleLinear xs inRate outRate)" for y
    using that False assms resample_at_bounds [OF False assms]
    by (auto simp: resampleLinear_def split: if_splits)
  with length_resampleLinear [OF False assms] show ?thesis by blast
qed (simp add: resampleLinear_def)

lemma resampleLinear_bounds_witness:
  "length (resampleLinear [0, 100, 50] 8000 44100) = 16"
  using resampleLinear_bounds [of 8000 44100 "[0, 100, 50]"] by simp

text \<open>The wideband hub conversion loses nothing. Doubling 8 kHz hub samples
  to the 16 kHz of G.722 and halving them again gives the samples back.\<close>
theorem resample_up_down:
  "resampleLinear (resampleLinear xs 8000 16000) 16000 8000 = xs"
proof (cases "xs = []")
  case False
  let ?up = "resampleLinear xs 8000 16000"
  have len: "length ?up = 2 * length xs" using False by (simp add: length_resampleLinear)
  then have ne: "?up \<noteq> []" using False by auto
  have down: "resampleLinear ?up 16000 8000 = List.map (resample_at ?up 16000 8000) [0..<length xs]"
    using ne len by (simp add: resampleLinear_def [of ?up])
  have "resample_at ?up 16000 8000 i = xs ! i" if "i < length xs" for i
  proof -
    have "resample_at ?up 16000 8000 i = ?up ! (2 * i)" using that len by (intro resample_at_even) simp
    also have "\<dots> = xs ! i" using that False by (simp add: resampleLinear_def resample_at_up)
    finally show ?thesis .
  qed
  then show ?thesis unfolding down by (auto intro: nth_equalityI)
qed (simp add: resampleLinear_def)

section \<open>Codec handlers\<close>

record 's codec_libs =
  ulaw_dec :: "8 word \<Rightarrow> sample"
  ulaw_enc :: "sample \<Rightarrow> 8 word"
  alaw_dec :: "8 word \<Rightarrow> sample"
  alaw_enc :: "sample \<Rightarrow> 8 word"
  g722_dec :: "'s \<Rightarrow> bytes \<Rightarrow> sample list \<times> 's"
  g722_enc :: "'s \<Rightarrow> sample list \<Rightarrow> bytes \<times> 's"
  g729_dec :: "'s \<Rightarrow> bytes \<Rightarrow> (string, sample list) result \<times> 's"
  g729_enc :: "'s \<Rightarrow> sample list \<Rightarrow> (string, bytes) result \<times> 's"
  g726_dec :: "nat \<Rightarrow> 's \<Rightarrow> bytes \<Rightarrow> (string, sample list) result \<times> 's"
  g726_enc :: "nat \<Rightarrow> 's \<Rightarrow> sample list \<Rightarrow> (string, bytes) result \<times> 's"

datatype hkind = HPCMU | HPCMA | HG722 | HG729 | HG726 nat

record handler =
  hCodec :: codec
  hubFrame :: nat
  hKind :: hkind

datatype codec_err = NotTranscodable string "8 word" | UnknownG726 string
  | NotFrames nat nat | LibError string

definition samplesPerFrame :: "codec \<Rightarrow> nat" where
  "samplesPerFrame c =
     (let dur = (if cDurMs c \<le> 0 then 20 else cDurMs c);
          rate = (if uint (cRate c) \<le> 0 then 8000 else uint (cRate c))
      in nat (rate * dur div 1000))"

definition isG726 :: "codec \<Rightarrow> bool" where
  "isG726 c = (cName c \<in> {''G726-16'', ''G726-24'', ''G726-32'', ''G726-40'', ''G726''})"

definition g726Bits :: "codec \<Rightarrow> (codec_err, nat) result" where
  "g726Bits c =
     (if cName c = ''G726-16'' then Ok 2
      else if cName c = ''G726-24'' then Ok 3
      else if cName c = ''G726-32'' \<or> cName c = ''G726'' then Ok 4
      else if cName c = ''G726-40'' then Ok 5
      else if cPT c = 2 then Ok 4
      else Err (UnknownG726 (cName c)))"

definition mk_handler :: "codec \<Rightarrow> nat \<Rightarrow> hkind \<Rightarrow> handler" where
  "mk_handler c n k = \<lparr>hCodec = c, hubFrame = n, hKind = k\<rparr>"

text \<open>pcmcodec.New\<close>
definition New :: "codec \<Rightarrow> (codec_err, handler) result" where
  "New c =
     (if cPT c = 0 \<and> cName c = ''PCMU'' then Ok (mk_handler c (samplesPerFrame c) HPCMU)
      else if cPT c = 8 \<and> cName c = ''PCMA'' then Ok (mk_handler c (samplesPerFrame c) HPCMA)
      else if cName c = ''G722'' \<or> cPT c = 9 then
        (let f = samplesPerFrame c div 2 in Ok (mk_handler c (if f = 0 then 80 else f) HG722))
      else if cName c = ''G729'' \<or> cPT c = 18 then Ok (mk_handler c 160 HG729)
      else if isG726 c then
        (case g726Bits c of
           Inl e \<Rightarrow> Err e
         | Inr bits \<Rightarrow> Ok (mk_handler c (samplesPerFrame c) (HG726 bits)))
      else Err (NotTranscodable (cName c) (cPT c)))"

definition Supported :: "codec \<Rightarrow> bool" where
  "Supported c = (case New c of Inl _ \<Rightarrow> False | Inr _ \<Rightarrow> True)"

definition HubFrameSamples :: "handler \<Rightarrow> nat" where
  "HubFrameSamples h = (if hubFrame h = 0 then 160 else hubFrame h)"

definition CodecID :: "codec \<Rightarrow> string" where
  "CodecID c =
     (if cPT c = 0 then ''PCMU''
      else if cPT c = 8 then ''PCMA''
      else if cName c = ''G722'' \<or> cPT c = 9 then ''G722''
      else if cName c = ''G729'' \<or> cPT c = 18 then ''G729''
      else if cName c = ''G726-32'' \<or> (cPT c = 2 \<and> cName c = ''G726-32'') then ''G726-32''
      else if cName c = ''G726-16'' then ''G726-16''
      else if cName c = ''G726-24'' then ''G726-24''
      else if cName c = ''G726-40'' then ''G726-40''
      else cName c)"

text \<open>G.729 works on frames of 80 samples in 10 bytes: the whole buffer is cut
  into frames, and the first frame the library refuses ends the conversion.\<close>
fun g729_decode_frames :: "('s, 'z) codec_libs_scheme \<Rightarrow> nat \<Rightarrow> 's \<Rightarrow> bytes
    \<Rightarrow> (codec_err, sample list) result \<times> 's" where
  "g729_decode_frames libs 0 st p = (Ok [], st)"
| "g729_decode_frames libs (Suc n) st p =
     (case g729_dec libs st (take 10 p) of
        (Inl e, st') \<Rightarrow> (Err (LibError e), st')
      | (Inr f, st') \<Rightarrow>
          (case g729_decode_frames libs n st' (drop 10 p) of
             (Inl e, st'') \<Rightarrow> (Err e, st'')
           | (Inr fs, st'') \<Rightarrow> (Ok (f @ fs), st'')))"

definition decodeG729 :: "('s, 'z) codec_libs_scheme \<Rightarrow> 's \<Rightarrow> bytes
    \<Rightarrow> (codec_err, sample list) result \<times> 's" where
  "decodeG729 libs st p =
     (if p = [] then (Ok [], st)
      else if length p mod 10 \<noteq> 0 then (Err (NotFrames (length p) 10), st)
      else g729_decode_frames libs (length p div 10) st p)"

fun g729_encode_frames :: "('s, 'z) codec_libs_scheme \<Rightarrow> nat \<Rightarrow> 's \<Rightarrow> sample list
    \<Rightarrow> (codec_err, bytes) result \<times> 's" where
  "g729_encode_frames libs 0 st ss = (Ok [], st)"
| "g729_encode_frames libs (Suc n) st ss =
     (case g729_enc libs st (take 80 ss) of
        (Inl e, st') \<Rightarrow> (Err (LibError e), st')
      | (Inr f, st') \<Rightarrow>
          (case g729_encode_frames libs n st' (drop 80 ss) of
             (Inl e, st'') \<Rightarrow> (Err e, st'')
           | (Inr fs, st'') \<Rightarrow> (Ok (f @ fs), st'')))"

definition encodeG729 :: "('s, 'z) codec_libs_scheme \<Rightarrow> 's \<Rightarrow> sample list
    \<Rightarrow> (codec_err, bytes) result \<times> 's" where
  "encodeG729 libs st ss =
     (if ss = [] then (Ok [], st)
      else if length ss mod 80 \<noteq> 0 then (Err (NotFrames (length ss) 80), st)
      else g729_encode_frames libs (length ss div 80) st ss)"

definition decodeG722 :: "('s, 'z) codec_libs_scheme \<Rightarrow> 's \<Rightarrow> bytes
    \<Rightarrow> (codec_err, sample list) result \<times> 's" where
  "decodeG722 libs st p =
     (if p = [] then (Ok [], st)
      else let (wide, st') = g722_dec libs st p in (Ok (resampleLinear wide 16000 8000), st'))"

definition encodeG722 :: "('s, 'z) codec_libs_scheme \<Rightarrow> 's \<Rightarrow> sample list
    \<Rightarrow> (codec_err, bytes) result \<times> 's" where
  "encodeG722 libs st ss =
     (let wide = resampleLinear ss 8000 16000 in
      if wide = [] then (Ok [], st) else let (out, st') = g722_enc libs st wide in (Ok out, st'))"

definition lib_result :: "(string, 'a) result \<times> 's \<Rightarrow> (codec_err, 'a) result \<times> 's" where
  "lib_result r = (case r of (Inl e, st) \<Rightarrow> (Err (LibError e), st) | (Inr x, st) \<Rightarrow> (Ok x, st))"

definition decodeG726 :: "('s, 'z) codec_libs_scheme \<Rightarrow> nat \<Rightarrow> 's \<Rightarrow> bytes
    \<Rightarrow> (codec_err, sample list) result \<times> 's" where
  "decodeG726 libs bits st p = (if p = [] then (Ok [], st) else lib_result (g726_dec libs bits st p))"

definition encodeG726 :: "('s, 'z) codec_libs_scheme \<Rightarrow> nat \<Rightarrow> 's \<Rightarrow> sample list
    \<Rightarrow> (codec_err, bytes) result \<times> 's" where
  "encodeG726 libs bits st ss = (if ss = [] then (Ok [], st) else lib_result (g726_enc libs bits st ss))"

text \<open>decodePCMU, encodePCMU, decodePCMA and encodePCMA go through bytes as the
  code does; the buffers always have the sizes diago asks for.\<close>
definition decodeG711 :: "(8 word \<Rightarrow> sample) \<Rightarrow> bytes \<Rightarrow> sample list" where
  "decodeG711 tab p = bytesLEToSamples (samplesToBytesLE (List.map tab p))"

definition encodeG711 :: "(sample \<Rightarrow> 8 word) \<Rightarrow> sample list \<Rightarrow> bytes" where
  "encodeG711 tab ss = List.map tab (bytesLEToSamples (samplesToBytesLE ss))"

definition Decode :: "('s, 'z) codec_libs_scheme \<Rightarrow> handler \<Rightarrow> 's \<Rightarrow> bytes
    \<Rightarrow> (codec_err, sample list) result \<times> 's" where
  "Decode libs h st p =
     (case hKind h of
        HPCMU \<Rightarrow> (Ok (decodeG711 (ulaw_dec libs) p), st)
      | HPCMA \<Rightarrow> (Ok (decodeG711 (alaw_dec libs) p), st)
      | HG722 \<Rightarrow> decodeG722 libs st p
      | HG729 \<Rightarrow> decodeG729 libs st p
      | HG726 bits \<Rightarrow> decodeG726 libs bits st p)"

definition Encode :: "('s, 'z) codec_libs_scheme \<Rightarrow> handler \<Rightarrow> 's \<Rightarrow> sample list
    \<Rightarrow> (codec_err, bytes) result \<times> 's" where
  "Encode libs h st ss =
     (case hKind h of
        HPCMU \<Rightarrow> (Ok (encodeG711 (ulaw_enc libs) ss), st)
      | HPCMA \<Rightarrow> (Ok (encodeG711 (alaw_enc libs) ss), st)
      | HG722 \<Rightarrow> encodeG722 libs st ss
      | HG729 \<Rightarrow> encodeG729 libs st ss
      | HG726 bits \<Rightarrow> encodeG726 libs bits st ss)"

section \<open>Streams\<close>

text \<open>PCMReader: payloads the source has to give (an error ends it), the decoded
  bytes not yet handed out.  Read blocks when the source gives nothing: None.\<close>
record 's pcm_reader =
  prHandler :: handler
  prLib :: 's
  prSource :: "(codec_err, bytes) result list"
  prScratch :: bytes

fun pcm_fill :: "('s, 'z) codec_libs_scheme \<Rightarrow> handler \<Rightarrow> 's \<Rightarrow> (codec_err, bytes) result list
    \<Rightarrow> ((codec_err, bytes) result \<times> 's \<times> (codec_err, bytes) result list) option" where
  "pcm_fill libs h st [] = None"
| "pcm_fill libs h st (Inl e # src) = Some (Err e, st, src)"
| "pcm_fill libs h st (Inr p # src) =
     (if p = [] then pcm_fill libs h st src
      else case Decode libs h st p of
        (Inl e, st') \<Rightarrow> Some (Err e, st', src)
      | (Inr ss, st') \<Rightarrow> if ss = [] then pcm_fill libs h st' src
                         else Some (Ok (samplesToBytesLE ss), st', src))"

definition pcm_read :: "('s, 'z) codec_libs_scheme \<Rightarrow> nat \<Rightarrow> 's pcm_reader
    \<Rightarrow> ((codec_err, bytes) result \<times> 's pcm_reader) option" where
  "pcm_read libs n r =
     (if prScratch r \<noteq> []
      then Some (Ok (take n (prScratch r)), r\<lparr>prScratch := drop n (prScratch r)\<rparr>)
      else case pcm_fill libs (prHandler r) (prLib r) (prSource r) of
        None \<Rightarrow> None
      | Some (Inl e, st, src) \<Rightarrow> Some (Err e, r\<lparr>prLib := st, prSource := src\<rparr>)
      | Some (Inr s, st, src) \<Rightarrow>
          Some (Ok (take n s), r\<lparr>prLib := st, prSource := src, prScratch := drop n s\<rparr>))"

subsection \<open>Cutting a stream into frames\<close>

text \<open>The contract a buffer that is filled in pieces and emptied in frames keeps.
  Both the encoder's pending samples and the jitter buffer of a bridge are
  such buffers.\<close>
datatype 'a buf_op = Push "'a list" | Take

fun run_buffer :: "('a list \<Rightarrow> 'b \<Rightarrow> 'b) \<Rightarrow> ('b \<Rightarrow> ('a list \<times> 'b) option) \<Rightarrow> 'a buf_op list \<Rightarrow> 'b
    \<Rightarrow> 'a list list \<times> 'b" where
  "run_buffer push take_frame [] b = ([], b)"
| "run_buffer push take_frame (Push xs # ops) b = run_buffer push take_frame ops (push xs b)"
| "run_buffer push take_frame (Take # ops) b =
     (case take_frame b of
        None \<Rightarrow> run_buffer push take_frame ops b
      | Some (f, b') \<Rightarrow> (let (fs, b'') = run_buffer push take_frame ops b' in (f # fs, b'')))"

fun pushed :: "'a buf_op list \<Rightarrow> 'a list" where
  "pushed [] = []"
| "pushed (Push xs # ops) = xs @ pushed ops"
| "pushed (Take # ops) = pushed ops"

locale frame_buffer =
  fixes contents :: "'b \<Rightarrow> 'a list"
    and push :: "'a list \<Rightarrow> 'b \<Rightarrow> 'b"
    and take_frame :: "'b \<Rightarrow> ('a list \<times> 'b) option"
    and frame :: nat
    and invar :: "'b \<Rightarrow> bool"
  assumes invar_push: "invar b \<Longrightarrow> invar (push xs b)"
    and contents_push: "invar b \<Longrightarrow> contents (push xs b) = contents b @ xs"
    and invar_take: "invar b \<Longrightarrow> take_frame b = Some (f, b') \<Longrightarrow> invar b'"
    and contents_take: "invar b \<Longrightarrow> take_frame b = Some (f, b') \<Longrightarrow> contents b = f @ contents b'"
    and length_take: "invar b \<Longrightarrow> take_frame b = Some (f, b') \<Longrightarrow> length f = frame"
begin

text \<open>Whatever the order of pushes and takes, the frames taken and what is left
  are the samples pushed, in order, none lost and none repeated.\<close>
lemma run_conserves:
  "invar b \<Longrightarrow> run_buffer push take_frame ops b = (fs, b') \<Longrightarrow>
     concat fs @ contents b' = contents b @ pushed ops \<and> invar b' \<and> (\<forall>f \<in> set fs. length f = frame)"
proof (induction ops arbitrary: b fs)
  case (Cons opn ops)
  show ?case
  proof (cases opn)
    case (Push xs)
    then show ?thesis using Cons.IH [of "push xs b" fs] Cons.prems
      by (simp add: invar_push contents_push)
  next
    case Take
    show ?thesis
    proof (cases "take_frame b")
      case None
      then show ?thesis using Cons Take by simp
    next
      case (Some p)
      obtain f b1 where p: "p = (f, b1)" by (cases p)
      obtain fs1 where fs: "run_buffer push take_frame ops b1 = (fs1, b')" "fs = f # fs1"
        using Cons.prems Take Some p by (auto split: prod.splits)
      have "take_frame b = Some (f, b1)" using Some p by simp
      then show ?thesis
        using Cons.IH [OF _ fs(1)] Cons.prems(1) fs(2) Take
        by (simp add: invar_take length_take contents_take)
    qed
  qed
qed auto

lemma run_total_length:
  "invar b \<Longrightarrow> run_buffer push take_frame ops b = (fs, b') \<Longrightarrow>
     frame * length fs + length (contents b') = length (contents b) + length (pushed ops)"
proof -
  assume a: "invar b" "run_buffer push take_frame ops b = (fs, b')"
  have "length (concat fs) = frame * length fs" if "\<forall>f \<in> set fs. length f = frame" for fs :: "'a list list"
    using that by (induction fs) auto
  then show ?thesis using run_conserves [OF a] by (metis length_append)
qed

end

text \<open>The pending samples of a writer.\<close>
definition next_chunk :: "nat \<Rightarrow> 'a list \<Rightarrow> ('a list \<times> 'a list) option" where
  "next_chunk n xs = (if length xs < n then None else Some (take n xs, drop n xs))"

interpretation pend: frame_buffer "\<lambda>xs :: 'a list. xs" "\<lambda>xs b. b @ xs" "next_chunk n" n "\<lambda>_. True"
  for n
  by unfold_locales (auto simp: next_chunk_def split: if_splits)

text \<open>PCMWriter; the writer behind it is a function that takes the next payload
  and says whether the write succeeded.\<close>
record ('s, 'w) pcm_writer =
  pwHandler :: handler
  pwLib :: 's
  pwPending :: "sample list"
  pwOut :: 'w

datatype write_err = ShortWrite | EncodeFailed codec_err | SinkFailed

lemma HubFrameSamples_pos [simp]: "0 < HubFrameSamples h"
  by (simp add: HubFrameSamples_def)

function write_loop :: "('s, 'z) codec_libs_scheme \<Rightarrow> (bytes \<Rightarrow> 'w \<Rightarrow> bool \<times> 'w) \<Rightarrow> ('s, 'w) pcm_writer
    \<Rightarrow> write_err option \<times> ('s, 'w) pcm_writer" where
  "write_loop libs sink w =
     (if length (pwPending w) < HubFrameSamples (pwHandler w) then (None, w)
      else let chunk = take (HubFrameSamples (pwHandler w)) (pwPending w);
               rest = drop (HubFrameSamples (pwHandler w)) (pwPending w) in
        case Encode libs (pwHandler w) (pwLib w) chunk of
          (Inl e, st) \<Rightarrow> (Some (EncodeFailed e), w\<lparr>pwLib := st\<rparr>)
        | (Inr enc, st) \<Rightarrow>
            if enc = [] then write_loop libs sink (w\<lparr>pwLib := st, pwPending := rest\<rparr>)
            else (case sink enc (pwOut w) of
                    (False, out) \<Rightarrow> (Some SinkFailed, w\<lparr>pwLib := st, pwOut := out\<rparr>)
                  | (True, out) \<Rightarrow>
                      write_loop libs sink (w\<lparr>pwLib := st, pwOut := out, pwPending := rest\<rparr>)))"
  by pat_completeness auto
termination
proof (relation "measure (\<lambda>(libs, sink, w). length (pwPending w))", goal_cases)
  case (2 libs sink w)
  then show ?case using HubFrameSamples_pos [of "pwHandler w"] by (simp del: HubFrameSamples_pos)
next
  case (3 libs sink w)
  then show ?case using HubFrameSamples_pos [of "pwHandler w"] by (simp del: HubFrameSamples_pos)
qed simp

declare write_loop.simps [simp del]

definition PCMWrite :: "('s, 'z) codec_libs_scheme \<Rightarrow> (bytes \<Rightarrow> 'w \<Rightarrow> bool \<times> 'w) \<Rightarrow> bytes
    \<Rightarrow> ('s, 'w) pcm_writer \<Rightarrow> (nat \<times> write_err option) \<times> ('s, 'w) pcm_writer" where
  "PCMWrite libs sink p w =
     (if length p mod 2 \<noteq> 0 then ((0, Some ShortWrite), w)
      else let (e, w') = write_loop libs sink (w\<lparr>pwPending := pwPending w @ bytesLEToSamples p\<rparr>)
           in ((length p, e), w'))"

text \<open>Encoding a list of frames one after the other, the encoder's state threaded.\<close>
fun encode_all :: "('s, 'z) codec_libs_scheme \<Rightarrow> handler \<Rightarrow> 's \<Rightarrow> sample list list
    \<Rightarrow> (bytes list \<times> 's) option" where
  "encode_all libs h st [] = Some ([], st)"
| "encode_all libs h st (f # fs) =
     (case Encode libs h st f of
        (Inl e, st') \<Rightarrow> None
      | (Inr enc, st') \<Rightarrow> map_option (\<lambda>(encs, st''). (enc # encs, st'')) (encode_all libs h st' fs))"

text \<open>A sink that takes every payload and keeps them in order.\<close>
definition rec_sink :: "bytes \<Rightarrow> bytes list \<Rightarrow> bool \<times> bytes list" where
  "rec_sink b out = (True, out @ [b])"

lemma write_loop_frames:
  "write_loop libs rec_sink w = (None, w') \<Longrightarrow>
     \<exists>fs encs. concat fs @ pwPending w' = pwPending w
       \<and> (\<forall>f \<in> set fs. length f = HubFrameSamples (pwHandler w))
       \<and> length (pwPending w') < HubFrameSamples (pwHandler w)
       \<and> encode_all libs (pwHandler w) (pwLib w) fs = Some (encs, pwLib w')
       \<and> pwOut w' = pwOut w @ filter (\<lambda>e. e \<noteq> []) encs \<and> pwHandler w' = pwHandler w"
proof (induction "length (pwPending w)" arbitrary: w rule: less_induct)
  case less
  let ?n = "HubFrameSamples (pwHandler w)"
  let ?chunk = "take ?n (pwPending w)" and ?rest = "drop ?n (pwPending w)"
  show ?case
  proof (cases "length (pwPending w) < ?n")
    case True
    then have "w' = w" using less.prems by (subst (asm) write_loop.simps) simp
    with True show ?thesis by (intro exI [of _ "[]"]) auto
  next
    case False
    have short: "length ?rest < length (pwPending w)"
      using False HubFrameSamples_pos [of "pwHandler w"] by (simp del: HubFrameSamples_pos)
    obtain enc st where e: "Encode libs (pwHandler w) (pwLib w) ?chunk = (Inr enc, st)"
      using less.prems False by (subst (asm) write_loop.simps) (auto simp: Let_def split: prod.splits sum.splits)
    define w1 where "w1 = w\<lparr>pwLib := st, pwOut := pwOut w @ (if enc = [] then [] else [enc]),
      pwPending := ?rest\<rparr>"
    have "write_loop libs rec_sink w1 = (None, w')"
      using less.prems False e unfolding w1_def
      by (subst (asm) write_loop.simps) (simp add: Let_def rec_sink_def split: if_splits)
    from less.hyps [OF _ this] short obtain fs encs where
      "concat fs @ pwPending w' = ?rest" "\<forall>f \<in> set fs. length f = ?n"
      "length (pwPending w') < ?n" "encode_all libs (pwHandler w) st fs = Some (encs, pwLib w')"
      "pwOut w' = pwOut w1 @ filter (\<lambda>e. e \<noteq> []) encs" "pwHandler w' = pwHandler w"
      by (auto simp: w1_def)
    then show ?thesis using e False
      by (intro exI [of _ "?chunk # fs"] exI [of _ "enc # encs"]) (simp add: w1_def)
  qed
qed

text \<open>Framing of the encoder. When a write succeeds, the payloads handed to
  the RTP writer are the encodings, in order, of consecutive frames of exactly
  one hub frame each; frames and what stays pending are the samples that were
  pending followed by those written, and less than one frame stays pending.\<close>
theorem PCMWrite_frames:
  assumes "PCMWrite libs rec_sink p w = ((n, None), w')"
  shows "n = length p \<and> (\<exists>fs encs. concat fs @ pwPending w' = pwPending w @ bytesLEToSamples p
       \<and> (\<forall>f \<in> set fs. length f = HubFrameSamples (pwHandler w))
       \<and> length (pwPending w') < HubFrameSamples (pwHandler w)
       \<and> encode_all libs (pwHandler w) (pwLib w) fs = Some (encs, pwLib w')
       \<and> pwOut w' = pwOut w @ filter (\<lambda>e. e \<noteq> []) encs)"
proof -
  let ?w = "w\<lparr>pwPending := pwPending w @ bytesLEToSamples p\<rparr>"
  have "write_loop libs rec_sink ?w = (None, w')" "n = length p"
    using assms by (auto simp: PCMWrite_def Let_def split: if_splits prod.splits)
  with write_loop_frames [of libs ?w w'] show ?thesis by auto
qed

text \<open>A library for examples: G.711 tables that keep the low byte, G.722 with two
  samples per byte, G.729 and G.726 with frames of the right lengths.\<close>
definition demo_libs :: "unit codec_libs" where
  "demo_libs =
     \<lparr>ulaw_dec = ucast, ulaw_enc = ucast, alaw_dec = ucast, alaw_enc = ucast,
      g722_dec = (\<lambda>st p. (concat (List.map (\<lambda>b. [ucast b, ucast b]) p), st)),
      g722_enc = (\<lambda>st ss. (List.map ucast (stereo_pairs ss), st)),
      g729_dec = (\<lambda>st p. (Ok (replicate 80 0), st)),
      g729_enc = (\<lambda>st ss. (Ok (replicate 10 0), st)),
      g726_dec = (\<lambda>bits st p. (Ok (replicate (length p * 8 div bits) 0), st)),
      g726_enc = (\<lambda>bits st ss. (Ok (replicate (length ss * bits div 8) 0), st))\<rparr>"

definition demo_writer :: "(unit, bytes list) pcm_writer" where
  "demo_writer = \<lparr>pwHandler = mk_handler CodecAudioUlaw 2 HPCMU, pwLib = (), pwPending = [7],
     pwOut = []\<rparr>"

lemma demo_write: "PCMWrite demo_libs rec_sink [1, 0, 2, 0] demo_writer
   = ((4, None), demo_writer\<lparr>pwPending := [2], pwOut := [[7, 1]]\<rparr>)"
  by (simp add: PCMWrite_def demo_writer_def write_loop.simps HubFrameSamples_def mk_handler_def
      Encode_def encodeG711_def demo_libs_def rec_sink_def sample_le_def sample_lo_def sample_hi_def)

lemma PCMWrite_frames_witness:
  "\<exists>fs. concat fs @ [2 :: sample] = [7, 1, 2] \<and> (\<forall>f \<in> set fs. length f = 2)"
proof -
  have b: "sample_le 1 0 = 1" "sample_le 2 0 = 2" by (simp_all add: sample_le_def)
  show ?thesis using PCMWrite_frames [OF demo_write]
    by (auto simp: demo_writer_def HubFrameSamples_def mk_handler_def b)
qed

text \<open>G.722 frames are half as long as they should be. With a G.722 library
  that yields two wideband samples per byte and one byte per two samples, the
  handler of the table's G.722 codec cuts 80-sample hub frames and encodes
  them into 80 bytes, while a received 20 ms payload of 160 bytes decodes to
  160 hub samples and each packet moves the RTP clock by 160 ticks.  (A comment
  in New says one frame decodes to 80 samples.)\<close>
theorem G722_frame_mismatch:
  assumes dec: "\<And>st p. length (fst (g722_dec libs st p)) = 2 * length p"
    and enc: "\<And>st ss. length (fst (g722_enc libs st ss)) = length ss div 2"
    and h: "New (mk_codec ''G722'' 9 20) = Ok h"
    and p: "length p = 160" and ss: "length ss = HubFrameSamples h"
  shows "HubFrameSamples h = 80 \<and> SampleTimestamp (hCodec h) = 160
    \<and> (\<exists>out st'. Decode libs h st p = (Ok out, st') \<and> length out = 160)
    \<and> (\<exists>payload st'. Encode libs h st ss = (Ok payload, st') \<and> length payload = 80)"
proof -
  have h': "h = mk_handler (mk_codec ''G722'' 9 20) 80 HG722"
    using h by (simp add: New_def samplesPerFrame_def Let_def)
  have "ss \<noteq> []" "p \<noteq> []" using ss p by (auto simp: h' HubFrameSamples_def mk_handler_def)
  moreover obtain wide st1 where w: "g722_dec libs st p = (wide, st1)" by fastforce
  then have wide: "length wide = 320" using dec [of st p] p by simp
  then have "wide \<noteq> []" by auto
  then have "length (resampleLinear wide 16000 8000) = 160"
    using wide by (simp add: length_resampleLinear)
  moreover have up: "length (resampleLinear ss 8000 16000) = 160" using \<open>ss \<noteq> []\<close> ss
    by (simp add: length_resampleLinear h' HubFrameSamples_def mk_handler_def)
  then have "resampleLinear ss 8000 16000 \<noteq> []" by auto
  moreover obtain pl st2 where pl: "g722_enc libs st (resampleLinear ss 8000 16000) = (pl, st2)" by fastforce
  then have "length pl = 80" using enc [of st "resampleLinear ss 8000 16000"] up by simp
  ultimately show ?thesis using w pl
    by (simp add: h' HubFrameSamples_def mk_handler_def SampleTimestamp_def Decode_def Encode_def
        decodeG722_def encodeG722_def Let_def)
qed

lemma G722_frame_mismatch_witness:
  "\<exists>payload st'. Encode demo_libs (mk_handler (mk_codec ''G722'' 9 20) 80 HG722) () (replicate 80 3)
     = (Ok payload, st') \<and> length payload = 80"
proof -
  let ?h = "mk_handler (mk_codec ''G722'' 9 20) 80 HG722"
  have n: "New (mk_codec ''G722'' 9 20) = Ok ?h" by (simp add: New_def samplesPerFrame_def Let_def)
  have "length (concat (List.map (\<lambda>b. [f b, f b]) p)) = 2 * length p" for p :: bytes and f :: "8 word \<Rightarrow> sample"
    by (induction p) auto
  then have d: "length (fst (g722_dec demo_libs st p)) = 2 * length p" for st p
    by (simp add: demo_libs_def)
  have e: "length (fst (g722_enc demo_libs st ss)) = length ss div 2" for st ss
    by (simp add: demo_libs_def)
  show ?thesis
    using G722_frame_mismatch [OF d e n, of "replicate 160 0" "replicate 80 3"]
    by (simp add: HubFrameSamples_def mk_handler_def)
qed

end
