(* ===== verification/Tones.thy ===== *)
theory Tones
  imports Pcm Complex_Main
begin

text \<open>
  The national tone plans and the tone generator of internal/media/tones.
  Durations are milliseconds.  The waveform is a sine sum over the reals where
  the code has float64; the cadence, which decides when a tone sounds, is
  exact.
\<close>

datatype region = RegionUK | RegionEU | RegionUSA

record cadence_step =
  csOn :: bool
  csDuration :: nat

record tone =
  tFrequencies :: "nat list"
  tCadence :: "cadence_step list"

record profile =
  pfRegion :: region
  pfDial :: tone
  pfRing :: tone
  pfBusy :: tone
  pfBusySeconds :: int

definition ParseRegion :: "string \<Rightarrow> region option" where
  "ParseRegion s =
     (let r = to_lower (trim_space s) in
      if r \<in> {'''', ''uk'', ''gb'', ''britain''} then Some RegionUK
      else if r \<in> {''eu'', ''europe'', ''de'', ''fr''} then Some RegionEU
      else if r \<in> {''us'', ''usa'', ''na'', ''northamerica''} then Some RegionUSA
      else None)"

definition steady :: "nat list \<Rightarrow> tone" where
  "steady fs = \<lparr>tFrequencies = fs, tCadence = []\<rparr>"

definition cadenced :: "nat list \<Rightarrow> (bool \<times> nat) list \<Rightarrow> tone" where
  "cadenced fs cs =
     \<lparr>tFrequencies = fs, tCadence = List.map (\<lambda>(on, d). \<lparr>csOn = on, csDuration = d\<rparr>) cs\<rparr>"

definition ukProfile :: profile where
  "ukProfile = \<lparr>pfRegion = RegionUK, pfDial = steady [350, 450],
     pfRing = cadenced [400, 450] [(True, 400), (False, 200), (True, 400), (False, 2000)],
     pfBusy = cadenced [400] [(True, 375), (False, 375)], pfBusySeconds = 0\<rparr>"

definition europeanProfile :: profile where
  "europeanProfile = \<lparr>pfRegion = RegionEU, pfDial = steady [425],
     pfRing = cadenced [425] [(True, 1000), (False, 4000)],
     pfBusy = cadenced [425] [(True, 500), (False, 500)], pfBusySeconds = 0\<rparr>"

definition usaProfile :: profile where
  "usaProfile = \<lparr>pfRegion = RegionUSA, pfDial = steady [350, 440],
     pfRing = cadenced [440, 480] [(True, 2000), (False, 4000)],
     pfBusy = cadenced [480, 620] [(True, 500), (False, 500)], pfBusySeconds = 0\<rparr>"

definition ProfileForRegion :: "region \<Rightarrow> profile" where
  "ProfileForRegion r =
     (case r of RegionEU \<Rightarrow> europeanProfile | RegionUSA \<Rightarrow> usaProfile | RegionUK \<Rightarrow> ukProfile)"

record generator =
  gTone :: tone
  gSample :: nat
  gSegIdx :: nat
  gSegPos :: nat
  gSegOn :: bool

definition NewGenerator :: "tone \<Rightarrow> generator" where
  "NewGenerator t =
     \<lparr>gTone = t, gSample = 0, gSegIdx = 0, gSegPos = 0,
      gSegOn = (if tCadence t = [] then True else csOn (hd (tCadence t)))\<rparr>"

text \<open>The samples of one cadence segment: 8 for each millisecond.\<close>
definition seg_samples :: "cadence_step \<Rightarrow> nat" where
  "seg_samples c = csDuration c * 8000 div 1000"

definition advanceCadence :: "generator \<Rightarrow> generator" where
  "advanceCadence g =
     (let cad = tCadence (gTone g) in
      if cad = [] then g
      else let g1 = g\<lparr>gSegPos := gSegPos g + 1\<rparr> in
        if gSegPos g1 < seg_samples (cad ! gSegIdx g1) then g1
        else let i = (gSegIdx g1 + 1) mod length cad in
          g1\<lparr>gSegIdx := i, gSegPos := 0, gSegOn := csOn (cad ! i)\<rparr>)"

definition tone_value :: "nat list \<Rightarrow> nat \<Rightarrow> real" where
  "tone_value fs n =
     (if fs = [] then 0
      else (\<Sum>f \<leftarrow> fs. 35 / 100 / real (length fs) * sin (2 * pi * real f * (real n / 8000))))"

definition trunc0 :: "real \<Rightarrow> int" where
  "trunc0 x = (if 0 \<le> x then \<lfloor>x\<rfloor> else \<lceil>x\<rceil>)"

definition tone_sample :: "generator \<Rightarrow> sample" where
  "tone_sample g =
     (if \<not> gSegOn g then 0
      else let v = tone_value (tFrequencies (gTone g)) (gSample g);
               v = (if v > 1 then 1 else v); v = (if v < - 1 then - 1 else v)
           in word_of_int (trunc0 (v * 32767)))"

definition gen_next :: "generator \<Rightarrow> generator" where
  "gen_next g = advanceCadence (g\<lparr>gSample := gSample g + 1\<rparr>)"

text \<open>Generator.Read fills the buffer two bytes at a time; an odd last byte keeps
  what it held.\<close>
fun gen_read :: "generator \<Rightarrow> bytes \<Rightarrow> bytes \<times> generator" where
  "gen_read g (a # b # p) =
     (let s = tone_sample g; (out, g') = gen_read (gen_next g) p
      in (sample_lo s # sample_hi s # out, g'))"
| "gen_read g p = (p, g)"

definition PlayDuration :: "tone \<Rightarrow> int \<Rightarrow> int" where
  "PlayDuration t cycles0 =
     (let cycles = (if cycles0 < 1 then 1 else cycles0) in
      if tCadence t = [] then cycles
      else let cycle = int (sum_list (List.map csDuration (tCadence t))) in
        if cycle \<le> 0 then cycles else cycle * cycles)"

section \<open>Lemmas\<close>

lemma gen_read_length: "length (fst (gen_read g p)) = length p"
  by (induction g p rule: gen_read.induct) (auto simp: Let_def case_prod_beta)

lemma gen_read_state: "snd (gen_read g p) = (gen_next ^^ (length p div 2)) g"
  by (induction g p rule: gen_read.induct) (auto simp: Let_def case_prod_beta funpow_swap1)

lemma gen_read_samples:
  "bytesLEToSamples (fst (gen_read g p)) = List.map (\<lambda>k. tone_sample ((gen_next ^^ k) g)) [0..<length p div 2]"
proof (induction g p rule: gen_read.induct)
  case (1 g a b p)
  have "[0..<Suc (length p div 2)] = 0 # List.map Suc [0..<length p div 2]"
    by (simp add: map_Suc_upt upt_conv_Cons del: upt_Suc)
  with 1 show ?case by (auto simp: Let_def case_prod_beta funpow_swap1 o_def)
qed auto

text \<open>Where a generator stands: at a sample of a segment, on exactly when the
  segment is, for a tone with a cadence of non-empty segments.\<close>
definition gen_ok :: "generator \<Rightarrow> bool" where
  "gen_ok g =
     (tCadence (gTone g) \<noteq> [] \<and> (\<forall>c \<in> set (tCadence (gTone g)). 0 < seg_samples c)
      \<and> gSegIdx g < length (tCadence (gTone g))
      \<and> gSegPos g < seg_samples (tCadence (gTone g) ! gSegIdx g)
      \<and> gSegOn g = csOn (tCadence (gTone g) ! gSegIdx g))"

lemma gen_next_tone [simp]: "gTone (gen_next g) = gTone g" "gSample (gen_next g) = gSample g + 1"
  by (simp_all add: gen_next_def advanceCadence_def Let_def)

lemma gen_next_ok [inv_intros]: "gen_ok g \<Longrightarrow> gen_ok (gen_next g)"
  by (auto simp: gen_ok_def gen_next_def advanceCadence_def Let_def)

lemma gen_steady: "tCadence (gTone g) = [] \<Longrightarrow> gSegOn g \<Longrightarrow> gSegOn ((gen_next ^^ n) g)"
proof (induction n arbitrary: g)
  case (Suc n)
  have "gSegOn (gen_next g)" using Suc by (simp add: gen_next_def advanceCadence_def)
  with Suc show ?case by (simp add: funpow_swap1)
qed simp

lemma gen_ok_NewGenerator:
  "tCadence t \<noteq> [] \<Longrightarrow> \<forall>c \<in> set (tCadence t). 0 < seg_samples c \<Longrightarrow> gen_ok (NewGenerator t)"
  by (auto simp: gen_ok_def NewGenerator_def hd_conv_nth)

text \<open>Staying within a segment.\<close>
lemma gen_within:
  "gen_ok g \<Longrightarrow> gSegPos g + k < seg_samples (tCadence (gTone g) ! gSegIdx g) \<Longrightarrow>
   gSegIdx ((gen_next ^^ k) g) = gSegIdx g \<and> gSegPos ((gen_next ^^ k) g) = gSegPos g + k
   \<and> gen_ok ((gen_next ^^ k) g) \<and> gTone ((gen_next ^^ k) g) = gTone g"
proof (induction k)
  case (Suc k)
  let ?h = "(gen_next ^^ k) g"
  have h: "gSegIdx ?h = gSegIdx g" "gSegPos ?h = gSegPos g + k" "gen_ok ?h" "gTone ?h = gTone g"
    using Suc by auto
  have "gSegIdx (gen_next ?h) = gSegIdx g \<and> gSegPos (gen_next ?h) = gSegPos g + Suc k"
    using h Suc.prems by (simp add: gen_next_def advanceCadence_def Let_def gen_ok_def)
  with h show ?case by (simp add: gen_next_ok)
qed simp

text \<open>From the start of a segment, its whole length later the next one starts.\<close>
lemma gen_segment:
  assumes "gen_ok g" "gSegPos g = 0"
  shows "gSegIdx ((gen_next ^^ seg_samples (tCadence (gTone g) ! gSegIdx g)) g)
       = (gSegIdx g + 1) mod length (tCadence (gTone g))
    \<and> gSegPos ((gen_next ^^ seg_samples (tCadence (gTone g) ! gSegIdx g)) g) = 0"
proof -
  let ?n = "seg_samples (tCadence (gTone g) ! gSegIdx g)"
  have pos: "0 < ?n" using assms by (auto simp: gen_ok_def)
  then obtain m where m: "?n = Suc m" using gr0_conv_Suc by blast
  have "gSegIdx ((gen_next ^^ m) g) = gSegIdx g" "gSegPos ((gen_next ^^ m) g) = m"
    "gTone ((gen_next ^^ m) g) = gTone g" "gen_ok ((gen_next ^^ m) g)"
    using gen_within [OF assms(1), of m] m assms(2) by simp_all
  then show ?thesis using m
    by (simp add: gen_next_def advanceCadence_def Let_def gen_ok_def)
qed

text \<open>The samples before segment k of a cadence.\<close>
definition seg_start :: "tone \<Rightarrow> nat \<Rightarrow> nat" where
  "seg_start t k = sum_list (List.map seg_samples (take k (tCadence t)))"

lemma gen_at_segment:
  assumes "tCadence t \<noteq> []" "\<forall>c \<in> set (tCadence t). 0 < seg_samples c" "k \<le> length (tCadence t)"
  shows "let g = (gen_next ^^ seg_start t k) (NewGenerator t) in
    gen_ok g \<and> gTone g = t \<and> gSegPos g = 0 \<and> gSegIdx g = k mod length (tCadence t)"
  using assms(3)
proof (induction k)
  case 0
  then show ?case using gen_ok_NewGenerator [OF assms(1,2)]
    by (simp add: seg_start_def Let_def NewGenerator_def)
next
  case (Suc k)
  let ?g = "(gen_next ^^ seg_start t k) (NewGenerator t)"
  have g: "gen_ok ?g" "gTone ?g = t" "gSegPos ?g = 0" "gSegIdx ?g = k" using Suc by (simp_all add: Let_def)
  let ?n = "seg_samples (tCadence t ! k)"
  have "seg_start t (Suc k) = ?n + seg_start t k"
    using Suc.prems by (simp add: seg_start_def take_Suc_conv_app_nth)
  then have eq: "(gen_next ^^ seg_start t (Suc k)) (NewGenerator t) = (gen_next ^^ ?n) ?g"
    by (simp add: funpow_add)
  have ok: "gen_ok ((gen_next ^^ m) ?g)" "gTone ((gen_next ^^ m) ?g) = t" for m
    using g(1,2) by (induction m) (simp_all add: gen_next_ok)
  show ?case using gen_segment [OF g(1,3)] g ok by (simp add: eq Let_def)
qed

lemma abs_tone_value: "\<bar>tone_value fs n\<bar> \<le> 35 / 100"
proof (cases "fs = []")
  case False
  have "\<bar>\<Sum>f \<leftarrow> xs. 35 / 100 / c * sin (2 * pi * real f * (real n / 8000))\<bar>
      \<le> real (length xs) * (35 / 100 / c)" if "0 < c" for c :: real and xs :: "nat list"
  proof (induction xs)
    case (Cons f xs)
    have "\<bar>35 / 100 / c * sin (2 * pi * real f * (real n / 8000))\<bar> \<le> 35 / 100 / c"
      using that abs_sin_le_one [of "2 * pi * real f * (real n / 8000)"]
      by (simp add: abs_mult mult_left_le divide_right_mono)
    moreover have "real (length (f # xs)) * (35 / 100 / c) = 35 / 100 / c + real (length xs) * (35 / 100 / c)"
      by (simp only: list.size of_nat_add of_nat_1 distrib_right mult_1_left of_nat_Suc add.commute)
    ultimately show ?case using Cons.IH by (simp only: list.map sum_list.Cons)
  qed simp
  from this [of "real (length fs)" fs] False show ?thesis by (simp add: tone_value_def)
qed (simp add: tone_value_def)

lemma sint_tone_sample: "\<bar>sint (tone_sample g)\<bar> \<le> 11468"
proof (cases "gSegOn g")
  case True
  let ?v = "tone_value (tFrequencies (gTone g)) (gSample g)"
  have v: "\<bar>?v\<bar> \<le> 35 / 100" by (rule abs_tone_value)
  then have "tone_sample g = word_of_int (trunc0 (?v * 32767))" using True
    by (simp add: tone_sample_def Let_def) linarith
  moreover have "\<bar>?v * 32767\<bar> \<le> 1146845 / 100" using v by (simp add: abs_mult)
  then have t: "\<bar>trunc0 (?v * 32767)\<bar> \<le> 11468" unfolding trunc0_def by (simp; linarith)
  ultimately show ?thesis using sint_of_int16 [of "trunc0 (?v * 32767)"] t by simp
qed (simp add: tone_sample_def)

text \<open>The cadence of a signalling tone. Reading a tone whose segments are not
  empty, in however many pieces, the sample at offset r of segment k of the
  cadence is silence when that segment is off and a sample of the waveform
  when it is on; after a whole cycle the generator is back at the first
  segment; and no sample leaves the band of 35 percent of full scale, so the
  clipping in Read never acts.\<close>
theorem generator_cadence:
  assumes "tCadence t \<noteq> []" "\<forall>c \<in> set (tCadence t). 0 < seg_samples c"
    and "k < length (tCadence t)" "r < seg_samples (tCadence t ! k)"
    and "seg_start t k + r < length p div 2"
  shows "(let s = bytesLEToSamples (fst (gen_read (NewGenerator t) p)) ! (seg_start t k + r) in
        (\<not> csOn (tCadence t ! k) \<longrightarrow> s = 0) \<and> \<bar>sint s\<bar> \<le> 11468)
    \<and> gSegOn ((gen_next ^^ (seg_start t k + r)) (NewGenerator t)) = csOn (tCadence t ! k)
    \<and> gSegIdx ((gen_next ^^ seg_start t (length (tCadence t))) (NewGenerator t)) = 0
    \<and> gSegPos ((gen_next ^^ seg_start t (length (tCadence t))) (NewGenerator t)) = 0"
proof -
  let ?g = "(gen_next ^^ seg_start t k) (NewGenerator t)"
  have g: "gen_ok ?g" "gTone ?g = t" "gSegPos ?g = 0" "gSegIdx ?g = k"
    using gen_at_segment [OF assms(1,2), of k] assms(3) by (simp_all add: Let_def)
  have eq: "(gen_next ^^ (seg_start t k + r)) (NewGenerator t) = (gen_next ^^ r) ?g"
    by (simp add: funpow_add add.commute [of "seg_start t k"])
  have "gSegIdx ((gen_next ^^ r) ?g) = k" "gen_ok ((gen_next ^^ r) ?g)" "gTone ((gen_next ^^ r) ?g) = t"
    using gen_within [OF g(1), of r] g assms(4) by simp_all
  then have on: "gSegOn ((gen_next ^^ r) ?g) = csOn (tCadence t ! k)" by (simp add: gen_ok_def)
  have s: "bytesLEToSamples (fst (gen_read (NewGenerator t) p)) ! (seg_start t k + r)
      = tone_sample ((gen_next ^^ r) ?g)"
    using assms(5) eq by (simp add: gen_read_samples)
  show ?thesis using on s eq sint_tone_sample [of "(gen_next ^^ r) ?g"]
      gen_at_segment [OF assms(1,2), of "length (tCadence t)"]
    by (auto simp: Let_def tone_sample_def)
qed

lemma generator_cadence_witness:
  "bytesLEToSamples (fst (gen_read (NewGenerator (pfBusy ukProfile)) (replicate 8000 0))) ! 3500 = 0"
proof -
  let ?t = "pfBusy ukProfile"
  have t: "tCadence ?t = [\<lparr>csOn = True, csDuration = 375\<rparr>, \<lparr>csOn = False, csDuration = 375\<rparr>]"
    by (simp add: ukProfile_def cadenced_def)
  have st: "seg_start ?t 1 = 3000" by (simp add: seg_start_def t seg_samples_def)
  show ?thesis
    using generator_cadence [of ?t 1 500 "replicate 8000 0"] st
    by (simp add: t seg_samples_def Let_def)
qed

end
