(* ===== verification/Config.thy ===== *)
theory Config
  imports GoPath Router Tones
begin

text \<open>
  The configuration of internal/config: its sections, the defaults LoadConfig
  fills in, the checks of Validate, trunks and extension files.  TOML decoding
  and the file system are arguments.  Validate changes the configuration it
  checks (star codes and tone defaults), so the model returns it.
\<close>

record server_config =
  bindHost :: string
  bindPort :: int
  transport :: string
  transports :: "string list"
  externalHost :: string
  realm :: string
  mohDir :: string
  mohFile :: string
  optionsKeepalive :: int
  trunkKeepalive :: int
  regMinExpiry :: int
  regMaxExpiry :: int
  preserveContact :: bool

record limits_config =
  maxCalls :: int
  maxExtensions :: int
  maxCallsPerExt :: int
  dialTimeout :: int
  ringTimeout :: int

record web_config =
  webListen :: string
  sessionSecret :: string
  sessionTTL :: int

record web_user =
  wuName :: string
  wuPassword :: string
  wuRole :: string

record nat_config =
  stunEnabled :: bool
  stunBindHost :: string
  stunPort :: int
  sipProxyEnabled :: bool
  sipProxyPort :: int

record sounds_config =
  sndDir :: string
  sndBusy :: string
  sndWrongNumber :: string
  sndConfPIN :: string
  sndConfPINBad :: string
  sndUnavailable :: string
  sndExtension :: string

record tones_config =
  tonesRegion :: string
  tonesBusySeconds :: int

record trunk_config =
  tkID :: int
  tkName :: string
  tkPrefix :: string
  tkServer :: string
  tkUsername :: string
  tkPassword :: string
  tkTransport :: string
  tkKeepalive :: string
  tkKeepaliveSeconds :: int
  tkRegisterExpiry :: int
  tkEnabled :: bool

record extension =
  exNumber :: string
  exDisplayName :: string
  exPassword :: string
  exEnabled :: bool
  exCallWaiting :: bool
  exMaxCalls :: int
  exVideo :: bool
  exVoicemail :: bool
  exDND :: bool

record config =
  cServer :: server_config
  cNAT :: nat_config
  cLogLevel :: string
  cCodecs :: "string list"
  cLimits :: limits_config
  cWeb :: web_config
  cDatabasePath :: string
  cExtensionsDir :: string
  cPhonebookDir :: string
  cFeatures :: feature_codes
  cSounds :: sounds_config
  cTones :: tones_config
  cTrunks :: "trunk_config list"
  cUsers :: "web_user list"

section \<open>Defaults\<close>

definition DefaultMaxCallsPerExtension :: int where
  "DefaultMaxCallsPerExtension = 5"

definition dflt :: "string \<Rightarrow> string \<Rightarrow> string" where
  "dflt d s = (if s = [] then d else s)"

definition dflt0 :: "int \<Rightarrow> int \<Rightarrow> int" where
  "dflt0 d n = (if n = 0 then d else n)"

definition normalizeStarCode :: "string \<Rightarrow> string" where
  "normalizeStarCode s0 =
     (let s = trim_space s0 in
      if s = [] then [] else if \<not> has_prefix s ''*'' then CHR ''*'' # s else s)"

definition setFeatureDefaults :: "feature_codes \<Rightarrow> feature_codes" where
  "setFeatureDefaults f =
     (let d = DefaultFeatureCodes in
      \<lparr>fcRedial = normalizeStarCode (dflt (fcRedial d) (fcRedial f)),
       fcCallReturn = normalizeStarCode (dflt (fcCallReturn d) (fcCallReturn f)),
       fcTransfer = normalizeStarCode (dflt (fcTransfer d) (fcTransfer f)),
       fcPark = normalizeStarCode (dflt (fcPark d) (fcPark f)),
       fcParkRetrieve = normalizeStarCode (dflt (fcParkRetrieve d) (fcParkRetrieve f)),
       fcDNDActivate = normalizeStarCode (dflt (fcDNDActivate d) (fcDNDActivate f)),
       fcDNDDeactivate = normalizeStarCode (dflt (fcDNDDeactivate d) (fcDNDDeactivate f))\<rparr>)"

definition setSoundDefaults :: "sounds_config \<Rightarrow> sounds_config" where
  "setSoundDefaults s =
     s\<lparr>sndDir := dflt ''assets/sounds'' (sndDir s),
       sndWrongNumber := dflt ''you-dialed-wrong-number.wav'' (sndWrongNumber s),
       sndConfPIN := dflt ''confbridge-pin.wav'' (sndConfPIN s),
       sndConfPINBad := dflt ''confbridge-pin-bad.wav'' (sndConfPINBad s),
       sndUnavailable := dflt ''vm-nobodyavail.wav'' (sndUnavailable s),
       sndExtension := dflt ''extension.wav'' (sndExtension s)\<rparr>"

definition setNATDefaults :: "nat_config \<Rightarrow> nat_config" where
  "setNATDefaults n =
     n\<lparr>stunPort := dflt0 3478 (stunPort n), sipProxyPort := dflt0 5061 (sipProxyPort n)\<rparr>"

definition TonesApplyDefaults :: "tones_config \<Rightarrow> tones_config" where
  "TonesApplyDefaults t =
     t\<lparr>tonesRegion := dflt ''uk'' (tonesRegion t),
       tonesBusySeconds := (if tonesBusySeconds t \<le> 0 then 5 else tonesBusySeconds t)\<rparr>"

definition TonesProfile :: "tones_config \<Rightarrow> profile option" where
  "TonesProfile t0 =
     (let t = TonesApplyDefaults t0 in
      map_option (\<lambda>r. (ProfileForRegion r)\<lparr>pfBusySeconds := tonesBusySeconds t\<rparr>)
        (ParseRegion (tonesRegion t)))"

definition setServerDefaults :: "server_config \<Rightarrow> server_config" where
  "setServerDefaults s =
     s\<lparr>bindHost := dflt ''0.0.0.0'' (bindHost s),
       bindPort := dflt0 5060 (bindPort s),
       transport := (if transport s = [] \<and> transports s = [] then ''udp'' else transport s),
       realm := dflt ''voip.local'' (realm s),
       regMinExpiry := dflt0 60 (regMinExpiry s),
       regMaxExpiry := dflt0 3600 (regMaxExpiry s),
       optionsKeepalive := dflt0 30 (optionsKeepalive s),
       trunkKeepalive := dflt0 30 (trunkKeepalive s),
       mohDir := (if mohDir s = [] then (if mohFile s \<noteq> [] then Dir (mohFile s) else ''assets/moh'')
                  else mohDir s)\<rparr>"

definition setLimitsDefaults :: "limits_config \<Rightarrow> limits_config" where
  "setLimitsDefaults l =
     l\<lparr>maxCalls := dflt0 200 (maxCalls l), maxExtensions := dflt0 400 (maxExtensions l),
       maxCallsPerExt := dflt0 DefaultMaxCallsPerExtension (maxCallsPerExt l),
       dialTimeout := dflt0 15 (dialTimeout l), ringTimeout := dflt0 30 (ringTimeout l)\<rparr>"

definition setWebDefaults :: "web_config \<Rightarrow> web_config" where
  "setWebDefaults w =
     w\<lparr>webListen := dflt ''0.0.0.0:7030'' (webListen w),
       sessionSecret := dflt ''change-me-in-production'' (sessionSecret w),
       sessionTTL := dflt0 24 (sessionTTL w)\<rparr>"

definition setTrunkDefaults :: "int \<Rightarrow> nat \<Rightarrow> trunk_config \<Rightarrow> trunk_config" where
  "setTrunkDefaults keep i t =
     t\<lparr>tkTransport := dflt ''udp'' (tkTransport t),
       tkID := dflt0 (int i + 1) (tkID t),
       tkKeepaliveSeconds := dflt0 keep (tkKeepaliveSeconds t),
       tkRegisterExpiry := dflt0 3600 (tkRegisterExpiry t)\<rparr>"

definition setDefaults :: "config \<Rightarrow> config" where
  "setDefaults c =
     (let srv = setServerDefaults (cServer c) in
      \<lparr>cServer = srv, cNAT = setNATDefaults (cNAT c), cLogLevel = dflt ''info'' (cLogLevel c),
       cCodecs = cCodecs c, cLimits = setLimitsDefaults (cLimits c), cWeb = setWebDefaults (cWeb c),
       cDatabasePath = dflt ''data/pbx.db'' (cDatabasePath c),
       cExtensionsDir = dflt ''extensions'' (cExtensionsDir c),
       cPhonebookDir = dflt ''phonebook'' (cPhonebookDir c),
       cFeatures = setFeatureDefaults (cFeatures c), cSounds = setSoundDefaults (cSounds c),
       cTones = TonesApplyDefaults (cTones c),
       cTrunks = map2 (setTrunkDefaults (trunkKeepalive srv)) [0..<length (cTrunks c)] (cTrunks c),
       cUsers = (if cUsers c = [] then [\<lparr>wuName = ''admin'', wuPassword = ''admin'', wuRole = ''admin''\<rparr>]
                 else cUsers c)\<rparr>)"

section \<open>Transports and hosts\<close>

definition allowedSIPTransports :: "string list" where
  "allowedSIPTransports = [''udp'', ''tcp'', ''tls'', ''ws'', ''wss'']"

fun norm_transports :: "string list \<Rightarrow> string list \<Rightarrow> string list" where
  "norm_transports seen [] = []"
| "norm_transports seen (raw # rest) =
     (let t = to_lower (trim_space raw) in
      if t = [] \<or> t \<in> set seen then norm_transports seen rest
      else t # norm_transports (t # seen) rest)"

definition normalizeSIPTransports :: "string list \<Rightarrow> string list" where
  "normalizeSIPTransports ts =
     (let out = norm_transports [] ts in if out = [] then [''udp''] else out)"

definition SIPTransports :: "server_config \<Rightarrow> string list" where
  "SIPTransports s =
     (if transports s \<noteq> [] then normalizeSIPTransports (transports s)
      else if transport s = [] then [''udp'']
      else if str_contains (transport s) '','' then normalizeSIPTransports (split_on (CHR '','') (transport s))
      else [to_lower (trim_space (transport s))])"

definition DefaultSIPTransport :: "server_config \<Rightarrow> string" where
  "DefaultSIPTransport s =
     (case SIPTransports s of [] \<Rightarrow> ''udp'' | t # _ \<Rightarrow> t)"

text \<open>DetectOutboundIP asks the operating system: an argument.\<close>
definition ExternalHost :: "string \<Rightarrow> config \<Rightarrow> string" where
  "ExternalHost detected c =
     (if externalHost (cServer c) \<noteq> [] then externalHost (cServer c)
      else if bindHost (cServer c) \<noteq> [] \<and> bindHost (cServer c) \<noteq> ''0.0.0.0'' \<and> bindHost (cServer c) \<noteq> ''::''
      then bindHost (cServer c) else detected)"

definition SIPBindHost :: "config \<Rightarrow> string" where
  "SIPBindHost c =
     (let bind = dflt ''0.0.0.0'' (bindHost (cServer c)) in
      if (bind = ''0.0.0.0'' \<or> bind = ''::'') \<and> externalHost (cServer c) \<noteq> []
      then externalHost (cServer c) else bind)"

definition STUNBindHost :: "config \<Rightarrow> string" where
  "STUNBindHost c =
     (if stunBindHost (cNAT c) \<noteq> [] then stunBindHost (cNAT c)
      else if bindHost (cServer c) \<noteq> [] then bindHost (cServer c) else ''0.0.0.0'')"

definition SoundPath :: "sounds_config \<Rightarrow> string \<Rightarrow> string \<Rightarrow> string" where
  "SoundPath s cfgDir filename =
     (if filename = [] then []
      else if IsAbs filename then filename
      else let dir = dflt ''assets/sounds'' (sndDir s);
               dir = (if \<not> IsAbs dir \<and> cfgDir \<noteq> [] \<and> \<not> has_prefix dir cfgDir
                      then Join [cfgDir, dir] else dir)
           in Join [dir, filename])"

datatype log_level = LevelDebug | LevelInfo | LevelWarn | LevelError

definition ParseLogLevel :: "string \<Rightarrow> log_level" where
  "ParseLogLevel s =
     (let l = to_lower (trim_space s) in
      if l = ''debug'' then LevelDebug
      else if l = ''warn'' \<or> l = ''warning'' then LevelWarn
      else if l = ''error'' then LevelError
      else LevelInfo)"

definition ResolvePath :: "config \<Rightarrow> string \<Rightarrow> string" where
  "ResolvePath c rel =
     (if IsAbs rel then rel else Join [Dir (cDatabasePath c), ''..'', rel])"

section \<open>Validation\<close>

datatype cfg_error = NoTransport | BadTransport string | BadPort string | PortClash string
  | NoStar string | DuplicateCode string string string | BadParkRetrieve | BadRegion string
  | ExpiryOrder | TooManyTrunks | TrunkNoPrefix string | DuplicatePrefix string
  | TrunkBadKeepalive string | TrunkNeedsUser string | TrunkNegKeepalive string
  | TrunkNegExpiry string | TrunkShortExpiry string int

definition validateSIPTransports :: "string list \<Rightarrow> cfg_error option" where
  "validateSIPTransports ts =
     (if ts = [] then Some NoTransport
      else map_option BadTransport (List.find (\<lambda>t. t \<notin> set allowedSIPTransports) ts))"

definition validatePort :: "string \<Rightarrow> int \<Rightarrow> cfg_error option" where
  "validatePort name port = (if port < 1 \<or> port > 65535 then Some (BadPort name) else None)"

definition validateSTUN :: "config \<Rightarrow> cfg_error option" where
  "validateSTUN c =
     (if \<not> stunEnabled (cNAT c) then None
      else case validatePort ''nat.stun_port'' (stunPort (cNAT c)) of
        Some e \<Rightarrow> Some e
      | None \<Rightarrow> if stunPort (cNAT c) = bindPort (cServer c) then Some (PortClash ''nat.stun_port'')
                else None)"

definition validateNAT :: "config \<Rightarrow> cfg_error option" where
  "validateNAT c =
     (case validateSTUN c of
        Some e \<Rightarrow> Some e
      | None \<Rightarrow>
          if \<not> sipProxyEnabled (cNAT c) then None
          else (case validatePort ''nat.sip_proxy_port'' (sipProxyPort (cNAT c)) of
                  Some e \<Rightarrow> Some e
                | None \<Rightarrow>
                    if sipProxyPort (cNAT c) = bindPort (cServer c)
                    then Some (PortClash ''nat.sip_proxy_port'')
                    else if stunEnabled (cNAT c) \<and> sipProxyPort (cNAT c) = stunPort (cNAT c)
                    then Some (PortClash ''nat.sip_proxy_port'') else None))"

definition named_codes :: "feature_codes \<Rightarrow> (string \<times> string) list" where
  "named_codes f =
     [(''redial'', fcRedial f), (''call_return'', fcCallReturn f), (''transfer'', fcTransfer f),
      (''park'', fcPark f), (''park_retrieve'', fcParkRetrieve f),
      (''dnd_activate'', fcDNDActivate f), (''dnd_deactivate'', fcDNDDeactivate f)]"

fun check_codes :: "(string, string) gomap \<Rightarrow> (string \<times> string) list \<Rightarrow> cfg_error option" where
  "check_codes seen [] = None"
| "check_codes seen ((name, code) # rest) =
     (if \<not> has_prefix code ''*'' then Some (NoStar name)
      else case get seen code of
        Some prev \<Rightarrow> Some (DuplicateCode code prev name)
      | None \<Rightarrow> check_codes (put code name seen) rest)"

definition validateFeatures :: "config \<Rightarrow> cfg_error option \<times> config" where
  "validateFeatures c0 =
     (let c = c0\<lparr>cFeatures := setFeatureDefaults (cFeatures c0)\<rparr> in
      (case check_codes [] (named_codes (cFeatures c)) of
         Some e \<Rightarrow> Some e
       | None \<Rightarrow> if length (fcParkRetrieve (cFeatures c)) < 2 then Some BadParkRetrieve else None, c))"

datatype keepalive_mode = KeepOptions | KeepRegister | KeepOff

definition NormalizeTrunkKeepalive :: "string \<Rightarrow> keepalive_mode option" where
  "NormalizeTrunkKeepalive mode =
     (let m = to_lower (trim_space mode) in
      if m \<in> {'''', ''options''} then Some KeepOptions
      else if m = ''register'' then Some KeepRegister
      else if m \<in> {''off'', ''none'', ''disabled''} then Some KeepOff
      else None)"

definition check_trunk :: "int \<Rightarrow> trunk_config \<Rightarrow> cfg_error option" where
  "check_trunk minExpiry t =
     (case NormalizeTrunkKeepalive (tkKeepalive t) of
        None \<Rightarrow> Some (TrunkBadKeepalive (tkName t))
      | Some mode \<Rightarrow>
          if mode = KeepRegister \<and> tkUsername t = [] then Some (TrunkNeedsUser (tkName t))
          else if tkKeepaliveSeconds t < 0 then Some (TrunkNegKeepalive (tkName t))
          else if tkRegisterExpiry t < 0 then Some (TrunkNegExpiry (tkName t))
          else if 0 < tkRegisterExpiry t \<and> tkRegisterExpiry t < minExpiry
          then Some (TrunkShortExpiry (tkName t) minExpiry)
          else None)"

fun check_trunks :: "int \<Rightarrow> string list \<Rightarrow> trunk_config list \<Rightarrow> cfg_error option" where
  "check_trunks minExpiry seen [] = None"
| "check_trunks minExpiry seen (t # ts) =
     (if tkPrefix t = [] then Some (TrunkNoPrefix (tkName t))
      else if tkPrefix t \<in> set seen then Some (DuplicatePrefix (tkPrefix t))
      else case check_trunk minExpiry t of
        Some e \<Rightarrow> Some e
      | None \<Rightarrow> check_trunks minExpiry (tkPrefix t # seen) ts)"

definition Validate :: "config \<Rightarrow> (cfg_error, config) result" where
  "Validate c =
     (case validateSIPTransports (SIPTransports (cServer c)) of
        Some e \<Rightarrow> Err e
      | None \<Rightarrow>
      case validateNAT c of
        Some e \<Rightarrow> Err e
      | None \<Rightarrow>
      case validateFeatures c of
        (Some e, _) \<Rightarrow> Err e
      | (None, c1) \<Rightarrow>
      let c2 = c1\<lparr>cTones := TonesApplyDefaults (cTones c1)\<rparr> in
      if ParseRegion (tonesRegion (cTones c2)) = None then Err (BadRegion (tonesRegion (cTones c2)))
      else if regMaxExpiry (cServer c2) < regMinExpiry (cServer c2) then Err ExpiryOrder
      else if 10 < length (cTrunks c2) then Err TooManyTrunks
      else (case check_trunks (regMinExpiry (cServer c2)) [] (cTrunks c2) of
              Some e \<Rightarrow> Err e
            | None \<Rightarrow> Ok c2))"

datatype load_error = ReadFailed | DecodeFailed | Invalid cfg_error

text \<open>LoadConfig: the file system and the TOML decoder are arguments.\<close>
definition LoadConfig :: "(string \<Rightarrow> string option) \<Rightarrow> (string \<Rightarrow> config option) \<Rightarrow> string
    \<Rightarrow> (load_error, config) result" where
  "LoadConfig readFile decode path =
     (case readFile path of
        None \<Rightarrow> Err ReadFailed
      | Some txt \<Rightarrow>
      case decode txt of
        None \<Rightarrow> Err DecodeFailed
      | Some c \<Rightarrow> (case Validate (setDefaults c) of Inl e \<Rightarrow> Err (Invalid e) | Inr c' \<Rightarrow> Ok c'))"

section \<open>Trunks\<close>

definition TrunkByPrefix :: "config \<Rightarrow> string \<Rightarrow> trunk_config option" where
  "TrunkByPrefix c pre = List.find (\<lambda>t. tkEnabled t \<and> tkPrefix t = pre) (cTrunks c)"

definition TrunkByID :: "config \<Rightarrow> int \<Rightarrow> trunk_config option" where
  "TrunkByID c i = List.find (\<lambda>t. tkID t = i) (cTrunks c)"

definition EnabledTrunks :: "config \<Rightarrow> trunk_config list" where
  "EnabledTrunks c = filter tkEnabled (cTrunks c)"

text \<open>Durations in seconds.\<close>
definition KeepaliveInterval :: "trunk_config \<Rightarrow> int" where
  "KeepaliveInterval t = (if tkKeepaliveSeconds t \<le> 0 then 30 else tkKeepaliveSeconds t)"

definition RegisterExpiry :: "trunk_config \<Rightarrow> int" where
  "RegisterExpiry t = (if tkRegisterExpiry t \<le> 0 then 3600 else tkRegisterExpiry t)"

section \<open>Extension files\<close>

datatype dirent = IsDir | FileEnt string | Unreadable

definition complete_ext :: "int \<Rightarrow> string \<Rightarrow> extension \<Rightarrow> extension" where
  "complete_ext maxSim txt e =
     e\<lparr>exMaxCalls := dflt0 maxSim (exMaxCalls e),
       exDisplayName := dflt (exNumber e) (exDisplayName e),
       exEnabled := (if \<not> str_contains txt ''enabled'' then True else exEnabled e),
       exCallWaiting := (if \<not> str_contains txt ''call_waiting'' then True else exCallWaiting e)\<rparr>"

datatype ext_error = ExtUnreadable string | ExtDecode string | ExtMissing string | DirUnreadable

fun load_entries :: "(string \<Rightarrow> extension option) \<Rightarrow> int \<Rightarrow> (string, extension) gomap
    \<Rightarrow> (string \<times> dirent) list \<Rightarrow> (ext_error, (string, extension) gomap) result" where
  "load_entries decode maxSim out [] = Ok out"
| "load_entries decode maxSim out ((name, ent) # ents) =
     (if ent = IsDir \<or> Ext name \<noteq> ''.toml'' then load_entries decode maxSim out ents
      else case ent of
        FileEnt txt \<Rightarrow>
          (case decode txt of
             None \<Rightarrow> Err (ExtDecode name)
           | Some e \<Rightarrow>
               if exNumber e = [] then Err (ExtMissing name)
               else load_entries decode maxSim (put (exNumber e) (complete_ext maxSim txt e) out) ents)
      | _ \<Rightarrow> Err (ExtUnreadable name))"

text \<open>The directory: None when it does not exist, otherwise its entries (or None
  again when it cannot be listed).\<close>
definition LoadExtensions :: "(string \<Rightarrow> extension option) \<Rightarrow> (string \<times> dirent) list option option
    \<Rightarrow> int \<Rightarrow> (ext_error, (string, extension) gomap) result" where
  "LoadExtensions decode dir defaultMax =
     (let maxSim = (if defaultMax \<le> 0 then DefaultMaxCallsPerExtension else defaultMax) in
      case dir of
        None \<Rightarrow> Ok []
      | Some None \<Rightarrow> Err DirUnreadable
      | Some (Some ents) \<Rightarrow> load_entries decode maxSim [] ents)"

text \<open>SaveExtension and DeleteExtensionFile on the entries of the directory, for
  numbers that are file names.\<close>
definition SaveExtension :: "(extension \<Rightarrow> string) \<Rightarrow> extension \<Rightarrow> (string, dirent) gomap
    \<Rightarrow> (string, dirent) gomap" where
  "SaveExtension encode e dir = put (exNumber e @ ''.toml'') (FileEnt (encode e)) dir"

definition DeleteExtensionFile :: "string \<Rightarrow> (string, dirent) gomap \<Rightarrow> (string, dirent) gomap option" where
  "DeleteExtensionFile num dir =
     (if has dir (num @ ''.toml'') then Some (del (num @ ''.toml'') dir) else None)"

section \<open>Lemmas\<close>

lemma trim_right_of_trimmed: "trim_space s = s \<Longrightarrow> trim_right s = s"
  by (metis trim_right_idem trim_space_def)

lemma trim_space_star: "trim_space s = s \<Longrightarrow> trim_space (CHR ''*'' # s) = CHR ''*'' # s"
  using trim_right_of_trimmed [of s]
  by (auto simp: trim_space_def trim_left_def trim_right_Cons is_space_def)

lemma normalizeStarCode_trim [simp]: "trim_space (normalizeStarCode s) = normalizeStarCode s"
  by (simp add: normalizeStarCode_def Let_def trim_space_star)

lemma feature_table_trimmed:
  "(code, k) \<in> set (feature_table (setFeatureDefaults f)) \<Longrightarrow> trim_space code = code"
  by (auto simp: feature_table_def setFeatureDefaults_def Let_def)

lemma check_codes_ok:
  "check_codes seen codes = None \<Longrightarrow>
     distinct (vals codes) \<and> (\<forall>code \<in> set (vals codes). has_prefix code ''*'' \<and> get seen code = None)"
proof (induction seen codes rule: check_codes.induct)
  case (2 seen name code rest)
  from 2(2) have h: "has_prefix code ''*''" "get seen code = None"
    "check_codes (put code name seen) rest = None" by (auto split: if_splits option.splits)
  from 2(1) [OF _ h(2,3)] h(1) have "distinct (vals rest)"
    "\<forall>c \<in> set (vals rest). has_prefix c ''*'' \<and> get (put code name seen) c = None" by auto
  with h(1,2) show ?case by (auto split: if_splits)
qed simp

lemma check_trunks_ok:
  "check_trunks m seen ts = None \<Longrightarrow>
     distinct (List.map tkPrefix ts)
     \<and> (\<forall>t \<in> set ts. tkPrefix t \<noteq> [] \<and> tkPrefix t \<notin> set seen \<and> check_trunk m t = None)"
proof (induction m seen ts rule: check_trunks.induct)
  case (2 m seen t ts)
  from 2(2) have h: "tkPrefix t \<noteq> []" "tkPrefix t \<notin> set seen" "check_trunk m t = None"
    "check_trunks m (tkPrefix t # seen) ts = None" by (auto split: if_splits option.splits)
  from 2(1) [OF h] h show ?case by auto
qed simp

lemma Validate_ok:
  assumes "Validate c = Ok c'"
  shows "c' = c\<lparr>cFeatures := setFeatureDefaults (cFeatures c), cTones := TonesApplyDefaults (cTones c)\<rparr>"
    "check_codes [] (named_codes (cFeatures c')) = None"
    "check_trunks (regMinExpiry (cServer c')) [] (cTrunks c') = None" "length (cTrunks c') \<le> 10"
    "regMinExpiry (cServer c') \<le> regMaxExpiry (cServer c')"
    "validateNAT c' = None" "validateSIPTransports (SIPTransports (cServer c')) = None"
proof -
  let ?c1 = "c\<lparr>cFeatures := setFeatureDefaults (cFeatures c)\<rparr>"
  let ?c2 = "?c1\<lparr>cTones := TonesApplyDefaults (cTones ?c1)\<rparr>"
  have t: "validateSIPTransports (SIPTransports (cServer c)) = None" "validateNAT c = None"
    "fst (validateFeatures c) = None"
    using assms by (auto simp: Validate_def split: option.splits prod.splits)
  have f: "snd (validateFeatures c) = ?c1" "check_codes [] (named_codes (cFeatures ?c1)) = None"
    using t(3) by (auto simp: validateFeatures_def Let_def split: option.splits)
  then have v: "validateFeatures c = (None, ?c1)" using t(3) by (cases "validateFeatures c") simp
  have e: "c' = ?c2" "check_trunks (regMinExpiry (cServer ?c2)) [] (cTrunks ?c2) = None"
    "length (cTrunks ?c2) \<le> 10" "regMinExpiry (cServer ?c2) \<le> regMaxExpiry (cServer ?c2)"
    using assms by (simp_all add: Validate_def t v Let_def split: option.splits if_splits)
  have same: "cNAT ?c2 = cNAT c" "cServer ?c2 = cServer c" by simp_all
  have "validateNAT ?c2 = validateNAT c" unfolding validateNAT_def validateSTUN_def same ..
  with e t f show "c' = c\<lparr>cFeatures := setFeatureDefaults (cFeatures c), cTones := TonesApplyDefaults (cTones c)\<rparr>"
    "check_codes [] (named_codes (cFeatures c')) = None"
    "check_trunks (regMinExpiry (cServer c')) [] (cTrunks c') = None" "length (cTrunks c') \<le> 10"
    "regMinExpiry (cServer c') \<le> regMaxExpiry (cServer c')"
    "validateNAT c' = None" "validateSIPTransports (SIPTransports (cServer c')) = None" by simp_all
qed

lemma find_distinct:
  "distinct (List.map f xs) \<Longrightarrow> x \<in> set xs \<Longrightarrow> P x \<Longrightarrow> List.find (\<lambda>y. P y \<and> f y = f x) xs = Some x"
  by (induction xs) (auto simp: image_iff)

lemma feature_codes_named: "vals (named_codes f) = keys (feature_table f)"
  by (simp add: named_codes_def feature_table_def)

lemma after_last_append: "c \<notin> set b \<Longrightarrow> after_last c (a @ c # b) = b"
  by (induction b rule: rev_induct) (auto simp: after_last_def)

lemma after_last_none: "c \<notin> set b \<Longrightarrow> after_last c b = b"
  by (induction b rule: rev_induct) (auto simp: after_last_def)

lemma Ext_toml: "slash \<notin> set n \<Longrightarrow> Ext (n @ ''.toml'') = ''.toml''"
  using after_last_append [of "CHR ''.''" "''toml''" n]
  by (simp add: Ext_def after_last_none slash_def)

lemma load_entries_keeps:
  "load_entries decode m out ents = Ok out' \<Longrightarrow>
     \<forall>n txt e'. (n, FileEnt txt) \<in> set ents \<longrightarrow> decode txt = Some e' \<longrightarrow> exNumber e' \<noteq> num \<Longrightarrow>
     get out' num = get out num"
proof (induction decode m out ents rule: load_entries.induct)
  case (2 decode m out name ent ents)
  show ?case
  proof (cases "ent = IsDir \<or> Ext name \<noteq> ''.toml''")
    case True
    with 2 show ?thesis by simp
  next
    case False
    with 2(3) obtain body e where e: "ent = FileEnt body" "decode body = Some e" "exNumber e \<noteq> []"
      "load_entries decode m (put (exNumber e) (complete_ext m body e) out) ents = Ok out'"
      by (auto split: dirent.splits option.splits if_splits)
    have "exNumber e \<noteq> num" using 2(4) e by auto
    with 2(2) [OF False e(1-3) e(4)] 2(4) show ?thesis by simp
  qed
qed simp

lemma load_entries_append:
  "load_entries decode m out (xs @ ys) =
     (case load_entries decode m out xs of Inl e \<Rightarrow> Err e | Inr out' \<Rightarrow> load_entries decode m out' ys)"
  by (induction decode m out xs rule: load_entries.induct) (auto split: dirent.splits option.splits)

lemma complete_ext_simps [simp]: "exNumber (complete_ext m txt e) = exNumber e"
  by (simp add: complete_ext_def)

text \<open>What holds of every extension that is loaded.\<close>
definition ext_ok :: "string \<times> extension \<Rightarrow> bool" where
  "ext_ok p = (exNumber (snd p) = fst p \<and> fst p \<noteq> [] \<and> exDisplayName (snd p) \<noteq> [] \<and> exMaxCalls (snd p) \<noteq> 0)"

lemma ext_ok_complete: "exNumber e \<noteq> [] \<Longrightarrow> 0 < m \<Longrightarrow> ext_ok (exNumber e, complete_ext m body e)"
  by (simp add: ext_ok_def complete_ext_def dflt_def dflt0_def)

lemma set_put_subset: "set (put k v m) \<subseteq> insert (k, v) (set m)"
  by (induction m) auto

lemma load_entries_inv:
  "load_entries decode m out ents = Ok out' \<Longrightarrow> 0 < m \<Longrightarrow>
   \<forall>p \<in> set out. ext_ok p \<Longrightarrow>
   distinct (keys out) \<Longrightarrow>
   distinct (keys out') \<and>
   (\<forall>p \<in> set out'. ext_ok p)"
proof (induction decode m out ents rule: load_entries.induct)
  case (2 decode m out name ent ents)
  show ?case
  proof (cases "ent = IsDir \<or> Ext name \<noteq> ''.toml''")
    case True
    with 2 show ?thesis by simp
  next
    case False
    with 2(3) obtain body e where e: "ent = FileEnt body" "decode body = Some e" "exNumber e \<noteq> []"
      "load_entries decode m (put (exNumber e) (complete_ext m body e) out) ents = Ok out'"
      by (auto split: dirent.splits option.splits if_splits)
    let ?out = "put (exNumber e) (complete_ext m body e) out"
    have "\<forall>p \<in> set ?out. ext_ok p"
      using 2(5) ext_ok_complete [OF e(3) 2(4)] set_put_subset by fast
    with 2(2) [OF False e(1-3) e(4) 2(4)] 2(6) show ?thesis by blast
  qed
qed simp

lemma RouteDial_prefix_form:
  "rKind (RouteDial d fc) = KindTrunk \<Longrightarrow> \<exists>b. is_digit b \<and> rPrefix (RouteDial d fc) = [CHR ''9'', b]"
proof -
  assume k: "rKind (RouteDial d fc) = KindTrunk"
  let ?t = "trim_space d"
  have t: "2 < length ?t" "?t ! 0 = CHR ''9''" "is_digit (?t ! 1)"
    using k RouteDial_trunk_conv [of d fc] by blast+
  have "take 2 ?t = [?t ! 0, ?t ! 1]" using t(1) by (cases ?t; cases "tl ?t") auto
  then have "rPrefix (RouteDial d fc) = [CHR ''9'', ?t ! 1]"
    using RouteDial_trunk [OF refl t] t(2) by simp
  with t(3) show ?thesis by blast
qed

lemma RouteDial_prefix_reached:
  "is_digit b \<Longrightarrow> RouteDial [CHR ''9'', b, CHR ''1''] fc
     = \<lparr>rKind = KindTrunk, rTarget = [CHR ''9'', b, CHR ''1''], rPrefix = [CHR ''9'', b], rRest = ''1''\<rparr>"
proof -
  assume b: "is_digit b"
  have "trim_space [CHR ''9'', b, CHR ''1''] = [CHR ''9'', b, CHR ''1'']"
    using is_digit_not_space [OF b] by (intro trim_space_id) (auto simp: is_space_def)
  from RouteDial_trunk [OF this] b show ?thesis by (simp add: numeral_2_eq_2)
qed

text \<open>Star codes survive validation. In every configuration Validate accepts,
  the seven feature codes are distinct, start with a star, have no blanks
  around them, and dialling one of them reaches exactly its feature.\<close>
theorem validated_codes_route:
  assumes "Validate c = Ok c'"
  shows "distinct (keys (feature_table (cFeatures c')))
    \<and> (\<forall>(code, k) \<in> set (feature_table (cFeatures c')).
         has_prefix code ''*'' \<and> RouteDial code (cFeatures c') = route_of k [])"
proof -
  note v = Validate_ok [OF assms]
  have codes: "distinct (keys (feature_table (cFeatures c')))"
    "\<forall>code \<in> set (keys (feature_table (cFeatures c'))). has_prefix code ''*''"
    using check_codes_ok [OF v(2)] unfolding feature_codes_named by blast+
  have "RouteDial code (cFeatures c') = route_of k []"
    if "(code, k) \<in> set (feature_table (cFeatures c'))" for code k
  proof -
    have "code \<in> set (keys (feature_table (cFeatures c')))" using that by force
    with codes(2) obtain r where r: "code = CHR ''*'' # r" by (auto simp: has_prefix_iff)
    have "trim_space code = code" using feature_table_trimmed that v(1) by simp
    with r have "RouteDial code (cFeatures c') = route_star code (cFeatures c')"
      using RouteDial_star by metis
    with route_star_feature [OF codes(1) that] show ?thesis by simp
  qed
  with codes show ?thesis by force
qed

definition empty_config :: config where
  "empty_config =
     \<lparr>cServer = \<lparr>bindHost = [], bindPort = 0, transport = [], transports = [], externalHost = [],
        realm = [], mohDir = [], mohFile = [], optionsKeepalive = 0, trunkKeepalive = 0,
        regMinExpiry = 0, regMaxExpiry = 0, preserveContact = False\<rparr>,
      cNAT = \<lparr>stunEnabled = False, stunBindHost = [], stunPort = 0, sipProxyEnabled = False,
        sipProxyPort = 0\<rparr>,
      cLogLevel = [], cCodecs = [],
      cLimits = \<lparr>maxCalls = 0, maxExtensions = 0, maxCallsPerExt = 0, dialTimeout = 0, ringTimeout = 0\<rparr>,
      cWeb = \<lparr>webListen = [], sessionSecret = [], sessionTTL = 0\<rparr>,
      cDatabasePath = [], cExtensionsDir = [], cPhonebookDir = [],
      cFeatures = \<lparr>fcRedial = [], fcCallReturn = [], fcTransfer = ''70 '', fcPark = [],
        fcParkRetrieve = [], fcDNDActivate = [], fcDNDDeactivate = []\<rparr>,
      cSounds = \<lparr>sndDir = [], sndBusy = [], sndWrongNumber = [], sndConfPIN = [], sndConfPINBad = [],
        sndUnavailable = [], sndExtension = []\<rparr>,
      cTones = \<lparr>tonesRegion = [], tonesBusySeconds = 0\<rparr>, cTrunks = [], cUsers = []\<rparr>"

definition demo_trunk :: trunk_config where
  "demo_trunk = \<lparr>tkID = 0, tkName = ''out'', tkPrefix = ''8'', tkServer = ''sip.example'', tkUsername = [],
     tkPassword = [], tkTransport = [], tkKeepalive = [], tkKeepaliveSeconds = 0, tkRegisterExpiry = 0,
     tkEnabled = True\<rparr>"

lemma empty_config_valid: "\<exists>c'. Validate (setDefaults empty_config) = Ok c' \<and> fcTransfer (cFeatures c') = ''*70''"
proof -
  have "(case Validate (setDefaults empty_config) of Inl _ \<Rightarrow> False
    | Inr c' \<Rightarrow> fcTransfer (cFeatures c') = ''*70'')" by code_simp
  then show ?thesis by (auto split: sum.splits)
qed

lemma validated_codes_route_witness:
  "\<exists>c'. Validate (setDefaults empty_config) = Ok c' \<and> RouteDial ''*70'' (cFeatures c') = route_of KindTransfer []"
proof -
  obtain c' where c': "Validate (setDefaults empty_config) = Ok c'" "fcTransfer (cFeatures c') = ''*70''"
    using empty_config_valid by blast
  have "(''*70'', KindTransfer) \<in> set (feature_table (cFeatures c'))" by (simp add: feature_table_def c')
  with validated_codes_route [OF c'(1)] c'(1) show ?thesis by blast
qed

text \<open>Which trunks can be reached. In a configuration Validate accepts, the
  trunk prefixes are distinct, so the lookup by prefix finds every enabled
  trunk; but some dialled number leads to a trunk only when its prefix is a 9
  and a digit.  Validate does not check this: it accepts a trunk no call can
  ever use.\<close>
theorem validated_trunk_reachable:
  assumes "Validate c = Ok c'" "t \<in> set (cTrunks c')" "tkEnabled t"
  shows "TrunkByPrefix c' (tkPrefix t) = Some t
    \<and> ((\<exists>d. rKind (RouteDial d fc) = KindTrunk \<and> rPrefix (RouteDial d fc) = tkPrefix t)
        \<longleftrightarrow> (\<exists>b. is_digit b \<and> tkPrefix t = [CHR ''9'', b]))"
proof -
  have d: "distinct (List.map tkPrefix (cTrunks c'))"
    using check_trunks_ok [OF Validate_ok(3) [OF assms(1)]] by simp
  have "TrunkByPrefix c' (tkPrefix t) = Some t"
    unfolding TrunkByPrefix_def using find_distinct [OF d assms(2), of tkEnabled] assms(3) .
  moreover have "\<exists>d. rKind (RouteDial d fc) = KindTrunk \<and> rPrefix (RouteDial d fc) = tkPrefix t"
    if "is_digit b" "tkPrefix t = [CHR ''9'', b]" for b
    using RouteDial_prefix_reached [OF that(1), of fc] that(2)
    by (intro exI [of _ "[CHR ''9'', b, CHR ''1'']"]) simp
  moreover have "\<exists>b. is_digit b \<and> tkPrefix t = [CHR ''9'', b]"
    if "rKind (RouteDial d fc) = KindTrunk" "rPrefix (RouteDial d fc) = tkPrefix t" for d
    using RouteDial_prefix_form [OF that(1)] that(2) by auto
  ultimately show ?thesis by blast
qed

lemma validated_trunk_reachable_witness:
  "\<exists>c' t. Validate (setDefaults (empty_config\<lparr>cTrunks := [demo_trunk]\<rparr>)) = Ok c' \<and> t \<in> set (cTrunks c')
     \<and> tkEnabled t \<and> (\<nexists>d. rKind (RouteDial d DefaultFeatureCodes) = KindTrunk
                            \<and> rPrefix (RouteDial d DefaultFeatureCodes) = tkPrefix t)"
proof -
  have "(case Validate (setDefaults (empty_config\<lparr>cTrunks := [demo_trunk]\<rparr>)) of Inl _ \<Rightarrow> False
    | Inr c' \<Rightarrow> List.map (\<lambda>t. (tkPrefix t, tkEnabled t)) (cTrunks c') = [(''8'', True)])" by code_simp
  then obtain c' t where c': "Validate (setDefaults (empty_config\<lparr>cTrunks := [demo_trunk]\<rparr>)) = Ok c'"
    "cTrunks c' = [t]" "tkPrefix t = ''8''" "tkEnabled t"
    by (auto split: sum.splits)
  with validated_trunk_reachable [OF c'(1), of t DefaultFeatureCodes] show ?thesis
    by (intro exI [of _ c'] exI [of _ t]) simp
qed

text \<open>The file of an extension is found among the entries of a directory when no other file holds
  its number.\<close>
lemma load_entries_finds:
  assumes "decode body = Some e" "exNumber e \<noteq> []" "slash \<notin> set (exNumber e)" "distinct (keys ents)"
    and f: "(exNumber e @ ''.toml'', FileEnt body) \<in> set ents"
    and other: "\<forall>n b e'. (n, FileEnt b) \<in> set ents \<longrightarrow> n \<noteq> exNumber e @ ''.toml'' \<longrightarrow>
        decode b = Some e' \<longrightarrow> exNumber e' \<noteq> exNumber e"
    and l: "load_entries decode m [] ents = Ok out"
  shows "get out (exNumber e) = Some (complete_ext m body e)"
proof -
  let ?n = "exNumber e @ ''.toml''"
  obtain xs ys where sp: "ents = xs @ (?n, FileEnt body) # ys" using f by (meson split_list)
  then have nin: "?n \<notin> set (keys ys)" using assms(4) by auto
  have ys: "\<forall>n b e'. (n, FileEnt b) \<in> set ys \<longrightarrow> decode b = Some e' \<longrightarrow> exNumber e' \<noteq> exNumber e"
  proof (intro allI impI)
    fix n b e' assume a: "(n, FileEnt b) \<in> set ys" "decode b = Some e'"
    have "n \<noteq> ?n" using a(1) nin by force
    then show "exNumber e' \<noteq> exNumber e" using other a sp by auto
  qed
  obtain mid where "load_entries decode m (put (exNumber e) (complete_ext m body e) mid) ys = Ok out"
    using l assms(1,2) Ext_toml [OF assms(3)] unfolding sp load_entries_append by (auto split: sum.splits)
  from load_entries_keeps [OF this ys] show ?thesis by simp
qed

text \<open>Saving an extension and loading it back. When the decoder reads what the
  encoder wrote and no other file of the directory holds the same number,
  the loaded map gives the extension for its number, its defaults completed;
  and whatever the directory holds, every loaded extension is filed under its
  own number, with a display name and a call limit other than zero.\<close>
theorem extension_round_trip:
  assumes "decode (encode e) = Some e" "exNumber e \<noteq> []" "slash \<notin> set (exNumber e)"
    and other: "\<forall>n body e'. (n, FileEnt body) \<in> set dir \<longrightarrow> n \<noteq> exNumber e @ ''.toml'' \<longrightarrow>
        decode body = Some e' \<longrightarrow> exNumber e' \<noteq> exNumber e"
    and dist: "distinct (keys dir)"
    and load: "LoadExtensions decode (Some (Some (SaveExtension encode e dir))) maxSim = Ok out"
  shows "get out (exNumber e)
      = Some (complete_ext (if maxSim \<le> 0 then DefaultMaxCallsPerExtension else maxSim) (encode e) e)
    \<and> (\<forall>p \<in> set out. ext_ok p)"
proof -
  let ?m = "if maxSim \<le> 0 then DefaultMaxCallsPerExtension else maxSim"
  let ?n = "exNumber e @ ''.toml''" and ?f = "FileEnt (encode e)"
  have l: "load_entries decode ?m [] (put ?n ?f dir) = Ok out"
    using load by (simp add: LoadExtensions_def SaveExtension_def Let_def)
  have "(?n, ?f) \<in> set (put ?n ?f dir)" by (metis get_put map_of_SomeD)
  moreover have "\<forall>n b e'. (n, FileEnt b) \<in> set (put ?n ?f dir) \<longrightarrow> n \<noteq> ?n \<longrightarrow> decode b = Some e' \<longrightarrow> exNumber e' \<noteq> exNumber e"
    using other set_put_subset [of ?n ?f dir] by blast
  ultimately have "get out (exNumber e) = Some (complete_ext ?m (encode e) e)"
    by (intro load_entries_finds [OF assms(1-3) distinct_put [OF dist] _ _ l])
  moreover have "0 < ?m" by (simp add: DefaultMaxCallsPerExtension_def)
  then have "\<forall>p \<in> set out. ext_ok p" using load_entries_inv [OF l] by simp
  ultimately show ?thesis by blast
qed

definition demo_ext :: extension where
  "demo_ext = \<lparr>exNumber = ''101'', exDisplayName = [], exPassword = ''pw'', exEnabled = False,
     exCallWaiting = False, exMaxCalls = 0, exVideo = False, exVoicemail = False, exDND = False\<rparr>"

lemma extension_round_trip_witness:
  "\<exists>out. LoadExtensions (\<lambda>b. if b = ''x'' then Some demo_ext else None)
       (Some (Some (SaveExtension (\<lambda>_. ''x'') demo_ext []))) 0 = Ok out
     \<and> get out ''101'' = Some (complete_ext 5 ''x'' demo_ext)"
proof -
  have l: "LoadExtensions (\<lambda>b. if b = ''x'' then Some demo_ext else None)
       (Some (Some (SaveExtension (\<lambda>_. ''x'') demo_ext []))) 0
     = Ok [(''101'', complete_ext 5 ''x'' demo_ext)]" by code_simp
  have "slash \<notin> set (exNumber demo_ext)" "exNumber demo_ext \<noteq> []" by code_simp+
  with extension_round_trip [OF _ _ _ _ _ l] l show ?thesis
    by (simp add: DefaultMaxCallsPerExtension_def demo_ext_def)
qed

end
