(* ===== verification/Contracts.thy ===== *)
theory Contracts
  imports Prelude
begin

text \<open>
  The contract of a table with one entry for each key, which several components
  keep behind a lock (park slots, registered contacts, last dialled numbers)
  and others call: what a lookup returns after a store and after a removal.
  What a client may conclude is proved once here, for every sequence of
  operations.
\<close>

datatype ('k, 'v) kv_op = Store 'k 'v | Remove 'k

fun op_key :: "('k, 'v) kv_op \<Rightarrow> 'k" where
  "op_key (Store k v) = k"
| "op_key (Remove k) = k"

fun op_val :: "('k, 'v) kv_op \<Rightarrow> 'v option" where
  "op_val (Store k v) = Some v"
| "op_val (Remove k) = None"

fun run_kv :: "('k \<Rightarrow> 'v \<Rightarrow> 's \<Rightarrow> 's) \<Rightarrow> ('k \<Rightarrow> 's \<Rightarrow> 's) \<Rightarrow> ('k, 'v) kv_op list \<Rightarrow> 's \<Rightarrow> 's" where
  "run_kv store remove [] s = s"
| "run_kv store remove (Store k v # ops) s = run_kv store remove ops (store k v s)"
| "run_kv store remove (Remove k # ops) s = run_kv store remove ops (remove k s)"

text \<open>The operations on one key, the last one first.\<close>
definition ops_on :: "'k \<Rightarrow> ('k, 'v) kv_op list \<Rightarrow> ('k, 'v) kv_op list" where
  "ops_on k ops = filter (\<lambda>p. op_key p = k) (rev ops)"

locale kv_table =
  fixes lookup :: "'s \<Rightarrow> 'k \<Rightarrow> 'v option"
    and store :: "'k \<Rightarrow> 'v \<Rightarrow> 's \<Rightarrow> 's"
    and remove :: "'k \<Rightarrow> 's \<Rightarrow> 's"
    and invar :: "'s \<Rightarrow> bool"
  assumes invar_store: "invar s \<Longrightarrow> invar (store k v s)"
    and invar_remove: "invar s \<Longrightarrow> invar (remove k s)"
    and lookup_store: "invar s \<Longrightarrow> lookup (store k v s) k' = (if k' = k then Some v else lookup s k')"
    and lookup_remove: "invar s \<Longrightarrow> lookup (remove k s) k' = (if k' = k then None else lookup s k')"
begin

lemma invar_run: "invar s \<Longrightarrow> invar (run_kv store remove ops s)"
proof (induction ops arbitrary: s)
  case (Cons p ops)
  then show ?case by (cases p) (auto simp: invar_store invar_remove)
qed simp

lemma run_append:
  "run_kv store remove (xs @ ys) s = run_kv store remove ys (run_kv store remove xs s)"
proof (induction xs arbitrary: s)
  case (Cons p xs)
  then show ?case by (cases p) auto
qed simp

text \<open>A lookup sees the last operation on its key, and nothing else.\<close>
lemma lookup_run:
  "invar s \<Longrightarrow> lookup (run_kv store remove ops s) k =
     (case ops_on k ops of [] \<Rightarrow> lookup s k | p # _ \<Rightarrow> op_val p)"
proof (induction ops rule: rev_induct)
  case (snoc p ops)
  have "invar (run_kv store remove ops s)" using snoc.prems by (rule invar_run)
  with snoc show ?case
    by (cases p) (auto simp: run_append ops_on_def lookup_store lookup_remove)
qed (simp add: ops_on_def)

end

text \<open>A table that also lists its keys.\<close>
locale kv_listing = kv_table lookup store remove invar
  for lookup :: "'s \<Rightarrow> 'k \<Rightarrow> 'v option"
    and store :: "'k \<Rightarrow> 'v \<Rightarrow> 's \<Rightarrow> 's"
    and remove :: "'k \<Rightarrow> 's \<Rightarrow> 's"
    and invar :: "'s \<Rightarrow> bool" +
  fixes listing :: "'s \<Rightarrow> 'k list"
  assumes listing_keys: "invar s \<Longrightarrow> k \<in> set (listing s) \<longleftrightarrow> lookup s k \<noteq> None"
    and listing_distinct: "invar s \<Longrightarrow> distinct (listing s)"
begin

lemma listing_store: "invar s \<Longrightarrow> set (listing (store k v s)) = insert k (set (listing s))"
  using listing_keys [OF invar_store] listing_keys by (auto simp: lookup_store split: if_splits)

lemma listing_remove: "invar s \<Longrightarrow> set (listing (remove k s)) = set (listing s) - {k}"
  using listing_keys [OF invar_remove] listing_keys by (auto simp: lookup_remove split: if_splits)

lemma length_listing_store:
  "invar s \<Longrightarrow> length (listing (store k v s))
     = (if lookup s k = None then Suc (length (listing s)) else length (listing s))"
  using distinct_card [OF listing_distinct [OF invar_store, of s k v]] distinct_card [OF listing_distinct, of s]
    listing_store [of s k v] listing_keys [of s k]
  by (auto simp: card_insert_if)

end

text \<open>A Go map keeps the contract.\<close>
interpretation gomap: kv_listing "\<lambda>m. get m" put del "\<lambda>m. distinct (keys m)" keys
proof
  show "k \<in> set (keys s) \<longleftrightarrow> get s k \<noteq> None" if "distinct (keys s)" for k and s :: "('a \<times> 'b) list"
    using has_iff_key [of s k] by blast
qed (auto simp: distinct_update distinct_delete)

end
