(* ===== verification/Store.thy ===== *)
theory Store
  imports Contracts "HOL-Library.Multiset"
begin

text \<open>
  The server's database of internal/store: web users, hunt groups and their
  members, conferences, paging groups, inbound trunk routes, the last numbers of
  each extension, the phonebook, the call log and the messages kept for
  unregistered recipients.  A table is the list of its rows in the order of
  their ids; AUTOINCREMENT never gives an id twice.  Each operation does what its
  SQL statement says, with a violated UNIQUE constraint as an error.  The
  database itself does not fail here, bcrypt is an argument, and a time is its
  RFC 3339 text in UTC.
\<close>

section \<open>Tables\<close>

record 'r table =
  tbRows :: "(int \<times> 'r) list"
  tbNext :: int

definition no_rows :: "'r table" where
  "no_rows = \<lparr>tbRows = [], tbNext = 1\<rparr>"

datatype db_error = UniqueViolation | HashFailed

definition row_insert :: "'r \<Rightarrow> 'r table \<Rightarrow> 'r table" where
  "row_insert r t = t\<lparr>tbRows := tbRows t @ [(tbNext t, r)], tbNext := tbNext t + 1\<rparr>"

text \<open>INSERT into a table with a UNIQUE column.\<close>
definition row_add :: "('r \<Rightarrow> 'k) \<Rightarrow> 'r \<Rightarrow> 'r table \<Rightarrow> (db_error, 'r table) result" where
  "row_add key r t =
     (if \<exists>p \<in> set (tbRows t). key (snd p) = key r then Err UniqueViolation else Ok (row_insert r t))"

text \<open>UPDATE ... WHERE id=?, without and with a UNIQUE column.\<close>
definition row_set :: "int \<Rightarrow> ('r \<Rightarrow> 'r) \<Rightarrow> 'r table \<Rightarrow> 'r table" where
  "row_set i f t = t\<lparr>tbRows := List.map (\<lambda>p. if fst p = i then (i, f (snd p)) else p) (tbRows t)\<rparr>"

definition row_update :: "('r \<Rightarrow> 'k) \<Rightarrow> int \<Rightarrow> ('r \<Rightarrow> 'r) \<Rightarrow> 'r table \<Rightarrow> (db_error, 'r table) result" where
  "row_update key i f t =
     (case get (tbRows t) i of
        None \<Rightarrow> Ok t
      | Some r \<Rightarrow>
          if \<exists>p \<in> set (tbRows t). fst p \<noteq> i \<and> key (snd p) = key (f r) then Err UniqueViolation
          else Ok (row_set i f t))"

text \<open>INSERT ... ON CONFLICT DO UPDATE on a UNIQUE column.\<close>
definition row_upsert :: "('r \<Rightarrow> 'k) \<Rightarrow> 'r \<Rightarrow> ('r \<Rightarrow> 'r) \<Rightarrow> 'r table \<Rightarrow> 'r table" where
  "row_upsert key r f t =
     (if \<exists>p \<in> set (tbRows t). key (snd p) = key r
      then t\<lparr>tbRows := List.map (\<lambda>p. if key (snd p) = key r then (fst p, f (snd p)) else p) (tbRows t)\<rparr>
      else row_insert r t)"

definition row_delete :: "(int \<times> 'r \<Rightarrow> bool) \<Rightarrow> 'r table \<Rightarrow> 'r table" where
  "row_delete P t = t\<lparr>tbRows := filter (\<lambda>p. \<not> P p) (tbRows t)\<rparr>"

definition row_find :: "('r \<Rightarrow> 'k) \<Rightarrow> 'k \<Rightarrow> 'r table \<Rightarrow> (int \<times> 'r) option" where
  "row_find key k t = List.find (\<lambda>p. key (snd p) = k) (tbRows t)"

text \<open>ORDER BY: a stable sort.\<close>
fun insert_by :: "('a \<Rightarrow> 'a \<Rightarrow> bool) \<Rightarrow> 'a \<Rightarrow> 'a list \<Rightarrow> 'a list" where
  "insert_by le x [] = [x]"
| "insert_by le x (y # ys) = (if le x y then x # y # ys else y # insert_by le x ys)"

fun sort_by :: "('a \<Rightarrow> 'a \<Rightarrow> bool) \<Rightarrow> 'a list \<Rightarrow> 'a list" where
  "sort_by le [] = []"
| "sort_by le (x # xs) = insert_by le x (sort_by le xs)"

section \<open>Rows\<close>

record stored_user =
  suUsername :: string
  suPasswordHash :: string
  suRole :: string

record hunt_group =
  hgName :: string
  hgNumber :: string
  hgStrategy :: string
  hgRingTimeout :: int
  hgEnabled :: bool

record hunt_member =
  hmGroup :: int
  hmExtension :: string
  hmPriority :: int

record conference =
  cfName :: string
  cfNumber :: string
  cfPINHash :: string
  cfMax :: int
  cfEnabled :: bool

record paging_group =
  pgName :: string
  pgCode :: string
  pgMode :: string
  pgMulticastAddress :: string
  pgChannel :: int
  pgEnabled :: bool

record paging_member =
  pmGroup :: int
  pmExtension :: string

record trunk_route =
  trTrunkID :: int
  trRouteType :: string
  trRouteTarget :: string

record extension_history =
  ehLastDialed :: string
  ehLastCaller :: string

record phonebook_entry =
  pbName :: string
  pbNumber :: string
  pbLabel :: string

record call_log_entry =
  clStartedAt :: string
  clCaller :: string
  clCallee :: string
  clCallerName :: string
  clDirection :: string
  clTrunkName :: string
  clTrunkPrefix :: string

record offline_message =
  omRecipient :: string
  omSender :: string
  omContentType :: string
  omBody :: string
  omCreatedAt :: string
  omDeliveredAt :: "string option"

record db =
  dbWebUsers :: "stored_user table"
  dbHuntGroups :: "hunt_group table"
  dbHuntMembers :: "hunt_member table"
  dbConferences :: "conference table"
  dbPagingGroups :: "paging_group table"
  dbPagingMembers :: "paging_member table"
  dbTrunkRoutes :: "(int, trunk_route) gomap"
  dbHistory :: "(string, extension_history) gomap"
  dbPhonebook :: "phonebook_entry table"
  dbCallLog :: "call_log_entry table"
  dbOffline :: "offline_message table"

definition empty_db :: db where
  "empty_db = \<lparr>dbWebUsers = no_rows, dbHuntGroups = no_rows, dbHuntMembers = no_rows,
     dbConferences = no_rows, dbPagingGroups = no_rows, dbPagingMembers = no_rows,
     dbTrunkRoutes = [], dbHistory = [], dbPhonebook = no_rows, dbCallLog = no_rows, dbOffline = no_rows\<rparr>"

abbreviation hunt_rows :: "db \<Rightarrow> (int \<times> hunt_group) list" where "hunt_rows d \<equiv> tbRows (dbHuntGroups d)"
abbreviation offline_rows :: "db \<Rightarrow> (int \<times> offline_message) list" where "offline_rows d \<equiv> tbRows (dbOffline d)"

section \<open>Web users\<close>

definition seedDefaultAdmin :: "(string \<Rightarrow> string option) \<Rightarrow> db \<Rightarrow> (db_error, db) result" where
  "seedDefaultAdmin hash d =
     (if tbRows (dbWebUsers d) \<noteq> [] then Ok d
      else case hash ''admin'' of
        None \<Rightarrow> Err HashFailed
      | Some h \<Rightarrow> map_sum (\<lambda>e. e) (\<lambda>t. d\<lparr>dbWebUsers := t\<rparr>)
          (row_add suUsername \<lparr>suUsername = ''admin'', suPasswordHash = h, suRole = ''admin''\<rparr> (dbWebUsers d)))"

definition UpsertWebUser :: "string \<Rightarrow> string \<Rightarrow> string \<Rightarrow> db \<Rightarrow> db" where
  "UpsertWebUser username passwordHash role d =
     d\<lparr>dbWebUsers := row_upsert suUsername
         \<lparr>suUsername = username, suPasswordHash = passwordHash, suRole = role\<rparr>
         (\<lambda>u. u\<lparr>suPasswordHash := passwordHash, suRole := role\<rparr>) (dbWebUsers d)\<rparr>"

text \<open>SyncWebUsers stops at the first password it cannot hash, keeping the users
  written before it.\<close>
fun SyncWebUsers :: "(string \<Rightarrow> string option) \<Rightarrow> (string \<times> string \<times> string) list \<Rightarrow> db \<Rightarrow> db_error option \<times> db" where
  "SyncWebUsers hash [] d = (None, d)"
| "SyncWebUsers hash ((username, password, role) # us) d =
     (case hash password of
        None \<Rightarrow> (Some HashFailed, d)
      | Some h \<Rightarrow> SyncWebUsers hash us (UpsertWebUser username h role d))"

definition ListWebUsers :: "db \<Rightarrow> (int \<times> stored_user) list" where
  "ListWebUsers d = sort_by (\<lambda>p q. str_le (suUsername (snd p)) (suUsername (snd q))) (tbRows (dbWebUsers d))"

definition GetWebUserByUsername :: "string \<Rightarrow> db \<Rightarrow> (int \<times> stored_user) option" where
  "GetWebUserByUsername username d = row_find suUsername username (dbWebUsers d)"

definition GetWebUser :: "int \<Rightarrow> db \<Rightarrow> stored_user option" where
  "GetWebUser i d = get (tbRows (dbWebUsers d)) i"

definition UpdateWebUser :: "int \<Rightarrow> string \<Rightarrow> string \<Rightarrow> string \<Rightarrow> db \<Rightarrow> (db_error, db) result" where
  "UpdateWebUser i username role passwordHash d =
     map_sum (\<lambda>e. e) (\<lambda>t. d\<lparr>dbWebUsers := t\<rparr>)
       (row_update suUsername i
          (\<lambda>u. if passwordHash \<noteq> [] then u\<lparr>suUsername := username, suRole := role, suPasswordHash := passwordHash\<rparr>
               else u\<lparr>suUsername := username, suRole := role\<rparr>) (dbWebUsers d))"

definition DeleteWebUser :: "int \<Rightarrow> db \<Rightarrow> db" where
  "DeleteWebUser i d = d\<lparr>dbWebUsers := row_delete (\<lambda>p. fst p = i) (dbWebUsers d)\<rparr>"

section \<open>Hunt groups\<close>

definition ListHuntGroups :: "db \<Rightarrow> (int \<times> hunt_group) list" where
  "ListHuntGroups d = sort_by (\<lambda>p q. str_le (hgNumber (snd p)) (hgNumber (snd q))) (hunt_rows d)"

definition GetHuntGroup :: "int \<Rightarrow> db \<Rightarrow> hunt_group option" where
  "GetHuntGroup i d = get (hunt_rows d) i"

definition GetHuntGroupByNumber :: "string \<Rightarrow> db \<Rightarrow> (int \<times> hunt_group) option" where
  "GetHuntGroupByNumber number d = row_find hgNumber number (dbHuntGroups d)"

definition HuntMembers :: "int \<Rightarrow> db \<Rightarrow> string list" where
  "HuntMembers g d =
     List.map (\<lambda>p. hmExtension (snd p))
       (sort_by (\<lambda>p q. hmPriority (snd p) \<le> hmPriority (snd q))
          (filter (\<lambda>p. hmGroup (snd p) = g) (tbRows (dbHuntMembers d))))"

definition norm_ring :: "int \<Rightarrow> int" where
  "norm_ring ringTimeout = (if ringTimeout \<le> 0 then 20 else ringTimeout)"

definition CreateHuntGroup :: "string \<Rightarrow> string \<Rightarrow> string \<Rightarrow> int \<Rightarrow> db \<Rightarrow> (db_error, db) result" where
  "CreateHuntGroup name number strategy ringTimeout d =
     map_sum (\<lambda>e. e) (\<lambda>t. d\<lparr>dbHuntGroups := t\<rparr>)
       (row_add hgNumber \<lparr>hgName = name, hgNumber = number, hgStrategy = strategy,
          hgRingTimeout = norm_ring ringTimeout, hgEnabled = True\<rparr> (dbHuntGroups d))"

definition UpdateHuntGroup :: "int \<Rightarrow> string \<Rightarrow> string \<Rightarrow> string \<Rightarrow> int \<Rightarrow> db \<Rightarrow> (db_error, db) result" where
  "UpdateHuntGroup i name number strategy ringTimeout d =
     map_sum (\<lambda>e. e) (\<lambda>t. d\<lparr>dbHuntGroups := t\<rparr>)
       (row_update hgNumber i (\<lambda>g. g\<lparr>hgName := name, hgNumber := number, hgStrategy := strategy,
          hgRingTimeout := norm_ring ringTimeout\<rparr>) (dbHuntGroups d))"

definition DeleteHuntGroup :: "int \<Rightarrow> db \<Rightarrow> db" where
  "DeleteHuntGroup i d =
     d\<lparr>dbHuntMembers := row_delete (\<lambda>p. hmGroup (snd p) = i) (dbHuntMembers d),
       dbHuntGroups := row_delete (\<lambda>p. fst p = i) (dbHuntGroups d)\<rparr>"

fun insert_hunt_members :: "int \<Rightarrow> int \<Rightarrow> string list \<Rightarrow> hunt_member table \<Rightarrow> hunt_member table" where
  "insert_hunt_members g i [] t = t"
| "insert_hunt_members g i (m # ms) t =
     insert_hunt_members g (i + 1) ms (row_insert \<lparr>hmGroup = g, hmExtension = m, hmPriority = i\<rparr> t)"

definition SetHuntMembers :: "int \<Rightarrow> string list \<Rightarrow> db \<Rightarrow> db" where
  "SetHuntMembers g members d =
     d\<lparr>dbHuntMembers := insert_hunt_members g 0 members
         (row_delete (\<lambda>p. hmGroup (snd p) = g) (dbHuntMembers d))\<rparr>"

definition HuntGroupReferenced :: "string \<Rightarrow> db \<Rightarrow> bool" where
  "HuntGroupReferenced number d =
     (\<exists>p \<in> set (dbTrunkRoutes d). trRouteType (snd p) = ''group'' \<and> trRouteTarget (snd p) = number)"

section \<open>Conferences\<close>

definition ListConferences :: "db \<Rightarrow> (int \<times> conference) list" where
  "ListConferences d = sort_by (\<lambda>p q. str_le (cfNumber (snd p)) (cfNumber (snd q))) (tbRows (dbConferences d))"

definition GetConference :: "int \<Rightarrow> db \<Rightarrow> conference option" where
  "GetConference i d = get (tbRows (dbConferences d)) i"

definition GetConferenceByNumber :: "string \<Rightarrow> db \<Rightarrow> (int \<times> conference) option" where
  "GetConferenceByNumber number d = row_find cfNumber number (dbConferences d)"

definition norm_max :: "int \<Rightarrow> int" where
  "norm_max maxParticipants = (if maxParticipants < 2 then 16 else maxParticipants)"

definition CreateConference :: "(string \<Rightarrow> string option) \<Rightarrow> string \<Rightarrow> string \<Rightarrow> string \<Rightarrow> int \<Rightarrow> db
    \<Rightarrow> (db_error, db) result" where
  "CreateConference hash name number pin maxParticipants d =
     (case hash pin of
        None \<Rightarrow> Err HashFailed
      | Some h \<Rightarrow> map_sum (\<lambda>e. e) (\<lambda>t. d\<lparr>dbConferences := t\<rparr>)
          (row_add cfNumber \<lparr>cfName = name, cfNumber = number, cfPINHash = h,
             cfMax = norm_max maxParticipants, cfEnabled = True\<rparr> (dbConferences d)))"

definition UpdateConference :: "(string \<Rightarrow> string option) \<Rightarrow> int \<Rightarrow> string \<Rightarrow> string \<Rightarrow> string \<Rightarrow> int \<Rightarrow> db
    \<Rightarrow> (db_error, db) result" where
  "UpdateConference hash i name number pin maxParticipants d =
     (let upd = (\<lambda>f. map_sum (\<lambda>e. e) (\<lambda>t. d\<lparr>dbConferences := t\<rparr>) (row_update cfNumber i f (dbConferences d))) in
      if pin \<noteq> [] then
        (case hash pin of
           None \<Rightarrow> Err HashFailed
         | Some h \<Rightarrow> upd (\<lambda>c. c\<lparr>cfName := name, cfNumber := number, cfPINHash := h, cfMax := norm_max maxParticipants\<rparr>))
      else upd (\<lambda>c. c\<lparr>cfName := name, cfNumber := number, cfMax := norm_max maxParticipants\<rparr>))"

definition DeleteConference :: "int \<Rightarrow> db \<Rightarrow> db" where
  "DeleteConference i d = d\<lparr>dbConferences := row_delete (\<lambda>p. fst p = i) (dbConferences d)\<rparr>"

section \<open>Paging groups\<close>

fun trimStar :: "string \<Rightarrow> string" where
  "trimStar [] = []"
| "trimStar (c # cs) = (if c = CHR ''*'' then trimStar cs else c # cs)"

definition ListPagingGroups :: "db \<Rightarrow> (int \<times> paging_group) list" where
  "ListPagingGroups d = sort_by (\<lambda>p q. str_le (pgCode (snd p)) (pgCode (snd q))) (tbRows (dbPagingGroups d))"

definition GetPagingGroup :: "int \<Rightarrow> db \<Rightarrow> paging_group option" where
  "GetPagingGroup i d = get (tbRows (dbPagingGroups d)) i"

definition GetPagingByCode :: "string \<Rightarrow> db \<Rightarrow> (int \<times> paging_group) option" where
  "GetPagingByCode code d = row_find pgCode (trimStar code) (dbPagingGroups d)"

text \<open>The query has no ORDER BY; pick stands for the order the database gives.\<close>
definition PagingMembers :: "(string list \<Rightarrow> string list) \<Rightarrow> int \<Rightarrow> db \<Rightarrow> string list" where
  "PagingMembers pick g d =
     pick (List.map (\<lambda>p. pmExtension (snd p)) (filter (\<lambda>p. pmGroup (snd p) = g) (tbRows (dbPagingMembers d))))"

definition norm_mode :: "string \<Rightarrow> string" where
  "norm_mode mode = (if mode = [] then ''unicast'' else mode)"

definition CreatePagingGroup :: "string \<Rightarrow> string \<Rightarrow> string \<Rightarrow> string \<Rightarrow> int \<Rightarrow> db \<Rightarrow> (db_error, db) result" where
  "CreatePagingGroup name code mode multicastAddr channel d =
     map_sum (\<lambda>e. e) (\<lambda>t. d\<lparr>dbPagingGroups := t\<rparr>)
       (row_add pgCode \<lparr>pgName = name, pgCode = trimStar code, pgMode = norm_mode mode,
          pgMulticastAddress = multicastAddr, pgChannel = channel, pgEnabled = True\<rparr> (dbPagingGroups d))"

definition UpdatePagingGroup :: "int \<Rightarrow> string \<Rightarrow> string \<Rightarrow> string \<Rightarrow> string \<Rightarrow> int \<Rightarrow> db \<Rightarrow> (db_error, db) result" where
  "UpdatePagingGroup i name code mode multicastAddr channel d =
     map_sum (\<lambda>e. e) (\<lambda>t. d\<lparr>dbPagingGroups := t\<rparr>)
       (row_update pgCode i (\<lambda>g. g\<lparr>pgName := name, pgCode := trimStar code, pgMode := norm_mode mode,
          pgMulticastAddress := multicastAddr, pgChannel := channel\<rparr>) (dbPagingGroups d))"

definition DeletePagingGroup :: "int \<Rightarrow> db \<Rightarrow> db" where
  "DeletePagingGroup i d =
     d\<lparr>dbPagingMembers := row_delete (\<lambda>p. pmGroup (snd p) = i) (dbPagingMembers d),
       dbPagingGroups := row_delete (\<lambda>p. fst p = i) (dbPagingGroups d)\<rparr>"

definition SetPagingMembers :: "int \<Rightarrow> string list \<Rightarrow> db \<Rightarrow> db" where
  "SetPagingMembers g members d =
     d\<lparr>dbPagingMembers := fold (\<lambda>m. row_insert \<lparr>pmGroup = g, pmExtension = m\<rparr>) members
         (row_delete (\<lambda>p. pmGroup (snd p) = g) (dbPagingMembers d))\<rparr>"

section \<open>Trunk routes, call history, phonebook and call log\<close>

definition GetTrunkRoute :: "int \<Rightarrow> db \<Rightarrow> trunk_route" where
  "GetTrunkRoute trunkID d =
     (case get (dbTrunkRoutes d) trunkID of
        None \<Rightarrow> \<lparr>trTrunkID = trunkID, trRouteType = ''all'', trRouteTarget = []\<rparr>
      | Some t \<Rightarrow> t)"

definition ListTrunkRoutes :: "db \<Rightarrow> trunk_route list" where
  "ListTrunkRoutes d = vals (sort_by (\<lambda>p q. fst p \<le> fst q) (dbTrunkRoutes d))"

definition SaveTrunkRoute :: "trunk_route \<Rightarrow> db \<Rightarrow> db" where
  "SaveTrunkRoute t d =
     (let t1 = (if trRouteType t = [] then t\<lparr>trRouteType := ''all''\<rparr> else t)
      in d\<lparr>dbTrunkRoutes := put (trTrunkID t) t1 (dbTrunkRoutes d)\<rparr>)"

definition history_of :: "string \<Rightarrow> db \<Rightarrow> extension_history" where
  "history_of e d = goget \<lparr>ehLastDialed = [], ehLastCaller = []\<rparr> (dbHistory d) e"

definition SetLastDialed :: "string \<Rightarrow> string \<Rightarrow> db \<Rightarrow> db" where
  "SetLastDialed e number d = d\<lparr>dbHistory := put e (history_of e d\<lparr>ehLastDialed := number\<rparr>) (dbHistory d)\<rparr>"

definition SetLastCaller :: "string \<Rightarrow> string \<Rightarrow> db \<Rightarrow> db" where
  "SetLastCaller e caller d = d\<lparr>dbHistory := put e (history_of e d\<lparr>ehLastCaller := caller\<rparr>) (dbHistory d)\<rparr>"

definition GetLastDialed :: "string \<Rightarrow> db \<Rightarrow> string" where
  "GetLastDialed e d = (case get (dbHistory d) e of None \<Rightarrow> [] | Some h \<Rightarrow> ehLastDialed h)"

definition GetLastCaller :: "string \<Rightarrow> db \<Rightarrow> string" where
  "GetLastCaller e d = (case get (dbHistory d) e of None \<Rightarrow> [] | Some h \<Rightarrow> ehLastCaller h)"

definition ListExtensionHistory :: "db \<Rightarrow> (string \<times> extension_history) list" where
  "ListExtensionHistory d = sort_by (\<lambda>p q. str_le (fst p) (fst q)) (dbHistory d)"

definition ListPhonebookEntries :: "db \<Rightarrow> (int \<times> phonebook_entry) list" where
  "ListPhonebookEntries d =
     sort_by (\<lambda>p q. let a = to_lower (pbName (snd p)); b = to_lower (pbName (snd q))
                     in if a = b then str_le (pbNumber (snd p)) (pbNumber (snd q)) else str_le a b)
       (tbRows (dbPhonebook d))"

definition GetPhonebookEntry :: "int \<Rightarrow> db \<Rightarrow> phonebook_entry option" where
  "GetPhonebookEntry i d = get (tbRows (dbPhonebook d)) i"

definition CreatePhonebookEntry :: "string \<Rightarrow> string \<Rightarrow> string \<Rightarrow> db \<Rightarrow> int \<times> db" where
  "CreatePhonebookEntry name number label d =
     (tbNext (dbPhonebook d),
      d\<lparr>dbPhonebook := row_insert \<lparr>pbName = name, pbNumber = number, pbLabel = label\<rparr> (dbPhonebook d)\<rparr>)"

definition UpdatePhonebookEntry :: "int \<Rightarrow> string \<Rightarrow> string \<Rightarrow> string \<Rightarrow> db \<Rightarrow> db" where
  "UpdatePhonebookEntry i name number label d =
     d\<lparr>dbPhonebook := row_set i (\<lambda>_. \<lparr>pbName = name, pbNumber = number, pbLabel = label\<rparr>) (dbPhonebook d)\<rparr>"

definition DeletePhonebookEntry :: "int \<Rightarrow> db \<Rightarrow> db" where
  "DeletePhonebookEntry i d = d\<lparr>dbPhonebook := row_delete (\<lambda>p. fst p = i) (dbPhonebook d)\<rparr>"

text \<open>An empty start time stands for the zero time.\<close>
definition LogCall :: "string \<Rightarrow> call_log_entry \<Rightarrow> db \<Rightarrow> db" where
  "LogCall now e d =
     (let e1 = (if clStartedAt e = [] then e\<lparr>clStartedAt := now\<rparr> else e);
          e2 = (if clDirection e1 = [] then e1\<lparr>clDirection := ''internal''\<rparr> else e1)
      in d\<lparr>dbCallLog := row_insert e2 (dbCallLog d)\<rparr>)"

definition ListCallLog :: "int \<Rightarrow> db \<Rightarrow> (int \<times> call_log_entry) list" where
  "ListCallLog limit d =
     take (nat (if limit \<le> 0 then 200 else limit))
       (sort_by (\<lambda>p q. if clStartedAt (snd p) = clStartedAt (snd q) then fst q \<le> fst p
                        else str_le (clStartedAt (snd q)) (clStartedAt (snd p)))
          (tbRows (dbCallLog d)))"

section \<open>Messages kept for later\<close>

definition EnqueueOfflineMessage :: "string \<Rightarrow> string \<Rightarrow> string \<Rightarrow> string \<Rightarrow> string \<Rightarrow> db \<Rightarrow> db" where
  "EnqueueOfflineMessage now recipient sender contentType body d =
     d\<lparr>dbOffline := row_insert \<lparr>omRecipient = recipient, omSender = sender,
         omContentType = (if contentType = [] then ''text/plain'' else contentType),
         omBody = body, omCreatedAt = now, omDeliveredAt = None\<rparr> (dbOffline d)\<rparr>"

definition ListPendingOfflineMessages :: "string \<Rightarrow> db \<Rightarrow> (int \<times> offline_message) list" where
  "ListPendingOfflineMessages recipient d =
     sort_by (\<lambda>p q. fst p \<le> fst q)
       (filter (\<lambda>p. omRecipient (snd p) = recipient \<and> omDeliveredAt (snd p) = None) (offline_rows d))"

definition MarkOfflineMessageDelivered :: "string \<Rightarrow> int \<Rightarrow> db \<Rightarrow> db" where
  "MarkOfflineMessageDelivered now i d =
     d\<lparr>dbOffline := row_set i (\<lambda>m. m\<lparr>omDeliveredAt := Some now\<rparr>) (dbOffline d)\<rparr>"

definition CountPendingOfflineMessages :: "string \<Rightarrow> db \<Rightarrow> int" where
  "CountPendingOfflineMessages recipient d =
     int (length (filter (\<lambda>p. omRecipient (snd p) = recipient \<and> omDeliveredAt (snd p) = None) (offline_rows d)))"


section \<open>Laws of tables\<close>

definition rows_ok :: "'r table \<Rightarrow> bool" where
  "rows_ok t = (sorted_wrt (<) (keys (tbRows t)) \<and> (\<forall>i \<in> set (keys (tbRows t)). i < tbNext t))"

definition unique_ok :: "('r \<Rightarrow> 'k) \<Rightarrow> 'r table \<Rightarrow> bool" where
  "unique_ok key t = (rows_ok t \<and> distinct (List.map (\<lambda>p. key (snd p)) (tbRows t)))"

definition all_rows :: "('r \<Rightarrow> bool) \<Rightarrow> 'r table \<Rightarrow> bool" where
  "all_rows P t = (\<forall>p \<in> set (tbRows t). P (snd p))"

named_theorems table_ok \<open>operations keep tables well formed\<close>

lemma rows_ok_distinct: "rows_ok t \<Longrightarrow> distinct (keys (tbRows t))"
  by (simp add: rows_ok_def strict_sorted_iff)

lemma rows_ok_empty [table_ok]: "rows_ok no_rows" "unique_ok key no_rows" "all_rows P no_rows"
  by (simp_all add: rows_ok_def unique_ok_def all_rows_def no_rows_def)

lemma rows_ok_insert [table_ok]: "rows_ok t \<Longrightarrow> rows_ok (row_insert r t)"
  by (fastforce simp: rows_ok_def row_insert_def sorted_wrt_append)

lemma map_fst_set: "List.map (fst \<circ> (\<lambda>p. if fst p = i then (i, f (snd p)) else p)) ps = List.map fst ps"
  by auto

lemma rows_ok_set [table_ok]: "rows_ok t \<Longrightarrow> rows_ok (row_set i f t)"
  by (simp add: rows_ok_def row_set_def map_fst_set del: set_map)

lemma rows_ok_delete [table_ok]: "rows_ok t \<Longrightarrow> rows_ok (row_delete P t)"
  by (auto simp: rows_ok_def row_delete_def sorted_wrt_map intro: sorted_wrt_filter)

lemma all_rows_insert [table_ok]: "all_rows P t \<Longrightarrow> P r \<Longrightarrow> all_rows P (row_insert r t)"
  by (auto simp: all_rows_def row_insert_def)

lemma all_rows_set [table_ok]:
  "all_rows P t \<Longrightarrow> (\<And>r. P r \<Longrightarrow> P (f r)) \<Longrightarrow> all_rows P (row_set i f t)"
  by (auto simp: all_rows_def row_set_def)

lemma all_rows_delete [table_ok]: "all_rows P t \<Longrightarrow> all_rows P (row_delete Q t)"
  by (auto simp: all_rows_def row_delete_def)

lemma unique_ok_delete [table_ok]: "unique_ok key t \<Longrightarrow> unique_ok key (row_delete P t)"
  using rows_ok_delete [of t P]
  by (auto simp: unique_ok_def row_delete_def distinct_map intro: inj_on_subset)

lemma unique_ok_add:
  "row_add key r t = Ok t' \<Longrightarrow> unique_ok key t \<Longrightarrow> unique_ok key t'"
  using rows_ok_insert [of t r]
  by (fastforce simp: row_add_def unique_ok_def row_insert_def split: if_splits)

lemma all_rows_add: "row_add key r t = Ok t' \<Longrightarrow> all_rows P t \<Longrightarrow> P r \<Longrightarrow> all_rows P t'"
  using all_rows_insert [of P t r] by (auto simp: row_add_def split: if_splits)

lemma distinct_map_change:
  assumes "distinct (List.map g ps)" "distinct (List.map fst ps)"
    and "\<And>p. p \<in> set ps \<Longrightarrow> fst p \<noteq> i \<Longrightarrow> g p \<noteq> v"
  shows "distinct (List.map (\<lambda>p. if fst p = i then v else g p) ps)"
  using assms
proof (induction ps)
  case (Cons p ps)
  show ?case
  proof (cases "fst p = i")
    case True
    have "fst p \<notin> fst ` set ps" using Cons.prems(2) by simp
    then have "\<forall>q \<in> set ps. fst q \<noteq> i" using True by (metis image_eqI)
    then show ?thesis using True Cons by (auto simp: image_iff)
  next
    case False
    then have "g p \<noteq> v" using Cons.prems(3) by simp
    with False Cons show ?thesis by (auto simp: image_iff)
  qed
qed simp

lemma unique_ok_update:
  assumes "row_update key i f t = Ok t'" "unique_ok key t"
  shows "unique_ok key t'"
proof (cases "get (tbRows t) i")
  case (Some r)
  then have t': "t' = row_set i f t"
    and new: "\<And>p. p \<in> set (tbRows t) \<Longrightarrow> fst p \<noteq> i \<Longrightarrow> key (snd p) \<noteq> key (f r)"
    using assms(1) by (auto simp: row_update_def split: if_splits)
  have d: "distinct (keys (tbRows t))" using assms(2) rows_ok_distinct by (auto simp: unique_ok_def)
  have old: "snd p = r" if "p \<in> set (tbRows t)" "fst p = i" for p
    using that Some get_eq_iff [OF d, of i "snd p"] by (cases p) auto
  have "List.map (\<lambda>p. key (snd p)) (tbRows t')
      = List.map (\<lambda>p. if fst p = i then key (f r) else key (snd p)) (tbRows t)"
    using old by (simp add: t' row_set_def)
  then have "distinct (List.map (\<lambda>p. key (snd p)) (tbRows t'))"
    using distinct_map_change [of "\<lambda>p. key (snd p)" "tbRows t" i "key (f r)"] assms(2) new d
    by (simp add: unique_ok_def)
  then show ?thesis using assms(2) rows_ok_set [of t i f] by (simp add: unique_ok_def t')
qed (use assms in \<open>simp add: row_update_def\<close>)

lemma all_rows_update:
  "row_update key i f t = Ok t' \<Longrightarrow> all_rows P t \<Longrightarrow> (\<And>r. P r \<Longrightarrow> P (f r)) \<Longrightarrow> all_rows P t'"
  using all_rows_set [of P t f i] by (auto simp: row_update_def split: option.splits if_splits)

lemma unique_ok_upsert [table_ok]:
  assumes "unique_ok key t" "\<And>u. key (f u) = key u"
  shows "unique_ok key (row_upsert key r f t)"
proof (cases "\<exists>p \<in> set (tbRows t). key (snd p) = key r")
  case True
  have "List.map (\<lambda>p. key (snd p)) (tbRows (row_upsert key r f t)) = List.map (\<lambda>p. key (snd p)) (tbRows t)"
    "keys (tbRows (row_upsert key r f t)) = keys (tbRows t)" "tbNext (row_upsert key r f t) = tbNext t"
    using True assms(2) by (simp_all add: row_upsert_def)
  then show ?thesis using assms(1) by (simp add: unique_ok_def rows_ok_def del: set_map)
next
  case False
  then have "row_upsert key r f t = row_insert r t" by (simp add: row_upsert_def)
  moreover have "row_add key r t = Ok (row_insert r t)" using False by (simp add: row_add_def)
  ultimately show ?thesis using unique_ok_add assms(1) by metis
qed

lemma find_holds: "List.find P xs = Some x \<Longrightarrow> x \<in> set xs \<and> P x"
  by (induction xs) (auto split: if_splits)

lemma find_exists: "x \<in> set xs \<Longrightarrow> P x \<Longrightarrow> \<exists>y. List.find P xs = Some y"
  by (induction xs) auto

lemma row_find_unique:
  assumes "unique_ok key t"
  shows "row_find key k t = Some p \<longleftrightarrow> p \<in> set (tbRows t) \<and> key (snd p) = k"
proof
  assume "p \<in> set (tbRows t) \<and> key (snd p) = k"
  then obtain q where q: "row_find key k t = Some q" "q \<in> set (tbRows t)" "key (snd q) = k"
    using find_exists [of p "tbRows t" "\<lambda>p. key (snd p) = k"] find_holds [of "\<lambda>p. key (snd p) = k"]
    unfolding row_find_def by metis
  moreover have "inj_on (\<lambda>p. key (snd p)) (set (tbRows t))"
    using assms by (simp add: unique_ok_def distinct_map)
  ultimately show "row_find key k t = Some p"
    using \<open>p \<in> set (tbRows t) \<and> key (snd p) = k\<close> by (auto simp: inj_on_def)
qed (auto simp: row_find_def dest: find_holds)

subsection \<open>Sorting\<close>

lemma mset_insert_by [simp]: "mset (insert_by le x xs) = add_mset x (mset xs)"
  by (induction xs) auto

lemma mset_sort_by [simp]: "mset (sort_by le xs) = mset xs"
  by (induction xs) auto

lemma set_insert_by [simp]: "set (insert_by le x xs) = insert x (set xs)"
  by (induction xs) auto

lemma set_sort_by [simp]: "set (sort_by le xs) = set xs"
  by (induction xs) auto

lemma insert_by_first: "\<forall>y \<in> set xs. le x y \<Longrightarrow> insert_by le x xs = x # xs"
  by (cases xs) auto

lemma sort_by_id: "sorted_wrt le xs \<Longrightarrow> sort_by le xs = xs"
  by (induction xs) (auto simp: insert_by_first)

lemma sorted_insert_by:
  assumes "\<And>a b. le a b \<or> le b a" "\<And>a b c. le a b \<Longrightarrow> le b c \<Longrightarrow> le a c"
  shows "sorted_wrt le xs \<Longrightarrow> sorted_wrt le (insert_by le x xs)"
proof (induction xs)
  case (Cons y ys)
  show ?case
  proof (cases "le x y")
    case True
    then show ?thesis using Cons.prems assms(2) by auto
  next
    case False
    then have "le y x" using assms(1) by blast
    with False show ?thesis using Cons by simp
  qed
qed simp

lemma sorted_sort_by:
  assumes "\<And>a b. le a b \<or> le b a" "\<And>a b c. le a b \<Longrightarrow> le b c \<Longrightarrow> le a c"
  shows "sorted_wrt le (sort_by le xs)"
  using sorted_insert_by [of le, OF assms] by (induction xs) auto


section \<open>The database keeps its invariant\<close>

definition no_star :: "string \<Rightarrow> bool" where
  "no_star code = (code = [] \<or> hd code \<noteq> CHR ''*'')"

lemma no_star_trimStar [simp]: "no_star (trimStar code)"
  by (induction code rule: trimStar.induct) (auto simp: no_star_def)

definition db_inv :: "db \<Rightarrow> bool" where
  "db_inv d =
     (unique_ok suUsername (dbWebUsers d)
      \<and> unique_ok hgNumber (dbHuntGroups d) \<and> all_rows (\<lambda>g. 0 < hgRingTimeout g) (dbHuntGroups d)
      \<and> rows_ok (dbHuntMembers d)
      \<and> unique_ok cfNumber (dbConferences d) \<and> all_rows (\<lambda>c. 2 \<le> cfMax c) (dbConferences d)
      \<and> unique_ok pgCode (dbPagingGroups d)
      \<and> all_rows (\<lambda>g. no_star (pgCode g) \<and> pgMode g \<noteq> []) (dbPagingGroups d)
      \<and> rows_ok (dbPagingMembers d)
      \<and> distinct (keys (dbTrunkRoutes d)) \<and> (\<forall>t \<in> set (vals (dbTrunkRoutes d)). trRouteType t \<noteq> [])
      \<and> distinct (keys (dbHistory d)) \<and> rows_ok (dbPhonebook d)
      \<and> rows_ok (dbCallLog d) \<and> all_rows (\<lambda>e. clDirection e \<noteq> []) (dbCallLog d)
      \<and> rows_ok (dbOffline d) \<and> all_rows (\<lambda>m. omContentType m \<noteq> []) (dbOffline d))"

text \<open>One operation on the database; hash stands for bcrypt, now for the clock.  An
  operation that fails changes nothing, except SyncWebUsers.\<close>
inductive db_step :: "db \<Rightarrow> db \<Rightarrow> bool" where
  seed: "seedDefaultAdmin hash d = Ok d' \<Longrightarrow> db_step d d'"
| sync_users: "SyncWebUsers hash us d = (e, d') \<Longrightarrow> db_step d d'"
| upsert_user: "db_step d (UpsertWebUser u h r d)"
| update_user: "UpdateWebUser i u r h d = Ok d' \<Longrightarrow> db_step d d'"
| delete_user: "db_step d (DeleteWebUser i d)"
| create_hunt: "CreateHuntGroup n num st rt d = Ok d' \<Longrightarrow> db_step d d'"
| update_hunt: "UpdateHuntGroup i n num st rt d = Ok d' \<Longrightarrow> db_step d d'"
| delete_hunt: "db_step d (DeleteHuntGroup i d)"
| hunt_members: "db_step d (SetHuntMembers g ms d)"
| create_conf: "CreateConference hash n num pin mx d = Ok d' \<Longrightarrow> db_step d d'"
| update_conf: "UpdateConference hash i n num pin mx d = Ok d' \<Longrightarrow> db_step d d'"
| delete_conf: "db_step d (DeleteConference i d)"
| create_paging: "CreatePagingGroup n code m a ch d = Ok d' \<Longrightarrow> db_step d d'"
| update_paging: "UpdatePagingGroup i n code m a ch d = Ok d' \<Longrightarrow> db_step d d'"
| delete_paging: "db_step d (DeletePagingGroup i d)"
| paging_members: "db_step d (SetPagingMembers g ms d)"
| trunk_route: "db_step d (SaveTrunkRoute t d)"
| last_dialed: "db_step d (SetLastDialed e n d)"
| last_caller: "db_step d (SetLastCaller e n d)"
| phonebook_add: "db_step d (snd (CreatePhonebookEntry n num l d))"
| phonebook_set: "db_step d (UpdatePhonebookEntry i n num l d)"
| phonebook_del: "db_step d (DeletePhonebookEntry i d)"
| log_call: "db_step d (LogCall now e d)"
| enqueue: "db_step d (EnqueueOfflineMessage now r s ct b d)"
| delivered: "db_step d (MarkOfflineMessageDelivered now i d)"

inductive db_reach :: "db \<Rightarrow> bool" where
  start: "db_reach empty_db"
| step: "db_reach d \<Longrightarrow> db_step d d' \<Longrightarrow> db_reach d'"

lemma map_sum_Ok: "map_sum (\<lambda>e. e) f x = Ok y \<longleftrightarrow> (\<exists>t. x = Ok t \<and> y = f t)"
  by (cases x) auto

lemmas db_defs = UpsertWebUser_def UpdateWebUser_def DeleteWebUser_def CreateHuntGroup_def
  UpdateHuntGroup_def DeleteHuntGroup_def SetHuntMembers_def DeleteConference_def CreatePagingGroup_def
  UpdatePagingGroup_def DeletePagingGroup_def SetPagingMembers_def CreatePhonebookEntry_def
  UpdatePhonebookEntry_def DeletePhonebookEntry_def EnqueueOfflineMessage_def MarkOfflineMessageDelivered_def

lemmas add_update_ok = unique_ok_add unique_ok_update all_rows_add all_rows_update

lemma norm_ok [simp]: "0 < norm_ring n" "2 \<le> norm_max n" "norm_mode m \<noteq> []"
  by (simp_all add: norm_ring_def norm_max_def norm_mode_def)

lemma insert_hunt_members_ok [table_ok]: "rows_ok t \<Longrightarrow> rows_ok (insert_hunt_members g i ms t)"
  by (induction ms arbitrary: i t) (auto intro: table_ok)

lemma fold_insert_ok [table_ok]: "rows_ok t \<Longrightarrow> rows_ok (fold (\<lambda>m. row_insert (f m)) ms t)"
  by (induction ms arbitrary: t) (auto intro: table_ok)

lemma UpsertWebUser_inv [inv_intros]: "db_inv d \<Longrightarrow> db_inv (UpsertWebUser u h r d)"
  by (simp add: db_inv_def db_defs table_ok)

lemma SyncWebUsers_inv [inv_intros]: "SyncWebUsers hash us d = (e, d') \<Longrightarrow> db_inv d \<Longrightarrow> db_inv d'"
  by (induction hash us d rule: SyncWebUsers.induct) (auto split: option.splits intro: inv_intros)

lemma seedDefaultAdmin_inv [inv_intros]: "seedDefaultAdmin hash d = Ok d' \<Longrightarrow> db_inv d \<Longrightarrow> db_inv d'"
  by (auto simp: seedDefaultAdmin_def db_inv_def map_sum_Ok split: if_splits option.splits intro: add_update_ok)

lemma web_update_inv [inv_intros]: "UpdateWebUser i u r h d = Ok d' \<Longrightarrow> db_inv d \<Longrightarrow> db_inv d'"
  by (auto simp: db_inv_def db_defs map_sum_Ok intro: add_update_ok)

lemma hunt_create_inv [inv_intros]: "CreateHuntGroup n num st rt d = Ok d' \<Longrightarrow> db_inv d \<Longrightarrow> db_inv d'"
  by (auto simp: db_inv_def db_defs map_sum_Ok intro: add_update_ok elim!: all_rows_add)

lemma hunt_update_inv [inv_intros]: "UpdateHuntGroup i n num st rt d = Ok d' \<Longrightarrow> db_inv d \<Longrightarrow> db_inv d'"
  by (auto simp: db_inv_def db_defs map_sum_Ok intro: add_update_ok elim!: all_rows_update)

lemma conf_create_inv [inv_intros]: "CreateConference hash n num pin mx d = Ok d' \<Longrightarrow> db_inv d \<Longrightarrow> db_inv d'"
  by (auto simp: db_inv_def CreateConference_def map_sum_Ok split: option.splits
      intro: add_update_ok elim!: all_rows_add)

lemma conf_update_inv [inv_intros]: "UpdateConference hash i n num pin mx d = Ok d' \<Longrightarrow> db_inv d \<Longrightarrow> db_inv d'"
  by (auto simp: db_inv_def UpdateConference_def map_sum_Ok Let_def split: option.splits if_splits
      intro: add_update_ok elim!: all_rows_update)

lemma paging_create_inv [inv_intros]: "CreatePagingGroup n code m a ch d = Ok d' \<Longrightarrow> db_inv d \<Longrightarrow> db_inv d'"
  by (auto simp: db_inv_def db_defs map_sum_Ok intro: add_update_ok elim!: all_rows_add)

lemma paging_update_inv [inv_intros]: "UpdatePagingGroup i n code m a ch d = Ok d' \<Longrightarrow> db_inv d \<Longrightarrow> db_inv d'"
  by (auto simp: db_inv_def db_defs map_sum_Ok intro: add_update_ok elim!: all_rows_update)

lemma delete_inv [inv_intros]:
  "db_inv d \<Longrightarrow> db_inv (DeleteWebUser i d)" "db_inv d \<Longrightarrow> db_inv (DeleteHuntGroup i d)"
  "db_inv d \<Longrightarrow> db_inv (DeleteConference i d)" "db_inv d \<Longrightarrow> db_inv (DeletePagingGroup i d)"
  "db_inv d \<Longrightarrow> db_inv (DeletePhonebookEntry i d)"
  by (simp_all add: db_inv_def db_defs table_ok)

lemma members_inv [inv_intros]:
  "db_inv d \<Longrightarrow> db_inv (SetHuntMembers g ms d)" "db_inv d \<Longrightarrow> db_inv (SetPagingMembers g ms d)"
  by (simp_all add: db_inv_def db_defs table_ok)

lemma log_inv [inv_intros]:
  "db_inv d \<Longrightarrow> db_inv (snd (CreatePhonebookEntry n num l d))"
  "db_inv d \<Longrightarrow> db_inv (UpdatePhonebookEntry i n num l d)"
  "db_inv d \<Longrightarrow> db_inv (EnqueueOfflineMessage now r s ct b d)"
  "db_inv d \<Longrightarrow> db_inv (MarkOfflineMessageDelivered now i d)"
  by (simp_all add: db_inv_def db_defs table_ok)

lemma LogCall_inv [inv_intros]: "db_inv d \<Longrightarrow> db_inv (LogCall now e d)"
  by (simp add: db_inv_def LogCall_def Let_def table_ok)

lemma vals_put: "set (vals (put k v m)) \<subseteq> insert v (set (vals m))"
  by (induction m) auto

lemma map_inv [inv_intros]:
  "db_inv d \<Longrightarrow> db_inv (SaveTrunkRoute t d)" "db_inv d \<Longrightarrow> db_inv (SetLastDialed e n d)"
  "db_inv d \<Longrightarrow> db_inv (SetLastCaller e n d)"
  using vals_put [of "trTrunkID t" t "dbTrunkRoutes d"]
    vals_put [of "trTrunkID t" "t\<lparr>trRouteType := ''all''\<rparr>" "dbTrunkRoutes d"]
  by (auto simp: db_inv_def SaveTrunkRoute_def SetLastDialed_def SetLastCaller_def Let_def
      simp del: set_map)

lemma db_reach_inv: "db_reach d \<Longrightarrow> db_inv d"
proof (induction rule: db_reach.induct)
  case start
  then show ?case by (simp add: db_inv_def empty_db_def table_ok)
next
  case (step d d')
  from step(2,1,3) show ?case by (induction rule: db_step.induct) (auto intro: inv_intros)
qed


lemma db_inv_find:
  assumes "db_inv d"
  shows "p \<in> set (hunt_rows d) \<Longrightarrow> GetHuntGroupByNumber (hgNumber (snd p)) d = Some p"
    and "q \<in> set (tbRows (dbConferences d)) \<Longrightarrow> GetConferenceByNumber (cfNumber (snd q)) d = Some q"
    and "u \<in> set (tbRows (dbWebUsers d)) \<Longrightarrow> GetWebUserByUsername (suUsername (snd u)) d = Some u"
    and "g \<in> set (tbRows (dbPagingGroups d)) \<Longrightarrow> GetPagingByCode (pgCode (snd g)) d = Some g"
proof -
  have "trimStar c = c" if "no_star c" for c using that by (cases c) (auto simp: no_star_def)
  then show "g \<in> set (tbRows (dbPagingGroups d)) \<Longrightarrow> GetPagingByCode (pgCode (snd g)) d = Some g"
    using assms row_find_unique [of pgCode "dbPagingGroups d"]
    by (simp add: db_inv_def GetPagingByCode_def all_rows_def)
qed (use assms in \<open>simp_all add: db_inv_def row_find_unique GetHuntGroupByNumber_def
    GetConferenceByNumber_def GetWebUserByUsername_def\<close>)

text \<open>C18: Whatever operations the database has served, every hunt group, conference,
  paging group and web user is the one found under its own number, code or name
  (with or without leading stars for a paging code), every hunt group rings for a
  positive time, every conference takes at least two, every stored trunk route has a
  type, and no id is given to two rows of a table.\<close>
theorem store_consistent:
  assumes "db_reach d"
  shows "(\<forall>p \<in> set (hunt_rows d). GetHuntGroupByNumber (hgNumber (snd p)) d = Some p \<and> 0 < hgRingTimeout (snd p)
            \<and> GetHuntGroup (fst p) d = Some (snd p))
    \<and> (\<forall>p \<in> set (tbRows (dbConferences d)). GetConferenceByNumber (cfNumber (snd p)) d = Some p \<and> 2 \<le> cfMax (snd p)
            \<and> GetConference (fst p) d = Some (snd p))
    \<and> (\<forall>p \<in> set (tbRows (dbPagingGroups d)). GetPagingByCode (CHR ''*'' # pgCode (snd p)) d = Some p
            \<and> pgMode (snd p) \<noteq> [] \<and> GetPagingGroup (fst p) d = Some (snd p))
    \<and> (\<forall>p \<in> set (tbRows (dbWebUsers d)). GetWebUserByUsername (suUsername (snd p)) d = Some p
            \<and> GetWebUser (fst p) d = Some (snd p))
    \<and> (\<forall>i. trRouteType (GetTrunkRoute i d) \<noteq> [])"
proof -
  have inv: "db_inv d" using assms by (rule db_reach_inv)
  have byid: "get (tbRows t) (fst p) = Some (snd p)" if "rows_ok t" "p \<in> set (tbRows t)" for t :: "'a table" and p
    using get_eq_iff [OF rows_ok_distinct [OF that(1)], of "fst p" "snd p"] that(2) by simp
  have star: "GetPagingByCode (CHR ''*'' # c) d = GetPagingByCode c d" for c by (simp add: GetPagingByCode_def)
  have "trRouteType (GetTrunkRoute i d) \<noteq> []" for i
    using inv get_in_set [of "dbTrunkRoutes d" i]
    by (auto simp: GetTrunkRoute_def db_inv_def split: option.splits)
  then show ?thesis
    using inv db_inv_find [OF inv]
    by (auto simp: star GetHuntGroup_def GetConference_def GetPagingGroup_def GetWebUser_def)
       (auto simp: db_inv_def unique_ok_def all_rows_def intro!: map_of_is_SomeI rows_ok_distinct)
qed

definition demo_db :: db where
  "demo_db = EnqueueOfflineMessage ''t1'' ''101'' ''102'' [] ''hi''
     (SetHuntMembers 1 [''102'', ''101'']
       (case CreateHuntGroup ''sales'' ''300'' ''linear'' 0 empty_db of Inr d \<Rightarrow> d | Inl _ \<Rightarrow> empty_db))"

lemma demo_db_reach: "db_reach demo_db"
proof -
  obtain d where d: "CreateHuntGroup ''sales'' ''300'' ''linear'' 0 empty_db = Ok d"
    by (simp add: CreateHuntGroup_def row_add_def empty_db_def no_rows_def)
  then have "db_reach d" using db_reach.start db_step.create_hunt db_reach.step by blast
  then have "db_reach (SetHuntMembers 1 [''102'', ''101''] d)" using db_step.hunt_members db_reach.step by blast
  then have "db_reach (EnqueueOfflineMessage ''t1'' ''101'' ''102'' [] ''hi'' (SetHuntMembers 1 [''102'', ''101''] d))"
    using db_step.enqueue db_reach.step by blast
  then show ?thesis by (simp add: demo_db_def d)
qed

lemma store_consistent_witness:
  "\<exists>g. GetHuntGroupByNumber ''300'' demo_db = Some (1, g) \<and> hgRingTimeout g = 20"
proof -
  obtain g where g: "hunt_rows demo_db = [(1, g)]" "hgNumber g = ''300''" "hgRingTimeout g = 20"
    by (simp add: demo_db_def db_defs row_add_def empty_db_def no_rows_def row_insert_def norm_ring_def)
  with store_consistent [OF demo_db_reach] show ?thesis by simp
qed

section \<open>Members of groups\<close>

lemma insert_hunt_members_rows:
  "tbRows (insert_hunt_members g i ms t) =
     tbRows t @ List.map (\<lambda>j. (tbNext t + int j,
        \<lparr>hmGroup = g, hmExtension = ms ! j, hmPriority = i + int j\<rparr>)) [0..<length ms]"
proof (induction ms arbitrary: i t)
  case (Cons m ms)
  show ?case
    by (simp add: Cons row_insert_def upt_conv_Cons map_Suc_upt [symmetric] o_def algebra_simps del: upt_Suc)
qed simp

lemma SetHuntMembers_same: "HuntMembers g (SetHuntMembers g ms d) = ms"
proof -
  let ?new = "List.map (\<lambda>j. (tbNext (dbHuntMembers d) + int j,
        \<lparr>hmGroup = g, hmExtension = ms ! j, hmPriority = int j\<rparr>)) [0..<length ms]"
  have rows: "filter (\<lambda>p. hmGroup (snd p) = g) (tbRows (dbHuntMembers (SetHuntMembers g ms d))) = ?new"
    by (simp add: SetHuntMembers_def insert_hunt_members_rows row_delete_def filter_map o_def)
  have "sorted_wrt (\<lambda>p q. hmPriority (snd p) \<le> hmPriority (snd q)) ?new"
    by (simp add: sorted_wrt_map sorted_wrt_upt [THEN sorted_wrt_mono_rel [rotated]])
  then show ?thesis
    by (simp add: HuntMembers_def rows sort_by_id o_def map_nth del: map_map) (simp add: o_def map_nth)
qed

lemma SetHuntMembers_other: "h \<noteq> g \<Longrightarrow> HuntMembers h (SetHuntMembers g ms d) = HuntMembers h d"
  by (simp add: HuntMembers_def SetHuntMembers_def insert_hunt_members_rows row_delete_def filter_map o_def)
     (metis (mono_tags, lifting))

lemma fold_insert_rows:
  "List.map snd (tbRows (fold (\<lambda>m. row_insert (f m)) ms t)) = List.map snd (tbRows t) @ List.map f ms"
  by (induction ms arbitrary: t) (auto simp: row_insert_def)


lemma paging_filter_map:
  "List.map (\<lambda>p. pmExtension (snd p)) (filter (\<lambda>p. pmGroup (snd p) = g) ps)
     = List.map pmExtension (filter (\<lambda>m. pmGroup m = g) (List.map snd ps))"
  by (simp add: filter_map o_def)

lemma SetPagingMembers_members:
  "PagingMembers pick h (SetPagingMembers g ms d) = (if h = g then pick ms else PagingMembers pick h d)"
proof -
  have [simp]: "filter (\<lambda>p. pmGroup (snd p) = g \<and> pmGroup (snd p) \<noteq> g) ps = []" for ps :: "(int \<times> paging_member) list"
    by (induction ps) auto
  have [simp]: "h \<noteq> g \<Longrightarrow> filter (\<lambda>p. pmGroup (snd p) = h \<and> pmGroup (snd p) \<noteq> g) ps
      = filter (\<lambda>p. pmGroup (snd p) = h) ps" for ps :: "(int \<times> paging_member) list"
    by (induction ps) auto
  have "List.map pmExtension (filter (\<lambda>m. pmGroup m = h) (List.map snd (tbRows (dbPagingMembers (SetPagingMembers g ms d)))))
    = List.map (\<lambda>p. pmExtension (snd p)) (filter (\<lambda>p. pmGroup (snd p) = h \<and> pmGroup (snd p) \<noteq> g) (tbRows (dbPagingMembers d)))
      @ (if h = g then ms else [])"
    by (simp add: SetPagingMembers_def fold_insert_rows row_delete_def filter_map o_def conj_commute)
  then show ?thesis by (simp add: PagingMembers_def paging_filter_map del: filter_map)
qed

text \<open>Storing the members of a group and reading them gives the same members: for a
  hunt group in the order given, which is the order of their priorities, whatever the
  group held before; for a paging group in the order the database picks.  Other groups
  keep their members, and deleting a group leaves neither the group nor members.\<close>
theorem group_members_round_trip:
  "HuntMembers h (SetHuntMembers g ms d) = (if h = g then ms else HuntMembers h d)
   \<and> PagingMembers pick h (SetPagingMembers g ms d) = (if h = g then pick ms else PagingMembers pick h d)
   \<and> HuntMembers g (DeleteHuntGroup g d) = [] \<and> GetHuntGroup g (DeleteHuntGroup g d) = None
   \<and> (pick [] = [] \<longrightarrow> PagingMembers pick g (DeletePagingGroup g d) = [])
   \<and> GetPagingGroup g (DeletePagingGroup g d) = None"
  by (simp add: SetHuntMembers_same SetHuntMembers_other SetPagingMembers_members)
     (auto simp: HuntMembers_def PagingMembers_def db_defs row_delete_def GetHuntGroup_def GetPagingGroup_def
        map_of_eq_None_iff)

lemma group_members_round_trip_witness:
  "PagingMembers rev 1 (DeletePagingGroup 1 (SetPagingMembers 1 [''101'', ''102''] empty_db)) = []"
  using group_members_round_trip [of 1 1 "[]" "SetPagingMembers 1 [''101'', ''102''] empty_db" rev] by simp

section \<open>The queue of a recipient\<close>

definition pending :: "string \<Rightarrow> offline_message \<Rightarrow> bool" where
  "pending r m = (omRecipient m = r \<and> omDeliveredAt m = None)"

lemma rows_ok_sorted: "rows_ok t \<Longrightarrow> sorted_wrt (\<lambda>p q. fst p \<le> fst q) (filter P (tbRows t))"
  by (auto simp: rows_ok_def sorted_wrt_map intro!: sorted_wrt_filter elim!: sorted_wrt_mono_rel [rotated])

lemma ListPending_filter:
  "rows_ok (dbOffline d) \<Longrightarrow>
   ListPendingOfflineMessages r d = filter (\<lambda>p. pending r (snd p)) (offline_rows d)"
  using rows_ok_sorted [of "dbOffline d"] by (simp add: ListPendingOfflineMessages_def pending_def sort_by_id)

lemma filter_pending_mark:
  "filter (\<lambda>p. pending r (snd p)) (List.map (\<lambda>p. if fst p = i then (i, snd p\<lparr>omDeliveredAt := Some t\<rparr>) else p) ps)
     = filter (\<lambda>p. fst p \<noteq> i) (filter (\<lambda>p. pending r (snd p)) ps)"
  by (induction ps) (auto simp: pending_def)

lemma offline_inv: "db_inv d \<Longrightarrow> rows_ok (dbOffline d)"
  by (simp add: db_inv_def)

text \<open>C37: The messages waiting for a recipient form a queue: storing a message appends
  it to the queue of its recipient, with text/plain where no content type was given,
  and to no other; marking a message delivered removes that message and no other; and
  the count is the length of the queue.\<close>
theorem offline_queue:
  assumes "db_reach d"
  shows "ListPendingOfflineMessages r (EnqueueOfflineMessage now rcp sender ct body d) =
      ListPendingOfflineMessages r d @
        (if rcp = r then [(tbNext (dbOffline d),
            \<lparr>omRecipient = rcp, omSender = sender, omContentType = (if ct = [] then ''text/plain'' else ct),
             omBody = body, omCreatedAt = now, omDeliveredAt = None\<rparr>)] else [])
    \<and> tbNext (dbOffline d) \<notin> set (keys (ListPendingOfflineMessages r d))
    \<and> ListPendingOfflineMessages r (MarkOfflineMessageDelivered now i d) =
        filter (\<lambda>p. fst p \<noteq> i) (ListPendingOfflineMessages r d)
    \<and> CountPendingOfflineMessages r d = int (length (ListPendingOfflineMessages r d))"
proof -
  have inv: "db_inv d" using assms by (rule db_reach_inv)
  have enq: "rows_ok (dbOffline (EnqueueOfflineMessage now rcp sender ct body d))"
    and mark: "rows_ok (dbOffline (MarkOfflineMessageDelivered now i d))"
    and old: "rows_ok (dbOffline d)"
    using inv by (auto intro: offline_inv inv_intros)
  have "i < tbNext (dbOffline d)" if "i \<in> set (keys (ListPendingOfflineMessages r d))" for i
    using that old by (auto simp: ListPending_filter rows_ok_def)
  then show ?thesis
    unfolding ListPending_filter [OF enq] ListPending_filter [OF mark] ListPending_filter [OF old]
    by (auto simp: EnqueueOfflineMessage_def MarkOfflineMessageDelivered_def row_insert_def row_set_def
        filter_pending_mark CountPendingOfflineMessages_def ListPending_filter [OF old])
       (auto simp: pending_def)
qed

lemma offline_queue_witness:
  "ListPendingOfflineMessages ''101'' (MarkOfflineMessageDelivered ''t2'' 1 demo_db) = []
   \<and> CountPendingOfflineMessages ''101'' demo_db = 1"
proof -
  have "keys (ListPendingOfflineMessages ''101'' demo_db) = [1]" by code_simp
  then obtain m where "ListPendingOfflineMessages ''101'' demo_db = [(1, m)]" by auto
  with offline_queue [OF demo_db_reach, of "''101''" "''t2''" _ _ _ _ 1] show ?thesis by simp
qed

text \<open>The last number an extension dialled and its last caller are independent.\<close>
lemma history_registers:
  "GetLastDialed e (SetLastDialed f n d) = (if e = f then n else GetLastDialed e d)"
  "GetLastCaller e (SetLastDialed f n d) = GetLastCaller e d"
  "GetLastCaller e (SetLastCaller f n d) = (if e = f then n else GetLastCaller e d)"
  "GetLastDialed e (SetLastCaller f n d) = GetLastDialed e d"
  by (auto simp: GetLastDialed_def GetLastCaller_def SetLastDialed_def SetLastCaller_def history_of_def
      goget_def split: option.splits)

end
