(* ===== verification/Backup.thy ===== *)
theory Backup
  imports Config Store
begin

text \<open>
  Backups (internal/backup): which files of the server go into an archive, the
  manifest with their checksums, and how an archive is checked and written back.
  The disk is a map from clean paths to files and directories.  SHA-256, JSON
  and the tar.gz format are arguments; an archive is the list of its entries.
  Slashes separate paths, so ToSlash and FromSlash change nothing.
\<close>

section \<open>Disk\<close>

type_synonym disk = "(string, dirent) gomap"

text \<open>What a path names; the empty path names nothing.\<close>
definition node :: "disk \<Rightarrow> string \<Rightarrow> dirent option" where
  "node dk p = (if p = [] then None else get dk (Clean p))"

datatype read_result = NoFile | ReadBad | Bytes string

definition ReadFile :: "string \<Rightarrow> disk \<Rightarrow> read_result" where
  "ReadFile p dk = (case node dk p of None \<Rightarrow> NoFile | Some (FileEnt b) \<Rightarrow> Bytes b | _ \<Rightarrow> ReadBad)"

text \<open>The path of a file relative to a directory above it.\<close>
definition dir_slash :: "string \<Rightarrow> string" where
  "dir_slash d = (if Clean d = ''/'' then ''/'' else if Clean d = ''.'' then [] else Clean d @ ''/'')"

definition strip_dir :: "string \<Rightarrow> string \<Rightarrow> string option" where
  "strip_dir d p =
     (let r = drop (length (dir_slash d)) p in
      if has_prefix p (dir_slash d) \<and> plain_rel r then Some r else None)"

text \<open>filepath.WalkDir below a directory, and os.ReadDir of its own entries\<close>
definition walk_dir :: "string \<Rightarrow> disk \<Rightarrow> (string \<times> dirent) list" where
  "walk_dir d dk = List.map_filter (\<lambda>(p, e). map_option (\<lambda>r. (r, e)) (strip_dir d p)) dk"

definition read_dir :: "string \<Rightarrow> disk \<Rightarrow> (string \<times> dirent) list" where
  "read_dir d dk = filter (\<lambda>(r, e). slash \<notin> set r) (walk_dir d dk)"

text \<open>The directories os.MkdirAll makes, outermost first\<close>
definition dir_chain :: "string \<Rightarrow> string list" where
  "dir_chain p =
     (let r = IsAbs p; cs = rev (clean_comps r [] (split_on slash p)) in
      List.map (\<lambda>i. path_of r (take i cs))
        (filter (\<lambda>i. plain_comp (cs ! (i - 1))) [1..<Suc (length cs)]))"

fun mkdirs :: "string list \<Rightarrow> disk \<Rightarrow> bool \<times> disk" where
  "mkdirs [] dk = (True, dk)"
| "mkdirs (p # ps) dk =
     (case get dk p of
        None \<Rightarrow> mkdirs ps (put p IsDir dk)
      | Some IsDir \<Rightarrow> mkdirs ps dk
      | Some _ \<Rightarrow> (False, dk))"

definition MkdirAll :: "string \<Rightarrow> disk \<Rightarrow> bool \<times> disk" where
  "MkdirAll p dk = mkdirs (dir_chain p) dk"

definition WriteFile :: "string \<Rightarrow> string \<Rightarrow> disk \<Rightarrow> bool \<times> disk" where
  "WriteFile p b dk =
     (if node dk p = Some IsDir then (False, dk) else (True, put (Clean p) (FileEnt b) dk))"

section \<open>Layout and manifest\<close>

record layout =
  lyCfgDir :: string
  lyConfigPath :: string
  lyExtensionsDir :: string
  lyDatabasePath :: string
  lyMOHDir :: string
  lyPhonebookDir :: string
  lyConfigRel :: string
  lyDatabaseRel :: string
  lyExtensionsRel :: string
  lyMOHRel :: string
  lyPhonebookRel :: string

definition layout_rel :: "string \<Rightarrow> string \<Rightarrow> string" where
  "layout_rel cfgDir p =
     (if IsAbs p then
        (case RelRooted cfgDir p of
           Some r \<Rightarrow> if r \<noteq> ''..'' \<and> \<not> IsAbs r then r else Base p
         | None \<Rightarrow> Base p)
      else p)"

definition LayoutFrom :: "string \<Rightarrow> string \<Rightarrow> config \<Rightarrow> layout" where
  "LayoutFrom cfgDir cfgPath cfg =
     (let place = (\<lambda>p. if IsAbs p then p else Join [cfgDir, p]) in
      \<lparr>lyCfgDir = cfgDir, lyConfigPath = cfgPath,
       lyExtensionsDir = place (cExtensionsDir cfg), lyDatabasePath = place (cDatabasePath cfg),
       lyMOHDir = place (mohDir (cServer cfg)), lyPhonebookDir = place (cPhonebookDir cfg),
       lyConfigRel = Base cfgPath,
       lyDatabaseRel = layout_rel cfgDir (cDatabasePath cfg),
       lyExtensionsRel = layout_rel cfgDir (cExtensionsDir cfg),
       lyMOHRel = layout_rel cfgDir (mohDir (cServer cfg)),
       lyPhonebookRel = layout_rel cfgDir (cPhonebookDir cfg)\<rparr>)"

record export_options =
  eoMOH :: bool
  eoPhonebook :: bool

record file_entry =
  fePath :: string
  feSHA256 :: string
  feSize :: int

record manifest =
  mfFormat :: int
  mfServerVersion :: string
  mfCreatedAt :: string
  mfConfigFile :: string
  mfDatabasePath :: string
  mfExtensionsDir :: string
  mfMOHDir :: string
  mfPhonebookDir :: string
  mfIncludeMOH :: bool
  mfIncludePhonebook :: bool
  mfFiles :: "file_entry list"

definition FormatVersion :: int where
  "FormatVersion = 1"

definition newManifest :: "string \<Rightarrow> string \<Rightarrow> layout \<Rightarrow> export_options \<Rightarrow> manifest" where
  "newManifest version now ly opts =
     \<lparr>mfFormat = FormatVersion, mfServerVersion = version, mfCreatedAt = now,
      mfConfigFile = lyConfigRel ly, mfDatabasePath = lyDatabaseRel ly, mfExtensionsDir = lyExtensionsRel ly,
      mfMOHDir = lyMOHRel ly, mfPhonebookDir = lyPhonebookRel ly,
      mfIncludeMOH = eoMOH opts, mfIncludePhonebook = eoPhonebook opts, mfFiles = []\<rparr>"

datatype backup_err = UnsupportedFormat | InvalidManifest | MissingFile | ChecksumMismatch
  | ArchiveTooLarge | BackupIO | BadArchive | BadJSON

record tar_entry =
  teName :: string
  teRegular :: bool
  teData :: string

text \<open>The formats: reading an archive gives its entries, whether it ended
  properly, and how many bytes of it were read.\<close>
record archive_lib =
  alHash :: "string \<Rightarrow> string"
  alJSON :: "manifest \<Rightarrow> string"
  alParse :: "string \<Rightarrow> manifest option"
  alPack :: "tar_entry list \<Rightarrow> string"
  alUnpack :: "string \<Rightarrow> tar_entry list \<times> bool \<times> int"

definition parseManifest :: "archive_lib \<Rightarrow> string \<Rightarrow> (backup_err, manifest) result" where
  "parseManifest al raw =
     (case alParse al raw of
        None \<Rightarrow> Err BadJSON
      | Some m \<Rightarrow>
          if mfFormat m \<noteq> FormatVersion then Err UnsupportedFormat
          else if mfConfigFile m = [] \<or> mfDatabasePath m = [] \<or> mfExtensionsDir m = [] then Err InvalidManifest
          else Ok m)"

section \<open>Export\<close>

type_synonym bfiles = "(string, string) gomap"

definition add_file :: "disk \<Rightarrow> string \<Rightarrow> string \<Rightarrow> bfiles \<Rightarrow> backup_err option \<times> bfiles" where
  "add_file dk arc src fs =
     (case ReadFile src dk of
        NoFile \<Rightarrow> (None, fs)
      | ReadBad \<Rightarrow> (Some BackupIO, fs)
      | Bytes b \<Rightarrow> (None, put arc b fs))"

fun add_entries :: "disk \<Rightarrow> string \<Rightarrow> string \<Rightarrow> string \<Rightarrow> (string \<times> dirent) list \<Rightarrow> bfiles
    \<Rightarrow> backup_err option \<times> bfiles" where
  "add_entries dk arcPrefix dir ext [] fs = (None, fs)"
| "add_entries dk arcPrefix dir ext ((rel, e) # es) fs =
     (if e = IsDir \<or> \<not> has_suffix (to_lower (Base rel)) ext then add_entries dk arcPrefix dir ext es fs
      else (case add_file dk (Join [arcPrefix, rel]) (below dir rel) fs of
              (Some er, fs') \<Rightarrow> (Some er, fs')
            | (None, fs') \<Rightarrow> add_entries dk arcPrefix dir ext es fs'))"

definition add_dir :: "disk \<Rightarrow> string \<Rightarrow> string \<Rightarrow> string \<Rightarrow> bfiles \<Rightarrow> backup_err option \<times> bfiles" where
  "add_dir dk arcPrefix dir ext fs =
     (if node dk dir = Some IsDir then add_entries dk arcPrefix dir ext (walk_dir dir dk) fs else (None, fs))"

text \<open>The copy of the database the store gives, when there is a store\<close>
datatype snapshot = NoStore | SnapFails | Snap string

definition add_database :: "disk \<Rightarrow> snapshot \<Rightarrow> layout \<Rightarrow> bfiles \<Rightarrow> backup_err option \<times> bfiles" where
  "add_database dk snap ly fs =
     (case snap of
        NoStore \<Rightarrow> add_file dk (lyDatabaseRel ly) (lyDatabasePath ly) fs
      | SnapFails \<Rightarrow> (Some BackupIO, fs)
      | Snap b \<Rightarrow> (None, put (lyDatabaseRel ly) b fs))"

definition collect :: "disk \<Rightarrow> snapshot \<Rightarrow> layout \<Rightarrow> export_options \<Rightarrow> (backup_err, bfiles) result" where
  "collect dk snap ly opts =
     (case add_file dk (lyConfigRel ly) (lyConfigPath ly) [] of
        (Some e, _) \<Rightarrow> Err e
      | (None, f1) \<Rightarrow>
     (case add_dir dk (lyExtensionsRel ly) (lyExtensionsDir ly) ''.toml'' f1 of
        (Some e, _) \<Rightarrow> Err e
      | (None, f2) \<Rightarrow>
     (case add_database dk snap ly f2 of
        (Some e, _) \<Rightarrow> Err e
      | (None, f3) \<Rightarrow>
          let f4 = (if eoMOH opts then snd (add_dir dk (lyMOHRel ly) (lyMOHDir ly) ''.wav'' f3) else f3)
          in Ok (if eoPhonebook opts then snd (add_dir dk (lyPhonebookRel ly) (lyPhonebookDir ly) ''.xml'' f4)
                 else f4))))"

definition file_entries :: "archive_lib \<Rightarrow> bfiles \<Rightarrow> file_entry list" where
  "file_entries al fs = List.map (\<lambda>(p, b). \<lparr>fePath = p, feSHA256 = alHash al b, feSize = int (length b)\<rparr>) fs"

definition packTarGz :: "archive_lib \<Rightarrow> bfiles \<Rightarrow> string" where
  "packTarGz al fs =
     alPack al (List.map (\<lambda>(p, b). \<lparr>teName = p, teRegular = True, teData = b\<rparr>)
       (sort_by (\<lambda>a b. str_le (fst a) (fst b)) fs))"

definition archive_files :: "archive_lib \<Rightarrow> string \<Rightarrow> string \<Rightarrow> layout \<Rightarrow> export_options \<Rightarrow> bfiles \<Rightarrow> bfiles" where
  "archive_files al version now ly opts fs =
     put ''manifest.json'' (alJSON al ((newManifest version now ly opts)\<lparr>mfFiles := file_entries al fs\<rparr>)) fs"

definition Export :: "archive_lib \<Rightarrow> string \<Rightarrow> string \<Rightarrow> disk \<Rightarrow> snapshot \<Rightarrow> layout \<Rightarrow> export_options
    \<Rightarrow> (backup_err, string) result" where
  "Export al version now dk snap ly opts =
     (case collect dk snap ly opts of
        Inl e \<Rightarrow> Err e
      | Inr fs \<Rightarrow> Ok (packTarGz al (archive_files al version now ly opts fs)))"

section \<open>Unpack and restore\<close>

definition MaxArchiveBytes :: int where
  "MaxArchiveBytes = 500 * 2 ^ 20"

fun unpack_loop :: "int \<Rightarrow> bool \<Rightarrow> tar_entry list \<Rightarrow> int \<Rightarrow> bfiles \<Rightarrow> (backup_err, bfiles) result" where
  "unpack_loop maxBytes good [] seen fs = (if good then Ok fs else Err BadArchive)"
| "unpack_loop maxBytes good (e # es) seen fs =
     (if \<not> teRegular e then unpack_loop maxBytes good es seen fs
      else if str_contains (teName e) ''..'' then Err InvalidManifest
      else let seen' = seen + int (length (teData e)) in
        if maxBytes < seen' then Err ArchiveTooLarge
        else unpack_loop maxBytes good es seen' (put (teName e) (teData e) fs))"

definition Unpack :: "archive_lib \<Rightarrow> string \<Rightarrow> int \<Rightarrow> (backup_err, bfiles) result" where
  "Unpack al raw maxBytes =
     (let limit = (if maxBytes \<le> 0 then MaxArchiveBytes else maxBytes) in
      case alUnpack al (take (nat (limit + 1)) raw) of
        (es, good, used) \<Rightarrow>
          (case unpack_loop limit good es 0 [] of
             Inl e \<Rightarrow> Err e
           | Inr fs \<Rightarrow> if limit + 1 - used \<le> 0 then Err ArchiveTooLarge else Ok fs))"

fun check_files :: "archive_lib \<Rightarrow> bfiles \<Rightarrow> file_entry list \<Rightarrow> backup_err option" where
  "check_files al fs [] = None"
| "check_files al fs (f # rest) =
     (case get fs (fePath f) of
        None \<Rightarrow> Some MissingFile
      | Some b \<Rightarrow> if alHash al b \<noteq> feSHA256 f then Some ChecksumMismatch else check_files al fs rest)"

definition validateArchive :: "archive_lib \<Rightarrow> bfiles \<Rightarrow> (backup_err, manifest) result" where
  "validateArchive al fs =
     (case get fs ''manifest.json'' of
        None \<Rightarrow> Err InvalidManifest
      | Some raw \<Rightarrow>
     (case parseManifest al raw of
        Inl e \<Rightarrow> Err e
      | Inr m \<Rightarrow>
     (case check_files al fs (mfFiles m) of
        Some e \<Rightarrow> Err e
      | None \<Rightarrow>
          if \<not> has fs (mfConfigFile m) then Err MissingFile
          else if \<not> has fs (mfDatabasePath m) then Err MissingFile
          else Ok m)))"

definition write_file :: "string \<Rightarrow> string \<Rightarrow> disk \<Rightarrow> bool \<times> disk" where
  "write_file dest b dk =
     (case MkdirAll (Dir dest) dk of (ok, dk') \<Rightarrow> if ok then WriteFile dest b dk' else (False, dk'))"

definition cleanDir :: "string \<Rightarrow> string \<Rightarrow> disk \<Rightarrow> bool \<times> disk" where
  "cleanDir dir ext dk =
     (case node dk dir of
        None \<Rightarrow> MkdirAll dir dk
      | Some IsDir \<Rightarrow>
          (True, foldr (\<lambda>(r, e) d. if e \<noteq> IsDir \<and> has_suffix (to_lower r) ext then del (below dir r) d else d)
             (read_dir dir dk) dk)
      | Some _ \<Rightarrow> (False, dk))"

text \<open>The part of an entry's name after the directory of the archive, as the code
  strips it.\<close>
definition entry_rel :: "string \<Rightarrow> string \<Rightarrow> string option" where
  "entry_rel pre path =
     (if \<not> has_prefix path pre then None
      else let rel = trim_prefix (trim_prefix path pre) ''/'' in if rel = [] then None else Some rel)"

fun restore_files :: "string \<Rightarrow> string \<Rightarrow> (string \<Rightarrow> bool) \<Rightarrow> bfiles \<Rightarrow> disk \<Rightarrow> bool \<times> disk" where
  "restore_files pre dir keep [] dk = (True, dk)"
| "restore_files pre dir keep ((path, b) # fs) dk =
     (case entry_rel pre path of
        None \<Rightarrow> restore_files pre dir keep fs dk
      | Some rel \<Rightarrow>
          if \<not> keep rel then restore_files pre dir keep fs dk
          else (case write_file (Join [dir, rel]) b dk of
                  (True, dk') \<Rightarrow> restore_files pre dir keep fs dk'
                | (False, dk') \<Rightarrow> (False, dk')))"

definition restore_dir :: "string \<Rightarrow> string \<Rightarrow> string \<Rightarrow> (string \<Rightarrow> bool) \<Rightarrow> bfiles \<Rightarrow> disk \<Rightarrow> bool \<times> disk" where
  "restore_dir pre dir ext keep fs dk =
     (case cleanDir dir ext dk of
        (False, dk') \<Rightarrow> (False, dk')
      | (True, dk') \<Rightarrow> restore_files pre dir keep fs dk')"

text \<open>One step of the restore after another, until one fails.\<close>
definition then_do :: "(disk \<Rightarrow> bool \<times> disk) \<Rightarrow> (disk \<Rightarrow> bool \<times> disk) \<Rightarrow> disk \<Rightarrow> bool \<times> disk" where
  "then_do f g dk = (case f dk of (True, dk') \<Rightarrow> g dk' | (False, dk') \<Rightarrow> (False, dk'))"

definition put_entry :: "bfiles \<Rightarrow> string \<Rightarrow> string \<Rightarrow> disk \<Rightarrow> bool \<times> disk" where
  "put_entry fs name dest dk = (case get fs name of None \<Rightarrow> (True, dk) | Some b \<Rightarrow> write_file dest b dk)"

definition is_toml :: "string \<Rightarrow> bool" where
  "is_toml rel = has_suffix (to_lower rel) ''.toml''"

definition restore_steps :: "layout \<Rightarrow> manifest \<Rightarrow> bfiles \<Rightarrow> disk \<Rightarrow> bool \<times> disk" where
  "restore_steps ly m fs =
     then_do (put_entry fs (mfConfigFile m) (lyConfigPath ly))
       (then_do (put_entry fs (mfDatabasePath m) (lyDatabasePath ly))
         (then_do (restore_dir (mfExtensionsDir m) (lyExtensionsDir ly) ''.toml'' is_toml fs)
           (then_do
             (if mfIncludeMOH m \<and> mfMOHDir m \<noteq> []
              then restore_dir (mfMOHDir m) (lyMOHDir ly) ''.wav'' (\<lambda>_. True) fs else Pair True)
             (if mfIncludePhonebook m \<and> mfPhonebookDir m \<noteq> []
              then restore_dir (mfPhonebookDir m) (lyPhonebookDir ly) ''.xml'' (\<lambda>_. True) fs else Pair True))))"

definition Restore :: "archive_lib \<Rightarrow> layout \<Rightarrow> bfiles \<Rightarrow> disk \<Rightarrow> backup_err option \<times> disk" where
  "Restore al ly fs dk =
     (case validateArchive al fs of
        Inl e \<Rightarrow> (Some e, dk)
      | Inr m \<Rightarrow> (case restore_steps ly m fs dk of (ok, dk') \<Rightarrow> (if ok then None else Some BackupIO, dk')))"

section \<open>Archives read back\<close>

lemma unpack_loop_reads:
  assumes "\<forall>e \<in> set es. teRegular e \<and> \<not> str_contains (teName e) ''..''"
    and "seen + sum_list (List.map (\<lambda>e. int (length (teData e))) es) \<le> mx" "0 \<le> seen"
  shows "unpack_loop mx True es seen fs = Ok (foldl (\<lambda>f e. put (teName e) (teData e) f) fs es)"
  using assms
proof (induction es arbitrary: seen fs)
  case (Cons e es)
  have "0 \<le> sum_list (List.map (\<lambda>e. int (length (teData e))) es)" by (rule sum_list_nonneg) auto
  with Cons show ?case by (auto simp: Let_def)
qed simp

lemma get_foldl_put:
  "distinct (List.map fst ps) \<Longrightarrow> get (foldl (\<lambda>f p. put (fst p) (snd p) f) fs ps) k
     = (case get ps k of None \<Rightarrow> get fs k | Some v \<Rightarrow> Some v)"
proof (induction ps arbitrary: fs)
  case (Cons p ps)
  then have ih: "get (foldl (\<lambda>f p. put (fst p) (snd p) f) (put (fst p) (snd p) fs) ps) k
      = (case get ps k of None \<Rightarrow> get (put (fst p) (snd p) fs) k | Some v \<Rightarrow> Some v)" by simp
  have "get ps k = None" if "k = fst p" using Cons.prems that by (simp add: map_of_eq_None_iff)
  with ih show ?case by (cases p) (simp del: map_of_eq_None_iff map_of_eq_Some_iff split: option.split)
qed simp

definition as_entries :: "bfiles \<Rightarrow> tar_entry list" where
  "as_entries fs = List.map (\<lambda>(p, b). \<lparr>teName = p, teRegular = True, teData = b\<rparr>)
     (sort_by (\<lambda>a b. str_le (fst a) (fst b)) fs)"

lemma foldl_as_entries:
  "foldl (\<lambda>f e. put (teName e) (teData e) f) fs (as_entries gs)
     = foldl (\<lambda>f p. put (fst p) (snd p) f) fs (sort_by (\<lambda>a b. str_le (fst a) (fst b)) gs)"
proof -
  have "foldl (\<lambda>f e. put (teName e) (teData e) f) fs (List.map (\<lambda>(p, b). \<lparr>teName = p, teRegular = True, teData = b\<rparr>) ps)
      = foldl (\<lambda>f p. put (fst p) (snd p) f) fs ps" for ps
    by (induction ps arbitrary: fs) auto
  then show ?thesis by (simp add: as_entries_def)
qed

lemma mset_map_of:
  assumes "distinct (List.map fst xs)" "mset xs = mset ys"
  shows "map_of xs = map_of ys"
proof -
  have "mset (List.map fst ys) = mset (List.map fst xs)" using assms(2) by simp
  then have "distinct (List.map fst ys)" using assms(1) by (metis mset_eq_imp_distinct_iff)
  with assms show ?thesis by (metis map_of_inject_set mset_eq_setD)
qed

lemma distinct_sort_by_keys:
  "distinct (List.map fst xs) \<Longrightarrow> distinct (List.map fst (sort_by le xs))"
  by (metis mset_eq_imp_distinct_iff mset_map mset_sort_by)

text \<open>The bytes of an archive's files\<close>
definition total_size :: "bfiles \<Rightarrow> int" where
  "total_size fs = sum_list (List.map (\<lambda>p. int (length (snd p))) fs)"

lemma total_size_entries: "sum_list (List.map (\<lambda>e. int (length (teData e))) (as_entries fs)) = total_size fs"
proof -
  have "sum_list (List.map (\<lambda>e. int (length (teData e))) (as_entries fs))
      = sum_list (List.map (\<lambda>p. int (length (snd p))) (sort_by (\<lambda>a b. str_le (fst a) (fst b)) fs))"
    by (simp add: as_entries_def comp_def case_prod_beta)
  also have "\<dots> = sum_mset (mset (List.map (\<lambda>p. int (length (snd p))) (sort_by (\<lambda>a b. str_le (fst a) (fst b)) fs)))"
    by (rule sum_mset_sum_list [symmetric])
  also have "\<dots> = total_size fs" by (simp only: mset_map mset_sort_by) (simp add: total_size_def flip: mset_map sum_mset_sum_list)
  finally show ?thesis .
qed

lemma check_files_ok:
  "check_files al fs es = None \<longleftrightarrow> (\<forall>f \<in> set es. \<exists>b. get fs (fePath f) = Some b \<and> alHash al b = feSHA256 f)"
  by (induction es) (auto split: option.splits)

text \<open>The formats read back what they wrote: the manifest and the entries of this archive.\<close>
definition reads_back :: "archive_lib \<Rightarrow> manifest \<Rightarrow> bfiles \<Rightarrow> bool" where
  "reads_back al m fs = (alParse al (alJSON al m) = Some m
     \<and> alUnpack al (alPack al (as_entries fs)) = (as_entries fs, True, int (length (alPack al (as_entries fs)))))"

definition full_manifest :: "archive_lib \<Rightarrow> string \<Rightarrow> string \<Rightarrow> layout \<Rightarrow> export_options \<Rightarrow> bfiles \<Rightarrow> manifest" where
  "full_manifest al version now ly opts fs = (newManifest version now ly opts)\<lparr>mfFiles := file_entries al fs\<rparr>"

lemma distinct_collect_steps:
  "distinct (keys fs) \<Longrightarrow> distinct (keys (snd (add_file dk a s fs)))"
  "distinct (keys fs) \<Longrightarrow> distinct (keys (snd (add_entries dk a s x es fs)))"
  "distinct (keys fs) \<Longrightarrow> distinct (keys (snd (add_dir dk a s x fs)))"
  "distinct (keys fs) \<Longrightarrow> distinct (keys (snd (add_database dk sn ly fs)))"
proof -
  show f: "distinct (keys fs) \<Longrightarrow> distinct (keys (snd (add_file dk a s fs)))" for fs a s
    by (auto simp: add_file_def split: read_result.splits)
  show e: "distinct (keys fs) \<Longrightarrow> distinct (keys (snd (add_entries dk a s x es fs)))" for fs es
  proof (induction es arbitrary: fs)
    case (Cons p es)
    obtain r e where p: "p = (r, e)" by (cases p)
    obtain er fs' where a: "add_file dk (Join [a, r]) (below s r) fs = (er, fs')" by (cases "add_file dk (Join [a, r]) (below s r) fs")
    have "distinct (keys fs')" using f [OF Cons.prems, of "Join [a, r]" "below s r"] a by simp
    then show ?case using Cons p a by (cases er) auto
  qed simp
  show "distinct (keys fs) \<Longrightarrow> distinct (keys (snd (add_dir dk a s x fs)))" by (simp add: add_dir_def e)
  show "distinct (keys fs) \<Longrightarrow> distinct (keys (snd (add_database dk sn ly fs)))"
    using f [of fs "lyDatabaseRel ly" "lyDatabasePath ly"] by (simp add: add_database_def distinct_put split: snapshot.split)
qed

text \<open>Every part of a collection that went well\<close>
lemma collect_Ok:
  assumes "collect dk snap ly opts = Ok fs"
  obtains f1 f2 f3 f4 where "add_file dk (lyConfigRel ly) (lyConfigPath ly) [] = (None, f1)"
    "add_dir dk (lyExtensionsRel ly) (lyExtensionsDir ly) ''.toml'' f1 = (None, f2)"
    "add_database dk snap ly f2 = (None, f3)"
    "f4 = (if eoMOH opts then snd (add_dir dk (lyMOHRel ly) (lyMOHDir ly) ''.wav'' f3) else f3)"
    "fs = (if eoPhonebook opts then snd (add_dir dk (lyPhonebookRel ly) (lyPhonebookDir ly) ''.xml'' f4) else f4)"
  using assms by (simp add: collect_def Let_def split: prod.splits option.splits)

lemma distinct_collect:
  assumes "collect dk snap ly opts = Ok fs"
  shows "distinct (keys fs)"
proof -
  obtain f1 f2 f3 f4 where f: "add_file dk (lyConfigRel ly) (lyConfigPath ly) [] = (None, f1)"
    "add_dir dk (lyExtensionsRel ly) (lyExtensionsDir ly) ''.toml'' f1 = (None, f2)"
    "add_database dk snap ly f2 = (None, f3)"
    "f4 = (if eoMOH opts then snd (add_dir dk (lyMOHRel ly) (lyMOHDir ly) ''.wav'' f3) else f3)"
    "fs = (if eoPhonebook opts then snd (add_dir dk (lyPhonebookRel ly) (lyPhonebookDir ly) ''.xml'' f4) else f4)"
    using assms by (rule collect_Ok)
  have "distinct (keys f1)" using distinct_collect_steps(1) [of "[]" dk "lyConfigRel ly" "lyConfigPath ly"] f(1) by simp
  then have "distinct (keys f2)" using distinct_collect_steps(3) [of f1 dk "lyExtensionsRel ly" "lyExtensionsDir ly" "''.toml''"] f(2) by simp
  then have "distinct (keys f3)" using distinct_collect_steps(4) [of f2 dk snap ly] f(3) by simp
  then have "distinct (keys f4)" using f(4) by (simp add: distinct_collect_steps(3))
  then show ?thesis using f(5) by (simp add: distinct_collect_steps(3))
qed

lemma distinct_archive: "distinct (keys fs) \<Longrightarrow> distinct (keys (archive_files al v now ly opts fs))"
  by (simp add: archive_files_def distinct_update)

lemma Unpack_packed:
  assumes "alUnpack al (alPack al (as_entries gs)) = (as_entries gs, True, int (length (alPack al (as_entries gs))))"
    and "distinct (keys gs)" "\<forall>p \<in> set (keys gs). \<not> str_contains p ''..''"
    and "total_size gs \<le> MaxArchiveBytes" "int (length (packTarGz al gs)) \<le> MaxArchiveBytes"
  shows "\<exists>fs. Unpack al (packTarGz al gs) MaxArchiveBytes = Ok fs \<and> map_of fs = map_of gs"
proof -
  let ?raw = "packTarGz al gs" and ?sorted = "sort_by (\<lambda>a b. str_le (fst a) (fst b)) gs"
  let ?fs = "foldl (\<lambda>f p. put (fst p) (snd p) f) [] ?sorted"
  have raw: "?raw = alPack al (as_entries gs)" by (simp add: packTarGz_def as_entries_def)
  have t: "take (nat (MaxArchiveBytes + 1)) ?raw = ?raw"
    by (rule take_all) (use assms(5) in linarith)
  have "\<forall>e \<in> set (as_entries gs). teRegular e \<and> \<not> str_contains (teName e) ''..''"
    using assms(3) by (auto simp: as_entries_def)
  then have l: "unpack_loop MaxArchiveBytes True (as_entries gs) 0 [] = Ok ?fs"
    using unpack_loop_reads [where seen = 0] assms(4) by (simp add: total_size_entries foldl_as_entries)
  have pos: "\<not> MaxArchiveBytes \<le> 0" by (simp add: MaxArchiveBytes_def)
  have "\<not> MaxArchiveBytes + 1 - int (length ?raw) \<le> 0" using assms(5) by linarith
  then have "Unpack al ?raw MaxArchiveBytes = Ok ?fs"
    using pos t l assms(1) by (simp add: Unpack_def Let_def flip: raw)
  moreover have "distinct (keys ?sorted)" using assms(2) by (rule distinct_sort_by_keys)
  then have "get ?fs k = get ?sorted k" for k
    by (simp only: get_foldl_put) (simp split: option.split)
  then have "map_of ?fs = map_of ?sorted" by (rule ext)
  moreover have "map_of ?sorted = map_of gs"
    by (rule mset_map_of) (simp_all add: \<open>distinct (keys ?sorted)\<close>)
  ultimately show ?thesis by auto
qed

lemma check_files_cong: "map_of fs = map_of gs \<Longrightarrow> check_files al fs es = check_files al gs es"
  by (induction es) (auto split: option.split)

lemma validateArchive_cong:
  assumes "map_of fs = map_of gs"
  shows "validateArchive al fs = validateArchive al gs"
  unfolding validateArchive_def check_files_cong [OF assms] assms ..

lemma check_file_entries:
  assumes "distinct (keys fs)" "''manifest.json'' \<notin> set (keys fs)"
  shows "check_files al (put ''manifest.json'' j fs) (file_entries al fs) = None"
  using assms by (force simp: check_files_ok file_entries_def map_of_eq_Some_iff)

text \<open>C8: An export that the server accepts back: the archive unpacks to the files collected and
  their manifest, and passes validation.\<close>
theorem archive_round_trip:
  assumes "collect dk snap ly opts = Ok fs"
    and "reads_back al (full_manifest al version now ly opts fs) (archive_files al version now ly opts fs)"
    and "\<forall>p \<in> set (keys fs). \<not> str_contains p ''..''" "''manifest.json'' \<notin> set (keys fs)"
    and "total_size (archive_files al version now ly opts fs) \<le> MaxArchiveBytes"
    and "\<forall>raw. Export al version now dk snap ly opts = Ok raw \<longrightarrow> int (length raw) \<le> MaxArchiveBytes"
    and "has fs (lyConfigRel ly)" "has fs (lyDatabaseRel ly)"
    and "lyConfigRel ly \<noteq> []" "lyDatabaseRel ly \<noteq> []" "lyExtensionsRel ly \<noteq> []"
  shows "\<exists>raw fs'. Export al version now dk snap ly opts = Ok raw \<and> Unpack al raw MaxArchiveBytes = Ok fs'
    \<and> (\<forall>p. p \<noteq> ''manifest.json'' \<longrightarrow> get fs' p = get fs p)
    \<and> validateArchive al fs' = Ok (full_manifest al version now ly opts fs)"
proof -
  let ?m = "full_manifest al version now ly opts fs" and ?gs = "archive_files al version now ly opts fs"
  have d: "distinct (keys fs)" using assms(1) by (rule distinct_collect)
  have ex: "Export al version now dk snap ly opts = Ok (packTarGz al ?gs)" using assms(1) by (simp add: Export_def)
  have nodots: "\<not> str_contains ''manifest.json'' ''..''" by (simp add: str_contains_def)
  have names: "\<forall>p \<in> set (keys ?gs). \<not> str_contains p ''..''"
    using assms(3) nodots by (simp only: archive_files_def keys_put) blast
  have "\<exists>f. Unpack al (packTarGz al ?gs) MaxArchiveBytes = Ok f \<and> map_of f = map_of ?gs"
    by (rule Unpack_packed [OF _ distinct_archive [OF d] names assms(5)]) (use assms(2,6) ex in \<open>simp_all add: reads_back_def\<close>)
  then obtain fs' where f: "Unpack al (packTarGz al ?gs) MaxArchiveBytes = Ok fs'" "map_of fs' = map_of ?gs" by blast
  have m: "mfConfigFile ?m = lyConfigRel ly" "mfDatabasePath ?m = lyDatabaseRel ly" "mfExtensionsDir ?m = lyExtensionsRel ly"
    "mfFormat ?m = FormatVersion" "mfFiles ?m = file_entries al fs" by (simp_all add: full_manifest_def newManifest_def)
  have pm: "parseManifest al (alJSON al ?m) = Ok ?m"
    using assms(2,9,10,11) m by (simp add: parseManifest_def reads_back_def)
  have gs: "?gs = put ''manifest.json'' (alJSON al ?m) fs" by (simp add: archive_files_def full_manifest_def)
  have "has ?gs (lyConfigRel ly)" "has ?gs (lyDatabaseRel ly)" using assms(7,8) by (simp_all add: gs)
  moreover have "get ?gs ''manifest.json'' = Some (alJSON al ?m)" by (simp add: gs del: map_of_eq_Some_iff)
  ultimately have "validateArchive al ?gs = Ok ?m"
    using pm m check_file_entries [OF d assms(4), of al "alJSON al ?m"]
    by (simp add: validateArchive_def flip: gs del: map_of_eq_Some_iff)
  then have "validateArchive al fs' = Ok ?m" using validateArchive_cong [OF f(2)] by simp
  moreover have "p \<noteq> ''manifest.json'' \<longrightarrow> get fs' p = get fs p" for p
    using f(2) by (simp add: archive_files_def)
  ultimately show ?thesis using ex f(1) by blast
qed

section \<open>Where a restore writes\<close>

lemma split_on_part: "w \<in> set (split_on c s) \<Longrightarrow> \<exists>a b. s = a @ w @ b"
proof (induction s arbitrary: w)
  case (Cons x s)
  obtain v vs where s: "split_on c s = v # vs" by (cases "split_on c s") auto
  show ?case
  proof (cases "x \<noteq> c \<and> w = x # v")
    case True
    have "s = v @ (if vs = [] then [] else c # join_with [c] vs)"
      using join_split_on [of c s] s by (cases vs) auto
    then have "x # s = [] @ w @ (if vs = [] then [] else c # join_with [c] vs)" using True by simp
    then show ?thesis by blast
  next
    case False
    then have "w = [] \<or> w \<in> set (split_on c s)" using Cons.prems s by (auto split: if_splits)
    then show ?thesis
    proof
      assume "w = []"
      then show ?thesis by auto
    next
      assume "w \<in> set (split_on c s)"
      then obtain a b where "s = a @ w @ b" using Cons.IH by blast
      then have "x # s = (x # a) @ w @ b" by simp
      then show ?thesis by blast
    qed
  qed
qed auto

lemma comps_no_dotdot:
  "\<not> str_contains s ''..'' \<Longrightarrow> \<forall>c \<in> set (split_on slash s). c = [] \<or> c = ''.'' \<or> plain_comp c"
  using split_on_part [of "''..''" slash s] by (auto simp: plain_comp_def str_contains_iff)

definition in_dir :: "string \<Rightarrow> string \<Rightarrow> bool" where
  "in_dir d p = (p = Clean d \<or> strip_dir d p \<noteq> None)"

lemma below_dir_slash: "below d rel = dir_slash d @ rel"
  by (simp add: below_def dir_slash_def slash_def)

lemma strip_dir_below [simp]: "plain_rel rel \<Longrightarrow> strip_dir d (below d rel) = Some rel"
  by (simp add: strip_dir_def below_dir_slash)

lemma strip_dir_Some: "strip_dir d p = Some rel \<longleftrightarrow> p = below d rel \<and> plain_rel rel"
  by (auto simp: strip_dir_def below_dir_slash has_prefix_iff Let_def)

lemma Clean_Join [simp]: "Clean (Join els) = Join els" if "\<exists>e \<in> set els. e \<noteq> []"
  using that by (auto simp: Join_def filter_empty_conv Let_def)

lemma Join_in_dir:
  assumes "d \<noteq> []" "\<not> str_contains rel ''..''"
  shows "in_dir d (Join [d, rel])"
proof (cases "rel = []")
  case True
  then show ?thesis using assms(1) by (simp add: Join_def in_dir_def)
next
  case False
  let ?r = "IsAbs d" and ?acc = "clean_comps (IsAbs d) [] (split_on slash d)"
  let ?cs = "filter plain_comp (split_on slash rel)"
  have s: "\<forall>w \<in> set ?acc. slash \<notin> set w" using clean_comps_slashless by blast
  have "Join [d, rel] = Clean (d @ slash # rel)" using False assms(1) by (simp add: Join_def slash_def)
  also have "\<dots> = path_of ?r (rev ?acc @ ?cs)"
    using assms(1) clean_comps_plain [OF comps_no_dotdot [OF assms(2)]]
    by (simp add: Clean_path_of IsAbs_append split_on_append clean_comps_append)
  finally have j: "Join [d, rel] = path_of ?r (rev ?acc @ ?cs)" .
  show ?thesis
  proof (cases "?cs = []")
    case True
    then show ?thesis using j by (simp add: in_dir_def Clean_path_of)
  next
    case False
    let ?rel = "join_with ''/'' ?cs"
    have sp: "split_on slash ?rel = ?cs"
      using False split_on_join [of ?cs slash] split_on_no_sep [of _ slash rel] by (auto simp: slash_def)
    then have pl: "plain_rel ?rel" by (simp add: plain_rel_def)
    have "Join [d, rel] = below d ?rel"
      using path_of_append [OF Clean_form s pl] j sp by (simp add: below_def Clean_path_of)
    then show ?thesis using pl by (simp add: in_dir_def)
  qed
qed

text \<open>Outside the given places nothing changes, but directories may appear.\<close>
definition only_in :: "(string \<Rightarrow> bool) \<Rightarrow> disk \<Rightarrow> disk \<Rightarrow> bool" where
  "only_in P dk dk' \<longleftrightarrow>
     (\<forall>p. \<not> P p \<longrightarrow> get dk' p = get dk p \<or> (get dk p = None \<and> get dk' p = Some IsDir))"

lemma only_in_refl [simp]: "only_in P dk dk"
  by (simp add: only_in_def)

lemma only_in_trans: "only_in P a b \<Longrightarrow> only_in P b c \<Longrightarrow> only_in P a c"
  unfolding only_in_def by metis

lemma only_in_mkdirs: "only_in P dk (snd (mkdirs ps dk))"
proof (induction ps arbitrary: dk)
  case (Cons p ps)
  have "only_in P dk (put p IsDir dk)" if "get dk p = None" using that by (simp add: only_in_def)
  then show ?case using Cons only_in_trans by (auto split: option.split dirent.split)
qed simp

lemma only_in_MkdirAll: "only_in P dk (snd (MkdirAll p dk))"
  by (simp add: MkdirAll_def only_in_mkdirs)

lemma only_in_write_file: "P (Clean p) \<Longrightarrow> only_in P dk (snd (write_file p b dk))"
proof -
  assume P: "P (Clean p)"
  obtain ok dk1 where m: "MkdirAll (Dir p) dk = (ok, dk1)" by (cases "MkdirAll (Dir p) dk")
  then have "only_in P dk dk1" using only_in_MkdirAll [of P dk "Dir p"] by simp
  moreover have "only_in P dk1 (put (Clean p) (FileEnt b) dk1)" using P by (simp add: only_in_def)
  ultimately show ?thesis using m only_in_trans by (auto simp: write_file_def WriteFile_def)
qed

lemma only_in_cleanDir: "(\<And>p. in_dir d p \<Longrightarrow> P p) \<Longrightarrow> only_in P dk (snd (cleanDir d ext dk))"
proof -
  assume P: "\<And>p. in_dir d p \<Longrightarrow> P p"
  let ?f = "\<lambda>(r, e) x. if e \<noteq> IsDir \<and> has_suffix (to_lower r) ext then del (below d r) x else x"
  have "only_in P dk (foldr ?f es dk)" if "\<forall>(r, e) \<in> set es. plain_rel r" for es
    using that
  proof (induction es)
    case (Cons q es)
    obtain r e where q: "q = (r, e)" by (cases q)
    with Cons have "P (below d r)" using P by (simp add: in_dir_def)
    then have "only_in P (foldr ?f es dk) (?f q (foldr ?f es dk))" using q by (simp add: only_in_def)
    with Cons only_in_trans show ?case by auto
  qed simp
  moreover have "\<forall>(r, e) \<in> set (read_dir d dk). plain_rel r"
    by (auto simp: read_dir_def walk_dir_def List.map_filter_def strip_dir_Some)
  ultimately show ?thesis
    by (simp add: cleanDir_def only_in_MkdirAll split: option.split dirent.split)
qed

lemma entry_rel_part: "entry_rel pre path = Some rel \<Longrightarrow> \<exists>a. path = a @ rel"
proof -
  assume e: "entry_rel pre path = Some rel"
  then obtain r where "path = pre @ r" by (auto simp: entry_rel_def has_prefix_iff split: if_splits)
  moreover from this have "rel = trim_prefix r ''/''" using e by (auto simp: entry_rel_def Let_def split: if_splits)
  moreover have "\<exists>a. r = a @ trim_prefix r ''/''"
    by (cases "has_prefix r ''/''") (auto simp: has_prefix_iff trim_prefix_def)
  ultimately show ?thesis by (metis append.assoc)
qed

lemma entry_rel_no_dotdot: "entry_rel pre path = Some rel \<Longrightarrow> \<not> str_contains path ''..'' \<Longrightarrow> \<not> str_contains rel ''..''"
  using entry_rel_part str_contains_append [of rel "''..''" _ "[]"] by fastforce

lemma only_in_restore_files:
  assumes "d \<noteq> []" "\<And>p. in_dir d p \<Longrightarrow> P p"
  shows "\<forall>p \<in> set (keys fs). \<not> str_contains p ''..'' \<Longrightarrow> only_in P dk (snd (restore_files pre d keep fs dk))"
proof (induction fs arbitrary: dk)
  case (Cons q fs)
  obtain path b where q: "q = (path, b)" by (cases q)
  show ?case
  proof (cases "\<exists>rel. entry_rel pre path = Some rel \<and> keep rel")
    case True
    then obtain rel where r: "entry_rel pre path = Some rel" "keep rel" by blast
    then have "in_dir d (Join [d, rel])"
      using assms(1) Cons.prems q by (intro Join_in_dir) (auto dest: entry_rel_no_dotdot)
    moreover have "Clean (Join [d, rel]) = Join [d, rel]" by (rule Clean_Join) (use assms(1) in simp)
    ultimately have w: "only_in P dk (snd (write_file (Join [d, rel]) b dk))"
      using assms(2) by (intro only_in_write_file) simp
    obtain ok dk' where "write_file (Join [d, rel]) b dk = (ok, dk')" by (cases "write_file (Join [d, rel]) b dk")
    with w r q Cons show ?thesis by (cases ok) (auto intro: only_in_trans)
  qed (use Cons q in \<open>auto split: option.split\<close>)
qed simp

lemma only_in_restore_dir:
  assumes "d \<noteq> []" "\<And>p. in_dir d p \<Longrightarrow> P p" "\<forall>p \<in> set (keys fs). \<not> str_contains p ''..''"
  shows "only_in P dk (snd (restore_dir pre d ext keep fs dk))"
proof -
  obtain ok dk' where c: "cleanDir d ext dk = (ok, dk')" by (cases "cleanDir d ext dk")
  then have "only_in P dk dk'" using only_in_cleanDir [of d P dk ext, OF assms(2)] by simp
  moreover have "only_in P dk' (snd (restore_files pre d keep fs dk'))" by (rule only_in_restore_files [OF assms])
  ultimately show ?thesis using c by (cases ok) (auto simp: restore_dir_def intro: only_in_trans)
qed

lemma only_in_then_do:
  assumes "\<And>x. only_in P x (snd (f x))" "\<And>x. only_in P x (snd (g x))"
  shows "only_in P dk (snd (then_do f g dk))"
proof -
  obtain ok dk' where c: "f dk = (ok, dk')" by (cases "f dk")
  then show ?thesis using assms(1) [of dk] assms(2) [of dk'] by (cases ok) (auto simp: then_do_def intro: only_in_trans)
qed

definition restored_place :: "layout \<Rightarrow> string \<Rightarrow> bool" where
  "restored_place ly p = (p = Clean (lyConfigPath ly) \<or> p = Clean (lyDatabasePath ly)
     \<or> in_dir (lyExtensionsDir ly) p \<or> in_dir (lyMOHDir ly) p \<or> in_dir (lyPhonebookDir ly) p)"

definition no_dotdot :: "bfiles \<Rightarrow> bool" where
  "no_dotdot fs = (\<forall>p \<in> set (keys fs). \<not> str_contains p ''..'')"

lemma no_dotdot_Nil [simp]: "no_dotdot []"
  by (simp add: no_dotdot_def)

lemma no_dotdot_put: "no_dotdot fs \<Longrightarrow> \<not> str_contains k ''..'' \<Longrightarrow> no_dotdot (put k v fs)"
  unfolding no_dotdot_def keys_put by blast

lemma unpack_loop_names: "unpack_loop mx good es seen fs = Ok fs' \<Longrightarrow> no_dotdot fs \<Longrightarrow> no_dotdot fs'"
proof (induction es arbitrary: seen fs)
  case (Cons e es)
  show ?case
  proof (cases "teRegular e")
    case True
    then have "\<not> str_contains (teName e) ''..''"
      and u: "unpack_loop mx good es (seen + int (length (teData e))) (put (teName e) (teData e) fs) = Ok fs'"
      using Cons.prems(1) by (auto simp: Let_def split: if_splits)
    then show ?thesis using Cons.IH [OF u] no_dotdot_put [OF Cons.prems(2)] by blast
  qed (use Cons in simp)
qed (auto split: if_splits)

lemma Unpack_names: "Unpack al raw mx = Ok fs \<Longrightarrow> no_dotdot fs"
  by (auto simp: Unpack_def Let_def split: prod.splits sum.splits if_splits dest!: unpack_loop_names)


text \<open>The files listed in the manifest are there with their checksums.\<close>
definition listed_ok :: "archive_lib \<Rightarrow> bfiles \<Rightarrow> bool" where
  "listed_ok al fs = (\<exists>raw m. get fs ''manifest.json'' = Some raw \<and> parseManifest al raw = Ok m
     \<and> (\<forall>f \<in> set (mfFiles m). \<exists>b. get fs (fePath f) = Some b \<and> alHash al b = feSHA256 f)
     \<and> has fs (mfConfigFile m) \<and> has fs (mfDatabasePath m))"

lemma validateArchive_Ok: "(\<exists>m. validateArchive al fs = Ok m) \<longleftrightarrow> listed_ok al fs"
  by (auto simp: validateArchive_def listed_ok_def check_files_ok [symmetric] split: option.splits sum.splits if_splits)

text \<open>C11: Whatever archive is uploaded, a restore leaves every file outside the configured places
  alone, makes at most directories there, and changes nothing at all unless every file the manifest
  lists is there with its checksum.\<close>
theorem restore_confined:
  assumes "Unpack al raw mx = Ok fs" "Restore al ly fs dk = (e, dk')"
    and "lyExtensionsDir ly \<noteq> []" "lyMOHDir ly \<noteq> []" "lyPhonebookDir ly \<noteq> []"
  shows "only_in (restored_place ly) dk dk' \<and> (e = None \<or> dk' \<noteq> dk \<longrightarrow> listed_ok al fs)"
proof
  note names = Unpack_names [OF assms(1), unfolded no_dotdot_def]
  have put: "only_in (restored_place ly) x (snd (put_entry fs n p x))"
    if "restored_place ly (Clean p)" for n p x
    using that by (simp add: put_entry_def only_in_write_file split: option.split)
  have dir: "only_in (restored_place ly) x (snd (restore_dir pre d ext keep fs x))"
    if "d \<in> {lyExtensionsDir ly, lyMOHDir ly, lyPhonebookDir ly}" for x pre d ext keep
    by (rule only_in_restore_dir [OF _ _ names]) (use that assms(3-5) in \<open>auto simp: restored_place_def\<close>)
  have "only_in (restored_place ly) x (snd (restore_steps ly m fs x))" for m x
    unfolding restore_steps_def by (intro only_in_then_do put) (auto intro: dir simp: restored_place_def)
  then show "only_in (restored_place ly) dk dk'"
    using assms(2) by (cases "validateArchive al fs") (auto simp: Restore_def split_def)
  show "e = None \<or> dk' \<noteq> dk \<longrightarrow> listed_ok al fs"
    using assms(2) validateArchive_Ok [of al fs] by (cases "validateArchive al fs") (auto simp: Restore_def)
qed

section \<open>What a restore leaves\<close>

text \<open>No directory stands where a file goes, and no file where a directory is needed.\<close>
definition room_for :: "string list \<Rightarrow> disk \<Rightarrow> bool" where
  "room_for ps dk = (\<forall>p \<in> set ps. p \<noteq> [] \<and> get dk (Clean p) \<noteq> Some IsDir
     \<and> (\<forall>q \<in> set (dir_chain (Dir p)). get dk q \<in> {None, Some IsDir} \<and> q \<notin> Clean ` set ps))"

lemma mkdirs_room:
  "\<forall>q \<in> set qs. get dk q \<in> {None, Some IsDir} \<Longrightarrow>
     \<exists>dk'. mkdirs qs dk = (True, dk') \<and> (\<forall>p. get dk' p = (if p \<in> set qs then Some IsDir else get dk p))"
proof (induction qs arbitrary: dk)
  case (Cons q qs)
  show ?case
  proof (cases "get dk q")
    case None
    have "\<forall>r \<in> set qs. get (put q IsDir dk) r \<in> {None, Some IsDir}" using Cons.prems by simp
    then obtain dk' where "mkdirs qs (put q IsDir dk) = (True, dk')"
      "\<forall>p. get dk' p = (if p \<in> set qs then Some IsDir else get (put q IsDir dk) p)"
      using Cons.IH [of "put q IsDir dk"] by blast
    with None show ?thesis by auto
  next
    case (Some e)
    then have "e = IsDir" using Cons.prems by auto
    moreover obtain dk' where "mkdirs qs dk = (True, dk')" "\<forall>p. get dk' p = (if p \<in> set qs then Some IsDir else get dk p)"
      using Cons.IH [of dk] Cons.prems by auto
    ultimately show ?thesis using Some by (intro exI [of _ dk']) auto
  qed
qed simp

lemma write_file_room:
  assumes "room_for ps dk" "p \<in> set ps"
  obtains dk' where "write_file p b dk = (True, dk')" "room_for ps dk'"
    "get dk' (Clean p) = Some (FileEnt b)"
    "\<And>q. q \<noteq> Clean p \<Longrightarrow> get dk' q = (if q \<in> set (dir_chain (Dir p)) then Some IsDir else get dk q)"
proof -
  let ?qs = "dir_chain (Dir p)"
  have p: "p \<noteq> []" "get dk (Clean p) \<noteq> Some IsDir" "\<forall>q \<in> set ?qs. get dk q \<in> {None, Some IsDir}"
    and out: "\<forall>q \<in> set ?qs. q \<notin> Clean ` set ps"
    using assms unfolding room_for_def by blast+
  obtain dk1 where m: "mkdirs ?qs dk = (True, dk1)"
    "\<And>q. get dk1 q = (if q \<in> set ?qs then Some IsDir else get dk q)"
    using mkdirs_room [OF p(3)] by blast
  have "Clean p \<notin> set ?qs" using out assms(2) by blast
  then have w: "write_file p b dk = (True, put (Clean p) (FileEnt b) dk1)"
    using p m by (simp add: write_file_def WriteFile_def MkdirAll_def node_def)
  moreover have "room_for ps (put (Clean p) (FileEnt b) dk1)"
    unfolding room_for_def
  proof (intro ballI conjI)
    fix x q assume x: "x \<in> set ps" and q: "q \<in> set (dir_chain (Dir x))"
    have "q \<notin> Clean ` set ps" "get dk q \<in> {None, Some IsDir}" using assms(1) x q unfolding room_for_def by blast+
    then show "q \<notin> Clean ` set ps" "get (put (Clean p) (FileEnt b) dk1) q \<in> {None, Some IsDir}"
      using assms(2) m(2) [of q] by (auto split: if_splits)
  next
    fix x assume x: "x \<in> set ps"
    then show "x \<noteq> []" using assms(1) unfolding room_for_def by blast
    have "get dk (Clean x) \<noteq> Some IsDir" "Clean x \<notin> set ?qs" using assms(1) x out unfolding room_for_def by blast+
    then show "get (put (Clean p) (FileEnt b) dk1) (Clean x) \<noteq> Some IsDir" using m(2) by simp
  qed
  ultimately show ?thesis
    by (rule that) (use m(2) in simp_all)
qed

text \<open>The files a restore writes into a directory\<close>
definition dir_writes :: "string \<Rightarrow> string \<Rightarrow> (string \<Rightarrow> bool) \<Rightarrow> bfiles \<Rightarrow> (string \<times> string) list" where
  "dir_writes pre d keep fs = List.map_filter (\<lambda>(path, b).
     case entry_rel pre path of None \<Rightarrow> None
     | Some rel \<Rightarrow> if keep rel then Some (Join [d, rel], b) else None) fs"

fun write_all :: "(string \<times> string) list \<Rightarrow> disk \<Rightarrow> bool \<times> disk" where
  "write_all [] dk = (True, dk)"
| "write_all ((p, b) # ws) dk =
     (case write_file p b dk of (True, dk') \<Rightarrow> write_all ws dk' | (False, dk') \<Rightarrow> (False, dk'))"

lemma restore_files_writes: "restore_files pre d keep fs = write_all (dir_writes pre d keep fs)"
proof
  show "restore_files pre d keep fs dk = write_all (dir_writes pre d keep fs) dk" for dk
    by (induction fs arbitrary: dk) (auto simp: dir_writes_def List.map_filter_simps split: option.split bool.split prod.split)
qed

lemma write_all_room:
  assumes "room_for ps dk" "set (List.map fst ws) \<subseteq> set ps" "distinct (List.map (\<lambda>w. Clean (fst w)) ws)"
  shows "\<exists>dk'. write_all ws dk = (True, dk') \<and> room_for ps dk'
    \<and> (\<forall>(p, b) \<in> set ws. get dk' (Clean p) = Some (FileEnt b))
    \<and> (\<forall>q. q \<notin> (\<lambda>w. Clean (fst w)) ` set ws \<longrightarrow> get dk' q = get dk q \<or> get dk' q = Some IsDir \<and> q \<notin> Clean ` set ps)"
  using assms
proof (induction ws arbitrary: dk)
  case (Cons w ws)
  obtain p b where w: "w = (p, b)" by (cases w)
  then have p: "p \<in> set ps" using Cons.prems by simp
  obtain d1 where d1: "write_file p b dk = (True, d1)" "room_for ps d1" "get d1 (Clean p) = Some (FileEnt b)"
    "\<And>q. q \<noteq> Clean p \<Longrightarrow> get d1 q = (if q \<in> set (dir_chain (Dir p)) then Some IsDir else get dk q)"
    using write_file_room [OF Cons.prems(1) p, of b] by metis
  have out: "\<forall>q \<in> set (dir_chain (Dir p)). q \<notin> Clean ` set ps" using Cons.prems(1) p unfolding room_for_def by blast
  obtain d2 where d2: "write_all ws d1 = (True, d2)" "room_for ps d2"
    "\<forall>(p, b) \<in> set ws. get d2 (Clean p) = Some (FileEnt b)"
    "\<forall>q. q \<notin> (\<lambda>w. Clean (fst w)) ` set ws \<longrightarrow> get d2 q = get d1 q \<or> get d2 q = Some IsDir \<and> q \<notin> Clean ` set ps"
    using Cons.IH [OF d1(2)] Cons.prems by auto
  have "Clean p \<notin> (\<lambda>w. Clean (fst w)) ` set ws" "Clean p \<in> Clean ` set ps" using Cons.prems(3) w p by auto
  then have "get d2 (Clean p) = Some (FileEnt b)" using d2(4) d1(3) by (metis (no_types, lifting))
  moreover have "get d2 q = get dk q \<or> get d2 q = Some IsDir \<and> q \<notin> Clean ` set ps"
    if "q \<notin> (\<lambda>w. Clean (fst w)) ` set (w # ws)" for q
  proof -
    from that w have q: "q \<noteq> Clean p" "q \<notin> (\<lambda>w. Clean (fst w)) ` set ws" by auto
    then show ?thesis using d2(4) d1(4) [OF q(1)] out by (metis (no_types, lifting))
  qed
  ultimately show ?case using w d1(1) d2(1-3) by (intro exI [of _ d2]) auto
qed simp

definition stale :: "string \<Rightarrow> string \<Rightarrow> disk \<Rightarrow> string set" where
  "stale d ext dk = {below d r | r e. (r, e) \<in> set (read_dir d dk) \<and> e \<noteq> IsDir \<and> has_suffix (to_lower r) ext}"

lemma get_foldr_del:
  "get (foldr (\<lambda>(r, e) d. if e \<noteq> IsDir \<and> has_suffix (to_lower r) ext then del (below D r) d else d) es dk) p
     = (if \<exists>r e. (r, e) \<in> set es \<and> e \<noteq> IsDir \<and> has_suffix (to_lower r) ext \<and> p = below D r then None else get dk p)"
proof (induction es)
  case (Cons q es)
  obtain r e where "q = (r, e)" by (cases q)
  with Cons show ?case by (cases "e \<noteq> IsDir \<and> has_suffix (to_lower r) ext") (auto simp del: below_inject)
qed simp

lemma cleanDir_removes:
  assumes "node dk d = Some IsDir"
  obtains dk' where "cleanDir d ext dk = (True, dk')" "\<And>p. get dk' p = (if p \<in> stale d ext dk then None else get dk p)"
  by (rule that) (use assms in \<open>auto simp: cleanDir_def get_foldr_del stale_def\<close>)

lemma room_for_less:
  "room_for ps dk \<Longrightarrow> (\<And>p. get dk' p = (if p \<in> S then None else get dk p)) \<Longrightarrow> room_for ps dk'"
  unfolding room_for_def by auto

lemma stale_iff:
  assumes "plain_rel r" "slash \<notin> set r" "has_suffix (to_lower r) ext" "get dk (below d r) = Some (FileEnt b)"
  shows "below d r \<in> stale d ext dk"
proof -
  have "(below d r, FileEnt b) \<in> set dk" using assms(4) by (rule get_in_set)
  then have "(r, FileEnt b) \<in> set (read_dir d dk)"
    using assms(1,2) by (force simp: read_dir_def walk_dir_def List.map_filter_def)
  then show ?thesis using assms(3) by (auto simp: stale_def)
qed

text \<open>The files of a backup without music and phonebook\<close>
definition restored :: "layout \<Rightarrow> manifest \<Rightarrow> bfiles \<Rightarrow> (string \<times> string) list" where
  "restored ly m fs =
     (lyConfigPath ly, the (get fs (mfConfigFile m))) # (lyDatabasePath ly, the (get fs (mfDatabasePath m)))
     # dir_writes (mfExtensionsDir m) (lyExtensionsDir ly) is_toml fs"

lemma stale_in_dir: "p \<in> stale d ext dk \<Longrightarrow> in_dir d p"
  by (auto simp: stale_def read_dir_def walk_dir_def List.map_filter_def strip_dir_Some in_dir_def)

lemma validateArchive_has: "validateArchive al fs = Ok m \<Longrightarrow> has fs (mfConfigFile m) \<and> has fs (mfDatabasePath m)"
  by (auto simp: validateArchive_def split: option.splits sum.splits if_splits)

text \<open>A valid archive restored where there is room for it: the configuration, the database and
  every extension file are as in the archive, and no other extension file is left.\<close>
theorem restore_effect:
  assumes "validateArchive al fs = Ok m" "\<not> mfIncludeMOH m" "\<not> mfIncludePhonebook m"
    and "room_for (List.map fst (restored ly m fs)) dk" "distinct (List.map (\<lambda>w. Clean (fst w)) (restored ly m fs))"
    and "get dk (Clean (lyExtensionsDir ly)) = Some IsDir" "lyExtensionsDir ly \<noteq> []"
    and "\<not> in_dir (lyExtensionsDir ly) (Clean (lyConfigPath ly))" "\<not> in_dir (lyExtensionsDir ly) (Clean (lyDatabasePath ly))"
  shows "\<exists>dk'. Restore al ly fs dk = (None, dk')
    \<and> (\<forall>(p, b) \<in> set (restored ly m fs). get dk' (Clean p) = Some (FileEnt b))
    \<and> (\<forall>r b. plain_rel r \<and> slash \<notin> set r \<and> is_toml r \<and> get dk' (below (lyExtensionsDir ly) r) = Some (FileEnt b)
        \<longrightarrow> (\<exists>w \<in> set (restored ly m fs). Clean (fst w) = below (lyExtensionsDir ly) r))"
proof -
  let ?d = "lyExtensionsDir ly" and ?ws = "restored ly m fs"
  let ?ext = "dir_writes (mfExtensionsDir m) ?d is_toml fs" and ?ps = "List.map fst (restored ly m fs)"
  obtain c b where has: "get fs (mfConfigFile m) = Some c" "get fs (mfDatabasePath m) = Some b"
    using validateArchive_has [OF assms(1)] by auto
  let ?cfg = "(lyConfigPath ly, c)" and ?db = "(lyDatabasePath ly, b)"
  have ws: "?ws = ?cfg # ?db # ?ext" using has by (simp add: restored_def del: map_of_eq_Some_iff)
  obtain d2 where d2: "write_all [?cfg, ?db] dk = (True, d2)" "room_for ?ps d2"
    "\<forall>(p, b) \<in> set [?cfg, ?db]. get d2 (Clean p) = Some (FileEnt b)"
    "\<forall>q. q \<notin> (\<lambda>w. Clean (fst w)) ` set [?cfg, ?db] \<longrightarrow> get d2 q = get dk q \<or> get d2 q = Some IsDir \<and> q \<notin> Clean ` set ?ps"
    using write_all_room [OF assms(4), of "[?cfg, ?db]"] assms(5) ws by auto
  have "Clean ?d \<notin> (\<lambda>w. Clean (fst w)) ` set [?cfg, ?db]" using assms(8,9) by (auto simp: in_dir_def)
  then have "node d2 ?d = Some IsDir" using d2(4) assms(6,7) by (auto simp: node_def)
  then obtain d3 where d3: "cleanDir ?d ''.toml'' d2 = (True, d3)"
    "\<And>p. get d3 p = (if p \<in> stale ?d ''.toml'' d2 then None else get d2 p)"
    using cleanDir_removes [of d2 ?d "''.toml''"] by blast
  have "room_for ?ps d3" by (rule room_for_less [OF d2(2) d3(2)])
  then obtain d4 where d4: "write_all ?ext d3 = (True, d4)"
    "\<forall>(p, b) \<in> set ?ext. get d4 (Clean p) = Some (FileEnt b)"
    "\<forall>q. q \<notin> (\<lambda>w. Clean (fst w)) ` set ?ext \<longrightarrow> get d4 q = get d3 q \<or> get d4 q = Some IsDir \<and> q \<notin> Clean ` set ?ps"
    using write_all_room [of ?ps d3 ?ext] assms(5) ws by auto
  have keep: "get d4 (Clean p) = Some (FileEnt b)" if "(p, b) \<in> {?cfg, ?db}" for p b
  proof -
    have "Clean p \<notin> (\<lambda>w. Clean (fst w)) ` set ?ext" "Clean p \<in> Clean ` set ?ps" "get d2 (Clean p) = Some (FileEnt b)"
      using that assms(5) ws d2(3) by auto
    moreover have "Clean p \<notin> stale ?d ''.toml'' d2" using that assms(8,9) stale_in_dir by auto
    ultimately show ?thesis using d4(3) d3(2) by (metis (no_types, lifting))
  qed
  obtain d1 where "write_file (lyConfigPath ly) c dk = (True, d1)" "write_file (lyDatabasePath ly) b d1 = (True, d2)"
    using d2(1) by (auto split: prod.splits bool.splits)
  then have "put_entry fs (mfConfigFile m) (lyConfigPath ly) dk = (True, d1)"
    "put_entry fs (mfDatabasePath m) (lyDatabasePath ly) d1 = (True, d2)" by (simp_all add: put_entry_def has del: map_of_eq_Some_iff)
  moreover have "restore_dir (mfExtensionsDir m) ?d ''.toml'' is_toml fs d2 = (True, d4)"
    using d3(1) d4(1) by (simp add: restore_dir_def restore_files_writes)
  ultimately have "restore_steps ly m fs dk = (True, d4)"
    using assms(2,3) by (simp add: restore_steps_def then_do_def)
  then have "Restore al ly fs dk = (None, d4)" using assms(1) by (simp add: Restore_def)
  moreover have "\<forall>(p, b) \<in> set ?ws. get d4 (Clean p) = Some (FileEnt b)" using keep d4(2) ws by auto
  moreover have "\<exists>w \<in> set ?ws. Clean (fst w) = below ?d r"
    if r: "plain_rel r" "slash \<notin> set r" "is_toml r" "get d4 (below ?d r) = Some (FileEnt b)" for r b
  proof (rule ccontr)
    assume "\<not> ?thesis"
    then have "below ?d r \<notin> (\<lambda>w. Clean (fst w)) ` set ?ext" using ws by auto
    with r(4) d4(3) have "get d3 (below ?d r) = Some (FileEnt b)" by (metis (no_types, lifting) dirent.distinct(1) option.inject)
    then have "get d2 (below ?d r) = Some (FileEnt b)" "below ?d r \<notin> stale ?d ''.toml'' d2"
      using d3(2) [of "below ?d r"] by (auto split: if_splits)
    then show False using stale_iff r(1-3) by (auto simp: is_toml_def)
  qed
  ultimately show ?thesis by blast
qed

section \<open>Backups the server does not accept back\<close>

lemma unpack_loop_dotdot:
  "\<exists>e \<in> set es. teRegular e \<and> str_contains (teName e) ''..'' \<Longrightarrow> unpack_loop mx good es seen fs \<noteq> Ok fs'"
  by (induction es arbitrary: seen fs) (auto simp: Let_def)

text \<open>A name of the archive that contains a double dot, as a database or a directory outside the
  directory of config.toml gets from LayoutFrom: the server exports the backup and refuses to unpack it.\<close>
theorem own_backup_refused:
  assumes "collect dk snap ly opts = Ok fs" "has fs p" "str_contains p ''..''"
    and "reads_back al (full_manifest al version now ly opts fs) (archive_files al version now ly opts fs)"
    and "int (length (packTarGz al (archive_files al version now ly opts fs))) \<le> MaxArchiveBytes"
  shows "\<exists>raw e. Export al version now dk snap ly opts = Ok raw \<and> Unpack al raw MaxArchiveBytes = Err e"
proof -
  let ?gs = "archive_files al version now ly opts fs"
  have raw: "packTarGz al ?gs = alPack al (as_entries ?gs)" by (simp add: packTarGz_def as_entries_def)
  have t: "take (nat (MaxArchiveBytes + 1)) (packTarGz al ?gs) = packTarGz al ?gs"
    by (rule take_all) (use assms(5) in linarith)
  have pos: "\<not> MaxArchiveBytes \<le> 0" by (simp add: MaxArchiveBytes_def)
  have "p \<in> set (keys ?gs)" using assms(2) by (simp only: archive_files_def keys_put has_iff_key) blast
  then have "\<exists>e \<in> set (as_entries ?gs). teRegular e \<and> str_contains (teName e) ''..''"
    using assms(3) by (force simp: as_entries_def)
  then have "unpack_loop MaxArchiveBytes True (as_entries ?gs) 0 [] \<noteq> Ok fs'" for fs' by (rule unpack_loop_dotdot)
  then obtain e where "unpack_loop MaxArchiveBytes True (as_entries ?gs) 0 [] = Err e"
    by (cases "unpack_loop MaxArchiveBytes True (as_entries ?gs) 0 []") auto
  then have "Unpack al (packTarGz al ?gs) MaxArchiveBytes = Err e"
    using pos t assms(4) by (simp add: Unpack_def Let_def reads_back_def flip: raw)
  moreover have "Export al version now dk snap ly opts = Ok (packTarGz al ?gs)" using assms(1) by (simp add: Export_def)
  ultimately show ?thesis by blast
qed

section \<open>Examples\<close>

definition demo_layout :: layout where
  "demo_layout = \<lparr>lyCfgDir = ''/v'', lyConfigPath = ''/v/config.toml'', lyExtensionsDir = ''/v/ext'',
     lyDatabasePath = ''/v/pbx.db'', lyMOHDir = ''/v/moh'', lyPhonebookDir = ''/v/pb'', lyConfigRel = ''config.toml'',
     lyDatabaseRel = ''pbx.db'', lyExtensionsRel = ''ext'', lyMOHRel = ''moh'', lyPhonebookRel = ''pb''\<rparr>"

definition demo_disk :: disk where
  "demo_disk = [(''/v'', IsDir), (''/v/config.toml'', FileEnt ''c''), (''/v/ext'', IsDir), (''/v/ext/1.toml'', FileEnt ''x'')]"

definition demo_files :: bfiles where
  "demo_files = [(''config.toml'', ''c''), (''ext/1.toml'', ''x''), (''pbx.db'', ''d'')]"

lemma demo_collect: "collect demo_disk (Snap ''d'') demo_layout \<lparr>eoMOH = False, eoPhonebook = False\<rparr> = Ok demo_files"
  by code_simp

definition demo_al :: "manifest \<Rightarrow> bfiles \<Rightarrow> archive_lib" where
  "demo_al m gs = \<lparr>alHash = (\<lambda>b. b), alJSON = (\<lambda>_. ''{}''), alParse = (\<lambda>_. Some m), alPack = (\<lambda>_. ''tar''),
     alUnpack = (\<lambda>_. (as_entries gs, True, 3))\<rparr>"

abbreviation demo_opts :: export_options where
  "demo_opts \<equiv> \<lparr>eoMOH = False, eoPhonebook = False\<rparr>"

definition demo_full :: manifest where
  "demo_full = full_manifest (demo_al (newManifest [] [] demo_layout demo_opts) []) ''1'' ''now'' demo_layout demo_opts demo_files"

definition demo_archive :: bfiles where
  "demo_archive = put ''manifest.json'' ''{}'' demo_files"

lemma demo_al_full:
  "full_manifest (demo_al m gs) ''1'' ''now'' demo_layout demo_opts demo_files = demo_full"
  "archive_files (demo_al m gs) ''1'' ''now'' demo_layout demo_opts demo_files = demo_archive"
  by (simp_all add: demo_full_def full_manifest_def file_entries_def demo_al_def archive_files_def demo_archive_def)

lemma demo_reads_back: "reads_back (demo_al demo_full demo_archive) demo_full demo_archive"
  by (simp add: reads_back_def demo_al_def)

lemma demo_sizes:
  "total_size demo_archive \<le> MaxArchiveBytes" "packTarGz (demo_al m gs) fs = ''tar''"
  by (simp_all add: total_size_def demo_archive_def demo_files_def MaxArchiveBytes_def packTarGz_def demo_al_def)

theorem archive_round_trip_witness:
  "\<exists>raw fs'. Export (demo_al demo_full demo_archive) ''1'' ''now'' demo_disk (Snap ''d'') demo_layout demo_opts = Ok raw
    \<and> Unpack (demo_al demo_full demo_archive) raw MaxArchiveBytes = Ok fs'
    \<and> (\<forall>p. p \<noteq> ''manifest.json'' \<longrightarrow> get fs' p = get demo_files p)
    \<and> validateArchive (demo_al demo_full demo_archive) fs' = Ok demo_full"
proof -
  have "\<forall>p \<in> set (keys demo_files). \<not> str_contains p ''..''" by code_simp
  moreover have "''manifest.json'' \<notin> set (keys demo_files)" "has demo_files (lyConfigRel demo_layout)"
    "has demo_files (lyDatabaseRel demo_layout)" "lyConfigRel demo_layout \<noteq> []" "lyDatabaseRel demo_layout \<noteq> []"
    "lyExtensionsRel demo_layout \<noteq> []" by (simp_all add: demo_files_def demo_layout_def)
  moreover have "\<forall>raw. Export (demo_al demo_full demo_archive) ''1'' ''now'' demo_disk (Snap ''d'') demo_layout demo_opts = Ok raw
      \<longrightarrow> int (length raw) \<le> MaxArchiveBytes"
    by (simp add: Export_def demo_collect demo_sizes MaxArchiveBytes_def)
  ultimately show ?thesis
    using archive_round_trip [OF demo_collect, of "demo_al demo_full demo_archive" "''1''" "''now''"]
    by (simp only: demo_al_full demo_reads_back demo_sizes simp_thms)
qed

text \<open>The same server with its database outside the directory of config.toml\<close>
definition outside_layout :: layout where
  "outside_layout = demo_layout\<lparr>lyDatabasePath := ''/d/pbx.db'', lyDatabaseRel := ''../d/pbx.db''\<rparr>"

lemma outside_LayoutFrom:
  "LayoutFrom ''/v'' ''/v/config.toml'' (empty_config\<lparr>cDatabasePath := ''/d/pbx.db'', cExtensionsDir := ''ext'',
     cPhonebookDir := ''pb'', cServer := (cServer empty_config)\<lparr>mohDir := ''moh''\<rparr>\<rparr>) = outside_layout"
  by code_simp

lemma outside_collect:
  "collect demo_disk (Snap ''d'') outside_layout demo_opts
     = Ok [(''config.toml'', ''c''), (''ext/1.toml'', ''x''), (''../d/pbx.db'', ''d'')]"
  by code_simp

theorem own_backup_refused_witness:
  "\<exists>al raw e. Export al ''1'' ''now'' demo_disk (Snap ''d'') outside_layout demo_opts = Ok raw
     \<and> Unpack al raw MaxArchiveBytes = Err e"
proof -
  let ?fs = "[(''config.toml'', ''c''), (''ext/1.toml'', ''x''), (''../d/pbx.db'', ''d'')]"
  let ?al0 = "demo_al demo_full []"
  let ?m = "full_manifest ?al0 ''1'' ''now'' outside_layout demo_opts ?fs"
  let ?gs = "archive_files ?al0 ''1'' ''now'' outside_layout demo_opts ?fs"
  let ?al = "demo_al ?m ?gs"
  have al: "full_manifest ?al ''1'' ''now'' outside_layout demo_opts ?fs = ?m"
    "archive_files ?al ''1'' ''now'' outside_layout demo_opts ?fs = ?gs"
    by (simp_all add: full_manifest_def file_entries_def demo_al_def archive_files_def)
  have "reads_back ?al ?m ?gs" by (simp add: reads_back_def demo_al_def)
  moreover have "str_contains ''../d/pbx.db'' ''..''" by code_simp
  moreover have "int (length (packTarGz ?al ?gs)) \<le> MaxArchiveBytes" by (simp add: demo_sizes MaxArchiveBytes_def)
  ultimately show ?thesis
    using own_backup_refused [OF outside_collect, of "''../d/pbx.db''" ?al "''1''" "''now''"] al by auto
qed

lemma demo_valid: "validateArchive (demo_al demo_full demo_archive) demo_archive = Ok demo_full"
  by (simp add: validateArchive_def parseManifest_def demo_al_def demo_archive_def demo_files_def demo_full_def
      full_manifest_def newManifest_def demo_layout_def FormatVersion_def file_entries_def)

theorem restore_effect_witness:
  "\<exists>dk'. Restore (demo_al demo_full demo_archive) demo_layout demo_archive demo_disk = (None, dk')
    \<and> (\<forall>(p, b) \<in> set (restored demo_layout demo_full demo_archive). get dk' (Clean p) = Some (FileEnt b))"
proof -
  have e: "restored demo_layout demo_full demo_archive
      = [(''/v/config.toml'', ''c''), (''/v/pbx.db'', ''d''), (''/v/ext/1.toml'', ''x'')]"
    by code_simp
  have "room_for [''/v/config.toml'', ''/v/pbx.db'', ''/v/ext/1.toml''] demo_disk" by code_simp
  moreover have "distinct (List.map (\<lambda>w. Clean (fst w)) [(''/v/config.toml'', ''c''), (''/v/pbx.db'', ''d''), (''/v/ext/1.toml'', ''x'')])"
    by code_simp
  moreover have "get demo_disk (Clean (lyExtensionsDir demo_layout)) = Some IsDir" "lyExtensionsDir demo_layout \<noteq> []"
    "\<not> in_dir (lyExtensionsDir demo_layout) (Clean (lyConfigPath demo_layout))"
    "\<not> in_dir (lyExtensionsDir demo_layout) (Clean (lyDatabasePath demo_layout))"
    "\<not> mfIncludeMOH demo_full" "\<not> mfIncludePhonebook demo_full" by code_simp+
  ultimately show ?thesis
    using restore_effect [OF demo_valid, of demo_layout demo_disk] by (auto simp: e)
qed

theorem restore_confined_witness:
  "only_in (restored_place demo_layout) demo_disk
     (snd (Restore (demo_al demo_full demo_archive) demo_layout
       [(''config.toml'', ''c''), (''ext/1.toml'', ''x''), (''manifest.json'', ''{}''), (''pbx.db'', ''d'')] demo_disk))"
proof -
  let ?al = "demo_al demo_full demo_archive"
  have "Unpack ?al ''tar'' 100 = Ok [(''config.toml'', ''c''), (''ext/1.toml'', ''x''), (''manifest.json'', ''{}''), (''pbx.db'', ''d'')]"
    by code_simp
  from restore_confined [OF this prod.collapse [symmetric], of demo_layout demo_disk] show ?thesis
    by (simp add: demo_layout_def)
qed

text \<open>A file the manifest does not list is accepted without a checksum.\<close>
lemma unlisted_unchecked:
  assumes "validateArchive al fs = Ok m" "p \<noteq> ''manifest.json''" "p \<notin> fePath ` set (mfFiles m)"
  shows "validateArchive al (put p b fs) = Ok m"
proof -
  have "check_files al (put p b fs) es = check_files al fs es" if "p \<notin> fePath ` set es" for es
    using that by (induction es) (auto split: option.split)
  with assms show ?thesis
    by (auto simp: validateArchive_def split: option.splits sum.splits if_splits)
qed

text \<open>The directory of an archive is matched as a string: config.toml counts as a file of a
  directory conf.\<close>
lemma prefix_not_directory: "entry_rel ''conf'' ''config.toml'' = Some ''ig.toml'' \<and> is_toml ''ig.toml''"
  by code_simp

end
