(* ===== verification/Sessions.thy ===== *)
theory Sessions
  imports Prelude
begin

text \<open>
  Login sessions of the administration pages (internal/web/auth/session.go): a
  cookie holds the user name and the end of the session with their HMAC, all
  base64 encoded.  HMAC-SHA256 in hex digits and base64 are arguments; times
  are Unix seconds.
\<close>

record session_lib =
  slMac :: "string \<Rightarrow> string \<Rightarrow> string"
  slEncode :: "string \<Rightarrow> string"
  slDecode :: "string \<Rightarrow> string option"

record sessions =
  ssSecret :: string
  ssTTL :: int

definition NewSessions :: "string \<Rightarrow> sessions" where
  "NewSessions secret = \<lparr>ssSecret = secret, ssTTL = 24 * 3600\<rparr>"

definition session_mac :: "session_lib \<Rightarrow> sessions \<Rightarrow> string \<Rightarrow> string" where
  "session_mac sl s payload = slMac sl (ssSecret s) payload"

definition colon :: char where
  "colon = CHR '':''"

text \<open>The value of the cookie Set gives a user\<close>
definition SetSession :: "session_lib \<Rightarrow> sessions \<Rightarrow> int \<Rightarrow> string \<Rightarrow> string" where
  "SetSession sl s now username =
     (let payload = username @ colon # itoa (now + ssTTL s)
      in slEncode sl (payload @ colon # session_mac sl s payload))"

text \<open>The cookie after Clear: no value\<close>
definition ClearSession :: string where
  "ClearSession = []"

text \<open>strings.SplitN with n = 3\<close>
definition split3 :: "char \<Rightarrow> string \<Rightarrow> string list" where
  "split3 c s = (case split2 c s of [a, r] \<Rightarrow> a # split2 c r | ws \<Rightarrow> ws)"

text \<open>The user of a request, empty when there is no valid session\<close>
definition Username :: "session_lib \<Rightarrow> sessions \<Rightarrow> int \<Rightarrow> string option \<Rightarrow> string" where
  "Username sl s now cookie =
     (case cookie of
        None \<Rightarrow> []
      | Some val \<Rightarrow>
          if val = [] then []
          else (case slDecode sl val of
            None \<Rightarrow> []
          | Some raw \<Rightarrow>
          (case split3 colon raw of
             [u, e, sig] \<Rightarrow>
               if sig \<noteq> session_mac sl s (u @ colon # e) then []
               else (case atoi e of
                       None \<Rightarrow> []
                     | Some expiry \<Rightarrow> if expiry < now then [] else u)
           | _ \<Rightarrow> [])))"

section \<open>Lemmas\<close>

lemma split2_cases:
  obtains "c \<notin> set s" "split2 c s = [s]" | a b where "s = a @ c # b" "c \<notin> set a" "split2 c s = [a, b]"
proof (cases "c \<in> set s")
  case True
  then obtain a b where "s = a @ c # b" "c \<notin> set a" by (meson split_list_first)
  with that split2_append show ?thesis by metis
next
  case False
  with that show ?thesis by (simp add: split2_def)
qed

lemma split3_iff:
  "split3 c s = [a, b, r] \<longleftrightarrow> s = a @ c # b @ c # r \<and> c \<notin> set a \<and> c \<notin> set b"
proof
  assume h: "split3 c s = [a, b, r]"
  show "s = a @ c # b @ c # r \<and> c \<notin> set a \<and> c \<notin> set b"
  proof (cases rule: split2_cases [of c s])
    case (2 x y)
    then show ?thesis using h by (cases rule: split2_cases [of c y]) (auto simp: split3_def)
  qed (use h in \<open>auto simp: split3_def\<close>)
next
  assume "s = a @ c # b @ c # r \<and> c \<notin> set a \<and> c \<notin> set b"
  then show "split3 c s = [a, b, r]" using split2_append [of c a "b @ c # r"] split2_append [of c b r]
    by (simp add: split3_def)
qed

lemma itoa_no_colon: "colon \<notin> set (itoa n)"
  using nat_digits_digits [of colon] by (auto simp: itoa_def colon_def is_digit_def byte_def)

lemma Username_Some:
  "Username sl s now cookie = u \<and> u \<noteq> [] \<longleftrightarrow>
     (\<exists>val e expiry. cookie = Some val \<and> val \<noteq> [] \<and> u \<noteq> [] \<and> colon \<notin> set u \<and> colon \<notin> set e
        \<and> slDecode sl val = Some (u @ colon # e @ colon # session_mac sl s (u @ colon # e))
        \<and> atoi e = Some expiry \<and> now \<le> expiry)" (is "?l \<longleftrightarrow> ?r")
proof
  assume l: ?l
  then obtain val raw u' e sig where v: "cookie = Some val" "val \<noteq> []" "slDecode sl val = Some raw" "split3 colon raw = [u', e, sig]"
    by (auto simp: Username_def split: option.splits if_splits list.splits)
  then have raw: "raw = u' @ colon # e @ colon # sig" "colon \<notin> set u'" "colon \<notin> set e" by (simp_all add: split3_iff)
  have "u' = u" "sig = session_mac sl s (u @ colon # e)" "\<exists>x. atoi e = Some x \<and> now \<le> x"
    using l v by (auto simp: Username_def split: option.splits if_splits)
  then show ?r using l v raw by auto
next
  assume ?r
  then obtain val e expiry where r: "cookie = Some val" "val \<noteq> []" "u \<noteq> []" "colon \<notin> set u" "colon \<notin> set e"
    "slDecode sl val = Some (u @ colon # e @ colon # session_mac sl s (u @ colon # e))" "atoi e = Some expiry" "now \<le> expiry"
    by blast
  then have "split3 colon (u @ colon # e @ colon # session_mac sl s (u @ colon # e)) = [u, e, session_mac sl s (u @ colon # e)]"
    by (simp add: split3_iff)
  with r show ?l by (simp add: Username_def)
qed

section \<open>Properties\<close>

text \<open>C26: A session lasts its 24 hours and no longer, for a user whose name has no colon.\<close>
theorem session_lifetime:
  assumes "\<And>x. slDecode sl (slEncode sl x) = Some x" "\<And>x. slEncode sl x = [] \<longleftrightarrow> x = []"
    and "u \<noteq> []" "colon \<notin> set u" "int64_range (now + 24 * 3600)"
  shows "Username sl (NewSessions k) t (Some (SetSession sl (NewSessions k) now u)) = (if t \<le> now + 24 * 3600 then u else [])"
proof -
  let ?e = "itoa (now + 24 * 3600)" and ?s = "NewSessions k"
  let ?raw = "u @ colon # ?e @ colon # session_mac sl ?s (u @ colon # ?e)"
  have set: "SetSession sl ?s now u = slEncode sl ?raw" by (simp add: SetSession_def NewSessions_def Let_def)
  have "split3 colon ?raw = [u, ?e, session_mac sl ?s (u @ colon # ?e)]"
    using assms(4) itoa_no_colon by (simp add: split3_iff)
  then show ?thesis using assms(1) [of ?raw] assms(2) [of ?raw] atoi_itoa [OF assms(5)]
    by (simp add: Username_def set)
qed

text \<open>Only a cookie the server's secret has signed names a user, and only until its end; a name
  with a colon is never the user of a session, so such a user logs in and is sent back to the
  login page.\<close>
theorem session_signed:
  assumes "Username sl s now cookie = u" "u \<noteq> []"
  shows "\<exists>val e expiry. cookie = Some val \<and> slDecode sl val = Some (u @ colon # e @ colon # session_mac sl s (u @ colon # e))
     \<and> atoi e = Some expiry \<and> now \<le> expiry \<and> colon \<notin> set u"
  using assms Username_Some [of sl s now cookie u] by auto

definition demo_sl :: session_lib where
  "demo_sl = \<lparr>slMac = (\<lambda>k p. ''f'' @ k), slEncode = (\<lambda>x. x), slDecode = Some\<rparr>"

theorem session_lifetime_witness:
  "Username demo_sl (NewSessions ''k'') 90 (Some (SetSession demo_sl (NewSessions ''k'') 0 ''bob'')) = ''bob''"
proof -
  have "int64_range (0 + 24 * 3600)" "colon \<notin> set ''bob''" by (simp_all add: int64_range_def colon_def)
  then show ?thesis using session_lifetime [of demo_sl "''bob''" 0 "''k''" 90] by (simp add: demo_sl_def)
qed

theorem session_signed_witness:
  "\<exists>val e expiry. Some ''bob:99:fk'' = Some val
     \<and> slDecode demo_sl val = Some (''bob'' @ colon # e @ colon # session_mac demo_sl (NewSessions ''k'') (''bob'' @ colon # e))
     \<and> atoi e = Some expiry \<and> 5 \<le> expiry \<and> colon \<notin> set ''bob''"
proof -
  have "Username demo_sl (NewSessions ''k'') 5 (Some ''bob:99:fk'') = ''bob''" by code_simp
  from session_signed [OF this] show ?thesis by simp
qed

end
