(* ===== verification/Registrar.thy ===== *)
theory Registrar
  imports Contracts Config
begin

text \<open>
  Registration of extensions, internal/registrar: the bindings of each extension,
  REGISTER with digest authentication, OPTIONS keepalives, expiry, and the queries
  the call path uses (DialTarget, IsRegistered, SenderAuthorized).  Times and
  durations are nanoseconds; a duration is the 64-bit integer of Go's
  time.Duration.  The SIP message types of sipgo and the digest library are
  arguments; a nonce is an argument of the request that draws it.
\<close>

section \<open>Addresses\<close>

text \<open>strings.TrimSpace, net.SplitHostPort: the port follows the last colon; a host
  with colons stands in brackets.\<close>
definition last_colon :: "string \<Rightarrow> (string \<times> string) option" where
  "last_colon s =
     (if CHR '':'' \<notin> set s then None
      else Some (rev (tl (dropWhile (\<lambda>c. c \<noteq> CHR '':'') (rev s))), rev (takeWhile (\<lambda>c. c \<noteq> CHR '':'') (rev s))))"

definition SplitHostPort :: "string \<Rightarrow> (string \<times> string) option" where
  "SplitHostPort s =
     (case last_colon s of
        None \<Rightarrow> None
      | Some (host, port) \<Rightarrow>
          if has_prefix host ''['' then
            (if has_suffix host '']'' \<and> CHR '']'' \<notin> set (tl (butlast host)) \<and> 2 \<le> length host
                \<and> CHR ''['' \<notin> set (tl host) \<and> CHR ''['' \<notin> set port \<and> CHR '']'' \<notin> set port
             then Some (tl (butlast host), port) else None)
          else if CHR '':'' \<in> set host \<or> CHR ''['' \<in> set s \<or> CHR '']'' \<in> set s then None
          else Some (host, port))"

definition parseHostPort :: "string \<Rightarrow> string \<times> int" where
  "parseHostPort source =
     (if source = [] then ([], 0)
      else case SplitHostPort source of
        None \<Rightarrow> (trim_space source, 5060)
      | Some (host, portStr) \<Rightarrow>
          (case atoi portStr of
             None \<Rightarrow> (host, 5060)
           | Some port \<Rightarrow> (host, if port = 0 then 5060 else port)))"

definition normalizeDest :: "string \<Rightarrow> string" where
  "normalizeDest dest =
     (let d = trim_space dest in
      if d = [] then []
      else if \<not> str_contains d '':'' then d @ '':5060''
      else d)"

definition destinationsMatch :: "string \<Rightarrow> string \<Rightarrow> bool" where
  "destinationsMatch a b = equal_fold (normalizeDest a) (normalizeDest b)"

section \<open>Contacts\<close>

text \<open>The parameters of a URI or a header; None for a nil map.\<close>
type_synonym params = "(string, string) gomap option"

record sip_uri =
  uUser :: string
  uHost :: string
  uPort :: int
  uWildcard :: bool
  uParams :: params

record contact =
  coAddress :: sip_uri
  coParams :: params

text \<open>What is used of sipgo: the host:port of a URI and its text.\<close>
record sip_lib =
  slHostPort :: "sip_uri \<Rightarrow> string"
  slString :: "sip_uri \<Rightarrow> string"

definition param :: "params \<Rightarrow> string \<Rightarrow> string option" where
  "param ps k = (case ps of None \<Rightarrow> None | Some m \<Rightarrow> get m k)"

definition rewriteContactForNAT :: "contact \<Rightarrow> string \<Rightarrow> bool \<Rightarrow> contact" where
  "rewriteContactForNAT c source preserve =
     (if preserve \<or> source = [] then c
      else let (srcHost, srcPort) = parseHostPort source in
        if srcHost = [] \<or> srcPort = 0 then c
        else if uHost (coAddress c) \<noteq> srcHost \<or> uPort (coAddress c) \<noteq> srcPort
        then c\<lparr>coAddress := (coAddress c)\<lparr>uHost := srcHost, uPort := srcPort\<rparr>\<rparr>
        else c)"

record binding =
  bdContact :: contact
  bdExpires :: int
  bdGranted :: int

definition bindingToDialTarget :: "sip_lib \<Rightarrow> string \<Rightarrow> binding \<Rightarrow> sip_uri \<times> string \<times> string" where
  "bindingToDialTarget lib e b =
     (let uri = coAddress (bdContact b);
          uri = (if uUser uri = [] then uri\<lparr>uUser := e\<rparr> else uri);
          cp = coParams (bdContact b);
          uri = (if cp \<noteq> None \<and> uParams uri = None then uri\<lparr>uParams := Some []\<rparr> else uri);
          t = (case param cp ''transport'' of None \<Rightarrow> [] | Some t \<Rightarrow> t);
          uri = (if t \<noteq> [] then uri\<lparr>uParams := map_option (put ''transport'' t) (uParams uri)\<rparr> else uri);
          tr = (if t \<noteq> [] then t
                       else case param (uParams uri) ''transport'' of None \<Rightarrow> [] | Some u \<Rightarrow> u)
      in (uri, slHostPort lib uri, tr))"

definition bindingDestFromContact :: "sip_lib \<Rightarrow> string \<Rightarrow> contact \<Rightarrow> string" where
  "bindingDestFromContact lib e c =
     fst (snd (bindingToDialTarget lib e \<lparr>bdContact = c, bdExpires = 0, bdGranted = 0\<rparr>))"

definition contactKey :: "sip_uri \<Rightarrow> string" where
  "contactKey uri =
     to_lower (trim_space (uUser uri)) @ ''@'' @ to_lower (trim_space (uHost uri)) @ '':''
       @ itoa (if uPort uri = 0 then 5060 else uPort uri)"

definition contactMatchesStored :: "sip_lib \<Rightarrow> string \<Rightarrow> contact \<Rightarrow> contact \<Rightarrow> string \<Rightarrow> bool \<Rightarrow> bool" where
  "contactMatchesStored lib e stored incoming source preserve =
     (let normalized = rewriteContactForNAT incoming source preserve;
          storedDest = bindingDestFromContact lib e stored in
      if contactKey (coAddress stored) = contactKey (coAddress normalized) then True
      else if storedDest = [] then False
      else if source \<noteq> [] \<and> destinationsMatch storedDest source then True
      else destinationsMatch storedDest (slHostPort lib (coAddress normalized)))"

definition isWildcardContact :: "sip_lib \<Rightarrow> contact \<Rightarrow> bool" where
  "isWildcardContact lib c = (uWildcard (coAddress c) \<or> trim_space (slString lib (coAddress c)) = ''*'')"

section \<open>Requests, the digest library and the registrar\<close>

record sip_request =
  rqMethod :: string
  rqTo :: "sip_uri option"
  rqFrom :: "sip_uri option"
  rqContact :: "contact option"
  rqRecipient :: sip_uri
  rqAuthorization :: "string option"
  rqExpires :: "string option"
  rqSource :: string

definition extractRegisterUser :: "sip_request \<Rightarrow> string" where
  "extractRegisterUser req =
     (let user = (\<lambda>u. case u of None \<Rightarrow> [] | Some x \<Rightarrow> uUser x) in
      if user (rqTo req) \<noteq> [] then user (rqTo req)
      else if user (rqFrom req) \<noteq> [] then user (rqFrom req)
      else if user (map_option coAddress (rqContact req)) \<noteq> [] then user (map_option coAddress (rqContact req))
      else uUser (rqRecipient req))"

record credentials =
  crUsername :: string
  crNonce :: string
  crURI :: string
  crResponse :: string

text \<open>Challenges are MD5 challenges of a realm with a nonce.\<close>
record challenge =
  chRealm :: string
  chNonce :: string

record digest_lib =
  dlParse :: "string \<Rightarrow> credentials option"
  dlDigest :: "challenge \<Rightarrow> string \<Rightarrow> string \<Rightarrow> string \<Rightarrow> string \<Rightarrow> string option"

text \<open>A nonce stays in the cache until its timer fires.\<close>
record digest_auth =
  daCache :: "(string, challenge \<times> int) gomap"
  daTTL :: int

record registrar =
  rgRealm :: string
  rgExts :: "(string, extension) gomap"
  rgDigest :: digest_auth
  rgBindings :: "(string, binding list) gomap"
  rgMinExpiry :: int
  rgMaxExpiry :: int
  rgPreserve :: bool
  rgKeepalive :: int

definition second :: int where "second = 10 ^ 9"

text \<open>time.Duration(n) * time.Second\<close>
definition seconds :: "int \<Rightarrow> int" where
  "seconds n = sint (word_of_int (n * second) :: 64 word)"

definition newRegisterDigestAuth :: "int \<Rightarrow> digest_auth" where
  "newRegisterDigestAuth ttl = \<lparr>daCache = [], daTTL = (if ttl \<le> 0 then seconds 3600 else ttl)\<rparr>"

definition NewRegistrar :: "string \<Rightarrow> server_config \<Rightarrow> (string, extension) gomap \<Rightarrow> registrar" where
  "NewRegistrar rlm srv exts =
     (let mn = (if regMinExpiry srv \<le> 0 then seconds 60 else seconds (regMinExpiry srv));
          mx = (if regMaxExpiry srv \<le> 0 then seconds 3600 else seconds (regMaxExpiry srv));
          ka = (if optionsKeepalive srv \<le> 0 then seconds 30 else seconds (optionsKeepalive srv))
      in \<lparr>rgRealm = rlm, rgExts = exts, rgDigest = newRegisterDigestAuth mx, rgBindings = [],
          rgMinExpiry = mn, rgMaxExpiry = mx, rgPreserve = preserveContact srv, rgKeepalive = ka\<rparr>)"

definition UpdateExtensions :: "(string, extension) gomap \<Rightarrow> registrar \<Rightarrow> registrar" where
  "UpdateExtensions exts r = r\<lparr>rgExts := exts\<rparr>"

section \<open>Digest authentication\<close>

datatype auth_outcome = AuthOK | AuthChallenge string | AuthDenied int

definition issueChallenge :: "int \<Rightarrow> string option \<Rightarrow> string \<Rightarrow> digest_auth \<Rightarrow> (string \<times> digest_auth) option" where
  "issueChallenge now nonce rlm d =
     (case nonce of
        None \<Rightarrow> None
      | Some n \<Rightarrow> Some (n, d\<lparr>daCache := put n (\<lparr>chRealm = rlm, chNonce = n\<rparr>, now + daTTL d) (daCache d)\<rparr>))"

definition challengeOrDeny :: "int \<Rightarrow> string option \<Rightarrow> string \<Rightarrow> digest_auth \<Rightarrow> auth_outcome \<times> digest_auth" where
  "challengeOrDeny now nonce rlm d =
     (case issueChallenge now nonce rlm d of
        None \<Rightarrow> (AuthDenied 500, d)
      | Some (n, d') \<Rightarrow> (AuthChallenge n, d'))"

definition touchNonce :: "int \<Rightarrow> string \<Rightarrow> digest_auth \<Rightarrow> digest_auth" where
  "touchNonce now n d =
     (case get (daCache d) n of
        None \<Rightarrow> d
      | Some (ch, _) \<Rightarrow> d\<lparr>daCache := put n (ch, now + daTTL d) (daCache d)\<rparr>)"

text \<open>The timers that have fired by now.\<close>
definition expireNonces :: "int \<Rightarrow> digest_auth \<Rightarrow> digest_auth" where
  "expireNonces now d = d\<lparr>daCache := filter (\<lambda>p. now < snd (snd p)) (daCache d)\<rparr>"

definition authorize :: "digest_lib \<Rightarrow> int \<Rightarrow> string option \<Rightarrow> sip_request \<Rightarrow> string \<Rightarrow> string \<Rightarrow> string
    \<Rightarrow> digest_auth \<Rightarrow> auth_outcome \<times> digest_auth" where
  "authorize dl now nonce req rlm username password d =
     (case rqAuthorization req of
        None \<Rightarrow> challengeOrDeny now nonce rlm d
      | Some h \<Rightarrow>
     (case dlParse dl h of
        None \<Rightarrow> (AuthDenied 400, d)
      | Some cred \<Rightarrow>
          if crUsername cred \<noteq> [] \<and> crUsername cred \<noteq> username then challengeOrDeny now nonce rlm d
          else case get (daCache d) (crNonce cred) of
            None \<Rightarrow> challengeOrDeny now nonce rlm d
          | Some (ch, _) \<Rightarrow>
              (case dlDigest dl ch (rqMethod req) (crURI cred) username password of
                 None \<Rightarrow> (AuthDenied 403, d)
               | Some response \<Rightarrow>
                   if crResponse cred \<noteq> response then challengeOrDeny now nonce rlm d
                   else (AuthOK, touchNonce now (crNonce cred) d))))"
section \<open>Bindings\<close>

abbreviation bindings_of :: "registrar \<Rightarrow> string \<Rightarrow> binding list" where
  "bindings_of r user \<equiv> goget [] (rgBindings r) user"

definition addBinding :: "sip_lib \<Rightarrow> string \<Rightarrow> string \<Rightarrow> binding \<Rightarrow> registrar \<Rightarrow> registrar" where
  "addBinding lib user source b r =
     (let dest = bindingDestFromContact lib user (bdContact b);
          kept = filter (\<lambda>x. \<not> contactMatchesStored lib user (bdContact x) (bdContact b) source (rgPreserve r)
                           \<and> \<not> (bindingDestFromContact lib user (bdContact x) \<noteq> [] \<and> dest \<noteq> []
                                \<and> destinationsMatch (bindingDestFromContact lib user (bdContact x)) dest))
                   (bindings_of r user)
      in r\<lparr>rgBindings := put user (kept @ [b]) (rgBindings r)\<rparr>)"

definition set_bindings :: "string \<Rightarrow> binding list \<Rightarrow> (string, binding list) gomap \<Rightarrow> (string, binding list) gomap" where
  "set_bindings user bs m = (if bs = [] then del user m else put user bs m)"

definition removeBinding :: "sip_lib \<Rightarrow> string \<Rightarrow> contact \<Rightarrow> string \<Rightarrow> registrar \<Rightarrow> registrar" where
  "removeBinding lib user c source r =
     (if isWildcardContact lib c then r\<lparr>rgBindings := del user (rgBindings r)\<rparr>
      else r\<lparr>rgBindings := set_bindings user
               (filter (\<lambda>b. \<not> contactMatchesStored lib user (bdContact b) c source (rgPreserve r)) (bindings_of r user))
               (rgBindings r)\<rparr>)"

definition refresh_of :: "registrar \<Rightarrow> binding \<Rightarrow> int" where
  "refresh_of r b = (if bdGranted b \<le> 0 then rgMaxExpiry r else bdGranted b)"

text \<open>Applies f to the first element that satisfies P; None when there is none.\<close>
fun change_first :: "('a \<Rightarrow> bool) \<Rightarrow> ('a \<Rightarrow> 'a) \<Rightarrow> 'a list \<Rightarrow> 'a list option" where
  "change_first P f [] = None"
| "change_first P f (x # xs) = (if P x then Some (f x # xs) else map_option (\<lambda>ys. x # ys) (change_first P f xs))"

definition touchBinding :: "sip_lib \<Rightarrow> int \<Rightarrow> string \<Rightarrow> contact \<Rightarrow> string \<Rightarrow> registrar \<Rightarrow> registrar" where
  "touchBinding lib now user c source r =
     (case change_first (\<lambda>b. contactMatchesStored lib user (bdContact b) c source (rgPreserve r))
             (\<lambda>b. let b1 = b\<lparr>bdExpires := now + refresh_of r b\<rparr> in
                  if \<not> rgPreserve r \<and> source \<noteq> [] then b1\<lparr>bdContact := rewriteContactForNAT c source False\<rparr> else b1)
             (bindings_of r user) of
        None \<Rightarrow> r
      | Some bs \<Rightarrow> r\<lparr>rgBindings := put user bs (rgBindings r)\<rparr>)"

definition touchBindingByUser :: "int \<Rightarrow> string \<Rightarrow> registrar \<Rightarrow> registrar" where
  "touchBindingByUser now user r =
     (let bs = List.map (\<lambda>b. b\<lparr>bdExpires := now + refresh_of r b\<rparr>) (bindings_of r user) in
      if bs = [] then r else r\<lparr>rgBindings := put user bs (rgBindings r)\<rparr>)"

definition touchBindingBySource :: "sip_lib \<Rightarrow> int \<Rightarrow> string \<Rightarrow> string \<Rightarrow> registrar \<Rightarrow> registrar" where
  "touchBindingBySource lib now user source r =
     (if source = [] then touchBindingByUser now user r
      else case change_first (\<lambda>b. let dest = bindingDestFromContact lib user (bdContact b)
                                  in dest \<noteq> [] \<and> destinationsMatch dest source)
                 (\<lambda>b. b\<lparr>bdExpires := now + refresh_of r b\<rparr>) (bindings_of r user) of
             None \<Rightarrow> r
           | Some bs \<Rightarrow> r\<lparr>rgBindings := put user bs (rgBindings r)\<rparr>)"

text \<open>The bindings that have not expired; an entry whose bindings all have is dropped.\<close>
definition live_at :: "int \<Rightarrow> binding list \<Rightarrow> binding list" where
  "live_at now bs = filter (\<lambda>b. now < bdExpires b) bs"

fun prune_map :: "int \<Rightarrow> (string, binding list) gomap \<Rightarrow> (string, binding list) gomap" where
  "prune_map now [] = []"
| "prune_map now ((user, bs) # m) =
     (if live_at now bs = [] then prune_map now m else (user, live_at now bs) # prune_map now m)"

text \<open>pruneExpired: the number of bindings removed, the users whose bindings changed
  and the new state.\<close>
definition pruneExpired :: "int \<Rightarrow> registrar \<Rightarrow> int \<times> string list \<times> registrar" where
  "pruneExpired now r =
     (int (sum_list (List.map (\<lambda>p. length (snd p) - length (live_at now (snd p))) (rgBindings r))),
      List.map fst (filter (\<lambda>p. live_at now (snd p) \<noteq> snd p) (rgBindings r)),
      r\<lparr>rgBindings := prune_map now (rgBindings r)\<rparr>)"

definition snapshotBindings :: "int \<Rightarrow> registrar \<Rightarrow> (string, binding list) gomap" where
  "snapshotBindings now r = prune_map now (rgBindings r)"

section \<open>Queries\<close>

definition DialTarget :: "sip_lib \<Rightarrow> int \<Rightarrow> string \<Rightarrow> registrar \<Rightarrow> (sip_uri \<times> string \<times> string) option" where
  "DialTarget lib now e r =
     (case live_at now (bindings_of r e) of
        [] \<Rightarrow> None
      | b # _ \<Rightarrow> Some (bindingToDialTarget lib e b))"

definition ContactURI :: "sip_lib \<Rightarrow> int \<Rightarrow> string \<Rightarrow> registrar \<Rightarrow> sip_uri option" where
  "ContactURI lib now e r = map_option fst (DialTarget lib now e r)"

definition IsRegistered :: "sip_lib \<Rightarrow> int \<Rightarrow> string \<Rightarrow> registrar \<Rightarrow> bool" where
  "IsRegistered lib now e r = (ContactURI lib now e r \<noteq> None)"

definition RegisteredExtensions :: "int \<Rightarrow> registrar \<Rightarrow> string list" where
  "RegisteredExtensions now r = List.map fst (filter (\<lambda>p. live_at now (snd p) \<noteq> []) (rgBindings r))"

definition SenderAuthorized :: "sip_lib \<Rightarrow> int \<Rightarrow> string \<Rightarrow> string \<Rightarrow> registrar \<Rightarrow> bool" where
  "SenderAuthorized lib now e source r =
     (if e = [] \<or> source = [] then False
      else \<exists>b \<in> set (live_at now (bindings_of r e)).
             destinationsMatch (fst (snd (bindingToDialTarget lib e b))) source)"

section \<open>Handlers\<close>

text \<open>strconv.Atoi of a value that may be missing, where it is not negative.\<close>
definition expires_value :: "string option \<Rightarrow> int option" where
  "expires_value v =
     (case v of None \<Rightarrow> None
      | Some s \<Rightarrow> (case atoi s of None \<Rightarrow> None | Some sec \<Rightarrow> if 0 \<le> sec then Some (seconds sec) else None))"

definition parseRequestedExpiry :: "sip_request \<Rightarrow> int" where
  "parseRequestedExpiry req =
     (let e0 = seconds 3600;
          e1 = (case expires_value (case rqContact req of None \<Rightarrow> None | Some c \<Rightarrow> param (coParams c) ''expires'')
                of None \<Rightarrow> e0 | Some e \<Rightarrow> e)
      in (case expires_value (rqExpires req) of None \<Rightarrow> e1 | Some e \<Rightarrow> e))"

text \<open>The responses: a status with, for 401 the nonce, for 423 the shortest expiry, for
  200 the contact with its granted seconds.\<close>
datatype reg_response =
  RegStatus int
| RegUnauthorized string
| RegTooBrief int
| RegOK "(contact \<times> int) option"

definition buildRegisterOK :: "contact \<Rightarrow> int \<Rightarrow> reg_response" where
  "buildRegisterOK stored expirySec =
     (if expirySec \<le> 0 then RegOK None
      else RegOK (Some (stored\<lparr>coParams := Some (put ''expires'' (itoa expirySec)
                          (case coParams stored of None \<Rightarrow> [] | Some m \<Rightarrow> m))\<rparr>, expirySec)))"

text \<open>handleRegister: the response, the extensions whose bindings changed, the state.\<close>
definition handleRegister :: "sip_lib \<Rightarrow> digest_lib \<Rightarrow> int \<Rightarrow> string option \<Rightarrow> sip_request \<Rightarrow> registrar
    \<Rightarrow> reg_response \<times> string list \<times> registrar" where
  "handleRegister lib dl now nonce req r =
     (let user = extractRegisterUser req; source = rqSource req in
      case get (rgExts r) user of
        None \<Rightarrow> (RegStatus 404, [], r)
      | Some e \<Rightarrow>
          if \<not> exEnabled e then (RegStatus 404, [], r)
          else (let (outcome, d') = authorize dl now nonce req (rgRealm r) user (exPassword e) (rgDigest r);
                    r1 = r\<lparr>rgDigest := d'\<rparr> in
            case outcome of
              AuthChallenge n \<Rightarrow> (RegUnauthorized n, [], r1)
            | AuthDenied code \<Rightarrow> (RegStatus code, [], r1)
            | AuthOK \<Rightarrow>
                (let expiry = parseRequestedExpiry req in
                 case rqContact req of
                   None \<Rightarrow> (RegStatus 400, [], r1)
                 | Some c \<Rightarrow>
                     if expiry = 0 \<or> isWildcardContact lib c then
                       (RegOK None, [user], removeBinding lib user c source r1)
                     else if expiry < rgMinExpiry r1 then (RegTooBrief (rgMinExpiry r1 div second), [], r1)
                     else (let expiry = (if rgMaxExpiry r1 < expiry then rgMaxExpiry r1 else expiry);
                               expiry = (if expiry \<le> 0 then rgMinExpiry r1 else expiry);
                               stored = rewriteContactForNAT c source (rgPreserve r1)
                           in (buildRegisterOK stored (expiry div second), [user],
                               addBinding lib user source
                                 \<lparr>bdContact = stored, bdExpires = now + expiry, bdGranted = expiry\<rparr> r1)))))"

definition handleOptions :: "sip_lib \<Rightarrow> int \<Rightarrow> sip_request \<Rightarrow> registrar \<Rightarrow> registrar" where
  "handleOptions lib now req r =
     (let from_user = (case rqFrom req of None \<Rightarrow> [] | Some u \<Rightarrow> uUser u);
          user = (if from_user = [] then extractRegisterUser req else from_user);
          source = rqSource req in
      if user = [] then r
      else case rqContact req of
        Some c \<Rightarrow> touchBinding lib now user c source r
      | None \<Rightarrow> touchBindingBySource lib now user source r)"

text \<open>sendOptionsKeepalive: the bindings pinged, and the effect of a 2xx answer.\<close>
definition keepalive_targets :: "int \<Rightarrow> registrar \<Rightarrow> (string \<times> contact) list" where
  "keepalive_targets now r =
     concat (List.map (\<lambda>p. List.map (\<lambda>b. (fst p, bdContact b)) (snd p)) (snapshotBindings now r))"

definition keepalive_answer :: "sip_lib \<Rightarrow> int \<Rightarrow> string \<times> contact \<Rightarrow> int option \<Rightarrow> registrar \<Rightarrow> registrar" where
  "keepalive_answer lib now t status r =
     (case status of
        None \<Rightarrow> r
      | Some code \<Rightarrow> if 200 \<le> code \<and> code < 300
                    then touchBinding lib now (fst t) (snd t) (slHostPort lib (coAddress (snd t))) r else r)"


section \<open>Runs of the registrar\<close>

text \<open>The clock and the registrar.  Time passes, and the timers of expired nonces
  fire; requests arrive, expired bindings are dropped, keepalive pings are answered
  and the accounts are replaced.\<close>
inductive reg_step :: "sip_lib \<Rightarrow> digest_lib \<Rightarrow> int \<times> registrar \<Rightarrow> int \<times> registrar \<Rightarrow> bool"
  for lib dl where
  tick: "t \<le> t' \<Longrightarrow> reg_step lib dl (t, r) (t', r\<lparr>rgDigest := expireNonces t' (rgDigest r)\<rparr>)"
| register: "handleRegister lib dl t nonce req r = (resp, ch, r') \<Longrightarrow> reg_step lib dl (t, r) (t, r')"
| options: "reg_step lib dl (t, r) (t, handleOptions lib t req r)"
| prune: "pruneExpired t r = (n, ch, r') \<Longrightarrow> reg_step lib dl (t, r) (t, r')"
| accounts: "reg_step lib dl (t, r) (t, UpdateExtensions exts r)"
| answer: "reg_step lib dl (t, r) (t, keepalive_answer lib t target status r)"

inductive reg_reach :: "sip_lib \<Rightarrow> digest_lib \<Rightarrow> registrar \<Rightarrow> int \<times> registrar \<Rightarrow> bool"
  for lib dl r0 where
  start: "reg_reach lib dl r0 (t, r0)"
| step: "reg_reach lib dl r0 s \<Longrightarrow> reg_step lib dl s s' \<Longrightarrow> reg_reach lib dl r0 s'"

definition binding_ok :: "int \<Rightarrow> registrar \<Rightarrow> binding \<Rightarrow> bool" where
  "binding_ok t r b = (0 < bdGranted b \<and> bdGranted b \<le> rgMaxExpiry r \<and> bdExpires b \<le> t + rgMaxExpiry r)"

definition bindings_ok :: "int \<Rightarrow> registrar \<Rightarrow> binding list \<Rightarrow> bool" where
  "bindings_ok t r bs = (\<forall>b \<in> set bs. binding_ok t r b)"

definition registrar_inv :: "int \<times> registrar \<Rightarrow> bool" where
  "registrar_inv s = (case s of (t, r) \<Rightarrow>
     distinct (keys (rgBindings r)) \<and>
     (\<forall>user bs. get (rgBindings r) user = Some bs \<longrightarrow> bs \<noteq> [] \<and> bindings_ok t r bs))"

lemma bindings_of_ok: "registrar_inv (t, r) \<Longrightarrow> bindings_ok t r (bindings_of r user)"
  by (auto simp: registrar_inv_def goget_def bindings_ok_def split: option.splits)

lemma registrar_inv_put [inv_intros]:
  "registrar_inv (t, r) \<Longrightarrow> bs \<noteq> [] \<Longrightarrow> bindings_ok t r bs
     \<Longrightarrow> registrar_inv (t, r\<lparr>rgBindings := put user bs (rgBindings r)\<rparr>)"
  by (auto simp: registrar_inv_def bindings_ok_def binding_ok_def distinct_put)

lemma registrar_inv_del [inv_intros]:
  "registrar_inv (t, r) \<Longrightarrow> registrar_inv (t, r\<lparr>rgBindings := del user (rgBindings r)\<rparr>)"
  by (auto simp: registrar_inv_def bindings_ok_def binding_ok_def distinct_del)

lemma registrar_inv_digest [inv_intros]:
  "registrar_inv (t, r) \<Longrightarrow> registrar_inv (t, r\<lparr>rgDigest := d\<rparr>)"
  by (auto simp: registrar_inv_def bindings_ok_def binding_ok_def)

lemma change_first_set:
  "change_first P f xs = Some ys \<Longrightarrow> length ys = length xs \<and> (\<forall>y \<in> set ys. y \<in> set xs \<or> (\<exists>x \<in> set xs. P x \<and> y = f x))"
  by (induction xs arbitrary: ys) (auto split: if_splits; blast)+

lemma change_first_inv:
  assumes "registrar_inv (t, r)" "change_first P f (bindings_of r user) = Some bs"
    and "\<And>b. binding_ok t r b \<Longrightarrow> binding_ok t r (f b)"
  shows "registrar_inv (t, r\<lparr>rgBindings := put user bs (rgBindings r)\<rparr>)"
proof (rule registrar_inv_put [OF assms(1)])
  show "bs \<noteq> []" using assms(2) by (cases "bindings_of r user") (auto split: if_splits)
  show "bindings_ok t r bs"
    using change_first_set [OF assms(2)] bindings_of_ok [OF assms(1)] assms(3)
    by (fastforce simp: bindings_ok_def)
qed

lemma refresh_ok: "binding_ok t r b \<Longrightarrow> binding_ok t r (b\<lparr>bdExpires := t + refresh_of r b\<rparr>)"
  by (auto simp: binding_ok_def refresh_of_def)

lemma touchBinding_inv [inv_intros]:
  "registrar_inv (t, r) \<Longrightarrow> registrar_inv (t, touchBinding lib t user c source r)"
  by (auto simp: touchBinding_def Let_def split: option.splits intro!: change_first_inv)
     (auto simp: binding_ok_def refresh_of_def)

lemma touchBindingByUser_inv [inv_intros]:
  assumes "registrar_inv (t, r)"
  shows "registrar_inv (t, touchBindingByUser t user r)"
  using bindings_of_ok [OF assms, of user] assms
  by (auto simp: touchBindingByUser_def Let_def bindings_ok_def intro!: registrar_inv_put refresh_ok)

lemma touchBindingBySource_inv [inv_intros]:
  "registrar_inv (t, r) \<Longrightarrow> registrar_inv (t, touchBindingBySource lib t user source r)"
  by (auto simp: touchBindingBySource_def split: option.splits intro!: change_first_inv refresh_ok
      intro: touchBindingByUser_inv)

lemma handleOptions_inv [inv_intros]: "registrar_inv (t, r) \<Longrightarrow> registrar_inv (t, handleOptions lib t req r)"
  by (auto simp: handleOptions_def Let_def split: option.splits intro: inv_intros)

lemma keepalive_inv [inv_intros]:
  "registrar_inv (t, r) \<Longrightarrow> registrar_inv (t, keepalive_answer lib t target status r)"
  by (auto simp: keepalive_answer_def split: option.splits intro: inv_intros)

lemma addBinding_inv [inv_intros]:
  "registrar_inv (t, r) \<Longrightarrow> binding_ok t r b \<Longrightarrow> registrar_inv (t, addBinding lib user source b r)"
  using bindings_of_ok [of t r user]
  by (auto simp: addBinding_def Let_def bindings_ok_def intro!: registrar_inv_put)

lemma removeBinding_inv [inv_intros]:
  "registrar_inv (t, r) \<Longrightarrow> registrar_inv (t, removeBinding lib user c source r)"
  using bindings_of_ok [of t r user]
  by (auto simp: removeBinding_def set_bindings_def bindings_ok_def intro!: registrar_inv_put registrar_inv_del)

lemma handleRegister_inv:
  assumes "handleRegister lib dl t nonce req r = (resp, ch, r')" "registrar_inv (t, r)"
    "0 < rgMinExpiry r" "0 < rgMaxExpiry r"
  shows "registrar_inv (t, r')"
  using assms
  by (auto simp: handleRegister_def Let_def split: option.splits if_splits prod.splits auth_outcome.splits
      intro!: inv_intros) (auto simp: binding_ok_def)

subsection \<open>Expired bindings\<close>

lemma keys_prune: "set (keys (prune_map t m)) \<subseteq> set (keys m)"
  by (induction t m rule: prune_map.induct) auto

lemma distinct_prune: "distinct (keys m) \<Longrightarrow> distinct (keys (prune_map t m))"
proof (induction t m rule: prune_map.induct)
  case (2 t user bs m)
  then show ?case using keys_prune [of t m] by (auto simp del: set_map)
qed simp

lemma get_prune:
  "distinct (keys m) \<Longrightarrow> get (prune_map t m) user =
     (case get m user of None \<Rightarrow> None
      | Some bs \<Rightarrow> if live_at t bs = [] then None else Some (live_at t bs))"
proof (induction t m rule: prune_map.induct)
  case (2 t u bs m)
  then have "get m u = None" by (metis distinct.simps(2) fst_conv list.simps(9) map_of_eq_None_iff set_map)
  with 2 show ?case by (auto split: option.splits)
qed simp

lemma live_live: "t \<le> t' \<Longrightarrow> live_at t' (live_at t bs) = live_at t' bs"
  by (auto simp: live_at_def intro: filter_cong)

lemma live_prune:
  assumes "distinct (keys (rgBindings r))" "t \<le> t'"
  shows "live_at t' (bindings_of (snd (snd (pruneExpired t r))) user) = live_at t' (bindings_of r user)"
proof -
  have "live_at t' bs = []" if "live_at t bs = []" for bs
    using live_live [OF assms(2), of bs] unfolding that by (simp add: live_at_def)
  then show ?thesis
    by (auto simp: pruneExpired_def goget_def get_prune [OF assms(1)] live_live [OF assms(2)] split: option.splits)
       (simp add: live_at_def)
qed

lemma prune_inv [inv_intros]:
  "pruneExpired t r = (n, ch, r') \<Longrightarrow> registrar_inv (t, r) \<Longrightarrow> registrar_inv (t, r')"
  by (auto simp: pruneExpired_def registrar_inv_def distinct_prune get_prune bindings_ok_def binding_ok_def
      live_at_def split: option.splits if_splits)


lemma touch_limits [simp]:
  "rgMinExpiry (touchBinding lib t user c source r) = rgMinExpiry r"
  "rgMaxExpiry (touchBinding lib t user c source r) = rgMaxExpiry r"
  "rgMinExpiry (touchBindingBySource lib t user source r) = rgMinExpiry r"
  "rgMaxExpiry (touchBindingBySource lib t user source r) = rgMaxExpiry r"
  by (auto simp: touchBinding_def touchBindingBySource_def touchBindingByUser_def Let_def split: option.splits)

lemma handler_limits [simp]:
  "rgMinExpiry (handleOptions lib t req r) = rgMinExpiry r"
  "rgMaxExpiry (handleOptions lib t req r) = rgMaxExpiry r"
  "rgMinExpiry (keepalive_answer lib t target status r) = rgMinExpiry r"
  "rgMaxExpiry (keepalive_answer lib t target status r) = rgMaxExpiry r"
  by (auto simp: handleOptions_def keepalive_answer_def Let_def split: option.splits)

lemma handleRegister_limits:
  "handleRegister lib dl t nonce req r = (resp, ch, r') \<Longrightarrow>
   rgMinExpiry r' = rgMinExpiry r \<and> rgMaxExpiry r' = rgMaxExpiry r"
  by (auto simp: handleRegister_def removeBinding_def addBinding_def Let_def
      split: option.splits if_splits prod.splits auth_outcome.splits)

lemma reg_step_limits:
  "reg_step lib dl s s' \<Longrightarrow>
   rgMinExpiry (snd s') = rgMinExpiry (snd s) \<and> rgMaxExpiry (snd s') = rgMaxExpiry (snd s)"
  by (induction rule: reg_step.induct) (auto simp: handleRegister_limits pruneExpired_def UpdateExtensions_def)

lemma reg_step_inv:
  "reg_step lib dl s s' \<Longrightarrow> registrar_inv s \<Longrightarrow> 0 < rgMinExpiry (snd s) \<Longrightarrow> 0 < rgMaxExpiry (snd s)
     \<Longrightarrow> registrar_inv s'"
proof (induction rule: reg_step.induct)
  case (tick t t' r)
  then show ?case by (fastforce simp: registrar_inv_def bindings_ok_def binding_ok_def)
next
  case (register t nonce req r resp ch r')
  then show ?case using handleRegister_inv by simp
next
  case (accounts t r exts)
  then show ?case by (auto simp: UpdateExtensions_def registrar_inv_def bindings_ok_def binding_ok_def)
qed (auto intro: inv_intros)

lemma reg_reach_inv:
  assumes "reg_reach lib dl r0 s" "rgBindings r0 = []" "0 < rgMinExpiry r0" "0 < rgMaxExpiry r0"
  shows "registrar_inv s \<and> rgMinExpiry (snd s) = rgMinExpiry r0 \<and> rgMaxExpiry (snd s) = rgMaxExpiry r0"
  using assms(1)
proof (induction rule: reg_reach.induct)
  case (start t)
  then show ?case using assms by (simp add: registrar_inv_def)
next
  case (step s s')
  then show ?case using reg_step_inv [OF step(2)] reg_step_limits [OF step(2)] assms(3,4) by simp
qed

lemma seconds_small: "0 \<le> n \<Longrightarrow> n < 9000000000 \<Longrightarrow> seconds n = n * second"
  unfolding seconds_def
  by (subst sint_sbintrunc') (simp add: second_def signed_take_bit_int_eq_self)

lemma NewRegistrar_limits:
  assumes "regMinExpiry srv < 9000000000" "regMaxExpiry srv < 9000000000"
  shows "0 < rgMinExpiry (NewRegistrar rlm srv exts)" "0 < rgMaxExpiry (NewRegistrar rlm srv exts)"
    "rgMaxExpiry (NewRegistrar rlm srv exts) = (if regMaxExpiry srv \<le> 0 then 3600 else regMaxExpiry srv) * second"
  using assms
  by (auto simp: NewRegistrar_def Let_def seconds_small second_def)

text \<open>In every run of a registrar whose configured expiries are at most some 285 years,
  with any order of requests, OPTIONS, expiries, keepalive answers and account changes:
  every extension in the table has a binding, no binding was granted more than the
  configured maximum, none lasts beyond the maximum from now, and an extension
  is registered exactly when it is listed as registered.\<close>
theorem registrar_lifetimes:
  assumes "reg_reach lib dl (NewRegistrar rlm srv exts) (t, r)"
    and "regMinExpiry srv < 9000000000" "regMaxExpiry srv < 9000000000"
  shows "(\<forall>user b. b \<in> set (bindings_of r user) \<longrightarrow>
            0 < bdGranted b \<and> bdGranted b \<le> rgMaxExpiry r \<and> bdExpires b \<le> t + rgMaxExpiry r)
    \<and> rgMaxExpiry r = (if regMaxExpiry srv \<le> 0 then 3600 else regMaxExpiry srv) * second
    \<and> (\<forall>user. user \<in> set (keys (rgBindings r)) \<longleftrightarrow> bindings_of r user \<noteq> [])
    \<and> (\<forall>t' e. IsRegistered lib t' e r \<longleftrightarrow> e \<in> set (RegisteredExtensions t' r))"
proof -
  note lim = NewRegistrar_limits [OF assms(2,3), of rlm exts]
  have "rgBindings (NewRegistrar rlm srv exts) = []" by (simp add: NewRegistrar_def Let_def)
  then have inv: "registrar_inv (t, r)" and mx: "rgMaxExpiry r = rgMaxExpiry (NewRegistrar rlm srv exts)"
    using reg_reach_inv [OF assms(1)] lim by simp_all
  have key: "user \<in> set (keys (rgBindings r)) \<longleftrightarrow> bindings_of r user \<noteq> []" for user
    using inv has_iff_key [of "rgBindings r" user]
    by (cases "get (rgBindings r) user") (auto simp: registrar_inv_def goget_def simp del: set_map)
  have d: "distinct (keys (rgBindings r))" using inv by (simp add: registrar_inv_def)
  have "IsRegistered lib t' e r \<longleftrightarrow> e \<in> set (RegisteredExtensions t' r)" for t' e
  proof -
    have "e \<in> set (RegisteredExtensions t' r) \<longleftrightarrow> (\<exists>bs. get (rgBindings r) e = Some bs \<and> live_at t' bs \<noteq> [])"
      using get_eq_iff [OF d] by (force simp: RegisteredExtensions_def)
    also have "\<dots> \<longleftrightarrow> live_at t' (bindings_of r e) \<noteq> []"
      by (cases "get (rgBindings r) e") (auto simp: goget_def live_at_def)
    finally show ?thesis
      by (cases "live_at t' (bindings_of r e)") (auto simp: IsRegistered_def ContactURI_def DialTarget_def)
  qed
  then show ?thesis
    using bindings_of_ok [OF inv] key mx lim by (auto simp: bindings_ok_def binding_ok_def simp del: set_map)
qed


section \<open>Only authenticated requests bind\<close>

text \<open>What a REGISTER that passes the digest check shows.\<close>
definition authentic :: "digest_lib \<Rightarrow> sip_request \<Rightarrow> registrar \<Rightarrow> string \<Rightarrow> bool" where
  "authentic dl req r user =
     (\<exists>e h cred ch deadline. get (rgExts r) user = Some e \<and> exEnabled e
        \<and> rqAuthorization req = Some h \<and> dlParse dl h = Some cred
        \<and> (crUsername cred = [] \<or> crUsername cred = user)
        \<and> get (daCache (rgDigest r)) (crNonce cred) = Some (ch, deadline)
        \<and> dlDigest dl ch (rqMethod req) (crURI cred) user (exPassword e) = Some (crResponse cred))"

lemma authorize_OK:
  "authorize dl now nonce req rlm user pw d = (AuthOK, d') \<longleftrightarrow>
   (\<exists>h cred ch deadline. rqAuthorization req = Some h \<and> dlParse dl h = Some cred
      \<and> (crUsername cred = [] \<or> crUsername cred = user) \<and> get (daCache d) (crNonce cred) = Some (ch, deadline)
      \<and> dlDigest dl ch (rqMethod req) (crURI cred) user pw = Some (crResponse cred)
      \<and> d' = touchNonce now (crNonce cred) d)"
  by (auto simp: authorize_def challengeOrDeny_def issueChallenge_def split: option.splits if_splits)

lemma handleRegister_authentic:
  assumes "handleRegister lib dl t nonce req r = (resp, ch, r')"
    and "rgBindings r' \<noteq> rgBindings r \<or> ch \<noteq> [] \<or> (\<exists>x. resp = RegOK x)"
  shows "authentic dl req r (extractRegisterUser req) \<and> ch = [extractRegisterUser req] \<and> (\<exists>x. resp = RegOK x)"
proof -
  obtain e where e: "get (rgExts r) (extractRegisterUser req) = Some e" "exEnabled e"
    using assms by (auto simp: handleRegister_def Let_def split: option.splits if_splits)
  obtain out d' where a: "authorize dl t nonce req (rgRealm r) (extractRegisterUser req) (exPassword e) (rgDigest r) = (out, d')"
    by (cases "authorize dl t nonce req (rgRealm r) (extractRegisterUser req) (exPassword e) (rgDigest r)") auto
  have "out = AuthOK"
    using assms e a by (auto simp: handleRegister_def Let_def split: auth_outcome.splits)
  then have "authentic dl req r (extractRegisterUser req)"
    using a e unfolding authentic_def \<open>out = AuthOK\<close> authorize_OK by blast
  then show ?thesis
    using assms e a \<open>out = AuthOK\<close>
    by (auto simp: handleRegister_def Let_def buildRegisterOK_def split: option.splits if_splits)
qed

lemma touch_keys:
  "set (keys (rgBindings (touchBinding lib t user c source r))) \<subseteq> set (keys (rgBindings r)) \<union> {user}"
  by (auto simp: touchBinding_def Let_def split: option.splits simp del: set_map)

lemma bindings_of_None: "get (rgBindings r) user = None \<Longrightarrow> bindings_of r user = []"
  by (simp add: goget_def)

lemma touch_unbound:
  assumes "get (rgBindings r) user = None"
  shows "get (rgBindings (touchBinding lib t u c source r)) user = None"
    "get (rgBindings (touchBindingBySource lib t u source r)) user = None"
  using assms
  by (auto simp: touchBinding_def touchBindingBySource_def touchBindingByUser_def Let_def bindings_of_None
      split: option.splits)

lemma removeBinding_unbound:
  "get (rgBindings r) user = None \<Longrightarrow> get (rgBindings (removeBinding lib u c source r)) user = None"
  by (auto simp: removeBinding_def set_bindings_def bindings_of_None)

lemma prune_unbound: "user \<notin> set (keys m) \<Longrightarrow> user \<notin> set (keys (prune_map t m))"
  using keys_prune by (auto simp del: set_map)

text \<open>C2: A REGISTER changes bindings, or is answered with 200, only for an enabled account
  and with credentials whose response is the digest of a challenge the server issued
  and still holds, computed with that account's password; and an extension without
  bindings gets one in no other way: not by OPTIONS, keepalive answers, expiry or
  changes of the accounts.\<close>
theorem register_authenticated:
  assumes "reg_step lib dl (t, r) (t', r')"
    and "get (rgBindings r) user = None" "get (rgBindings r') user \<noteq> None"
  shows "\<exists>req nonce resp. handleRegister lib dl t nonce req r = (resp, [user], r')
           \<and> extractRegisterUser req = user \<and> authentic dl req r user \<and> (\<exists>x. resp = RegOK x)"
  using assms(1)
proof (cases rule: reg_step.cases)
  case (register nonce req resp ch)
  have "rgBindings r' \<noteq> rgBindings r" using assms by auto
  then have auth: "authentic dl req r (extractRegisterUser req)" "ch = [extractRegisterUser req]" "\<exists>x. resp = RegOK x"
    using handleRegister_authentic [OF register(2)] by auto
  have "extractRegisterUser req = user"
    using register(2) auth assms(2,3)
    by (auto simp: handleRegister_def Let_def addBinding_def removeBinding_def set_bindings_def bindings_of_None
        split: option.splits if_splits prod.splits auth_outcome.splits)
  with register auth show ?thesis by blast
next
  case (options req)
  then show ?thesis using assms touch_unbound [OF assms(2)]
    by (auto simp: handleOptions_def Let_def split: option.splits)
next
  case (prune n ch)
  then have "user \<notin> set (keys (rgBindings r'))"
    using prune_unbound [of user "rgBindings r" t] assms(2) has_iff_key [of "rgBindings r" user]
    by (auto simp: pruneExpired_def simp del: set_map)
  then show ?thesis using assms(3) has_iff_key [of "rgBindings r'" user] by blast
next
  case (answer target status)
  then show ?thesis using assms touch_unbound [OF assms(2)]
    by (auto simp: keepalive_answer_def split: option.splits if_splits)
qed (use assms in \<open>auto simp: UpdateExtensions_def\<close>)


text \<open>C7: An accepted REGISTER changes the bindings of its extension only.  A wildcard
  contact removes them all, an expiry of zero those that match the contact; otherwise
  the new binding comes last, is granted the requested time cut to the configured
  maximum and at least the minimum, holds the contact with the packet's source as its
  address (unless the server preserves contacts), replaces every binding with the same
  destination, and keeps the extension registered until it expires.\<close>
theorem register_effect:
  assumes "handleRegister lib dl t nonce req r = (RegOK x, ch, r')"
    and "rgMinExpiry r \<le> rgMaxExpiry r" "second \<le> rgMinExpiry r"
  shows "\<exists>c. rqContact req = Some c \<and>
    (let user = extractRegisterUser req; old = bindings_of r user; new = bindings_of r' user; b = last new in
     (\<forall>u. u \<noteq> user \<longrightarrow> bindings_of r' u = bindings_of r u)
     \<and> (if isWildcardContact lib c then new = []
        else if parseRequestedExpiry req = 0 then
          new = filter (\<lambda>p. \<not> contactMatchesStored lib user (bdContact p) c (rqSource req) (rgPreserve r)) old
        else
          bdGranted b = min (parseRequestedExpiry req) (rgMaxExpiry r) \<and> rgMinExpiry r \<le> bdGranted b
          \<and> bdExpires b = t + bdGranted b \<and> bdContact b = rewriteContactForNAT c (rqSource req) (rgPreserve r)
          \<and> (\<exists>k. x = Some (k, bdGranted b div second))
          \<and> (\<forall>p \<in> set (butlast new). p \<in> set old \<and>
               (let dest = bindingDestFromContact lib user in
                dest (bdContact p) = [] \<or> dest (bdContact b) = [] \<or> \<not> destinationsMatch (dest (bdContact p)) (dest (bdContact b))))
          \<and> (\<forall>t'. t' < bdExpires b \<longrightarrow> IsRegistered lib t' user r')))"
proof -
  let ?u = "extractRegisterUser req"
  obtain c d where c: "rqContact req = Some c"
    and res: "(RegOK x, ch, r') =
       (let expiry = parseRequestedExpiry req; r1 = r\<lparr>rgDigest := d\<rparr> in
        if expiry = 0 \<or> isWildcardContact lib c then (RegOK None, [?u], removeBinding lib ?u c (rqSource req) r1)
        else if expiry < rgMinExpiry r1 then (RegTooBrief (rgMinExpiry r1 div second), [], r1)
        else (let expiry = (if rgMaxExpiry r1 < expiry then rgMaxExpiry r1 else expiry);
                  expiry = (if expiry \<le> 0 then rgMinExpiry r1 else expiry);
                  stored = rewriteContactForNAT c (rqSource req) (rgPreserve r1)
              in (buildRegisterOK stored (expiry div second), [?u],
                  addBinding lib ?u (rqSource req) \<lparr>bdContact = stored, bdExpires = t + expiry, bdGranted = expiry\<rparr> r1)))"
    using assms(1) unfolding handleRegister_def Let_def
    by (auto split: option.splits if_splits prod.splits auth_outcome.splits)
  show ?thesis
  proof (cases "parseRequestedExpiry req = 0 \<or> isWildcardContact lib c")
    case True
    then have "r' = removeBinding lib ?u c (rqSource req) (r\<lparr>rgDigest := d\<rparr>)" using res by simp
    then show ?thesis using True c by (auto simp: removeBinding_def set_bindings_def Let_def)
  next
    case False
    let ?e = "min (parseRequestedExpiry req) (rgMaxExpiry r)"
    let ?b = "\<lparr>bdContact = rewriteContactForNAT c (rqSource req) (rgPreserve r), bdExpires = t + ?e, bdGranted = ?e\<rparr>"
    have min: "rgMinExpiry r \<le> parseRequestedExpiry req" and "0 < ?e" "1 \<le> ?e div second"
      using False res assms(2,3) by (auto simp: Let_def second_def split: if_splits)
    then have r': "r' = addBinding lib ?u (rqSource req) ?b (r\<lparr>rgDigest := d\<rparr>)"
      and x: "\<exists>k. x = Some (k, ?e div second)"
      using False res by (auto simp: Let_def buildRegisterOK_def min_def split: if_splits)
    have "IsRegistered lib t' ?u r'" if "t' < t + ?e" for t'
    proof -
      have "?b \<in> set (live_at t' (bindings_of r' ?u))" using that by (simp add: r' addBinding_def Let_def live_at_def)
      then show ?thesis
        by (cases "live_at t' (bindings_of r' ?u)") (auto simp: IsRegistered_def ContactURI_def DialTarget_def)
    qed
    then show ?thesis using False c min x assms(2) by (auto simp: r' addBinding_def Let_def)
  qed
qed

section \<open>What the clock and OPTIONS may do\<close>

lemma dial_dest: "fst (snd (bindingToDialTarget lib e b)) = bindingDestFromContact lib e (bdContact b)"
  by (simp add: bindingDestFromContact_def bindingToDialTarget_def Let_def)

lemma SenderAuthorized_binding:
  "SenderAuthorized lib t e source r \<Longrightarrow> source \<noteq> []
     \<and> (\<exists>b \<in> set (bindings_of r e). t < bdExpires b \<and> destinationsMatch (bindingDestFromContact lib e (bdContact b)) source)"
  by (auto simp: SenderAuthorized_def dial_dest live_at_def split: if_splits)

lemma IsRegistered_live: "IsRegistered lib t e r \<longleftrightarrow> live_at t (bindings_of r e) \<noteq> []"
  by (cases "live_at t (bindings_of r e)") (simp_all add: IsRegistered_def ContactURI_def DialTarget_def)

lemma SenderAuthorized_registered: "SenderAuthorized lib t e source r \<Longrightarrow> IsRegistered lib t e r"
  by (auto simp: SenderAuthorized_def IsRegistered_live split: if_splits)

lemma prune_queries:
  assumes "distinct (keys (rgBindings r))" "pruneExpired t r = (n, ch, r')" "t \<le> t'"
  shows "DialTarget lib t' e r' = DialTarget lib t' e r" "SenderAuthorized lib t' e source r' = SenderAuthorized lib t' e source r"
  using live_prune [OF assms(1,3), of e] assms(2) by (simp_all add: DialTarget_def SenderAuthorized_def)

text \<open>Dropping expired bindings changes no answer from then on: the address dialled for
  an extension, whether it is registered and whether a packet's sender is authorised
  are the same with and without the clean-up.  A sender is authorised only from the
  destination of a binding of that extension which has not expired.\<close>
theorem prune_invisible:
  assumes "reg_reach lib dl (NewRegistrar rlm srv exts) (t, r)" "pruneExpired t r = (n, ch, r')" "t \<le> t'"
    and "regMinExpiry srv < 9000000000" "regMaxExpiry srv < 9000000000"
  shows "DialTarget lib t' e r' = DialTarget lib t' e r
    \<and> IsRegistered lib t' e r' = IsRegistered lib t' e r
    \<and> SenderAuthorized lib t' e source r' = SenderAuthorized lib t' e source r
    \<and> (SenderAuthorized lib t' e source r' \<longrightarrow> source \<noteq> []
         \<and> (\<exists>b \<in> set (bindings_of r e). t' < bdExpires b \<and> destinationsMatch (bindingDestFromContact lib e (bdContact b)) source))"
proof -
  have "rgBindings (NewRegistrar rlm srv exts) = []" by (simp add: NewRegistrar_def Let_def)
  then have "registrar_inv (t, r)"
    using reg_reach_inv [OF assms(1)] NewRegistrar_limits [OF assms(4,5)] by blast
  then have d: "distinct (keys (rgBindings r))" by (simp add: registrar_inv_def)
  show ?thesis
    using SenderAuthorized_binding [of lib t' e source r]
    by (auto simp: prune_queries [OF d assms(2,3)] IsRegistered_def ContactURI_def)
qed


lemma touch_contacts:
  assumes "parseHostPort source = (h, p)" "h \<noteq> []" "p \<noteq> 0" "source \<noteq> []"
    and "b \<in> set (bindings_of (touchBinding lib t user c source r) u)"
  shows "b \<in> set (bindings_of r u) \<or>
    (u = user \<and> (\<exists>b0 \<in> set (bindings_of r u). contactMatchesStored lib u (bdContact b0) c source (rgPreserve r)
       \<and> bdGranted b = bdGranted b0 \<and> bdExpires b = t + refresh_of r b0
       \<and> (if rgPreserve r then bdContact b = bdContact b0
          else uHost (coAddress (bdContact b)) = h \<and> uPort (coAddress (bdContact b)) = p)))"
proof (cases "touchBinding lib t user c source r = r")
  case False
  let ?f = "\<lambda>b. let b1 = b\<lparr>bdExpires := t + refresh_of r b\<rparr> in
      if \<not> rgPreserve r \<and> source \<noteq> [] then b1\<lparr>bdContact := rewriteContactForNAT c source False\<rparr> else b1"
  obtain bs where bs: "change_first (\<lambda>b. contactMatchesStored lib user (bdContact b) c source (rgPreserve r)) ?f
      (bindings_of r user) = Some bs" and r': "touchBinding lib t user c source r = r\<lparr>rgBindings := put user bs (rgBindings r)\<rparr>"
    using False unfolding touchBinding_def by (auto split: option.splits)
  show ?thesis
    using change_first_set [OF bs] assms
    by (cases "u = user") (fastforce simp: r' rewriteContactForNAT_def Let_def)+
qed (use assms in simp)

text \<open>An OPTIONS request, which is not authenticated, adds no binding and lengthens none
  beyond its granted time from now; and where it names a source with a port it can
  point a binding only at that source, when the server rewrites contacts, and leaves
  the contact alone otherwise.\<close>
theorem options_no_hijack:
  assumes "parseHostPort (rqSource req) = (h, p)" "h \<noteq> []" "p \<noteq> 0" "rqSource req \<noteq> []"
    and "rqContact req \<noteq> None" "b \<in> set (bindings_of (handleOptions lib t req r) u)"
  shows "b \<in> set (bindings_of r u) \<or>
    (\<exists>b0 c. b0 \<in> set (bindings_of r u) \<and> rqContact req = Some c
       \<and> contactMatchesStored lib u (bdContact b0) c (rqSource req) (rgPreserve r)
       \<and> bdGranted b = bdGranted b0 \<and> bdExpires b = t + refresh_of r b0
       \<and> (if rgPreserve r then bdContact b = bdContact b0
          else uHost (coAddress (bdContact b)) = h \<and> uPort (coAddress (bdContact b)) = p))"
proof -
  obtain c where c: "rqContact req = Some c" using assms(5) by auto
  let ?user = "if (case rqFrom req of None \<Rightarrow> [] | Some u \<Rightarrow> uUser u) = [] then extractRegisterUser req
    else (case rqFrom req of None \<Rightarrow> [] | Some u \<Rightarrow> uUser u)"
  show ?thesis
  proof (cases "?user = []")
    case False
    then have "handleOptions lib t req r = touchBinding lib t ?user c (rqSource req) r"
      by (simp add: handleOptions_def Let_def c)
    then show ?thesis using touch_contacts [OF assms(1-4), of b lib t ?user c r u] assms(6) c by metis
  qed (use assms(6) in \<open>simp add: handleOptions_def Let_def\<close>)
qed

section \<open>Nonces\<close>

lemma get_filter_first: "get m k = Some v \<Longrightarrow> P (k, v) \<Longrightarrow> get (filter P m) k = Some v"
  by (induction m) (auto split: if_splits)

text \<open>A nonce that has authenticated a request authenticates, until its lifetime has
  passed since, every later request of the same method that repeats the Authorization
  header for the same account, whatever contact, source and expiry it has; and after
  that lifetime without use such a request is challenged again.\<close>
theorem nonce_reuse:
  assumes "authorize dl t nonce req rlm user pw d = (AuthOK, d')"
    and "rqAuthorization req' = rqAuthorization req" "rqMethod req' = rqMethod req"
  shows "(t' < t + daTTL d \<longrightarrow> fst (authorize dl t' nonce' req' rlm user pw (expireNonces t' d')) = AuthOK)
    \<and> (t + daTTL d \<le> t' \<longrightarrow> distinct (keys (daCache d)) \<longrightarrow>
         fst (authorize dl t' (Some n) req' rlm user pw (expireNonces t' d')) = AuthChallenge n)"
proof -
  obtain h cred ch dl0 where *: "rqAuthorization req = Some h" "dlParse dl h = Some cred"
    "crUsername cred = [] \<or> crUsername cred = user" "get (daCache d) (crNonce cred) = Some (ch, dl0)"
    "dlDigest dl ch (rqMethod req) (crURI cred) user pw = Some (crResponse cred)" "d' = touchNonce t (crNonce cred) d"
    using assms(1) unfolding authorize_OK by blast
  have d': "daCache d' = put (crNonce cred) (ch, t + daTTL d) (daCache d)"
    using * by (simp add: touchNonce_def)
  have live: "get (daCache (expireNonces t' d')) (crNonce cred) = Some (ch, t + daTTL d)" if "t' < t + daTTL d"
    using that by (simp add: expireNonces_def d' get_filter_first)
  have dead: "get (daCache (expireNonces t' d')) (crNonce cred) = None"
    if "t + daTTL d \<le> t'" "distinct (keys (daCache d))"
  proof -
    have "distinct (keys (daCache d'))" using that by (simp add: d' distinct_put)
    then show ?thesis using that get_eq_iff [of "daCache d'" "crNonce cred" "(ch, t + daTTL d)"]
      by (force simp: expireNonces_def map_of_eq_None_iff d' dest!: get_eq_iff [THEN iffD2, rotated])
  qed
  show ?thesis
    using * assms(2,3) live dead
    by (auto simp: authorize_def challengeOrDeny_def issueChallenge_def)
qed


section \<open>Witnesses\<close>

section \<open>Witnesses\<close>

definition demo_sip :: sip_lib where
  "demo_sip = \<lparr>slHostPort = (\<lambda>u. if 0 < uPort u then uHost u @ '':'' @ itoa (uPort u) else uHost u),
     slString = (\<lambda>u. if uWildcard u then ''*'' else ''sip:'' @ uUser u @ ''@'' @ uHost u)\<rparr>"

definition demo_digest :: digest_lib where
  "demo_digest = \<lparr>dlParse = (\<lambda>h. Some \<lparr>crUsername = [], crNonce = h, crURI = [], crResponse = ''pw'' @ h\<rparr>),
     dlDigest = (\<lambda>ch m uri user pw. Some (pw @ chNonce ch))\<rparr>"

definition demo_uri :: sip_uri where
  "demo_uri = \<lparr>uUser = ''101'', uHost = ''10.0.0.9'', uPort = 0, uWildcard = False, uParams = None\<rparr>"

definition demo_register :: sip_request where
  "demo_register = \<lparr>rqMethod = ''REGISTER'', rqTo = Some demo_uri, rqFrom = None,
     rqContact = Some \<lparr>coAddress = demo_uri, coParams = None\<rparr>, rqRecipient = demo_uri,
     rqAuthorization = Some ''n1'', rqExpires = Some ''120'', rqSource = ''1.2.3.4:70''\<rparr>"

definition demo_registrar0 :: registrar where
  "demo_registrar0 = \<lparr>rgRealm = ''pbx'', rgExts = [(''101'', demo_ext\<lparr>exEnabled := True\<rparr>)],
     rgDigest = \<lparr>daCache = [], daTTL = 3600000000000\<rparr>, rgBindings = [], rgMinExpiry = 60000000000,
     rgMaxExpiry = 3600000000000, rgPreserve = False, rgKeepalive = 30000000000\<rparr>"

definition demo_challenged :: registrar where
  "demo_challenged = demo_registrar0\<lparr>rgDigest :=
     \<lparr>daCache = [(''n1'', (\<lparr>chRealm = ''pbx'', chNonce = ''n1''\<rparr>, 3600000000000))], daTTL = 3600000000000\<rparr>\<rparr>"

definition demo_binding :: binding where
  "demo_binding = \<lparr>bdContact = \<lparr>coAddress = demo_uri\<lparr>uHost := ''1.2.3.4'', uPort := 70\<rparr>, coParams = None\<rparr>,
     bdExpires = 120000000000, bdGranted = 120000000000\<rparr>"

definition demo_registrar :: registrar where
  "demo_registrar = demo_challenged\<lparr>rgBindings := [(''101'', [demo_binding])]\<rparr>"

lemma demo_registrar0_new:
  "demo_registrar0 = NewRegistrar ''pbx'' (cServer empty_config) [(''101'', demo_ext\<lparr>exEnabled := True\<rparr>)]"
  by (simp add: demo_registrar0_def NewRegistrar_def empty_config_def newRegisterDigestAuth_def
      seconds_small second_def Let_def)

lemma demo_challenge:
  "handleRegister demo_sip demo_digest 0 (Some ''n1'') (demo_register\<lparr>rqAuthorization := None\<rparr>) demo_registrar0
     = (RegUnauthorized ''n1'', [], demo_challenged)"
  by code_simp

lemma demo_accepted:
  "handleRegister demo_sip demo_digest 0 None demo_register demo_challenged =
     (RegOK (Some ((bdContact demo_binding)\<lparr>coParams := Some [(''expires'', ''120'')]\<rparr>, 120)), [''101''], demo_registrar)"
proof -
  let ?c = "\<lparr>coAddress = demo_uri, coParams = None\<rparr>"
  have user: "extractRegisterUser demo_register = ''101''"
    and e: "get (rgExts demo_challenged) ''101'' = Some (demo_ext\<lparr>exEnabled := True\<rparr>)"
    and auth: "authorize demo_digest 0 None demo_register (rgRealm demo_challenged) ''101''
      (exPassword demo_ext) (rgDigest demo_challenged) = (AuthOK, rgDigest demo_challenged)"
    and exp: "parseRequestedExpiry demo_register = 120000000000"
    and wild: "isWildcardContact demo_sip ?c = False"
    and nat: "rewriteContactForNAT ?c ''1.2.3.4:70'' False = bdContact demo_binding"
    and ok: "buildRegisterOK (bdContact demo_binding) 120
      = RegOK (Some ((bdContact demo_binding)\<lparr>coParams := Some [(''expires'', ''120'')]\<rparr>, 120))"
    by code_simp+
  have "rgMinExpiry demo_challenged = 60000000000" "rgMaxExpiry demo_challenged = 3600000000000"
    "rgPreserve demo_challenged = False" "bindings_of demo_challenged ''101'' = []"
    "rqContact demo_register = Some ?c" "rqSource demo_register = ''1.2.3.4:70''"
    by (simp_all add: demo_challenged_def demo_registrar0_def demo_register_def)
  then show ?thesis
    by (simp add: Let_def handleRegister_def user e auth exp wild nat ok addBinding_def second_def demo_registrar_def)
       (simp add: demo_binding_def demo_challenged_def demo_registrar0_def Let_def)
qed

lemma demo_registrar_reach: "reg_reach demo_sip demo_digest demo_registrar0 (0, demo_registrar)"
  by (rule reg_reach.step [OF reg_reach.step [OF reg_reach.start]]) (rule reg_step.register demo_challenge demo_accepted)+

lemma registrar_lifetimes_witness: "IsRegistered demo_sip 0 ''101'' demo_registrar"
proof -
  have "''101'' \<in> set (RegisteredExtensions 0 demo_registrar)" by code_simp
  with registrar_lifetimes [OF demo_registrar_reach [unfolded demo_registrar0_new]]
  show ?thesis by (simp add: empty_config_def)
qed

lemma register_authenticated_witness: "authentic demo_digest demo_register demo_challenged ''101''"
proof -
  have "reg_step demo_sip demo_digest (0, demo_challenged) (0, demo_registrar)"
    by (rule reg_step.register [OF demo_accepted])
  moreover have "get (rgBindings demo_challenged) ''101'' = None" "get (rgBindings demo_registrar) ''101'' \<noteq> None"
    by code_simp+
  ultimately have "\<exists>req. authentic demo_digest req demo_challenged ''101''"
    using register_authenticated by blast
  moreover have "crNonce (the (dlParse demo_digest ''n1'')) = ''n1''" "extractRegisterUser demo_register = ''101''"
    by code_simp+
  ultimately show ?thesis
    using handleRegister_authentic [OF demo_accepted] by auto
qed

lemma register_effect_witness: "bdGranted (last (bindings_of demo_registrar ''101'')) = 120000000000"
proof -
  have "rgMinExpiry demo_challenged = 60000000000" "rgMaxExpiry demo_challenged = 3600000000000"
    "parseRequestedExpiry demo_register = 120000000000" "extractRegisterUser demo_register = ''101''"
    "isWildcardContact demo_sip \<lparr>coAddress = demo_uri, coParams = None\<rparr> = False"
    "rqContact demo_register = Some \<lparr>coAddress = demo_uri, coParams = None\<rparr>"
    by code_simp+
  with register_effect [OF demo_accepted] show ?thesis by (simp add: second_def Let_def)
qed

lemma prune_invisible_witness:
  "let r' = snd (snd (pruneExpired 5 demo_registrar)) in
   IsRegistered demo_sip 7 ''101'' r' = IsRegistered demo_sip 7 ''101'' demo_registrar"
proof -
  have "reg_step demo_sip demo_digest (0, demo_registrar) (5, demo_registrar\<lparr>rgDigest := expireNonces 5 (rgDigest demo_registrar)\<rparr>)"
    by (rule reg_step.tick) simp
  then have "reg_reach demo_sip demo_digest demo_registrar0 (5, demo_registrar\<lparr>rgDigest := expireNonces 5 (rgDigest demo_registrar)\<rparr>)"
    using demo_registrar_reach reg_reach.step by blast
  from prune_invisible [OF this [unfolded demo_registrar0_new], where t' = 7 and e = "''101''"]
  show ?thesis
    by (simp add: empty_config_def pruneExpired_def IsRegistered_def ContactURI_def DialTarget_def Let_def)
qed

lemma options_no_hijack_witness:
  "\<forall>b \<in> set (bindings_of (handleOptions demo_sip 9 demo_register demo_registrar) ''101'').
     b \<in> set (bindings_of demo_registrar ''101'') \<or> uHost (coAddress (bdContact b)) = ''1.2.3.4''"
proof -
  have "parseHostPort (rqSource demo_register) = (''1.2.3.4'', 70)" "rgPreserve demo_registrar = False" by code_simp+
  moreover have "rqSource demo_register \<noteq> []" "rqContact demo_register \<noteq> None" by (simp_all add: demo_register_def)
  ultimately show ?thesis
    using options_no_hijack [of demo_register "''1.2.3.4''" 70 _ demo_sip 9 demo_registrar "''101''"] by fastforce
qed

lemma nonce_reuse_witness:
  "fst (authorize demo_digest 5 None (demo_register\<lparr>rqSource := ''6.6.6.6:5060''\<rparr>) ''pbx'' ''101'' ''pw''
     (expireNonces 5 (snd (authorize demo_digest 0 None demo_register ''pbx'' ''101'' ''pw'' (rgDigest demo_challenged))))) = AuthOK"
proof -
  let ?a = "authorize demo_digest 0 None demo_register ''pbx'' ''101'' ''pw'' (rgDigest demo_challenged)"
  have "fst ?a = AuthOK" "daTTL (rgDigest demo_challenged) = 3600000000000" by code_simp+
  moreover have "?a = (AuthOK, snd ?a)" using \<open>fst ?a = AuthOK\<close> by (simp add: prod_eq_iff)
  ultimately show ?thesis
    using nonce_reuse [OF \<open>?a = (AuthOK, snd ?a)\<close>, of "demo_register\<lparr>rqSource := ''6.6.6.6:5060''\<rparr>" 5 None] by simp
qed

lemma demo_dest: "bindingDestFromContact demo_sip ''101'' (bdContact demo_binding) = ''1.2.3.4:70''"
proof -
  have "itoa 70 = ''70''" by code_simp
  then show ?thesis
    by (simp add: bindingDestFromContact_def bindingToDialTarget_def demo_binding_def demo_uri_def demo_sip_def
      param_def Let_def)
qed
lemma demo_sender: "t < 120000000000 \<Longrightarrow> SenderAuthorized demo_sip t ''101'' ''1.2.3.4:70'' demo_registrar"
proof -
  have "destinationsMatch ''1.2.3.4:70'' ''1.2.3.4:70''" by code_simp
  moreover have "bindings_of demo_registrar ''101'' = [demo_binding]" "bdExpires demo_binding = 120000000000"
    by (simp_all add: demo_registrar_def goget_def demo_binding_def)
  moreover assume "t < 120000000000"
  ultimately show ?thesis by (simp add: SenderAuthorized_def live_at_def dial_dest demo_dest)
qed

end
