(* ===== verification/Trunk.thy ===== *)
theory Trunk
  imports Registrar
begin

text \<open>
  Trunks, internal/trunk: the address of a trunk server, outbound calls, and the
  supervisors that keep one OPTIONS or REGISTER loop running for each enabled
  trunk.  Sending is left out; what a trunk answers is an argument.
\<close>

section \<open>Addresses\<close>

text \<open>The number strconv.Atoi returns when its error is ignored: 0 for what is no number,
  the nearest 64-bit number for one out of range.\<close>
definition atoi_ignored :: "string \<Rightarrow> int" where
  "atoi_ignored s =
     (case atoi s of
        Some n \<Rightarrow> n
      | None \<Rightarrow>
          (case s of [] \<Rightarrow> 0
           | c # cs \<Rightarrow>
               if (c = CHR ''-'' \<or> c = CHR ''+'') \<and> cs = [] then 0
               else (case digits_val 0 (if c = CHR ''-'' \<or> c = CHR ''+'' then cs else s) of
                       None \<Rightarrow> 0 | Some _ \<Rightarrow> if c = CHR ''-'' then - (2 ^ 63) else 2 ^ 63 - 1)))"

definition parseTrunkURI :: "string \<Rightarrow> string \<Rightarrow> sip_uri" where
  "parseTrunkURI host user =
     (let (h, p) = (case SplitHostPort host of None \<Rightarrow> (host, ''5060'') | Some hp \<Rightarrow> hp)
      in \<lparr>uUser = user, uHost = h, uPort = atoi_ignored p, uWildcard = False, uParams = None\<rparr>)"

definition trunkServerDest :: "string \<Rightarrow> string" where
  "trunkServerDest server = (let u = parseTrunkURI server [] in uHost u @ '':'' @ itoa (uPort u))"

section \<open>Outbound calls\<close>

datatype trunk_call = TrunkNotFound | TrunkDial sip_uri string string

text \<open>Outbound, up to the call of Connect: the URI, the user name and the password.\<close>
definition Outbound :: "config \<Rightarrow> string \<Rightarrow> string \<Rightarrow> trunk_call" where
  "Outbound cfg pre rest =
     (case TrunkByPrefix cfg pre of
        None \<Rightarrow> TrunkNotFound
      | Some t \<Rightarrow> TrunkDial (parseTrunkURI (tkServer t) rest) (tkUsername t) (tkPassword t))"

section \<open>Signalling\<close>

record signal_opts =
  sgConnAddr :: "(string \<times> int) option"
  sgHostname :: "string option"
  sgPort :: "int option"

definition bind_port :: "config \<Rightarrow> int" where
  "bind_port cfg = (if bindPort (cServer cfg) \<le> 0 then 5060 else bindPort (cServer cfg))"

definition newSignalClient :: "string \<Rightarrow> config \<Rightarrow> signal_opts" where
  "newSignalClient detected cfg =
     (let bind = SIPBindHost cfg; ext = ExternalHost detected cfg in
      \<lparr>sgConnAddr = (if bind \<noteq> [] then Some (bind, bind_port cfg) else None),
       sgHostname = (if ext \<noteq> [] \<and> ext \<noteq> bind then Some ext else None),
       sgPort = (if ext \<noteq> [] \<and> ext \<noteq> bind then Some (bind_port cfg) else None)\<rparr>)"

definition appendNATContact :: "string \<Rightarrow> config \<Rightarrow> string \<Rightarrow> contact" where
  "appendNATContact detected cfg tr =
     (let t = (if tr = [] then DefaultSIPTransport (cServer cfg) else tr);
          t = (if t = [] then ''udp'' else t)
      in \<lparr>coAddress = \<lparr>uUser = [], uHost = ExternalHost detected cfg, uPort = bind_port cfg, uWildcard = False,
            uParams = Some [(''transport'', t)]\<rparr>, coParams = None\<rparr>)"

datatype ping_outcome = PingFailed | PingUnauthorized | PingOK int | PingBad int

text \<open>pingTrunkOptions: the answer to the first request and, after a challenge, to the
  authenticated one, which is sent with the given user name and password.\<close>
definition pingTrunkOptions :: "trunk_config \<Rightarrow> int option \<Rightarrow> int option \<Rightarrow> (string \<times> string) option \<times> ping_outcome" where
  "pingTrunkOptions t res1 res2 =
     (let judge = (\<lambda>code. if 200 \<le> code \<and> code < 300 then PingOK code else PingBad code) in
      case res1 of
        None \<Rightarrow> (None, PingFailed)
      | Some code \<Rightarrow>
          if code = 401 \<or> code = 407 then
            if tkPassword t = [] then (None, PingUnauthorized)
            else (let auth = Some (tkUsername t, tkPassword t) in
                  case res2 of None \<Rightarrow> (auth, PingFailed) | Some c \<Rightarrow> (auth, judge c))
          else (None, judge code))"

section \<open>Supervisors\<close>

text \<open>The state of a supervisor: the configuration it reads, its map from trunks to the
  contexts of their loops, the loops that run with the trunk each keeps, and the
  contexts that were cancelled.\<close>
record keeper =
  kpConfig :: config
  kpActive :: "(int, nat) gomap"
  kpLoops :: "(nat, int) gomap"
  kpCancelled :: "nat list"
  kpNext :: nat

definition new_keeper :: "config \<Rightarrow> keeper" where
  "new_keeper cfg = \<lparr>kpConfig = cfg, kpActive = [], kpLoops = [], kpCancelled = [], kpNext = 0\<rparr>"

definition wants :: "keepalive_mode \<Rightarrow> trunk_config \<Rightarrow> bool" where
  "wants mode t = (NormalizeTrunkKeepalive (tkKeepalive t) = Some mode)"

definition wanted :: "keepalive_mode \<Rightarrow> config \<Rightarrow> (int, trunk_config) gomap" where
  "wanted mode cfg = fold (\<lambda>t m. put (tkID t) t m) (filter (wants mode) (EnabledTrunks cfg)) []"

definition stop_unwanted :: "keepalive_mode \<Rightarrow> keeper \<Rightarrow> keeper" where
  "stop_unwanted mode k =
     (let want = keys (wanted mode (kpConfig k)) in
      k\<lparr>kpCancelled := vals (filter (\<lambda>p. fst p \<notin> set want) (kpActive k)) @ kpCancelled k,
        kpActive := filter (\<lambda>p. fst p \<in> set want) (kpActive k)\<rparr>)"

fun start_missing :: "int list \<Rightarrow> keeper \<Rightarrow> keeper" where
  "start_missing [] k = k"
| "start_missing (i # is) k =
     start_missing is
       (if has (kpActive k) i then k
        else k\<lparr>kpActive := put i (kpNext k) (kpActive k), kpLoops := put (kpNext k) i (kpLoops k), kpNext := Suc (kpNext k)\<rparr>)"

definition reconcile_loops :: "keepalive_mode \<Rightarrow> keeper \<Rightarrow> keeper" where
  "reconcile_loops mode k = start_missing (keys (wanted mode (kpConfig k))) (stop_unwanted mode k)"

text \<open>One round of a loop: it ends when its context was cancelled or its trunk is gone,
  disabled or kept in another way, and after the round unless it goes on, which the
  OPTIONS loop always does and the REGISTER loop only after a failure.\<close>
definition loop_goes_on :: "keepalive_mode \<Rightarrow> nat \<Rightarrow> keeper \<Rightarrow> bool" where
  "loop_goes_on mode c k =
     (c \<notin> set (kpCancelled k) \<and>
      (case get (kpLoops k) c of None \<Rightarrow> False
       | Some i \<Rightarrow> (case TrunkByID (kpConfig k) i of None \<Rightarrow> False | Some t \<Rightarrow> tkEnabled t \<and> wants mode t)))"

definition loop_round :: "keepalive_mode \<Rightarrow> nat \<Rightarrow> bool \<Rightarrow> keeper \<Rightarrow> keeper" where
  "loop_round mode c again k = (if loop_goes_on mode c k \<and> again then k else k\<lparr>kpLoops := del c (kpLoops k)\<rparr>)"

definition maintainTrunkOptions :: "nat \<Rightarrow> keeper \<Rightarrow> keeper" where
  "maintainTrunkOptions c = loop_round KeepOptions c True"

definition maintainTrunkRegister :: "nat \<Rightarrow> bool \<Rightarrow> keeper \<Rightarrow> keeper" where
  "maintainTrunkRegister c failed = loop_round KeepRegister c failed"

inductive keeper_step :: "keepalive_mode \<Rightarrow> keeper \<Rightarrow> keeper \<Rightarrow> bool" for mode where
  tick: "keeper_step mode k (reconcile_loops mode k)"
| round: "has (kpLoops k) c \<Longrightarrow> (mode = KeepOptions \<longrightarrow> again) \<Longrightarrow> keeper_step mode k (loop_round mode c again k)"
| config: "keeper_step mode k (k\<lparr>kpConfig := cfg\<rparr>)"

inductive keeper_reach :: "keepalive_mode \<Rightarrow> keeper \<Rightarrow> bool" for mode where
  start: "keeper_reach mode (new_keeper cfg)"
| step: "keeper_reach mode k \<Longrightarrow> keeper_step mode k k' \<Longrightarrow> keeper_reach mode k'"

text \<open>The loops whose context is live.\<close>
definition live_loop :: "keeper \<Rightarrow> nat \<Rightarrow> int \<Rightarrow> bool" where
  "live_loop k c i = (get (kpLoops k) c = Some i \<and> c \<notin> set (kpCancelled k))"

definition keeper_inv :: "keeper \<Rightarrow> bool" where
  "keeper_inv k =
     (distinct (keys (kpActive k)) \<and> distinct (keys (kpLoops k))
      \<and> (\<forall>i c. get (kpActive k) i = Some c \<longrightarrow> c < kpNext k)
      \<and> (\<forall>c i. get (kpLoops k) c = Some i \<longrightarrow> c < kpNext k)
      \<and> (\<forall>c. c \<in> set (kpCancelled k) \<longrightarrow> c < kpNext k)
      \<and> (\<forall>c i. live_loop k c i \<longrightarrow> get (kpActive k) i = Some c))"

lemma get_filter_keys: "get (filter (\<lambda>p. fst p \<in> W) m) k = (if k \<in> W then get m k else None)"
  by (induction m) auto

lemma vals_filter: "distinct (keys m) \<Longrightarrow> c \<in> set (vals (filter (\<lambda>p. fst p \<notin> W) m)) \<longleftrightarrow> (\<exists>i. i \<notin> W \<and> get m i = Some c)"
  by (force simp: get_eq_iff)

lemma keeper_invD:
  assumes "keeper_inv k"
  shows "distinct (keys (kpActive k))" "distinct (keys (kpLoops k))"
    and "get (kpActive k) i = Some c \<Longrightarrow> c < kpNext k"
    and "get (kpLoops k) c = Some i \<Longrightarrow> c < kpNext k"
    and "c \<in> set (kpCancelled k) \<Longrightarrow> c < kpNext k"
    and "live_loop k c i \<Longrightarrow> get (kpActive k) i = Some c"
  using assms by (auto simp: keeper_inv_def)

lemma stop_unwanted_inv [inv_intros]:
  assumes inv: "keeper_inv k"
  shows "keeper_inv (stop_unwanted mode k)"
proof -
  let ?W = "set (keys (wanted mode (kpConfig k)))"
  let ?k = "stop_unwanted mode k"
  note d = keeper_invD(1,2) [OF inv]
  have act: "kpActive ?k = filter (\<lambda>p. fst p \<in> ?W) (kpActive k)"
    and canc: "c \<in> set (kpCancelled ?k) \<longleftrightarrow> (\<exists>i. i \<notin> ?W \<and> get (kpActive k) i = Some c) \<or> c \<in> set (kpCancelled k)"
    and rest: "kpLoops ?k = kpLoops k" "kpNext ?k = kpNext k" for c
    using vals_filter [OF d(1), of c ?W] by (auto simp: stop_unwanted_def Let_def)
  have "distinct (keys (kpActive ?k))" using d(1) by (simp add: act distinct_map_filter)
  moreover have "get (kpActive ?k) i = Some c" if "live_loop ?k c i" for c i
    using that keeper_invD(6) [OF inv, of c i] unfolding live_loop_def canc rest act get_filter_keys by auto
  moreover have "c < kpNext ?k" if "c \<in> set (kpCancelled ?k)" for c
    using that keeper_invD(3,5) [OF inv] unfolding canc rest by auto
  moreover have "c < kpNext ?k" if "get (kpActive ?k) i = Some c" for c i
    using that keeper_invD(3) [OF inv] unfolding act rest get_filter_keys by (auto split: if_splits)
  ultimately show ?thesis
    using d keeper_invD(4) [OF inv] unfolding keeper_inv_def by (auto simp: rest)
qed

lemma start_one_inv:
  assumes inv: "keeper_inv k" and new: "\<not> has (kpActive k) i"
  shows "keeper_inv (k\<lparr>kpActive := put i (kpNext k) (kpActive k), kpLoops := put (kpNext k) i (kpLoops k), kpNext := Suc (kpNext k)\<rparr>)"
    (is "keeper_inv ?k")
proof -
  have "get (kpActive ?k) j = Some c" if l: "live_loop ?k c j" for c j
  proof (cases "c = kpNext k")
    case False
    then have "live_loop k c j" using l by (simp add: live_loop_def)
    then have "get (kpActive k) j = Some c" by (rule keeper_invD(6) [OF inv])
    then show ?thesis using new by auto
  qed (use l in \<open>simp add: live_loop_def\<close>)
  then show ?thesis
    using keeper_invD [OF inv] unfolding keeper_inv_def by (auto simp: less_Suc_eq simp del: set_map)
qed

lemma start_missing_inv [inv_intros]: "keeper_inv k \<Longrightarrow> keeper_inv (start_missing is k)"
proof (induction "is" k rule: start_missing.induct)
  case (2 i "is" k)
  then show ?case using start_one_inv by (cases "has (kpActive k) i") auto
qed simp

lemma keeper_inv_drop_loop: "keeper_inv k \<Longrightarrow> keeper_inv (k\<lparr>kpLoops := del c (kpLoops k)\<rparr>)"
proof -
  assume inv: "keeper_inv k"
  have "live_loop k c' i" if "live_loop (k\<lparr>kpLoops := del c (kpLoops k)\<rparr>) c' i" for c' i
    using that by (simp add: live_loop_def del: map_of_eq_Some_iff split: if_splits)
  moreover have "get (kpLoops k) c' = Some i" if "get (del c (kpLoops k)) c' = Some i" for c' i
    using that by (simp split: if_splits)
  ultimately show ?thesis using keeper_invD [OF inv] by (simp add: keeper_inv_def del: get_del) blast
qed

lemma loop_round_inv [inv_intros]: "keeper_inv k \<Longrightarrow> keeper_inv (loop_round mode c again k)"
  by (simp add: loop_round_def keeper_inv_drop_loop)

lemma keeper_reach_inv: "keeper_reach mode k \<Longrightarrow> keeper_inv k"
proof (induction rule: keeper_reach.induct)
  case (step k k')
  from step(2,3) show ?case
  proof (induction rule: keeper_step.induct)
    case (config k cfg)
    then show ?case by (simp add: keeper_inv_def live_loop_def)
  qed (auto simp: reconcile_loops_def intro: inv_intros)
qed (simp add: keeper_inv_def new_keeper_def live_loop_def)

lemma start_missing_active:
  "distinct (keys (kpActive k)) \<Longrightarrow> set (keys (kpActive (start_missing is k))) = set is \<union> set (keys (kpActive k))"
proof (induction "is" k rule: start_missing.induct)
  case (2 i "is" k)
  show ?case
  proof (cases "has (kpActive k) i")
    case True
    then have "i \<in> set (keys (kpActive k))" by (simp only: has_iff_key)
    with True 2 show ?thesis by auto
  next
    case False
    with 2 show ?thesis by (simp add: distinct_put del: set_map)
  qed
qed simp

lemma start_missing_keeps:
  "get (kpActive k) i = Some c \<Longrightarrow> get (kpActive (start_missing is k)) i = Some c"
proof (induction "is" k rule: start_missing.induct)
  case (2 j "is" k)
  then show ?case by (cases "has (kpActive k) j"; cases "i = j") (auto simp del: map_of_eq_Some_iff)
qed simp

lemma start_missing_loops:
  "c < kpNext k \<Longrightarrow> get (kpLoops (start_missing is k)) c = get (kpLoops k) c"
proof (induction "is" k rule: start_missing.induct)
  case (2 j "is" k)
  then show ?case by (cases "has (kpActive k) j") auto
qed simp

lemma stop_unwanted_simps [simp]:
  "kpLoops (stop_unwanted mode k) = kpLoops k" "kpNext (stop_unwanted mode k) = kpNext k"
  "get (kpActive (stop_unwanted mode k)) i = (if i \<in> set (keys (wanted mode (kpConfig k))) then get (kpActive k) i else None)"
  by (simp_all add: stop_unwanted_def Let_def get_filter_keys)

lemma reconcile_active:
  assumes inv: "keeper_inv k"
  shows "set (keys (kpActive (reconcile_loops mode k))) = set (keys (wanted mode (kpConfig k)))"
proof -
  let ?s = "stop_unwanted mode k"
  have "set (keys (kpActive ?s)) \<subseteq> set (keys (wanted mode (kpConfig k)))"
    by (auto simp: stop_unwanted_def Let_def)
  with start_missing_active [OF keeper_invD(1) [OF stop_unwanted_inv [OF inv]], of "keys (wanted mode (kpConfig k))"]
  show ?thesis by (auto simp: reconcile_loops_def simp del: set_map)
qed

text \<open>C38: In every reachable state of a supervisor at most one live loop keeps a trunk, and
  after each tick a live loop keeps none but the trunks that are enabled and wanted in
  that mode, each of which is recorded as kept.\<close>
theorem one_keepalive_loop:
  assumes reach: "keeper_reach mode k"
  shows "(live_loop k c i \<and> live_loop k c' i \<longrightarrow> c = c')
    \<and> set (keys (kpActive (reconcile_loops mode k))) = set (keys (wanted mode (kpConfig k)))
    \<and> (live_loop (reconcile_loops mode k) c i \<longrightarrow> i \<in> set (keys (wanted mode (kpConfig k))))"
proof -
  note inv = keeper_reach_inv [OF reach]
  have one: "c = c'" if "live_loop k c i" "live_loop k c' i"
    using that [THEN keeper_invD(6) [OF inv]] by simp
  have act: "set (keys (kpActive (reconcile_loops mode k))) = set (keys (wanted mode (kpConfig k)))"
    by (rule reconcile_active [OF inv])
  have inv': "keeper_inv (reconcile_loops mode k)" using inv by (auto simp: reconcile_loops_def intro: inv_intros)
  have "i \<in> set (keys (wanted mode (kpConfig k)))" if "live_loop (reconcile_loops mode k) c i"
    using keeper_invD(6) [OF inv' that] act has_iff_key [of "kpActive (reconcile_loops mode k)" i] by simp
  with one act show ?thesis by blast
qed

definition demo_kept :: "bool \<Rightarrow> config" where
  "demo_kept on = empty_config\<lparr>cTrunks := [demo_trunk\<lparr>tkID := 1, tkKeepalive := ''options'', tkEnabled := on\<rparr>]\<rparr>"

lemma demo_wanted: "wanted KeepOptions (demo_kept on) = (if on then [(1, demo_trunk\<lparr>tkID := 1, tkKeepalive := ''options'', tkEnabled := on\<rparr>)] else [])"
proof (cases on)
  case True
  have "NormalizeTrunkKeepalive ''options'' = Some KeepOptions" by code_simp
  with True show ?thesis by (simp add: wanted_def wants_def EnabledTrunks_def demo_kept_def)
qed (simp add: wanted_def EnabledTrunks_def demo_kept_def)

text \<open>The supervisor after its first tick.\<close>
definition demo_keeper :: keeper where
  "demo_keeper = \<lparr>kpConfig = demo_kept True, kpActive = [(1, 0)], kpLoops = [(0, 1)], kpCancelled = [], kpNext = 1\<rparr>"

lemma demo_keeper_reach: "keeper_reach KeepOptions demo_keeper"
proof -
  have "keeper_reach KeepOptions (reconcile_loops KeepOptions (new_keeper (demo_kept True)))"
    by (rule keeper_reach.step [OF keeper_reach.start keeper_step.tick])
  moreover have "reconcile_loops KeepOptions (new_keeper (demo_kept True)) = demo_keeper"
    by (simp add: reconcile_loops_def stop_unwanted_def new_keeper_def demo_wanted demo_keeper_def Let_def)
  ultimately show ?thesis by simp
qed

theorem one_keepalive_loop_witness:
  "live_loop demo_keeper 0 1 \<and> set (keys (kpActive (reconcile_loops KeepOptions demo_keeper))) = {1}"
proof -
  have "live_loop demo_keeper 0 1" by (simp add: live_loop_def demo_keeper_def)
  moreover have "set (keys (wanted KeepOptions (kpConfig demo_keeper))) = {1}"
    by (simp add: demo_keeper_def demo_wanted)
  ultimately show ?thesis using one_keepalive_loop [OF demo_keeper_reach, of 0 1 0] by simp
qed

text \<open>A trunk is lost when its loop has ended while the supervisor still has its entry.\<close>
definition lost :: "int \<Rightarrow> nat \<Rightarrow> keeper \<Rightarrow> bool" where
  "lost i c k = (get (kpActive k) i = Some c \<and> \<not> has (kpLoops k) c)"

lemma lost_step:
  assumes step: "keeper_step mode k k'" and want: "i \<in> set (keys (wanted mode (kpConfig k)))"
    and lost: "lost i c k" and inv: "keeper_inv k"
  shows "lost i c k'"
  using step want lost inv
proof (induction rule: keeper_step.induct)
  case (tick k)
  have act: "get (kpActive (stop_unwanted mode k)) i = Some c" using tick by (simp add: lost_def del: map_of_eq_Some_iff set_map)
  have c: "c < kpNext (stop_unwanted mode k)" using tick keeper_invD(3) [of k i c] by (simp add: lost_def del: map_of_eq_Some_iff)
  show ?case
    using start_missing_keeps [OF act] start_missing_loops [OF c] tick(2) by (simp add: lost_def reconcile_loops_def)
qed (simp_all add: lost_def loop_round_def)

text \<open>C39: A trunk whose loop ended while the supervisor still holds its entry, because the trunk
  was disabled and enabled again between two ticks or because the REGISTER session ended
  without an error, gets no new loop for as long as the trunk stays enabled.\<close>
theorem keepalive_lost:
  assumes reach: "keeper_reach mode k" and lost: "get (kpActive k) i = Some c" "\<not> has (kpLoops k) c"
    and run: "(\<lambda>k k'. keeper_step mode k k' \<and> i \<in> set (keys (wanted mode (kpConfig k))))\<^sup>*\<^sup>* k k'"
  shows "\<not> live_loop k' c' i"
proof -
  have "keeper_reach mode k' \<and> lost i c k'"
    using run
  proof (induction rule: rtranclp_induct)
    case (step a b)
    then show ?case using lost_step [of mode a b i c] keeper_reach_inv keeper_reach.step by blast
  qed (use reach lost in \<open>simp add: lost_def del: map_of_eq_Some_iff\<close>)
  then show ?thesis
    using keeper_invD(6) [OF keeper_reach_inv, of mode k' c' i] by (force simp: lost_def live_loop_def simp del: map_of_eq_Some_iff)
qed

text \<open>The trunk is disabled, its loop sees that and ends, and it is enabled again.\<close>
definition demo_lost :: keeper where
  "demo_lost = demo_keeper\<lparr>kpLoops := []\<rparr>"

lemma demo_lost_reach: "keeper_reach KeepOptions demo_lost"
proof -
  let ?off = "demo_keeper\<lparr>kpConfig := demo_kept False\<rparr>"
  have "keeper_reach KeepOptions ?off" by (rule keeper_reach.step [OF demo_keeper_reach keeper_step.config])
  then have "keeper_reach KeepOptions (loop_round KeepOptions 0 True ?off)"
    by (rule keeper_reach.step) (rule keeper_step.round, auto simp: demo_keeper_def)
  then have "keeper_reach KeepOptions ((loop_round KeepOptions 0 True ?off)\<lparr>kpConfig := demo_kept True\<rparr>)"
    by (rule keeper_reach.step) (rule keeper_step.config)
  moreover have "\<not> loop_goes_on KeepOptions 0 ?off"
    by (simp add: loop_goes_on_def demo_keeper_def demo_kept_def TrunkByID_def)
  ultimately show ?thesis by (simp add: loop_round_def demo_lost_def demo_keeper_def)
qed

theorem keepalive_lost_witness:
  "keeper_reach KeepOptions demo_lost \<and> 1 \<in> set (keys (wanted KeepOptions (kpConfig demo_lost)))
     \<and> (\<forall>c. \<not> live_loop (reconcile_loops KeepOptions demo_lost) c 1)"
proof -
  have "(\<lambda>k k'. keeper_step KeepOptions k k' \<and> 1 \<in> set (keys (wanted KeepOptions (kpConfig k))))\<^sup>*\<^sup>*
      demo_lost (reconcile_loops KeepOptions demo_lost)"
    by (rule r_into_rtranclp) (auto simp: demo_lost_def demo_keeper_def demo_wanted intro: keeper_step.tick)
  from keepalive_lost [OF demo_lost_reach _ _ this, of 0] show ?thesis
    using demo_lost_reach by (simp add: demo_lost_def demo_keeper_def demo_wanted)
qed

end
