(* ===== verification/CallManager.thy ===== *)
theory CallManager
  imports Config
begin

text \<open>
  The call limits of internal/call/manager.go: the number of calls in progress
  against max_calls, and for every extension the calls it takes part in
  against max_simultaneous_calls.  A Go map read of a missing key is zero.
  TryAcquire is its check followed by its update; the two are separate
  definitions because the code releases the lock between them.
\<close>

record session =
  sID :: string
  sCaller :: string
  sCallee :: string
  sCallerName :: string

record manager =
  mgMax :: int
  mgActive :: int
  mgByID :: "(string, session) gomap"
  mgExt :: "(string, int) gomap"

definition NewManager :: "int \<Rightarrow> manager" where
  "NewManager n = \<lparr>mgMax = (if n \<le> 0 then 200 else n), mgActive = 0, mgByID = [], mgExt = []\<rparr>"

datatype limit_err = CallLimit | ExtBusy string

definition ext_max :: "extension \<Rightarrow> int" where
  "ext_max e = (if exMaxCalls e \<le> 0 then DefaultMaxCallsPerExtension else exMaxCalls e)"

definition checkExtensionLimit :: "manager \<Rightarrow> string \<Rightarrow> (string, extension) gomap \<Rightarrow> limit_err option" where
  "checkExtensionLimit m ext exts =
     (case get exts ext of
        None \<Rightarrow> None
      | Some e \<Rightarrow>
          let n = goget 0 (mgExt m) ext; mx = ext_max e in
          if mx \<le> n then
            (if exCallWaiting e \<and> n = mx then None
             else if mx \<le> n then Some (ExtBusy ext) else None)
          else None)"

definition bump :: "string \<Rightarrow> (string, int) gomap \<Rightarrow> (string, int) gomap" where
  "bump k m = put k (goget 0 m k + 1) m"

text \<open>The locked part of TryAcquire, once the counter has been raised.\<close>
definition mgr_record :: "session \<Rightarrow> manager \<Rightarrow> manager" where
  "mgr_record s m =
     m\<lparr>mgActive := mgActive m + 1, mgByID := put (sID s) s (mgByID m),
       mgExt := bump (sCallee s) (bump (sCaller s) (mgExt m))\<rparr>"

definition TryAcquire :: "string \<Rightarrow> string \<Rightarrow> string \<Rightarrow> string \<Rightarrow> (string, extension) gomap \<Rightarrow> manager
    \<Rightarrow> (limit_err, session) result \<times> manager" where
  "TryAcquire i caller callee name exts m =
     (case checkExtensionLimit m caller exts of
        Some e \<Rightarrow> (Err e, m)
      | None \<Rightarrow>
      case checkExtensionLimit m callee exts of
        Some e \<Rightarrow> (Err e, m)
      | None \<Rightarrow>
          if mgMax m \<le> mgActive m then (Err CallLimit, m)
          else let s = \<lparr>sID = i, sCaller = caller, sCallee = callee, sCallerName = name\<rparr>
               in (Ok s, mgr_record s m))"

definition unbump :: "string \<Rightarrow> (string, int) gomap \<Rightarrow> (string, int) gomap" where
  "unbump k m =
     (if k = [] then m
      else let n = goget 0 m k - 1 in if n \<le> 0 then del k m else put k n m)"

definition Release :: "string \<Rightarrow> manager \<Rightarrow> manager" where
  "Release i m =
     (case get (mgByID m) i of
        None \<Rightarrow> m
      | Some s \<Rightarrow> m\<lparr>mgByID := del i (mgByID m), mgActive := mgActive m - 1,
                     mgExt := unbump (sCallee s) (unbump (sCaller s) (mgExt m))\<rparr>)"

definition ActiveSessions :: "manager \<Rightarrow> session list" where
  "ActiveSessions m = vals (mgByID m)"

definition ExtensionActive :: "manager \<Rightarrow> string \<Rightarrow> int" where
  "ExtensionActive m ext = goget 0 (mgExt m) ext"

subsection \<open>Headers of outbound calls\<close>

type_synonym header = "string \<times> string"

definition CallerNameHeader :: "string \<Rightarrow> header option" where
  "CallerNameHeader name = (if name = [] then None else Some (''X-Caller-Name'', name))"

definition dquote :: char where
  "dquote = char_of (34 :: nat)"

definition PAssertedIdentity :: "string \<Rightarrow> string \<Rightarrow> string \<Rightarrow> header" where
  "PAssertedIdentity display user host =
     (''P-Asserted-Identity'',
      (if display \<noteq> [] then [dquote] @ display @ [dquote] @ '' '' else []) @ ''<sip:'' @ user @ ''@'' @ host @ ''>'')"

definition IntercomHeaders :: "header list" where
  "IntercomHeaders =
     [(''Alert-Info'', ''<http://127.0.0.1>;info=alert-autoanswer''), (''Call-Info'', ''answer-after=0'')]"

definition OutboundHeaders :: "string \<Rightarrow> string \<Rightarrow> string \<Rightarrow> header list" where
  "OutboundHeaders callerName fromUser host =
     (case CallerNameHeader callerName of None \<Rightarrow> [] | Some h \<Rightarrow> [h])
     @ [PAssertedIdentity callerName fromUser host]"

section \<open>Runs\<close>

text \<open>Reachable managers: every call has a dialog identifier of its own.\<close>
inductive mgr_reach :: "int \<Rightarrow> manager \<Rightarrow> bool" for n :: int where
  start: "mgr_reach n (NewManager n)"
| acquire: "mgr_reach n m \<Longrightarrow> \<not> has (mgByID m) i \<Longrightarrow>
            mgr_reach n (snd (TryAcquire i caller callee name exts m))"
| release: "mgr_reach n m \<Longrightarrow> mgr_reach n (Release i m)"

text \<open>The two ends of every recorded call.\<close>
definition ends :: "(string, session) gomap \<Rightarrow> string list" where
  "ends byID = concat (List.map (\<lambda>s. [sCaller s, sCallee s]) (vals byID))"

definition mgr_inv :: "manager \<Rightarrow> bool" where
  "mgr_inv m =
     (distinct (keys (mgByID m)) \<and> mgActive m = int (length (mgByID m)) \<and> mgActive m \<le> mgMax m
      \<and> 0 < mgMax m
      \<and> (\<forall>e. e \<noteq> [] \<longrightarrow> goget 0 (mgExt m) e = int (count_list (ends (mgByID m)) e)))"

lemma goget_bump [simp]: "goget 0 (bump k m) k' = (if k' = k then goget 0 m k + 1 else goget 0 m k')"
  by (simp add: bump_def)

lemma goget_unbump:
  "k' \<noteq> [] \<Longrightarrow> 0 \<le> goget 0 m k' - (if k' = k then 1 else 0) \<Longrightarrow>
   goget 0 (unbump k m) k' = goget 0 m k' - (if k' = k then 1 else 0)"
  by (auto simp: unbump_def Let_def)

lemma count_list_append [simp]: "count_list (xs @ ys) x = count_list xs x + count_list ys x"
  by (induction xs) auto

lemma mgr_record_inv:
  "mgr_inv m \<Longrightarrow> \<not> has (mgByID m) (sID s) \<Longrightarrow> mgActive m < mgMax m \<Longrightarrow> mgr_inv (mgr_record s m)"
  using has_iff_key [of "mgByID m" "sID s"]
  by (auto simp: mgr_inv_def mgr_record_def put_fresh ends_def)

lemma TryAcquire_inv [inv_intros]:
  "mgr_inv m \<Longrightarrow> \<not> has (mgByID m) i \<Longrightarrow> mgr_inv (snd (TryAcquire i caller callee name exts m))"
  using mgr_record_inv [of m "\<lparr>sID = i, sCaller = caller, sCallee = callee, sCallerName = name\<rparr>"]
  by (auto simp: TryAcquire_def Let_def split: option.splits)

lemma del_split:
  assumes "distinct (keys m)" "get m k = Some v"
  obtains xs ys where "m = xs @ (k, v) # ys" "del k m = xs @ ys"
proof -
  obtain xs ys where m: "m = xs @ (k, v) # ys" using get_in_set [OF assms(2)] by (meson split_list)
  then have "k \<notin> set (keys xs)" "k \<notin> set (keys ys)" using assms(1) by auto
  then have "get xs k = None" "get ys k = None" by (simp_all add: map_of_eq_None_iff)
  then have "del k xs = xs" "del k ys = ys" using del_fresh [of xs k] del_fresh [of ys k] by simp_all
  then have "del k m = xs @ ys" unfolding m by (simp add: AList.delete_eq)
  with m that show ?thesis by blast
qed

lemma Release_inv [inv_intros]: "mgr_inv m \<Longrightarrow> mgr_inv (Release i m)"
proof (cases "get (mgByID m) i")
  case (Some s)
  assume inv: "mgr_inv m"
  then have d: "distinct (keys (mgByID m))" by (simp add: mgr_inv_def)
  obtain xs ys where sp: "mgByID m = xs @ (i, s) # ys" "del i (mgByID m) = xs @ ys"
    using del_split [OF d Some] .
  have "goget 0 (unbump (sCallee s) (unbump (sCaller s) (mgExt m))) e = int (count_list (ends (xs @ ys)) e)"
    if e: "e \<noteq> []" for e
  proof -
    have c: "goget 0 (mgExt m) e
      = int (count_list (ends (xs @ ys)) e) + (if e = sCaller s then 1 else 0) + (if e = sCallee s then 1 else 0)"
      using inv e by (simp add: mgr_inv_def sp(1) ends_def)
    then have u: "goget 0 (unbump (sCaller s) (mgExt m)) e
      = int (count_list (ends (xs @ ys)) e) + (if e = sCallee s then 1 else 0)"
      using goget_unbump [OF e, of "mgExt m" "sCaller s"] by auto
    show ?thesis using goget_unbump [OF e, of "unbump (sCaller s) (mgExt m)" "sCallee s"] u by auto
  qed
  moreover have "distinct (keys (xs @ ys))" using d by (auto simp: sp(1))
  ultimately show ?thesis using inv sp Some by (simp add: Release_def mgr_inv_def)
qed (simp add: Release_def)

lemma mgr_reach_inv: "mgr_reach n m \<Longrightarrow> mgr_inv m"
proof (induction rule: mgr_reach.induct)
  case start
  then show ?case by (simp add: mgr_inv_def NewManager_def ends_def)
next
  case (acquire m i caller callee name exts)
  then show ?case using TryAcquire_inv by blast
next
  case (release m i)
  then show ?case using Release_inv by blast
qed

lemma mgr_reach_max: "mgr_reach n m \<Longrightarrow> mgMax m = (if n \<le> 0 then 200 else n)"
proof (induction rule: mgr_reach.induct)
  case (acquire m i caller callee name exts)
  then show ?case by (auto simp: TryAcquire_def mgr_record_def Let_def split: option.splits)
qed (auto simp: NewManager_def Release_def split: option.splits)

text \<open>C12: Call accounting. However calls with identifiers of their own are acquired
  and released, the active count is the number of recorded calls and never
  exceeds max_calls, and for every extension the manager's count is the number
  of its ends in the recorded calls; once all calls are released it is zero.\<close>
theorem manager_accounting:
  assumes "mgr_reach n m"
  shows "mgActive m = int (length (ActiveSessions m))
    \<and> mgActive m \<le> (if n \<le> 0 then 200 else n)
    \<and> (\<forall>e. e \<noteq> [] \<longrightarrow> ExtensionActive m e = int (count_list (ends (mgByID m)) e))
    \<and> (mgByID m = [] \<longrightarrow> mgActive m = 0 \<and> (\<forall>e. e \<noteq> [] \<longrightarrow> ExtensionActive m e = 0))"
  using mgr_reach_inv [OF assms] mgr_reach_max [OF assms]
  by (simp add: mgr_inv_def ActiveSessions_def ExtensionActive_def ends_def)

lemma manager_accounting_witness:
  "mgActive (snd (TryAcquire ''c1'' ''101'' ''102'' [] [] (NewManager 1))) = 1"
proof -
  let ?m = "snd (TryAcquire ''c1'' ''101'' ''102'' [] [] (NewManager 1))"
  have "mgr_reach 1 ?m"
    by (rule mgr_reach.acquire [OF mgr_reach.start]) (simp add: NewManager_def)
  moreover have "length (ActiveSessions ?m) = 1" by code_simp
  ultimately show ?thesis using manager_accounting [of 1 ?m] by simp
qed

text \<open>The limit of an extension. When a call between two different numbers is
  admitted, an extension of the directory is then in at most
  max_simultaneous_calls calls, or one more when it has call waiting; and the
  call was admitted only because the server's limit left room.\<close>
theorem TryAcquire_limits:
  assumes "TryAcquire i caller callee name exts m = (Ok s, m')" "caller \<noteq> callee"
    and "get exts e = Some x" "e \<in> {caller, callee}"
  shows "ExtensionActive m' e \<le> ext_max x + (if exCallWaiting x then 1 else 0)
    \<and> mgActive m < mgMax m \<and> mgActive m' = mgActive m + 1"
proof -
  have c: "checkExtensionLimit m caller exts = None" "checkExtensionLimit m callee exts = None"
    "\<not> mgMax m \<le> mgActive m"
    "m' = mgr_record \<lparr>sID = i, sCaller = caller, sCallee = callee, sCallerName = name\<rparr> m"
    using assms(1) by (auto simp: TryAcquire_def Let_def split: option.splits if_splits)
  then have "checkExtensionLimit m e exts = None" using assms(4) by auto
  then have "goget 0 (mgExt m) e + 1 \<le> ext_max x + (if exCallWaiting x then 1 else 0)"
    using assms(3) by (auto simp: checkExtensionLimit_def Let_def split: if_splits)
  moreover have "goget 0 (mgExt m') e = goget 0 (mgExt m) e + 1"
    using assms(2,4) by (auto simp: c(4) mgr_record_def)
  ultimately show ?thesis using c(3,4) by (simp add: ExtensionActive_def mgr_record_def)
qed

lemma TryAcquire_limits_witness:
  "ExtensionActive (snd (TryAcquire ''c1'' ''101'' ''102'' [] [(''101'', demo_ext)] (NewManager 0))) ''101'' \<le> 5"
proof -
  let ?m = "NewManager 0"
  have t: "TryAcquire ''c1'' ''101'' ''102'' [] [(''101'', demo_ext)] ?m
    = (Ok \<lparr>sID = ''c1'', sCaller = ''101'', sCallee = ''102'', sCallerName = []\<rparr>,
       snd (TryAcquire ''c1'' ''101'' ''102'' [] [(''101'', demo_ext)] ?m))"
    by (simp add: TryAcquire_def checkExtensionLimit_def NewManager_def Let_def demo_ext_def ext_max_def
        DefaultMaxCallsPerExtension_def)
  have "ext_max demo_ext = 5" "\<not> exCallWaiting demo_ext" by code_simp+
  with TryAcquire_limits [OF t, of "''101''" demo_ext] show ?thesis by simp
qed

text \<open>What the accounting does not survive. Admitting a second call under an
  identifier already in use overwrites the record of the first: when both
  have been released the manager still counts one active call and one call of
  each extension, so a retransmitted call id uses up the limits for good.  The
  check and the update are separate steps: two admissions that both checked
  before either updated exceed the extension's limit.\<close>
theorem TryAcquire_leaks:
  "(let m1 = snd (TryAcquire ''c'' ''101'' ''102'' [] [] (NewManager 5));
        m2 = snd (TryAcquire ''c'' ''101'' ''102'' [] [] m1);
        m3 = Release ''c'' (Release ''c'' m2) in
      ActiveSessions m3 = [] \<and> mgActive m3 = 1 \<and> ExtensionActive m3 ''101'' = 1)
   \<and> (let m0 = NewManager 5; x = demo_ext\<lparr>exMaxCalls := 1\<rparr>; exts = [(''101'', x)];
          s1 = \<lparr>sID = ''a'', sCaller = ''101'', sCallee = ''102'', sCallerName = []\<rparr>;
          s2 = \<lparr>sID = ''b'', sCaller = ''101'', sCallee = ''103'', sCallerName = []\<rparr> in
      checkExtensionLimit m0 ''101'' exts = None
      \<and> ExtensionActive (mgr_record s2 (mgr_record s1 m0)) ''101'' = 2
      \<and> fst (TryAcquire ''b'' ''101'' ''103'' [] exts (mgr_record s1 m0)) = Err (ExtBusy ''101''))"
  by code_simp

end
