(* ===== verification/Calls.thy ===== *)
theory Calls
  imports CallManager Contracts
begin

text \<open>
  Bridged calls, their registry, the park lot and the life of dialogs
  (internal/call/registry.go, park.go and bridge.go).  An ActiveCall is shared
  by pointer: calls live in a store and the registry holds references into it.
  A dialog is named by its identifier and is alive until someone hangs up; the
  goroutine blocked in waitDialogPair is a watcher that remembers the two
  dialogs it was started with.  The hold machinery of a call has a theory of
  its own; here a call has only the fields the registry and transfers use.
\<close>

type_synonym dlg = string

record active_call =
  acCallerExt :: string
  acCalleeExt :: string
  acIn :: "dlg option"
  acOut :: "dlg option"
  acConsult :: "dlg option"
  acTransferReady :: bool
  acHoldActive :: bool
  acParked :: bool
  acBridge :: bool

type_synonym heap = "(nat, active_call) gomap"

record registry =
  byDialog :: "(dlg, nat) gomap"
  byExt :: "(string, nat) gomap"

definition NewRegistry :: registry where
  "NewRegistry = \<lparr>byDialog = [], byExt = []\<rparr>"

definition Register :: "nat \<Rightarrow> heap \<Rightarrow> registry \<Rightarrow> registry" where
  "Register r h reg =
     (case get h r of
        None \<Rightarrow> reg
      | Some ac \<Rightarrow>
          (case acIn ac of
             None \<Rightarrow> reg
           | Some d \<Rightarrow>
               reg\<lparr>byDialog := put d r (byDialog reg),
                   byExt := (if acCallerExt ac \<noteq> [] then put (acCallerExt ac) r (byExt reg) else byExt reg)\<rparr>))"

definition Unregister :: "dlg \<Rightarrow> heap \<Rightarrow> registry \<Rightarrow> registry" where
  "Unregister d h reg =
     (case get (byDialog reg) d of
        None \<Rightarrow> reg
      | Some r \<Rightarrow>
          let reg1 = reg\<lparr>byDialog := del d (byDialog reg)\<rparr> in
          (case get h r of
             None \<Rightarrow> reg1
           | Some ac \<Rightarrow>
               if acCallerExt ac \<noteq> [] \<and> get (byExt reg) (acCallerExt ac) = Some r
               then reg1\<lparr>byExt := del (acCallerExt ac) (byExt reg)\<rparr> else reg1))"

definition ByExtension :: "registry \<Rightarrow> string \<Rightarrow> nat option" where
  "ByExtension reg ext = get (byExt reg) ext"

definition ByDialog :: "registry \<Rightarrow> dlg \<Rightarrow> nat option" where
  "ByDialog reg d = get (byDialog reg) d"

text \<open>FindByExtension and findLocked\<close>
definition FindByExtension :: "heap \<Rightarrow> registry \<Rightarrow> string \<Rightarrow> nat option" where
  "FindByExtension h reg ext =
     (case get (byExt reg) ext of
        Some r \<Rightarrow> Some r
      | None \<Rightarrow>
          map_option snd (List.find (\<lambda>(d, r). case get h r of None \<Rightarrow> False
                                              | Some ac \<Rightarrow> acCalleeExt ac = ext) (byDialog reg)))"

definition upd_call :: "nat \<Rightarrow> (active_call \<Rightarrow> active_call) \<Rightarrow> heap \<Rightarrow> heap" where
  "upd_call r f h = (case get h r of None \<Rightarrow> h | Some ac \<Rightarrow> put r (f ac) h)"

definition SetConsult :: "string \<Rightarrow> dlg \<Rightarrow> registry \<Rightarrow> heap \<Rightarrow> heap" where
  "SetConsult ext d reg h =
     (case get (byExt reg) ext of
        None \<Rightarrow> h
      | Some r \<Rightarrow> upd_call r (\<lambda>ac. ac\<lparr>acConsult := Some d\<rparr>) h)"

definition SetTransferReady :: "string \<Rightarrow> registry \<Rightarrow> heap \<Rightarrow> bool \<times> heap" where
  "SetTransferReady ext reg h =
     (case FindByExtension h reg ext of
        None \<Rightarrow> (False, h)
      | Some r \<Rightarrow> (True, upd_call r (\<lambda>ac. ac\<lparr>acTransferReady := True\<rparr>) h))"

record call_snapshot =
  csCallerExt :: string
  csCalleeExt :: string
  csTransferReady :: bool
  csHoldActive :: bool
  csParked :: bool

fun snapshot_loop :: "heap \<Rightarrow> dlg list \<Rightarrow> (dlg \<times> nat) list \<Rightarrow> call_snapshot list" where
  "snapshot_loop h seen [] = []"
| "snapshot_loop h seen ((_, r) # rest) =
     (case get h r of
        None \<Rightarrow> snapshot_loop h seen rest
      | Some ac \<Rightarrow>
          (case acIn ac of
             None \<Rightarrow> snapshot_loop h seen rest
           | Some d \<Rightarrow>
               if d \<in> set seen then snapshot_loop h seen rest
               else \<lparr>csCallerExt = acCallerExt ac, csCalleeExt = acCalleeExt ac,
                     csTransferReady = acTransferReady ac, csHoldActive = acHoldActive ac,
                     csParked = acParked ac\<rparr> # snapshot_loop h (d # seen) rest))"

definition Snapshots :: "heap \<Rightarrow> registry \<Rightarrow> call_snapshot list" where
  "Snapshots h reg = snapshot_loop h [] (byDialog reg)"

text \<open>StealHeldLeg: the leg that is not the parker's leaves the call.\<close>
definition StealHeldLeg :: "string \<Rightarrow> active_call \<Rightarrow> (dlg option \<times> dlg option) \<times> active_call" where
  "StealHeldLeg parker ac =
     (let ac1 = ac\<lparr>acBridge := False, acParked := True\<rparr> in
      if parker = acCallerExt ac then ((None, acOut ac), ac1\<lparr>acOut := None\<rparr>)
      else ((acIn ac, None), ac1\<lparr>acIn := None\<rparr>))"

section \<open>The park lot\<close>

record parked_call =
  pcHeldIn :: "dlg option"
  pcHeldOut :: "dlg option"

type_synonym park_lot = "(string, parked_call) gomap"

definition legs_of :: "parked_call \<Rightarrow> dlg list" where
  "legs_of pc = (case pcHeldIn pc of None \<Rightarrow> [] | Some d \<Rightarrow> [d])
     @ (case pcHeldOut pc of None \<Rightarrow> [] | Some d \<Rightarrow> [d])"

text \<open>Dialogs alive.\<close>
type_synonym live = "dlg list"

definition hangup :: "dlg \<Rightarrow> live \<Rightarrow> live" where
  "hangup d ls = filter (\<lambda>x. x \<noteq> d) ls"

definition hangup_opt :: "dlg option \<Rightarrow> live \<Rightarrow> live" where
  "hangup_opt d ls = (case d of None \<Rightarrow> ls | Some d \<Rightarrow> hangup d ls)"

text \<open>ParkedCall.Release\<close>
definition release_parked :: "parked_call \<Rightarrow> live \<Rightarrow> live" where
  "release_parked pc ls = hangup_opt (pcHeldOut pc) (hangup_opt (pcHeldIn pc) ls)"

text \<open>ParkLot.Park: a call already parked in the slot is released first.\<close>
definition Park :: "string \<Rightarrow> parked_call \<Rightarrow> park_lot \<Rightarrow> live \<Rightarrow> park_lot \<times> live" where
  "Park slot pc lot ls =
     (put slot pc lot, case get lot slot of None \<Rightarrow> ls | Some old \<Rightarrow> release_parked old ls)"

definition Retrieve :: "string \<Rightarrow> park_lot \<Rightarrow> parked_call option \<times> park_lot" where
  "Retrieve slot lot =
     (case get lot slot of None \<Rightarrow> (None, lot) | Some pc \<Rightarrow> (Some pc, del slot lot))"

definition HasSlot :: "string \<Rightarrow> park_lot \<Rightarrow> bool" where
  "HasSlot slot lot = (get lot slot \<noteq> None)"

text \<open>sort.Strings of the standard library\<close>
definition Slots :: "park_lot \<Rightarrow> string list" where
  "Slots lot = sortStrings (keys lot)"

text \<open>The park lot keeps the contract of a table with a listing: Park stores,
  Retrieve removes, Slots lists.\<close>
interpretation park: kv_listing "\<lambda>lot. get lot" "\<lambda>slot pc lot. fst (Park slot pc lot [])"
  "\<lambda>slot lot. snd (Retrieve slot lot)" "\<lambda>lot. distinct (keys lot)" Slots
proof
  have s: "set (Slots lot) = set (keys lot)" "distinct (Slots lot) = distinct (keys lot)" for lot
    unfolding Slots_def
    by (rule mset_eq_setD [OF sortStrings_mset], rule mset_eq_imp_distinct_iff [OF sortStrings_mset])
  show "k \<in> set (Slots lot) \<longleftrightarrow> get lot k \<noteq> None" for k lot
    unfolding s(1) by (rule has_iff_key [symmetric])
  show "distinct (keys lot) \<Longrightarrow> distinct (Slots lot)" for lot using s(2) by blast
qed (auto simp: Park_def Retrieve_def distinct_update distinct_delete split: option.splits)

section \<open>Dialogs, watchers and calls\<close>

text \<open>A watcher is a goroutine in waitDialogPair: its two dialogs, the call whose
  bridge it stops, and the dialog it unregisters when it returns.\<close>
record watcher =
  wtA :: dlg
  wtB :: dlg
  wtCall :: "nat option"
  wtUnreg :: "dlg option"

record world =
  wLive :: live
  wHeap :: heap
  wReg :: registry
  wPark :: park_lot
  wWatch :: "watcher list"

definition empty_world :: world where
  "empty_world = \<lparr>wLive = [], wHeap = [], wReg = NewRegistry, wPark = [], wWatch = []\<rparr>"

text \<open>The part of Connect (and Join) from the moment both legs are answered: the
  call is created, registered and bridged, and the goroutine waits.\<close>
definition call_connected :: "nat \<Rightarrow> string \<Rightarrow> string \<Rightarrow> dlg \<Rightarrow> dlg \<Rightarrow> world \<Rightarrow> world" where
  "call_connected r caller callee din dout w =
     (let ac = \<lparr>acCallerExt = caller, acCalleeExt = callee, acIn = Some din, acOut = Some dout,
               acConsult = None, acTransferReady = False, acHoldActive = False, acParked = False,
               acBridge = True\<rparr>;
          h = put r ac (wHeap w) in
      w\<lparr>wLive := din # dout # wLive w, wHeap := h, wReg := Register r h (wReg w),
        wWatch := \<lparr>wtA = din, wtB = dout, wtCall = Some r, wtUnreg = Some din\<rparr> # wWatch w\<rparr>)"

text \<open>A party hangs up.\<close>
definition party_bye :: "dlg \<Rightarrow> world \<Rightarrow> world" where
  "party_bye d w = w\<lparr>wLive := hangup d (wLive w)\<rparr>"

definition watch_ready :: "watcher \<Rightarrow> world \<Rightarrow> bool" where
  "watch_ready t w = (wtA t \<notin> set (wLive w) \<or> wtB t \<notin> set (wLive w))"

text \<open>waitDialogPair returns: the other leg is hung up, the bridge is stopped and
  the deferred Unregister runs.\<close>
definition watch_fire :: "watcher \<Rightarrow> world \<Rightarrow> world" where
  "watch_fire t w =
     (let live = (if wtA t \<notin> set (wLive w) then hangup (wtB t) (wLive w) else hangup (wtA t) (wLive w));
          h = (case wtCall t of None \<Rightarrow> wHeap w | Some r \<Rightarrow> upd_call r (\<lambda>ac. ac\<lparr>acBridge := False\<rparr>) (wHeap w))
      in w\<lparr>wLive := live, wHeap := h, wWatch := removeAll t (wWatch w),
           wReg := (case wtUnreg t of None \<Rightarrow> wReg w | Some d \<Rightarrow> Unregister d h (wReg w))\<rparr>)"

text \<open>handlePark of internal/pbx/features.go, for a user in a call; the feature
  dialog itself is answered and hung up.\<close>
definition handlePark :: "string \<Rightarrow> dlg \<Rightarrow> world \<Rightarrow> bool \<times> world" where
  "handlePark from feat w =
     (case FindByExtension (wHeap w) (wReg w) from of
        None \<Rightarrow> (False, w)
      | Some r \<Rightarrow>
          (case get (wHeap w) r of
             None \<Rightarrow> (False, w)
           | Some ac \<Rightarrow>
               let ((heldIn, heldOut), ac') = StealHeldLeg from ac;
                   (lot, live) = Park from \<lparr>pcHeldIn = heldIn, pcHeldOut = heldOut\<rparr> (wPark w) (wLive w);
                   live = (if from = acCallerExt ac \<and> acIn ac' \<noteq> None then hangup_opt (acIn ac') live
                           else hangup_opt (acOut ac') live)
               in (True, w\<lparr>wHeap := put r ac' (wHeap w), wPark := lot, wLive := hangup feat live\<rparr>)))"

datatype transfer_err = NoHeldParty | InviteFailed | BridgeFailed

text \<open>CompleteTransfer: target is the dialog of the transfer target, None when the
  invitation fails; ok says whether the new bridge starts.\<close>
definition CompleteTransfer :: "nat \<Rightarrow> dlg \<Rightarrow> dlg option \<Rightarrow> bool \<Rightarrow> world \<Rightarrow> transfer_err option \<times> world" where
  "CompleteTransfer r transferor target ok w =
     (case get (wHeap w) r of
        None \<Rightarrow> (Some NoHeldParty, w)
      | Some ac \<Rightarrow>
          let ac1 = ac\<lparr>acHoldActive := False, acBridge := False, acTransferReady := False\<rparr>;
              w1 = w\<lparr>wHeap := put r ac1 (wHeap w)\<rparr> in
          if acIn ac = None \<and> acOut ac = None then (Some NoHeldParty, w1)
          else (case target of
                  None \<Rightarrow> (Some InviteFailed, w1)
                | Some t \<Rightarrow>
                    let held = (case acOut ac of Some d \<Rightarrow> d | None \<Rightarrow> the (acIn ac)) in
                    if \<not> ok then (Some BridgeFailed, w1)
                    else
                      let live = t # wLive w; live = hangup transferor live;
                          live = hangup_opt (acConsult ac) live;
                          live = (if acOut ac \<noteq> None \<and> acIn ac \<noteq> None then hangup_opt (acIn ac) live
                                  else if acIn ac \<noteq> None \<and> acOut ac \<noteq> None then hangup_opt (acOut ac) live
                                  else live) in
                      (None, w1\<lparr>wLive := live,
                          wWatch := \<lparr>wtA = held, wtB = t, wtCall = None, wtUnreg = None\<rparr> # wWatch w\<rparr>)))"

text \<open>BridgeParked, for a retriever whose dialog could be answered.\<close>
definition BridgeParked :: "dlg \<Rightarrow> parked_call \<Rightarrow> world \<Rightarrow> bool \<times> world" where
  "BridgeParked retriever pc w =
     (case (pcHeldOut pc, pcHeldIn pc) of
        (Some d, _) \<Rightarrow> (True, w\<lparr>wWatch := \<lparr>wtA = retriever, wtB = d, wtCall = None, wtUnreg = None\<rparr> # wWatch w\<rparr>)
      | (None, Some d) \<Rightarrow> (True, w\<lparr>wWatch := \<lparr>wtA = retriever, wtB = d, wtCall = None, wtUnreg = None\<rparr> # wWatch w\<rparr>)
      | (None, None) \<Rightarrow> (False, w))"

definition DialTimeout :: "int \<Rightarrow> int" where
  "DialTimeout seconds = (if seconds \<le> 0 then 15 else seconds)"

definition RingTimeout :: "int \<Rightarrow> int" where
  "RingTimeout seconds = (if seconds \<le> 0 then 30 else seconds)"

definition responseStartsRingback :: "int \<Rightarrow> bool" where
  "responseStartsRingback code = (code = 180 \<or> code = 183)"

section \<open>Reachable worlds\<close>

text \<open>Dialog identifiers and call references are fresh when a call connects.\<close>
definition fresh_dlg :: "dlg \<Rightarrow> world \<Rightarrow> bool" where
  "fresh_dlg d w =
     (d \<notin> set (keys (byDialog (wReg w))) \<and> (\<forall>t \<in> set (wWatch w). wtA t \<noteq> d \<and> wtB t \<noteq> d))"

inductive world_step :: "world \<Rightarrow> world \<Rightarrow> bool" where
  connect: "fresh_dlg din w \<Longrightarrow> fresh_dlg dout w \<Longrightarrow> din \<noteq> dout \<Longrightarrow> r \<notin> set (keys (wHeap w)) \<Longrightarrow>
            world_step w (call_connected r caller callee din dout w)"
| bye: "world_step w (party_bye d w)"
| watch: "t \<in> set (wWatch w) \<Longrightarrow> watch_ready t w \<Longrightarrow> world_step w (watch_fire t w)"
| park: "world_step w (snd (handlePark from feat w))"
| transfer: "world_step w (snd (CompleteTransfer r x target ok w))"

inductive_cases world_step_cases: "world_step w w'"

inductive world_reach :: "world \<Rightarrow> bool" where
  start: "world_reach empty_world"
| step: "world_reach w \<Longrightarrow> world_step w w' \<Longrightarrow> world_reach w'"

text \<open>The registry: one entry for each watched call, filed under the dialog the call
  was answered on; the entry of an extension is a registered call it placed.\<close>
definition reg_inv :: "world \<Rightarrow> bool" where
  "reg_inv w =
     (distinct (keys (byDialog (wReg w))) \<and> distinct (keys (byExt (wReg w))) \<and> get (byExt (wReg w)) [] = None
      \<and> (\<forall>d r. get (byDialog (wReg w)) d = Some r \<longrightarrow>
            (\<exists>t \<in> set (wWatch w). wtCall t = Some r \<and> wtUnreg t = Some d \<and> wtA t = d)
            \<and> r \<in> set (keys (wHeap w)))
      \<and> (\<forall>e r. get (byExt (wReg w)) e = Some r \<longrightarrow>
            (\<exists>d. get (byDialog (wReg w)) d = Some r)
            \<and> (\<exists>ac. get (wHeap w) r = Some ac \<and> acCallerExt ac = e))
      \<and> (\<forall>d d' r. get (byDialog (wReg w)) d = Some r \<longrightarrow> get (byDialog (wReg w)) d' = Some r \<longrightarrow> d = d'))"

lemma reg_invD:
  assumes "reg_inv w"
  shows "distinct (keys (byDialog (wReg w)))" "distinct (keys (byExt (wReg w)))" "get (byExt (wReg w)) [] = None"
    "get (byDialog (wReg w)) d = Some r \<Longrightarrow>
       \<exists>t \<in> set (wWatch w). wtCall t = Some r \<and> wtUnreg t = Some d \<and> wtA t = d"
    "get (byDialog (wReg w)) d = Some r \<Longrightarrow> r \<in> set (keys (wHeap w))"
    "get (byExt (wReg w)) e = Some r \<Longrightarrow> \<exists>d. get (byDialog (wReg w)) d = Some r"
    "get (byExt (wReg w)) e = Some r \<Longrightarrow> \<exists>ac. get (wHeap w) r = Some ac \<and> acCallerExt ac = e"
    "get (byDialog (wReg w)) d = Some r \<Longrightarrow> get (byDialog (wReg w)) d' = Some r \<Longrightarrow> d = d'"
  using assms unfolding reg_inv_def by blast+

text \<open>Changing live dialogs, park slots and call fields other than the caller keeps
  the registry's invariant, and so does starting a watcher.\<close>
lemma reg_inv_frame:
  assumes "reg_inv w" "wReg w' = wReg w" "set (wWatch w) \<subseteq> set (wWatch w')"
    and "set (keys (wHeap w)) \<subseteq> set (keys (wHeap w'))"
    and "\<And>r ac. get (wHeap w) r = Some ac \<Longrightarrow> \<exists>ac'. get (wHeap w') r = Some ac' \<and> acCallerExt ac' = acCallerExt ac"
  shows "reg_inv w'"
  unfolding reg_inv_def assms(2)
proof (intro conjI allI impI)
  fix d r assume d: "get (byDialog (wReg w)) d = Some r"
  show "\<exists>t \<in> set (wWatch w'). wtCall t = Some r \<and> wtUnreg t = Some d \<and> wtA t = d"
    using reg_invD(4) [OF assms(1) d] assms(3) by blast
  show "r \<in> set (keys (wHeap w'))" using reg_invD(5) [OF assms(1) d] assms(4) by blast
next
  fix e r assume e: "get (byExt (wReg w)) e = Some r"
  show "\<exists>d. get (byDialog (wReg w)) d = Some r" using reg_invD(6) [OF assms(1) e] .
  show "\<exists>ac. get (wHeap w') r = Some ac \<and> acCallerExt ac = e"
    using reg_invD(7) [OF assms(1) e] assms(5) by blast
qed (use reg_invD [OF assms(1)] in blast)+

lemma get_upd_call:
  "get (upd_call r f h) r' = (if r' = r then map_option f (get h r) else get h r')"
  by (auto simp: upd_call_def split: option.splits)

lemma keys_upd_call [simp]: "set (keys (upd_call r f h)) = set (keys h)"
proof (cases "get h r")
  case (Some ac)
  then have "r \<in> set (keys h)" using has_iff_key [of h r] by simp
  with Some show ?thesis by (simp only: upd_call_def option.case keys_put) auto
qed (simp add: upd_call_def)

lemma party_bye_inv [inv_intros]: "reg_inv w \<Longrightarrow> reg_inv (party_bye d w)"
  by (erule reg_inv_frame) (auto simp: party_bye_def)

lemma keys_put_subset: "set (keys h) \<subseteq> set (keys (put k v h))"
  by (simp only: keys_put) auto

lemma handlePark_inv [inv_intros]: "reg_inv w \<Longrightarrow> reg_inv (snd (handlePark from feat w))"
proof -
  assume inv: "reg_inv w"
  show ?thesis
  proof (cases "snd (handlePark from feat w) = w")
    case False
    then obtain r ac where r: "get (wHeap w) r = Some ac"
      "wReg (snd (handlePark from feat w)) = wReg w" "wWatch (snd (handlePark from feat w)) = wWatch w"
      "wHeap (snd (handlePark from feat w)) = put r (snd (StealHeldLeg from ac)) (wHeap w)"
      by (auto simp: handlePark_def Let_def split: option.splits prod.splits)
    have c: "acCallerExt (snd (StealHeldLeg from ac)) = acCallerExt ac"
      by (simp add: StealHeldLeg_def Let_def)
    show ?thesis
      by (rule reg_inv_frame [OF inv r(2)]) (use r c in \<open>auto simp: keys_put_subset simp del: set_map\<close>)
  qed (use inv in simp)
qed

lemma CompleteTransfer_inv [inv_intros]: "reg_inv w \<Longrightarrow> reg_inv (snd (CompleteTransfer r x target ok w))"
proof -
  assume inv: "reg_inv w"
  let ?w = "snd (CompleteTransfer r x target ok w)"
  show ?thesis
  proof (cases "?w = w")
    case False
    then obtain ac ac1 where r: "get (wHeap w) r = Some ac" "acCallerExt ac1 = acCallerExt ac"
      "wHeap ?w = put r ac1 (wHeap w)" "wReg ?w = wReg w" "set (wWatch w) \<subseteq> set (wWatch ?w)"
    proof -
      assume a: "\<And>ac ac1. get (wHeap w) r = Some ac \<Longrightarrow> acCallerExt ac1 = acCallerExt ac \<Longrightarrow>
        wHeap ?w = put r ac1 (wHeap w) \<Longrightarrow> wReg ?w = wReg w \<Longrightarrow> set (wWatch w) \<subseteq> set (wWatch ?w) \<Longrightarrow> thesis"
      obtain ac where ac: "get (wHeap w) r = Some ac"
        using False by (auto simp: CompleteTransfer_def split: option.splits)
      show thesis
        by (rule a [OF ac, of "ac\<lparr>acHoldActive := False, acBridge := False, acTransferReady := False\<rparr>"])
          (auto simp: CompleteTransfer_def ac Let_def split: option.splits)
    qed
    show ?thesis
      by (rule reg_inv_frame [OF inv r(4,5)]) (use r in \<open>auto simp: keys_put_subset simp del: set_map\<close>)
  qed (use inv in simp)
qed

lemma call_connected_inv [inv_intros]:
  assumes inv: "reg_inv w" and f: "fresh_dlg din w" and r: "r \<notin> set (keys (wHeap w))"
  shows "reg_inv (call_connected r caller callee din dout w)"
proof -
  let ?w = "call_connected r caller callee din dout w"
  let ?t = "\<lparr>wtA = din, wtB = dout, wtCall = Some r, wtUnreg = Some din\<rparr>"
  have g: "byDialog (wReg ?w) = put din r (byDialog (wReg w))"
    "byExt (wReg ?w) = (if caller \<noteq> [] then put caller r (byExt (wReg w)) else byExt (wReg w))"
    "wWatch ?w = ?t # wWatch w"
    by (simp_all add: call_connected_def Register_def Let_def)
  have h: "set (keys (wHeap w)) \<subseteq> set (keys (wHeap ?w))" "r \<in> set (keys (wHeap ?w))"
    "get (wHeap ?w) r' = (if r' = r then Some \<lparr>acCallerExt = caller, acCalleeExt = callee, acIn = Some din,
      acOut = Some dout, acConsult = None, acTransferReady = False, acHoldActive = False, acParked = False,
      acBridge = True\<rparr> else get (wHeap w) r')" for r'
    by (simp_all add: call_connected_def Let_def del: set_map) (rule subset_insertI)
  have new: "get (byDialog (wReg w)) d \<noteq> Some r" for d using reg_invD(5) [OF inv] r by blast
  have new': "get (byExt (wReg w)) e \<noteq> Some r" for e using reg_invD(6) [OF inv] new by blast
  show ?thesis unfolding reg_inv_def
  proof (intro conjI allI impI)
    show "distinct (keys (byDialog (wReg ?w)))" "distinct (keys (byExt (wReg ?w)))"
      "get (byExt (wReg ?w)) [] = None"
      using reg_invD(1-3) [OF inv] by (auto simp: g distinct_update)
  next
    fix d r' assume d: "get (byDialog (wReg ?w)) d = Some r'"
    show "\<exists>t \<in> set (wWatch ?w). wtCall t = Some r' \<and> wtUnreg t = Some d \<and> wtA t = d"
    proof (cases "d = din")
      case True
      then have "r' = r" using d by (simp add: g)
      show ?thesis unfolding True \<open>r' = r\<close> g(3) by simp
    qed (use d reg_invD(4) [OF inv] in \<open>auto simp: g\<close>)
    show "r' \<in> set (keys (wHeap ?w))"
    proof (cases "d = din")
      case True
      then have "r' = r" using d by (simp add: g)
      show ?thesis unfolding \<open>r' = r\<close> by (rule h(2))
    next
      case False
      then show ?thesis using d reg_invD(5) [OF inv] h(1) by (auto simp: g simp del: set_map)
    qed
  next
    fix e r' assume e: "get (byExt (wReg ?w)) e = Some r'"
    have e': "e = caller \<and> r' = r \<or> get (byExt (wReg w)) e = Some r'"
      using e by (auto simp: g split: if_splits)
    show "\<exists>d. get (byDialog (wReg ?w)) d = Some r'"
    proof (cases "r' = r")
      case False
      with e' obtain d where d: "get (byDialog (wReg w)) d = Some r'" using reg_invD(6) [OF inv] by blast
      have "d \<noteq> din" using f d has_iff_key [of "byDialog (wReg w)" din]
        by (auto simp: fresh_dlg_def simp del: set_map)
      with d show ?thesis by (auto simp: g)
    qed (auto simp: g)
    show "\<exists>ac. get (wHeap ?w) r' = Some ac \<and> acCallerExt ac = e"
      using e' reg_invD(7) [OF inv, of e r'] new' by (auto simp: h(3))
  next
    fix d d' r' assume "get (byDialog (wReg ?w)) d = Some r'" "get (byDialog (wReg ?w)) d' = Some r'"
    then show "d = d'" using new reg_invD(8) [OF inv] by (auto simp: g split: if_splits)
  qed
qed

text \<open>What the deferred Unregister of a watcher does to the two indexes.\<close>
lemma Unregister_byDialog: "get (byDialog (Unregister d h reg)) d' = (if d' = d then None else get (byDialog reg) d')"
  by (auto simp: Unregister_def Let_def split: option.splits)

lemma Unregister_byExt:
  "get (byExt (Unregister d h reg)) e = Some r' \<Longrightarrow> get (byExt reg) e = Some r'"
  by (auto simp: Unregister_def Let_def split: option.splits if_splits)

lemma Unregister_distinct:
  "distinct (keys (byDialog reg)) \<Longrightarrow> distinct (keys (byExt reg)) \<Longrightarrow>
   distinct (keys (byDialog (Unregister d h reg))) \<and> distinct (keys (byExt (Unregister d h reg)))"
  by (auto simp: Unregister_def Let_def distinct_delete split: option.splits)

lemma Unregister_gone:
  assumes "get (byDialog reg) d = Some r" "get h r = Some ac" "acCallerExt ac = e" "e \<noteq> []"
  shows "get (byExt (Unregister d h reg)) e \<noteq> Some r"
  using assms by (simp add: Unregister_def Let_def)

lemma watch_fire_inv [inv_intros]:
  assumes inv: "reg_inv w" and t: "t \<in> set (wWatch w)"
  shows "reg_inv (watch_fire t w)"
proof -
  define h where "h = (case wtCall t of None \<Rightarrow> wHeap w
    | Some r \<Rightarrow> upd_call r (\<lambda>ac. ac\<lparr>acBridge := False\<rparr>) (wHeap w))"
  have heap1: "set (keys h) = set (keys (wHeap w))"
    unfolding h_def by (cases "wtCall t") (simp_all only: option.case keys_upd_call)
  have heap2: "\<exists>ac'. get h r = Some ac' \<and> acCallerExt ac' = acCallerExt ac"
    if "get (wHeap w) r = Some ac" for r ac
    using that by (cases "wtCall t") (auto simp: h_def get_upd_call)
  have w': "wHeap (watch_fire t w) = h" "wWatch (watch_fire t w) = removeAll t (wWatch w)"
    "wReg (watch_fire t w) = (case wtUnreg t of None \<Rightarrow> wReg w | Some d \<Rightarrow> Unregister d h (wReg w))"
    unfolding watch_fire_def h_def Let_def by simp_all
  have old: "get (byDialog (wReg (watch_fire t w))) d = Some r \<Longrightarrow> get (byDialog (wReg w)) d = Some r \<and> wtUnreg t \<noteq> Some d"
    for d r by (auto simp: w' Unregister_byDialog split: option.splits if_splits)
  have oldE: "get (byExt (wReg (watch_fire t w))) e = Some r \<Longrightarrow> get (byExt (wReg w)) e = Some r" for e r
    by (auto simp: w' split: option.splits dest: Unregister_byExt)
  show ?thesis unfolding reg_inv_def
  proof (intro conjI allI impI)
    show "distinct (keys (byDialog (wReg (watch_fire t w))))" "distinct (keys (byExt (wReg (watch_fire t w))))"
      using Unregister_distinct reg_invD(1,2) [OF inv] by (auto simp: w' split: option.splits)
    show "get (byExt (wReg (watch_fire t w))) [] = None"
      using oldE [of "[]"] reg_invD(3) [OF inv] by (cases "get (byExt (wReg (watch_fire t w))) []") auto
  next
    fix d r assume "get (byDialog (wReg (watch_fire t w))) d = Some r"
    from old [OF this] have d: "get (byDialog (wReg w)) d = Some r" "wtUnreg t \<noteq> Some d" by simp_all
    show "\<exists>t' \<in> set (wWatch (watch_fire t w)). wtCall t' = Some r \<and> wtUnreg t' = Some d \<and> wtA t' = d"
      using reg_invD(4) [OF inv d(1)] d(2) by (auto simp: w')
    show "r \<in> set (keys (wHeap (watch_fire t w)))"
      using reg_invD(5) [OF inv d(1)] unfolding w' heap1 .
  next
    fix e r assume new: "get (byExt (wReg (watch_fire t w))) e = Some r"
    have e: "get (byExt (wReg w)) e = Some r" using oldE [OF new] .
    obtain ac where ac: "get h r = Some ac" "acCallerExt ac = e"
      using reg_invD(7) [OF inv e] heap2 by blast
    then show "\<exists>ac. get (wHeap (watch_fire t w)) r = Some ac \<and> acCallerExt ac = e" using w' by simp
    obtain d where d: "get (byDialog (wReg w)) d = Some r" using reg_invD(6) [OF inv e] by blast
    have "wtUnreg t \<noteq> Some d"
    proof
      assume u: "wtUnreg t = Some d"
      have "e \<noteq> []" using e reg_invD(3) [OF inv] by auto
      from Unregister_gone [OF d ac this] show False using new u by (simp add: w')
    qed
    then show "\<exists>d. get (byDialog (wReg (watch_fire t w))) d = Some r"
      using d by (intro exI [of _ d]) (auto simp: w' Unregister_byDialog split: option.splits)
  next
    fix d d' r assume "get (byDialog (wReg (watch_fire t w))) d = Some r"
      "get (byDialog (wReg (watch_fire t w))) d' = Some r"
    then show "d = d'" using old reg_invD(8) [OF inv] by blast
  qed
qed

lemma world_reach_inv: "world_reach w \<Longrightarrow> reg_inv w"
proof (induction rule: world_reach.induct)
  case start
  then show ?case by (simp add: reg_inv_def empty_world_def NewRegistry_def)
next
  case (step w w')
  from step(2) show ?case
  proof (cases rule: world_step.cases)
    case (connect din dout r caller callee)
    then show ?thesis using call_connected_inv [OF step(3)] by simp
  qed (use step(3) in \<open>auto intro: inv_intros\<close>)
qed


text \<open>One call between 101 and 102.\<close>
definition one_call :: world where
  "one_call = call_connected 0 ''101'' ''102'' ''in'' ''out'' empty_world"

lemma one_call_reach: "world_reach one_call"
  unfolding one_call_def
  by (rule world_reach.step [OF world_reach.start world_step.connect])
    (simp_all add: fresh_dlg_def empty_world_def NewRegistry_def)


lemma watch_fire_live:
  "set (wLive (watch_fire t w))
     = (if wtA t \<notin> set (wLive w) then set (wLive w) - {wtB t} else set (wLive w) - {wtA t})"
  by (auto simp: watch_fire_def Let_def hangup_def)

text \<open>C3: Teardown. As soon as one leg of a registered call has ended, the goroutine
  waiting for the call can run; when it has, both legs it watched have ended,
  nothing else was hung up, and the call is no longer registered.\<close>
theorem call_teardown:
  assumes "world_reach w" "ByDialog (wReg w) d = Some r"
  shows "\<exists>t \<in> set (wWatch w). wtA t = d \<and> wtCall t = Some r
    \<and> (d \<notin> set (wLive w) \<or> wtB t \<notin> set (wLive w) \<longrightarrow>
        watch_ready t w
        \<and> set (wLive (watch_fire t w)) = set (wLive w) - {wtA t, wtB t}
        \<and> ByDialog (wReg (watch_fire t w)) d = None)"
proof -
  have inv: "reg_inv w" using world_reach_inv [OF assms(1)] .
  obtain t where t: "t \<in> set (wWatch w)" "wtCall t = Some r" "wtUnreg t = Some d" "wtA t = d"
    using reg_invD(4) [OF inv] assms(2) by (auto simp: ByDialog_def)
  have "watch_ready t w \<and> set (wLive (watch_fire t w)) = set (wLive w) - {wtA t, wtB t}
        \<and> ByDialog (wReg (watch_fire t w)) d = None"
    if "d \<notin> set (wLive w) \<or> wtB t \<notin> set (wLive w)"
    using that t by (auto simp: watch_ready_def watch_fire_def ByDialog_def Unregister_byDialog Let_def hangup_def)
  with t show ?thesis by blast
qed

lemma call_teardown_witness:
  "\<exists>t \<in> set (wWatch (party_bye ''out'' one_call)). watch_ready t (party_bye ''out'' one_call)"
proof -
  let ?w = "party_bye ''out'' one_call"
  have "world_reach ?w" by (rule world_reach.step [OF one_call_reach world_step.bye])
  moreover have "ByDialog (wReg ?w) ''in'' = Some 0" by code_simp
  moreover have b: "wWatch ?w = [\<lparr>wtA = ''in'', wtB = ''out'', wtCall = Some 0, wtUnreg = Some ''in''\<rparr>]"
    "''out'' \<notin> set (wLive ?w)" by code_simp+
  ultimately show ?thesis using call_teardown [of ?w "''in''" 0] by auto
qed

lemma FindByExtension_connected:
  "caller \<noteq> [] \<Longrightarrow> FindByExtension (wHeap (call_connected r caller callee din dout w))
     (wReg (call_connected r caller callee din dout w)) caller = Some r"
  by (simp add: FindByExtension_def call_connected_def Register_def Let_def)

text \<open>Parking loses the parked party. When the caller of a call parks it, the
  callee's leg goes to the slot and the caller's leg is hung up; that ends the
  wait of the call's own goroutine, which still watches the two legs it was
  started with and hangs up the parked leg, while the slot keeps it: whoever
  retrieves the call gets a dead leg.\<close>
theorem park_drops_parked_leg:
  fixes r :: nat and caller callee :: string and din dout feat :: dlg and w :: world
  assumes "caller \<noteq> []" "din \<noteq> dout" "dout \<noteq> feat"
  defines "w1 \<equiv> call_connected r caller callee din dout w"
  defines "t \<equiv> \<lparr>wtA = din, wtB = dout, wtCall = Some r, wtUnreg = Some din\<rparr>"
  defines "w2 \<equiv> snd (handlePark caller feat w1)"
  shows "fst (handlePark caller feat w1) \<and> HasSlot caller (wPark w2)
    \<and> (get (wPark w) caller = None \<longrightarrow> dout \<in> set (wLive w2)) \<and> t \<in> set (wWatch w2) \<and> watch_ready t w2
    \<and> dout \<notin> set (wLive (watch_fire t w2))
    \<and> map_option legs_of (fst (Retrieve caller (wPark (watch_fire t w2)))) = Some [dout]"
proof -
  have f: "FindByExtension (wHeap w1) (wReg w1) caller = Some r"
    unfolding w1_def using FindByExtension_connected [OF assms(1)] .
  have h: "get (wHeap w1) r = Some \<lparr>acCallerExt = caller, acCalleeExt = callee, acIn = Some din,
      acOut = Some dout, acConsult = None, acTransferReady = False, acHoldActive = False,
      acParked = False, acBridge = True\<rparr>"
    "wLive w1 = din # dout # wLive w" "wPark w1 = wPark w" "t \<in> set (wWatch w1)"
    by (simp_all add: w1_def t_def call_connected_def Let_def)
  have w2: "fst (handlePark caller feat w1)" "wWatch w2 = wWatch w1"
    "wPark w2 = put caller \<lparr>pcHeldIn = None, pcHeldOut = Some dout\<rparr> (wPark w)"
    "wLive w2 = hangup feat (hangup din (case get (wPark w) caller of None \<Rightarrow> din # dout # wLive w
       | Some old \<Rightarrow> release_parked old (din # dout # wLive w)))"
    by (simp_all add: w2_def handlePark_def f h StealHeldLeg_def Park_def Let_def hangup_opt_def)
  have "din \<notin> set (wLive w2)" unfolding w2(4) by (simp add: hangup_def)
  then have "watch_ready t w2" "dout \<notin> set (wLive (watch_fire t w2))"
    by (simp_all add: watch_ready_def watch_fire_def t_def Let_def hangup_def)
  moreover have "dout \<in> set (wLive w2)" if "get (wPark w) caller = None"
    unfolding w2(4) using that h(2) assms(2,3) by (simp add: hangup_def)
  moreover have "wPark (watch_fire t w2) = wPark w2" by (simp add: watch_fire_def Let_def)
  ultimately show ?thesis using w2 h(4)
    by (simp add: HasSlot_def Retrieve_def legs_of_def)
qed

lemma park_drops_parked_leg_witness:
  "HasSlot ''101'' (wPark (snd (handlePark ''101'' ''f'' one_call)))"
  using park_drops_parked_leg [of "''101''" "''in''" "''out''" "''f''" 0 "''102''" empty_world]
  by (simp add: one_call_def)

text \<open>An attended transfer does not last. CompleteTransfer always keeps the
  outbound leg of the call, whoever asked for the transfer: when the callee
  transfers, its own leg is joined to the target and the caller is hung up.
  And in every case the caller's leg is hung up, which lets the call's own
  goroutine hang up the outbound leg, and with it the new call.\<close>
theorem transfer_torn_down:
  fixes r :: nat and caller callee :: string and din dout feat target :: dlg and w :: world
  assumes "din \<noteq> dout" "target \<noteq> din" "target \<noteq> dout"
  defines "w1 \<equiv> call_connected r caller callee din dout w"
  defines "t \<equiv> \<lparr>wtA = din, wtB = dout, wtCall = Some r, wtUnreg = Some din\<rparr>"
  defines "w2 \<equiv> snd (CompleteTransfer r feat (Some target) True w1)"
  defines "n \<equiv> \<lparr>wtA = dout, wtB = target, wtCall = None, wtUnreg = None\<rparr>"
  shows "fst (CompleteTransfer r feat (Some target) True w1) = None
    \<and> n \<in> set (wWatch w2) \<and> din \<notin> set (wLive w2) \<and> t \<in> set (wWatch w2) \<and> watch_ready t w2
    \<and> dout \<notin> set (wLive (watch_fire t w2))
    \<and> n \<in> set (wWatch (watch_fire t w2)) \<and> watch_ready n (watch_fire t w2)
    \<and> target \<notin> set (wLive (watch_fire n (watch_fire t w2)))"
proof -
  have h: "get (wHeap w1) r = Some \<lparr>acCallerExt = caller, acCalleeExt = callee, acIn = Some din,
      acOut = Some dout, acConsult = None, acTransferReady = False, acHoldActive = False,
      acParked = False, acBridge = True\<rparr>"
    "wLive w1 = din # dout # wLive w" "t \<in> set (wWatch w1)"
    by (simp_all add: w1_def t_def call_connected_def Let_def)
  have w2: "fst (CompleteTransfer r feat (Some target) True w1) = None" "wWatch w2 = n # wWatch w1"
    "wLive w2 = hangup din (hangup feat (target # wLive w1))"
    by (simp_all add: w2_def n_def CompleteTransfer_def h Let_def hangup_opt_def)
  have "n \<noteq> t" using assms(1) by (simp add: n_def t_def)
  have "din \<notin> set (wLive w2)" unfolding w2(3) by (simp add: hangup_def)
  moreover from this have "dout \<notin> set (wLive (watch_fire t w2))"
    by (simp add: watch_fire_live t_def)
  moreover from this have "target \<notin> set (wLive (watch_fire n (watch_fire t w2)))"
    using watch_fire_live [of n "watch_fire t w2"] by (simp add: n_def)
  moreover have "n \<in> set (wWatch (watch_fire t w2))"
    using \<open>n \<noteq> t\<close> by (simp add: watch_fire_def w2(2) Let_def)
  ultimately show ?thesis using w2 h(3) by (simp add: watch_ready_def t_def n_def)
qed

lemma transfer_torn_down_witness:
  "''in'' \<notin> set (wLive (snd (CompleteTransfer 0 ''f'' (Some ''t'') True one_call)))"
  using transfer_torn_down [of "''in''" "''out''" "''t''" 0 "''f''" "''101''" "''102''" empty_world]
  by (simp add: one_call_def)

text \<open>Two gaps of the index by extension. With two calls placed by one
  extension, the end of the later one removes the index entry although the
  earlier call is still registered; and a consultation call of an extension
  that is only the callee of its call is never linked, although handleInvite
  asks for it.\<close>
theorem registry_index_gaps:
  "(let w1 = call_connected 1 ''101'' ''103'' ''in2'' ''out2'' one_call;
        t = \<lparr>wtA = ''in2'', wtB = ''out2'', wtCall = Some 1, wtUnreg = Some ''in2''\<rparr>;
        w2 = watch_fire t (party_bye ''in2'' w1) in
      ByDialog (wReg w2) ''in'' = Some 0 \<and> ByExtension (wReg w2) ''101'' = None
      \<and> FindByExtension (wHeap w2) (wReg w2) ''101'' = None)
   \<and> SetConsult ''102'' ''consult'' (wReg one_call) (wHeap one_call) = wHeap one_call
   \<and> FindByExtension (wHeap one_call) (wReg one_call) ''102'' = Some 0"
  by code_simp

end
