(* ===== verification/Hunt.thy ===== *)
theory Hunt
  imports Calls Registrar
begin

text \<open>
  Hunt groups and paging, internal/hunt and internal/paging.  Times are seconds
  from the start of the call.  What a member's phone does with an INVITE is an
  argument; the bridge that follows an answer is the world of theory Calls.
\<close>

section \<open>Attempts\<close>

datatype phone = Unregistered | Rejects int | Picks int dlg | Silent

text \<open>InviteExtension under a time limit: the leg, if it was answered, and the time it took.\<close>
fun attempt :: "int \<Rightarrow> phone \<Rightarrow> dlg option \<times> int" where
  "attempt limit Unregistered = (None, 0)"
| "attempt limit (Rejects t) = (None, if t < limit then t else limit)"
| "attempt limit (Picks t d) = (if t < limit then (Some d, t) else (None, limit))"
| "attempt limit Silent = (None, limit)"

definition memberDialTimeout :: "int \<Rightarrow> int" where
  "memberDialTimeout sec = (if sec \<le> 0 then 15 else sec)"

datatype hunt_result = HuntAnswered string dlg int | HuntBusy int

text \<open>The loop of sequential: the limit of an attempt is the member timeout or what is
  left until the deadline.\<close>
fun sequential :: "int \<Rightarrow> int \<Rightarrow> int \<Rightarrow> (string \<times> phone) list \<Rightarrow> hunt_result" where
  "sequential now deadline perMember [] = HuntBusy now"
| "sequential now deadline perMember ((e, p) # ms) =
     (if deadline < now then HuntBusy now
      else let perAttempt = (if deadline - now < perMember then deadline - now else perMember) in
        case attempt perAttempt p of
          (Some d, t) \<Rightarrow> HuntAnswered e d (now + t)
        | (None, t) \<Rightarrow> sequential (now + t) deadline perMember ms)"

text \<open>Run for a sequential group.  The ring timeout of the group is not used.\<close>
definition run_sequential :: "int \<Rightarrow> int \<Rightarrow> int \<Rightarrow> (string \<times> phone) list \<Rightarrow> hunt_result" where
  "run_sequential dialTimeoutCfg ringOpt groupTimeout members =
     (if members = [] then HuntBusy 0
      else sequential 0 (RingTimeout ringOpt) (memberDialTimeout dialTimeoutCfg) members)"

fun phone_ok :: "phone \<Rightarrow> bool" where
  "phone_ok (Rejects t) = (0 \<le> t)"
| "phone_ok (Picks t d) = (0 \<le> t)"
| "phone_ok _ = True"

lemma attempt_time: "phone_ok p \<Longrightarrow> 0 \<le> limit \<Longrightarrow> 0 \<le> snd (attempt limit p) \<and> snd (attempt limit p) \<le> limit"
  by (cases p) auto

fun_cases attempt_SomeE: "attempt limit p = (Some d, t)"

lemma attempt_picks: "attempt limit p = (Some d, t) \<Longrightarrow> p = Picks t d \<and> t < limit"
  by (erule attempt_SomeE) (auto split: if_splits)

lemma sequential_answered:
  assumes "sequential now deadline perMember ms = HuntAnswered e d t"
    "\<forall>m \<in> set ms. phone_ok (snd m)" "0 \<le> perMember"
  shows "\<exists>ms1 a ms2 t0. ms = ms1 @ (e, Picks a d) # ms2 \<and> t = t0 + a \<and> now \<le> t0 \<and> t0 + a \<le> deadline \<and> a < perMember
     \<and> sequential now deadline perMember ms1 = HuntBusy t0"
  using assms
proof (induction ms arbitrary: now)
  case (Cons m ms)
  obtain f p where m: "m = (f, p)" by (cases m)
  let ?l = "if deadline - now < perMember then deadline - now else perMember"
  have now: "now \<le> deadline" using Cons.prems(1) m by (auto split: if_splits)
  show ?case
  proof (cases "attempt ?l p")
    case (Pair r s)
    show ?thesis
    proof (cases r)
      case (Some x)
      then have "p = Picks s x" "s < ?l" using attempt_picks Pair by auto
      moreover have "e = f" "d = x" "t = now + s" using Cons.prems(1) m Pair Some now by (auto simp: Let_def)
      ultimately show ?thesis using m now
        by (intro exI [of _ "[]"] exI [of _ s] exI [of _ ms] exI [of _ now]) (auto split: if_splits)
    next
      case None
      have s: "0 \<le> s" using attempt_time [of p ?l] Cons.prems(2,3) m now Pair by auto
      have "sequential (now + s) deadline perMember ms = HuntAnswered e d t"
        using Cons.prems(1) m Pair None now by (simp add: Let_def)
      from Cons.IH [OF this] Cons.prems(2,3) obtain ms1 a ms2 t0 where
        "ms = ms1 @ (e, Picks a d) # ms2" "t = t0 + a" "now + s \<le> t0" "t0 + a \<le> deadline" "a < perMember"
        "sequential (now + s) deadline perMember ms1 = HuntBusy t0" by auto
      then show ?thesis using m Pair None now s
        by (intro exI [of _ "m # ms1"] exI [of _ a] exI [of _ ms2] exI [of _ t0]) (auto simp: Let_def)
    qed
  qed
qed simp

lemma sequential_busy:
  assumes "sequential now deadline perMember ms = HuntBusy t" "now \<le> deadline"
    "\<forall>m \<in> set ms. phone_ok (snd m)" "0 \<le> perMember"
  shows "now \<le> t \<and> t \<le> deadline"
  using assms
proof (induction ms arbitrary: now)
  case (Cons m ms)
  obtain f p where m: "m = (f, p)" by (cases m)
  let ?l = "if deadline - now < perMember then deadline - now else perMember"
  obtain s where a: "attempt ?l p = (None, s)" and
    rest: "sequential (now + s) deadline perMember ms = HuntBusy t"
    using Cons.prems(1,2) m by (auto simp: Let_def split: prod.splits option.splits)
  have "0 \<le> s" "s \<le> ?l" using attempt_time [of p ?l] Cons.prems m a by auto
  then show ?case using Cons.IH [OF rest] Cons.prems by (auto split: if_splits)
qed simp

text \<open>A sequential hunt rings the members in their order until one answers within its
  time and never lasts longer than the ring timeout: the answer is that of a
  member after all before it have failed, or the caller hears busy.  The group's own
  ring timeout does not matter.\<close>
theorem sequential_hunt:
  assumes "\<forall>m \<in> set members. phone_ok (snd m)"
  shows "(case run_sequential dialTimeoutCfg ringOpt groupTimeout members of
       HuntAnswered e d t \<Rightarrow> 0 \<le> t \<and> t \<le> RingTimeout ringOpt
         \<and> (\<exists>ms1 a ms2 t0. members = ms1 @ (e, Picks a d) # ms2 \<and> t = t0 + a \<and> a < memberDialTimeout dialTimeoutCfg
              \<and> sequential 0 (RingTimeout ringOpt) (memberDialTimeout dialTimeoutCfg) ms1 = HuntBusy t0)
     | HuntBusy t \<Rightarrow> 0 \<le> t \<and> t \<le> RingTimeout ringOpt)
   \<and> run_sequential dialTimeoutCfg ringOpt groupTimeout members = run_sequential dialTimeoutCfg ringOpt other members"
proof -
  have pos: "0 \<le> memberDialTimeout dialTimeoutCfg" "0 \<le> RingTimeout ringOpt"
    by (simp_all add: memberDialTimeout_def RingTimeout_def)
  show ?thesis
  proof (cases "run_sequential dialTimeoutCfg ringOpt groupTimeout members")
    case (HuntAnswered e d t)
    then have "sequential 0 (RingTimeout ringOpt) (memberDialTimeout dialTimeoutCfg) members = HuntAnswered e d t"
      by (auto simp: run_sequential_def split: if_splits)
    from sequential_answered [OF this assms pos(1)] obtain ms1 a ms2 t0 where *:
      "members = ms1 @ (e, Picks a d) # ms2" "t = t0 + a" "0 \<le> t0" "t0 + a \<le> RingTimeout ringOpt"
      "a < memberDialTimeout dialTimeoutCfg"
      "sequential 0 (RingTimeout ringOpt) (memberDialTimeout dialTimeoutCfg) ms1 = HuntBusy t0" by blast
    then have "0 \<le> a" using assms by auto
    with * HuntAnswered show ?thesis by (auto simp: run_sequential_def)
  next
    case (HuntBusy t)
    then show ?thesis
      using sequential_busy [OF _ pos(2) assms pos(1), of t] pos by (auto simp: run_sequential_def split: if_splits)
  qed
qed

lemma sequential_hunt_witness:
  "\<exists>ms1 a ms2 t0. [(''101'', Silent), (''102'', Picks 5 ''d2'')] = ms1 @ (''102'', Picks a ''d2'') # ms2 \<and> 20 = t0 + a"
proof -
  have "run_sequential 0 0 99 [(''101'', Silent), (''102'', Picks 5 ''d2'')] = HuntAnswered ''102'' ''d2'' 20" by code_simp
  then show ?thesis
    using sequential_hunt [of "[(''101'', Silent), (''102'', Picks 5 ''d2'')]" 0 0 99 99] by fastforce
qed

text \<open>With the default timeouts a sequential group of silent phones rings two members only.\<close>
lemma third_member_never_rings:
  "run_sequential 0 0 groupTimeout [(''101'', Silent), (''102'', Silent), (''103'', Picks t d)] = HuntBusy 30 \<or> t < 0"
  by (simp add: run_sequential_def RingTimeout_def memberDialTimeout_def)

section \<open>Simultaneous hunting\<close>

text \<open>Where the handler is: waiting for the first leg, past it, or past the timeout.\<close>
datatype hunt_main = HuntWaiting | HuntGot dlg | HuntGaveUp

text \<open>The channel for the answered leg holds one; the members' goroutines are those whose
  INVITE is still out; the legs are the answered dialogs that are up.\<close>
record hunt_sim =
  hsChan :: "dlg option"
  hsMain :: hunt_main
  hsPending :: "dlg list"
  hsLegs :: "dlg list"

definition hunt_start :: "dlg list \<Rightarrow> hunt_sim" where
  "hunt_start ds = \<lparr>hsChan = None, hsMain = HuntWaiting, hsPending = ds, hsLegs = []\<rparr>"

text \<open>An attempt fails or is cancelled; one is answered, which may still happen after the
  handler has gone on, and its leg goes into the channel or, when that is full, is hung
  up; the handler takes the leg or gives up.\<close>
inductive hunt_step :: "hunt_sim \<Rightarrow> hunt_sim \<Rightarrow> bool" where
  fail: "d \<in> set (hsPending s) \<Longrightarrow> hunt_step s (s\<lparr>hsPending := remove1 d (hsPending s)\<rparr>)"
| answer: "d \<in> set (hsPending s) \<Longrightarrow> hsChan s = None \<Longrightarrow>
    hunt_step s (s\<lparr>hsPending := remove1 d (hsPending s), hsChan := Some d, hsLegs := d # hsLegs s\<rparr>)"
| surplus: "d \<in> set (hsPending s) \<Longrightarrow> hsChan s \<noteq> None \<Longrightarrow> hunt_step s (s\<lparr>hsPending := remove1 d (hsPending s)\<rparr>)"
| take: "hsMain s = HuntWaiting \<Longrightarrow> hsChan s = Some d \<Longrightarrow> hunt_step s (s\<lparr>hsMain := HuntGot d, hsChan := None\<rparr>)"
| give_up: "hsMain s = HuntWaiting \<Longrightarrow> hunt_step s (s\<lparr>hsMain := HuntGaveUp\<rparr>)"

inductive hunt_reach :: "hunt_sim \<Rightarrow> bool" where
  start: "distinct ds \<Longrightarrow> hunt_reach (hunt_start ds)"
| step: "hunt_reach s \<Longrightarrow> hunt_step s s' \<Longrightarrow> hunt_reach s'"

definition winner :: "hunt_sim \<Rightarrow> dlg list" where
  "winner s = (case hsMain s of HuntGot d \<Rightarrow> [d] | _ \<Rightarrow> [])"

definition in_channel :: "hunt_sim \<Rightarrow> dlg list" where
  "in_channel s = (case hsChan s of None \<Rightarrow> [] | Some d \<Rightarrow> [d])"

definition hunt_inv :: "hunt_sim \<Rightarrow> bool" where
  "hunt_inv s = (hsLegs s = in_channel s @ winner s \<and> distinct (hsLegs s @ hsPending s))"

lemma hunt_step_inv: "hunt_step s s' \<Longrightarrow> hunt_inv s \<Longrightarrow> hunt_inv s'"
proof (induction rule: hunt_step.induct)
  case (answer d s)
  then show ?case by (auto simp: hunt_inv_def winner_def in_channel_def split: hunt_main.splits)
qed (auto simp: hunt_inv_def winner_def in_channel_def dest: notin_set_remove1 split: option.splits)

lemma hunt_reach_inv: "hunt_reach s \<Longrightarrow> hunt_inv s"
proof (induction rule: hunt_reach.induct)
  case (step s s')
  then show ?case using hunt_step_inv by blast
qed (simp add: hunt_inv_def hunt_start_def winner_def in_channel_def)

lemma leg_stays: "hunt_step s s' \<Longrightarrow> hsMain s \<noteq> HuntWaiting \<Longrightarrow> hsChan s = Some d \<Longrightarrow>
  hsMain s' = hsMain s \<and> hsChan s' = Some d \<and> hsLegs s' = hsLegs s"
  by (induction rule: hunt_step.induct) auto

text \<open>In a simultaneous hunt the legs that are up are, at any moment, the one the
  handler took and at most one more, waiting in the channel.  Once the handler has taken
  a leg or given up, a leg in the channel stays there and stays up whatever happens: no
  step hangs it up, and such states are reached.\<close>
theorem hunt_leaks_leg:
  "(hunt_reach s \<longrightarrow> hsLegs s = in_channel s @ winner s)
   \<and> (hunt_reach s \<longrightarrow> hsMain s \<noteq> HuntWaiting \<longrightarrow> hsChan s = Some d \<longrightarrow> hunt_step s s' \<longrightarrow>
        hsChan s' = Some d \<and> d \<in> set (hsLegs s') \<and> hsMain s' = hsMain s)
   \<and> (\<exists>s. hunt_reach s \<and> hsMain s = HuntGot ''a'' \<and> hsChan s = Some ''b'' \<and> hsLegs s = [''b'', ''a''])"
proof (intro conjI impI)
  show "hsLegs s = in_channel s @ winner s" if "hunt_reach s"
    using hunt_reach_inv [OF that] by (simp add: hunt_inv_def)
  show "hsChan s' = Some d" "d \<in> set (hsLegs s')" "hsMain s' = hsMain s"
    if "hunt_reach s" "hsMain s \<noteq> HuntWaiting" "hsChan s = Some d" "hunt_step s s'"
    using leg_stays [OF that(4,2,3)] hunt_reach_inv [OF that(1)] that(3)
    by (simp_all add: hunt_inv_def in_channel_def)
  let ?s0 = "hunt_start [''a'', ''b'']"
  let ?s1 = "\<lparr>hsChan = Some ''a'', hsMain = HuntWaiting, hsPending = [''b''], hsLegs = [''a'']\<rparr>"
  let ?s2 = "\<lparr>hsChan = None, hsMain = HuntGot ''a'', hsPending = [''b''], hsLegs = [''a'']\<rparr>"
  let ?s3 = "\<lparr>hsChan = Some ''b'', hsMain = HuntGot ''a'', hsPending = [], hsLegs = [''b'', ''a'']\<rparr>"
  have "hunt_step ?s0 ?s1" using hunt_step.answer [of "''a''" ?s0] by (simp add: hunt_start_def)
  moreover have "hunt_step ?s1 ?s2" using hunt_step.take [of ?s1 "''a''"] by simp
  moreover have "hunt_step ?s2 ?s3" using hunt_step.answer [of "''b''" ?s2] by simp
  moreover have "hunt_reach ?s0" by (rule hunt_reach.start) simp
  ultimately have "hunt_reach ?s3" using hunt_reach.step by meson
  then show "\<exists>s. hunt_reach s \<and> hsMain s = HuntGot ''a'' \<and> hsChan s = Some ''b'' \<and> hsLegs s = [''b'', ''a'']"
    by (intro exI [of _ ?s3]) simp
qed

lemma hunt_leaks_leg_witness:
  "hsLegs (hunt_start [''a'', ''b'']) = in_channel (hunt_start [''a'', ''b'']) @ winner (hunt_start [''a'', ''b''])"
proof -
  have "hunt_reach (hunt_start [''a'', ''b''])" by (rule hunt_reach.start) simp
  then show ?thesis using hunt_leaks_leg [of "hunt_start [''a'', ''b'']" "[]" "hunt_start []"] by blast
qed

section \<open>Joining the winner\<close>

text \<open>waitDialogPair when its own context has ended and both dialogs are up: both are hung
  up, the bridge is stopped and the call is unregistered.\<close>
definition watch_cancelled :: "watcher \<Rightarrow> world \<Rightarrow> world" where
  "watch_cancelled t w =
     (let h = (case wtCall t of None \<Rightarrow> wHeap w | Some r \<Rightarrow> upd_call r (\<lambda>ac. ac\<lparr>acBridge := False\<rparr>) (wHeap w))
      in w\<lparr>wLive := hangup (wtB t) (hangup (wtA t) (wLive w)), wHeap := h, wWatch := removeAll t (wWatch w),
           wReg := (case wtUnreg t of None \<Rightarrow> wReg w | Some d \<Rightarrow> Unregister d h (wReg w))\<rparr>)"

text \<open>The end of simultaneous: the context the handler made has been cancelled when it
  calls Join with it, so Join connects the call and waits on a context that is done.\<close>
definition join_winner :: "nat \<Rightarrow> string \<Rightarrow> string \<Rightarrow> dlg \<Rightarrow> dlg \<Rightarrow> world \<Rightarrow> world" where
  "join_winner r caller callee din dout w =
     watch_cancelled \<lparr>wtA = din, wtB = dout, wtCall = Some r, wtUnreg = Some din\<rparr>
       (call_connected r caller callee din dout w)"

text \<open>The end of sequential: the context is the caller's, and the call stays up.\<close>
definition join_sequential :: "nat \<Rightarrow> string \<Rightarrow> string \<Rightarrow> dlg \<Rightarrow> dlg \<Rightarrow> world \<Rightarrow> world" where
  "join_sequential = call_connected"



section \<open>Paging\<close>

text \<open>Page, from the members' phones: the legs the caller's voice is fanned out to, in the
  order of the members, and whether anything is sent.  The mode, multicast address and
  channel of the group are not used.\<close>
fun page_legs :: "int \<Rightarrow> (string \<times> phone) list \<Rightarrow> dlg list" where
  "page_legs limit [] = []"
| "page_legs limit ((e, p) # ms) =
     (case fst (attempt limit p) of None \<Rightarrow> page_legs limit ms | Some d \<Rightarrow> d # page_legs limit ms)"

definition Page :: "bool \<Rightarrow> int \<Rightarrow> (string \<times> phone) list \<Rightarrow> dlg list option" where
  "Page answered dialTimeoutCfg members =
     (if \<not> answered then None
      else let legs = page_legs (DialTimeout dialTimeoutCfg) members in if legs = [] then None else Some legs)"

lemma page_legs_subset: "length (page_legs limit ms) \<le> length ms"
  by (induction limit ms rule: page_legs.induct) (auto split: option.splits)

end
