(* ===== verification/Presence.thy ===== *)
theory Presence
  imports Registrar
begin

text \<open>
  Presence subscriptions, internal/presence: the store with its two indexes, the
  SUBSCRIBE handler and the NOTIFY it sends.  The code indexes subscriptions by
  pointer, so a subscription lives in a heap here and the indexes hold addresses.
  What sipgo parses from a SUBSCRIBE is a record; tags it generates are arguments.
\<close>

section \<open>Subscriptions\<close>

definition BasicOpen :: string where "BasicOpen = ''open''"
definition BasicClosed :: string where "BasicClosed = ''closed''"
definition BasicBusy :: string where "BasicBusy = ''busy''"

record presence_state =
  psBasic :: string
  psDisplayName :: string

definition Online :: "presence_state \<Rightarrow> bool" where
  "Online s = (psBasic s \<noteq> BasicClosed)"

record subscription =
  sbCallID :: string
  sbWatcherFrom :: string
  sbLocalToTag :: string
  sbWatcher :: string
  sbWatched :: string
  sbEvent :: string
  sbExpires :: int
  sbNotifyContact :: sip_uri
  sbNotifyDest :: string
  sbCSeq :: "32 word"

record sub_store =
  ssHeap :: "(nat, subscription) gomap"
  ssByKey :: "(string, nat) gomap"
  ssByWatched :: "(string, nat list) gomap"

definition NewSubscriptionStore :: sub_store where
  "NewSubscriptionStore = \<lparr>ssHeap = [], ssByKey = [], ssByWatched = []\<rparr>"

definition subKey :: "string \<Rightarrow> string \<Rightarrow> string" where
  "subKey callID fromTag = callID @ ''|'' @ fromTag"

abbreviation key_of :: "subscription \<Rightarrow> string" where
  "key_of sub \<equiv> subKey (sbCallID sub) (sbWatcherFrom sub)"

definition removeLocked :: "nat \<Rightarrow> string \<Rightarrow> (string, nat list) gomap \<Rightarrow> (string, nat list) gomap" where
  "removeLocked p watched m =
     (let out = filter (\<lambda>q. q \<noteq> p) (goget [] m watched) in
      if out = [] then del watched m else put watched out m)"

text \<open>The subscription at an address that is in use.\<close>
definition sub_at :: "sub_store \<Rightarrow> nat \<Rightarrow> subscription" where
  "sub_at s p = the (get (ssHeap s) p)"

text \<open>Upsert of a subscription allocated at address p.\<close>
definition Upsert :: "nat \<Rightarrow> subscription \<Rightarrow> sub_store \<Rightarrow> sub_store" where
  "Upsert p sub s =
     (let key = key_of sub;
          bw = (case get (ssByKey s) key of
                  None \<Rightarrow> ssByWatched s
                | Some old \<Rightarrow> removeLocked old (sbWatched (sub_at s old)) (ssByWatched s))
      in \<lparr>ssHeap = put p sub (ssHeap s), ssByKey = put key p (ssByKey s),
          ssByWatched = put (sbWatched sub) (goget [] bw (sbWatched sub) @ [p]) bw\<rparr>)"

text \<open>Takes a subscription out of both indexes.\<close>
definition drop_sub :: "string \<Rightarrow> nat \<Rightarrow> sub_store \<Rightarrow> sub_store" where
  "drop_sub key p s =
     s\<lparr>ssByWatched := removeLocked p (sbWatched (sub_at s p)) (ssByWatched s), ssByKey := del key (ssByKey s)\<rparr>"

definition RemoveSub :: "string \<Rightarrow> string \<Rightarrow> sub_store \<Rightarrow> nat option \<times> sub_store" where
  "RemoveSub callID fromTag s =
     (case get (ssByKey s) (subKey callID fromTag) of
        None \<Rightarrow> (None, s)
      | Some p \<Rightarrow> (Some p, drop_sub (subKey callID fromTag) p s))"

definition ForWatched :: "int \<Rightarrow> string \<Rightarrow> sub_store \<Rightarrow> nat list" where
  "ForWatched now e s = filter (\<lambda>p. now < sbExpires (sub_at s p)) (goget [] (ssByWatched s) e)"

text \<open>PruneExpired over the entries of the index; Go may range over them in any
  order and delete as it goes.\<close>
fun prune_subs :: "int \<Rightarrow> (string \<times> nat) list \<Rightarrow> sub_store \<Rightarrow> nat \<times> sub_store" where
  "prune_subs now [] s = (0, s)"
| "prune_subs now ((key, p) # es) s =
     (if now < sbExpires (sub_at s p) then prune_subs now es s
      else let (n, s') = prune_subs now es (drop_sub key p s) in (Suc n, s'))"

definition PruneExpired :: "int \<Rightarrow> sub_store \<Rightarrow> nat \<times> sub_store" where
  "PruneExpired now s = prune_subs now (ssByKey s) s"

section \<open>The handler\<close>

record sub_request =
  sqFrom :: sip_uri
  sqFromTag :: "string option"
  sqTo :: sip_uri
  sqEvent :: "string option"
  sqExpires :: "string option"
  sqCallID :: "string option"
  sqContact :: "contact option"
  sqSource :: string

record presence =
  phExts :: "(string, extension) gomap"
  phFeatures :: feature_codes
  phDomain :: string
  phSubs :: sub_store

definition NewPresence :: "(string, extension) gomap \<Rightarrow> feature_codes \<Rightarrow> string \<Rightarrow> presence" where
  "NewPresence exts features domain =
     \<lparr>phExts = exts, phFeatures = features, phDomain = (if domain = [] then ''localhost'' else domain),
      phSubs = NewSubscriptionStore\<rparr>"

definition defaultMaxExpiry :: int where "defaultMaxExpiry = 24 * 3600 * second"

definition parseSubscribeExpiry :: "sub_request \<Rightarrow> int" where
  "parseSubscribeExpiry req =
     (case expires_value (map_option trim_space (sqExpires req)) of None \<Rightarrow> 3600 * second | Some e \<Rightarrow> e)"

definition eventValue :: "sub_request \<Rightarrow> string" where
  "eventValue req = (case sqEvent req of None \<Rightarrow> [] | Some v \<Rightarrow> trim_space (hd (split_on CHR '';'' v)))"

definition extensionEnabled :: "string \<Rightarrow> (string, extension) gomap \<Rightarrow> bool" where
  "extensionEnabled e exts = (case get exts e of None \<Rightarrow> False | Some x \<Rightarrow> exEnabled x)"

definition entityURI :: "string \<Rightarrow> string \<Rightarrow> string" where
  "entityURI e domain = ''sip:'' @ e @ ''@'' @ domain"

definition nl :: string where "nl = [char_of (10 :: nat)]"
definition qt :: string where "qt = [char_of (34 :: nat)]"

definition pidfXML :: "string \<Rightarrow> string \<Rightarrow> string \<Rightarrow> string \<Rightarrow> string" where
  "pidfXML entity tupleID basic note =
     (let n = (if note = [] then basic else note) in
      ''<?xml version='' @ qt @ ''1.0'' @ qt @ '' encoding='' @ qt @ ''UTF-8'' @ qt @ ''?>'' @ nl
      @ ''<presence xmlns='' @ qt @ ''urn:ietf:params:xml:ns:pidf'' @ qt @ '' entity='' @ qt @ entity @ qt @ ''>'' @ nl
      @ ''  <tuple id='' @ qt @ tupleID @ qt @ ''>'' @ nl
      @ ''    <status><basic>'' @ basic @ ''</basic></status>'' @ nl
      @ ''    <note>'' @ n @ ''</note>'' @ nl
      @ ''  </tuple>'' @ nl
      @ ''</presence>'')"

record notify =
  nfRecipient :: sip_uri
  nfDest :: string
  nfFromUser :: string
  nfFromTag :: string
  nfToUser :: string
  nfToTag :: string
  nfCallID :: string
  nfCSeq :: "32 word"
  nfEvent :: string
  nfState :: string
  nfBody :: string

definition stateFor :: "sip_lib \<Rightarrow> int \<Rightarrow> registrar \<Rightarrow> (string \<Rightarrow> presence_state) option \<Rightarrow> string \<Rightarrow> presence_state" where
  "stateFor lib now reg resolve e =
     (case resolve of
        Some f \<Rightarrow> f e
      | None \<Rightarrow> \<lparr>psBasic = (if IsRegistered lib now e reg then BasicOpen else BasicClosed), psDisplayName = []\<rparr>)"

text \<open>notifySubscription with a client: the NOTIFY, and the counter of the subscription.\<close>
definition notifySubscription :: "sip_lib \<Rightarrow> int \<Rightarrow> registrar \<Rightarrow> string \<Rightarrow> presence_state \<Rightarrow> string \<Rightarrow> int
    \<Rightarrow> subscription \<Rightarrow> notify \<times> subscription" where
  "notifySubscription lib now reg domain st subState expiresIn sub =
     (let sub' = sub\<lparr>sbCSeq := sbCSeq sub + 1\<rparr>;
          (recipient, dest) = (case DialTarget lib now (sbWatcher sub) reg of
             None \<Rightarrow> (sbNotifyContact sub, sbNotifyDest sub)
           | Some (uri, dialDest, _) \<Rightarrow> (uri, dialDest));
          state = (if 0 < expiresIn \<and> has_prefix subState ''active''
                   then ''active;expires='' @ itoa (expiresIn div second) else subState)
      in (\<lparr>nfRecipient = recipient, nfDest = dest, nfFromUser = sbWatched sub, nfFromTag = sbLocalToTag sub,
           nfToUser = sbWatcher sub, nfToTag = sbWatcherFrom sub, nfCallID = sbCallID sub,
           nfCSeq = sbCSeq sub', nfEvent = sbEvent sub, nfState = state,
           nfBody = pidfXML (entityURI (sbWatched sub) domain) (sbWatched sub) (psBasic st) (psDisplayName st)\<rparr>, sub'))"

text \<open>The subscription at an address is told, and its counter written back.\<close>
definition notify_at :: "sip_lib \<Rightarrow> int \<Rightarrow> registrar \<Rightarrow> (string \<Rightarrow> presence_state) option \<Rightarrow> string \<Rightarrow> string \<Rightarrow> int \<Rightarrow> nat
    \<Rightarrow> presence \<Rightarrow> notify \<times> presence" where
  "notify_at lib now reg resolve e subState expiresIn p ph =
     (let (n, sub') = notifySubscription lib now reg (phDomain ph) (stateFor lib now reg resolve e) subState expiresIn
                        (sub_at (phSubs ph) p)
      in (n, ph\<lparr>phSubs := (phSubs ph)\<lparr>ssHeap := put p sub' (ssHeap (phSubs ph))\<rparr>\<rparr>))"

fun notify_all :: "sip_lib \<Rightarrow> int \<Rightarrow> registrar \<Rightarrow> (string \<Rightarrow> presence_state) option \<Rightarrow> string \<Rightarrow> nat list
    \<Rightarrow> presence \<Rightarrow> notify list \<times> presence" where
  "notify_all lib now reg resolve e [] ph = ([], ph)"
| "notify_all lib now reg resolve e (p # ps) ph =
     (let (n, ph1) = notify_at lib now reg resolve e ''active'' (sbExpires (sub_at (phSubs ph) p) - now) p ph;
          (ns, ph2) = notify_all lib now reg resolve e ps ph1
      in (n # ns, ph2))"

definition NotifyExtension :: "sip_lib \<Rightarrow> int \<Rightarrow> registrar \<Rightarrow> (string \<Rightarrow> presence_state) option \<Rightarrow> string
    \<Rightarrow> presence \<Rightarrow> notify list \<times> presence" where
  "NotifyExtension lib now reg resolve e ph =
     notify_all lib now reg resolve e (ForWatched now e (phSubs ph)) ph"

text \<open>The extensions NotifyExtensions tells, each once.\<close>
fun notify_order :: "string list \<Rightarrow> string list \<Rightarrow> string list" where
  "notify_order seen [] = []"
| "notify_order seen (e # es) =
     (if e = [] \<or> e \<in> set seen then notify_order seen es else e # notify_order (e # seen) es)"

definition NotifyExtensions :: "sip_lib \<Rightarrow> int \<Rightarrow> registrar \<Rightarrow> (string \<Rightarrow> presence_state) option \<Rightarrow> string list
    \<Rightarrow> presence \<Rightarrow> notify list \<times> presence" where
  "NotifyExtensions lib now reg resolve es ph =
     fold (\<lambda>e (ns, ph). let (ns', ph') = NotifyExtension lib now reg resolve e ph in (ns @ ns', ph'))
       (notify_order [] es) ([], ph)"

text \<open>The response: its status, for 200 the Expires value and the tag given to the To
  header of a new subscription.\<close>
datatype sub_response = SubStatus int | SubOK int "string option"

text \<open>The checks of handleSubscribe, in order: the status of the first that fails.\<close>
definition subscribe_refusal :: "sip_lib \<Rightarrow> int \<Rightarrow> registrar \<Rightarrow> sub_request \<Rightarrow> presence \<Rightarrow> int option" where
  "subscribe_refusal lib now reg req ph =
     (let watcher = uUser (sqFrom req); watched = uUser (sqTo req); event = eventValue req in
      if watcher = [] \<or> watched = [] then Some 400
      else if \<not> SenderAuthorized lib now watcher (sqSource req) reg then Some 403
      else if \<not> extensionEnabled watcher (phExts ph) then Some 403
      else if event \<noteq> [] \<and> event \<noteq> ''presence'' then Some 489
      else if rKind (RouteDial watched (phFeatures ph)) \<noteq> KindExtension \<or> \<not> extensionEnabled watched (phExts ph)
      then Some 404
      else if sqCallID req \<in> {None, Some []} \<or> sqFromTag req \<in> {None, Some []} then Some 400
      else None)"

definition unsubscribe :: "sip_lib \<Rightarrow> int \<Rightarrow> registrar \<Rightarrow> (string \<Rightarrow> presence_state) option \<Rightarrow> sub_request
    \<Rightarrow> presence \<Rightarrow> sub_response \<times> notify list \<times> presence" where
  "unsubscribe lib now reg resolve req ph =
     (case RemoveSub (the (sqCallID req)) (the (sqFromTag req)) (phSubs ph) of
        (None, _) \<Rightarrow> (SubOK 0 None, [], ph)
      | (Some q, s') \<Rightarrow>
          (let (n, ph') = notify_at lib now reg resolve (uUser (sqTo req)) ''terminated;reason=deactivated'' 0 q
                            (ph\<lparr>phSubs := s'\<rparr>)
           in (SubOK 0 None, [n], ph')))"

definition clamp_expiry :: "int \<Rightarrow> int" where
  "clamp_expiry expiry =
     (let e = (if defaultMaxExpiry < expiry then defaultMaxExpiry else expiry)
      in if e < 60 * second then 60 * second else e)"

definition new_sub :: "sip_lib \<Rightarrow> int \<Rightarrow> string \<Rightarrow> sub_request \<Rightarrow> contact \<Rightarrow> subscription" where
  "new_sub lib expires localToTag req c =
     \<lparr>sbCallID = the (sqCallID req), sbWatcherFrom = the (sqFromTag req), sbLocalToTag = localToTag,
      sbWatcher = uUser (sqFrom req), sbWatched = uUser (sqTo req), sbEvent = ''presence'', sbExpires = expires,
      sbNotifyContact = coAddress c,
      sbNotifyDest = (if sqSource req = [] then slHostPort lib (coAddress c) else sqSource req), sbCSeq = 0\<rparr>"

definition handleSubscribe :: "sip_lib \<Rightarrow> int \<Rightarrow> registrar \<Rightarrow> (string \<Rightarrow> presence_state) option \<Rightarrow> nat \<Rightarrow> string
    \<Rightarrow> sub_request \<Rightarrow> presence \<Rightarrow> sub_response \<times> notify list \<times> presence" where
  "handleSubscribe lib now reg resolve p localToTag req ph =
     (case subscribe_refusal lib now reg req ph of
        Some code \<Rightarrow> (SubStatus code, [], ph)
      | None \<Rightarrow>
          if parseSubscribeExpiry req = 0 then unsubscribe lib now reg resolve req ph
          else case sqContact req of
            None \<Rightarrow> (SubStatus 400, [], ph)
          | Some c \<Rightarrow>
              (let expiry = clamp_expiry (parseSubscribeExpiry req);
                   sub = new_sub lib (now + expiry) localToTag req c;
                   (n, ph') = notify_at lib now reg resolve (uUser (sqTo req)) ''active'' expiry p
                                (ph\<lparr>phSubs := Upsert p sub (phSubs ph)\<rparr>)
               in (SubOK (expiry div second) (Some localToTag), [n], ph')))"

section \<open>The two indexes agree\<close>

definition subs_inv :: "sub_store \<Rightarrow> bool" where
  "subs_inv s =
     (distinct (keys (ssByKey s))
      \<and> (\<forall>k p. get (ssByKey s) k = Some p \<longrightarrow>
           (\<exists>sub. get (ssHeap s) p = Some sub \<and> key_of sub = k \<and> p \<in> set (goget [] (ssByWatched s) (sbWatched sub))))
      \<and> (\<forall>e p. p \<in> set (goget [] (ssByWatched s) e) \<longrightarrow>
           (\<exists>sub. get (ssHeap s) p = Some sub \<and> sbWatched sub = e \<and> get (ssByKey s) (key_of sub) = Some p))
      \<and> (\<forall>e. distinct (goget [] (ssByWatched s) e)))"

lemma goget_removeLocked [simp]:
  "goget [] (removeLocked p e m) e' = (if e' = e then filter (\<lambda>q. q \<noteq> p) (goget [] m e) else goget [] m e')"
  by (simp add: removeLocked_def Let_def)

lemma subs_invD:
  assumes "subs_inv s" "get (ssByKey s) k = Some p"
  shows "get (ssHeap s) p = Some (sub_at s p)" "key_of (sub_at s p) = k"
    "p \<in> set (goget [] (ssByWatched s) (sbWatched (sub_at s p)))"
proof -
  obtain sub where "get (ssHeap s) p = Some sub" "key_of sub = k" "p \<in> set (goget [] (ssByWatched s) (sbWatched sub))"
    using assms unfolding subs_inv_def by blast
  then show "get (ssHeap s) p = Some (sub_at s p)" "key_of (sub_at s p) = k"
    "p \<in> set (goget [] (ssByWatched s) (sbWatched (sub_at s p)))"
    by (simp_all add: sub_at_def)
qed

lemma drop_sub_inv [inv_intros]:
  assumes "subs_inv s" "get (ssByKey s) k = Some p"
  shows "subs_inv (drop_sub k p s)"
proof -
  note p = subs_invD [OF assms]
  have k: "distinct (keys (del k (ssByKey s)))" using assms by (simp add: subs_inv_def distinct_del)
  have 1: "\<exists>sub. get (ssHeap s) q = Some sub \<and> key_of sub = j \<and>
      q \<in> set (goget [] (ssByWatched (drop_sub k p s)) (sbWatched sub))"
    if "get (del k (ssByKey s)) j = Some q" for j q
  proof -
    have j: "j \<noteq> k" "get (ssByKey s) j = Some q" using that by (auto split: if_splits)
    note q = subs_invD [OF assms(1) j(2)]
    have "q \<noteq> p" using q(2) p(2) j(1) by auto
    with q show ?thesis by (auto simp: drop_sub_def)
  qed
  have 2: "\<exists>sub. get (ssHeap s) q = Some sub \<and> sbWatched sub = e \<and> get (del k (ssByKey s)) (key_of sub) = Some q"
    if "q \<in> set (goget [] (ssByWatched (drop_sub k p s)) e)" for e q
  proof -
    have "q \<in> set (goget [] (ssByWatched s) e)" using that by (auto simp: drop_sub_def split: if_splits)
    then obtain sub where sub: "get (ssHeap s) q = Some sub" "sbWatched sub = e" "get (ssByKey s) (key_of sub) = Some q"
      using assms(1) unfolding subs_inv_def by blast
    have "key_of sub \<noteq> k"
    proof
      assume "key_of sub = k"
      then have "q = p" using sub(3) assms(2) by simp
      then have "sub_at s p = sub" using sub(1) by (simp add: sub_at_def)
      then show False using that \<open>q = p\<close> sub(2) by (simp add: drop_sub_def)
    qed
    with sub show ?thesis by simp
  qed
  have "distinct (goget [] (ssByWatched (drop_sub k p s)) e)" for e
    using assms(1) by (simp add: subs_inv_def drop_sub_def)
  with k 1 2 show ?thesis unfolding subs_inv_def by (auto simp: drop_sub_def)
qed

lemma drop_sub_fields [simp]:
  "ssHeap (drop_sub k p s) = ssHeap s" "ssByKey (drop_sub k p s) = del k (ssByKey s)"
  "sub_at (drop_sub k p s) q = sub_at s q"
  by (simp_all add: drop_sub_def sub_at_def)

lemma add_sub_inv:
  assumes "subs_inv s" "get (ssHeap s) p = None" "get (ssByKey s) (key_of sub) = None"
    and "distinct (keys bk)" "\<And>k. get bk k = (if k = key_of sub then Some p else get (ssByKey s) k)"
  shows "subs_inv \<lparr>ssHeap = put p sub (ssHeap s), ssByKey = bk,
    ssByWatched = put (sbWatched sub) (goget [] (ssByWatched s) (sbWatched sub) @ [p]) (ssByWatched s)\<rparr>"
proof -
  let ?bw = "put (sbWatched sub) (goget [] (ssByWatched s) (sbWatched sub) @ [p]) (ssByWatched s)"
  have old: "\<exists>sb. get (ssHeap s) q = Some sb \<and> sbWatched sb = e \<and> get (ssByKey s) (key_of sb) = Some q"
    if "q \<in> set (goget [] (ssByWatched s) e)" for e q using that assms(1) unfolding subs_inv_def by blast
  have 1: "\<exists>sb. get (put p sub (ssHeap s)) q = Some sb \<and> key_of sb = k \<and> q \<in> set (goget [] ?bw (sbWatched sb))"
    if "get bk k = Some q" for k q
  proof (cases "k = key_of sub")
    case False
    then have "get (ssByKey s) k = Some q" using that assms(5) by simp
    from subs_invD [OF assms(1) this] assms(2) show ?thesis by (cases "q = p") auto
  qed (use that assms(5) in simp)
  have 2: "\<exists>sb. get (put p sub (ssHeap s)) q = Some sb \<and> sbWatched sb = e \<and> get bk (key_of sb) = Some q"
    if "q \<in> set (goget [] ?bw e)" for e q
  proof (cases "q = p")
    case True
    then have "e = sbWatched sub" using that old [of p e] assms(2) by (auto split: if_splits)
    with True assms(5) show ?thesis by simp
  next
    case False
    then have "q \<in> set (goget [] (ssByWatched s) e)" using that by (auto split: if_splits)
    then obtain sb where sb: "get (ssHeap s) q = Some sb" "sbWatched sb = e" "get (ssByKey s) (key_of sb) = Some q"
      using old by blast
    then have "key_of sb \<noteq> key_of sub" using assms(3) by auto
    with sb False assms(5) show ?thesis by simp
  qed
  have 3: "distinct (goget [] ?bw e)" for e
    using assms(1,2) old [of p] by (fastforce simp: subs_inv_def)
  show ?thesis unfolding subs_inv_def using assms(4) 1 2 3 by simp
qed

lemma Upsert_drop:
  "Upsert p sub s = (let s1 = (case get (ssByKey s) (key_of sub) of None \<Rightarrow> s | Some old \<Rightarrow> drop_sub (key_of sub) old s)
     in \<lparr>ssHeap = put p sub (ssHeap s1), ssByKey = put (key_of sub) p (ssByKey s),
         ssByWatched = put (sbWatched sub) (goget [] (ssByWatched s1) (sbWatched sub) @ [p]) (ssByWatched s1)\<rparr>)"
  by (simp add: Upsert_def drop_sub_def Let_def split: option.splits)


lemma Upsert_inv [inv_intros]:
  assumes "subs_inv s" "get (ssHeap s) p = None"
  shows "subs_inv (Upsert p sub s)"
proof (cases "get (ssByKey s) (key_of sub)")
  case None
  have d: "distinct (keys (put (key_of sub) p (ssByKey s)))" using assms(1) by (simp add: subs_inv_def distinct_put)
  show ?thesis using add_sub_inv [OF assms None d] None by (simp add: Upsert_def Let_def)
next
  case (Some old)
  have d: "distinct (keys (put (key_of sub) p (ssByKey s)))" using assms(1) by (simp add: subs_inv_def distinct_put)
  show ?thesis
    using add_sub_inv [OF drop_sub_inv [OF assms(1) Some], of p sub "put (key_of sub) p (ssByKey s)"] d assms(2) Some
    by (simp add: Upsert_drop Let_def)
qed

lemma RemoveSub_inv [inv_intros]: "RemoveSub c f s = (r, s') \<Longrightarrow> subs_inv s \<Longrightarrow> subs_inv s'"
  by (auto simp: RemoveSub_def split: option.splits intro: drop_sub_inv)

lemma subs_inv_heap:
  assumes "subs_inv s"
    and h: "\<And>q x. get (ssHeap s) q = Some x \<Longrightarrow>
      \<exists>y. get h q = Some y \<and> key_of y = key_of x \<and> sbWatched y = sbWatched x"
  shows "subs_inv (s\<lparr>ssHeap := h\<rparr>)"
proof -
  have 1: "\<exists>y. get h p = Some y \<and> key_of y = k \<and> p \<in> set (goget [] (ssByWatched s) (sbWatched y))"
    if "get (ssByKey s) k = Some p" for k p
    using subs_invD [OF assms(1) that] h [of p] by fastforce
  have 2: "\<exists>y. get h p = Some y \<and> sbWatched y = e \<and> get (ssByKey s) (key_of y) = Some p"
    if p: "p \<in> set (goget [] (ssByWatched s) e)" for e p
  proof -
    obtain x where "get (ssHeap s) p = Some x" "sbWatched x = e" "get (ssByKey s) (key_of x) = Some p"
      using assms(1) p unfolding subs_inv_def by blast
    with h [of p x] show ?thesis by auto
  qed
  show ?thesis using assms(1) 1 2 unfolding subs_inv_def by simp
qed

lemma counter_inv [inv_intros]:
  assumes "subs_inv s" "get (ssHeap s) p = Some sub" "key_of sub' = key_of sub" "sbWatched sub' = sbWatched sub"
  shows "subs_inv (s\<lparr>ssHeap := put p sub' (ssHeap s)\<rparr>)"
proof (rule subs_inv_heap [OF assms(1)])
  fix q x
  assume "get (ssHeap s) q = Some x"
  then show "\<exists>y. get (put p sub' (ssHeap s)) q = Some y \<and> key_of y = key_of x \<and> sbWatched y = sbWatched x"
    using assms by (cases "q = p") auto
qed

text \<open>What PruneExpired leaves of the index.\<close>
definition pruned :: "int \<Rightarrow> string set \<Rightarrow> sub_store \<Rightarrow> string \<Rightarrow> nat option" where
  "pruned now ks s k =
     (case get (ssByKey s) k of None \<Rightarrow> None
      | Some p \<Rightarrow> if k \<in> ks \<and> sbExpires (sub_at s p) \<le> now then None else Some p)"

lemma pruned_drop:
  assumes "get (ssByKey s) key = Some p" "sbExpires (sub_at s p) \<le> now" "key \<notin> ks"
  shows "pruned now ks (drop_sub key p s) = pruned now (insert key ks) s"
proof
  show "pruned now ks (drop_sub key p s) k = pruned now (insert key ks) s k" for k
    using assms by (cases "k = key") (auto simp: pruned_def split: option.split)
qed

lemma pruned_skip:
  assumes "get (ssByKey s) key = Some p" "now < sbExpires (sub_at s p)"
  shows "pruned now (insert key ks) s = pruned now ks s"
proof
  show "pruned now (insert key ks) s k = pruned now ks s k" for k
    using assms by (cases "k = key") (auto simp: pruned_def split: option.split)
qed

lemma prune_subs_inv:
  assumes "prune_subs now es s = (n, s')" "subs_inv s" "distinct (keys es)"
    "\<forall>x \<in> set es. get (ssByKey s) (fst x) = Some (snd x)"
  shows "subs_inv s' \<and> ssHeap s' = ssHeap s \<and> (\<lambda>k. get (ssByKey s') k) = pruned now (set (keys es)) s"
  using assms
proof (induction now es s arbitrary: n s' rule: prune_subs.induct)
  case (1 now s)
  have "pruned now {} s = get (ssByKey s)" by (auto simp: pruned_def fun_eq_iff split: option.split)
  with 1 show ?case by simp
next
  case (2 now key p es s)
  have p: "get (ssByKey s) key = Some p" using 2(6) by simp
  have key: "key \<notin> set (keys es)" and d: "distinct (keys es)" using 2(5) by simp_all
  have es: "set (keys ((key, p) # es)) = insert key (set (keys es))" by simp
  show ?case
  proof (cases "now < sbExpires (sub_at s p)")
    case True
    then have run: "prune_subs now es s = (n, s')" using 2(3) by simp
    have "\<forall>x \<in> set es. get (ssByKey s) (fst x) = Some (snd x)" using 2(6) by simp
    from 2(1) [OF True run 2(4) d this] show ?thesis unfolding es pruned_skip [OF p True] .
  next
    case False
    let ?s = "drop_sub key p s"
    obtain m where run: "prune_subs now es ?s = (m, s')" using 2(3) False by (auto split: prod.splits)
    have "fst x \<noteq> key" if "x \<in> set es" for x using key that by force
    then have mem: "\<forall>x \<in> set es. get (ssByKey ?s) (fst x) = Some (snd x)" using 2(6) by simp
    have ih: "subs_inv s' \<and> ssHeap s' = ssHeap ?s \<and> get (ssByKey s') = pruned now (set (keys es)) ?s"
      by (rule 2(2) [OF False run drop_sub_inv [OF 2(4) p] d mem])
    have "pruned now (set (keys es)) ?s = pruned now (insert key (set (keys es))) s"
      using False key by (intro pruned_drop [OF p]) simp_all
    with ih show ?thesis unfolding es by simp
  qed
qed

text \<open>The specification of the store: the subscriptions an extension's change is told to.\<close>
definition told :: "int \<Rightarrow> string \<Rightarrow> sub_store \<Rightarrow> nat set" where
  "told now e s = {p. (\<exists>k. get (ssByKey s) k = Some p) \<and> sbWatched (sub_at s p) = e \<and> now < sbExpires (sub_at s p)}"

lemma ForWatched_told:
  assumes "subs_inv s"
  shows "set (ForWatched now e s) = told now e s \<and> distinct (ForWatched now e s)"
proof -
  have "p \<in> set (goget [] (ssByWatched s) e) \<longleftrightarrow> (\<exists>k. get (ssByKey s) k = Some p) \<and> sbWatched (sub_at s p) = e" for p
  proof
    assume "p \<in> set (goget [] (ssByWatched s) e)"
    then obtain sub where "get (ssHeap s) p = Some sub" "sbWatched sub = e" "get (ssByKey s) (key_of sub) = Some p"
      using assms unfolding subs_inv_def by blast
    then show "(\<exists>k. get (ssByKey s) k = Some p) \<and> sbWatched (sub_at s p) = e" by (auto simp: sub_at_def)
  next
    assume "(\<exists>k. get (ssByKey s) k = Some p) \<and> sbWatched (sub_at s p) = e"
    then show "p \<in> set (goget [] (ssByWatched s) e)" using subs_invD(3) [OF assms] by blast
  qed
  moreover have "distinct (goget [] (ssByWatched s) e)" using assms by (simp add: subs_inv_def)
  ultimately show ?thesis by (auto simp: ForWatched_def told_def)
qed

lemma PruneExpired_told:
  assumes "subs_inv s" "PruneExpired now s = (n, s')"
  shows "subs_inv s'" "ssHeap s' = ssHeap s" "now \<le> t \<Longrightarrow> told t e s' = told t e s"
    "get (ssByKey s') k = Some p \<longleftrightarrow> get (ssByKey s) k = Some p \<and> now < sbExpires (sub_at s p)"
proof -
  have d: "distinct (keys (ssByKey s))" using assms(1) by (simp add: subs_inv_def)
  have mem: "\<forall>x \<in> set (ssByKey s). get (ssByKey s) (fst x) = Some (snd x)"
    using get_eq_iff [OF d] by simp
  note * = prune_subs_inv [OF assms(2) [unfolded PruneExpired_def] assms(1) d mem]
  show "subs_inv s'" "ssHeap s' = ssHeap s" using * by auto
  have key: "get (ssByKey s') k = Some p \<longleftrightarrow> get (ssByKey s) k = Some p \<and> now < sbExpires (sub_at s p)" for k p
  proof -
    have "get (ssByKey s') k = pruned now (set (keys (ssByKey s))) s k" using * by simp
    then show ?thesis using has_iff_key [of "ssByKey s" k]
      by (auto simp: pruned_def split: option.splits if_splits simp del: set_map)
  qed
  then show "get (ssByKey s') k = Some p \<longleftrightarrow> get (ssByKey s) k = Some p \<and> now < sbExpires (sub_at s p)" .
  have at: "sub_at s' q = sub_at s q" for q using * by (simp add: sub_at_def)
  show "told t e s' = told t e s" if "now \<le> t"
    unfolding told_def key at using that by force
qed

section \<open>Runs\<close>

lemma notifySubscription_fields:
  "notifySubscription lib now reg domain st ss x sub = (n, sub') \<Longrightarrow> sub' = sub\<lparr>sbCSeq := sbCSeq sub + 1\<rparr>"
  by (auto simp: notifySubscription_def Let_def split: prod.splits)

lemma notify_at_inv [inv_intros]:
  assumes "notify_at lib now reg resolve e ss x p ph = (n, ph')" "subs_inv (phSubs ph)" "get (ssHeap (phSubs ph)) p \<noteq> None"
  shows "subs_inv (phSubs ph')"
proof -
  obtain sub where sub: "get (ssHeap (phSubs ph)) p = Some sub" using assms(3) by auto
  then have "phSubs ph' = (phSubs ph)\<lparr>ssHeap := put p (sub\<lparr>sbCSeq := sbCSeq sub + 1\<rparr>) (ssHeap (phSubs ph))\<rparr>"
    using assms(1) by (auto simp: notify_at_def sub_at_def dest: notifySubscription_fields split: prod.splits)
  then show ?thesis using counter_inv [OF assms(2) sub] by simp
qed

lemma notify_at_heap:
  "notify_at lib now reg resolve e ss x p ph = (n, ph') \<Longrightarrow> get (ssHeap (phSubs ph)) q \<noteq> None
     \<Longrightarrow> get (ssHeap (phSubs ph')) q \<noteq> None"
  by (auto simp: notify_at_def split: prod.splits)

lemma notify_at_other:
  "notify_at lib now reg resolve e ss x p ph = (n, ph') \<Longrightarrow> q \<noteq> p
     \<Longrightarrow> get (ssHeap (phSubs ph')) q = get (ssHeap (phSubs ph)) q"
  by (auto simp: notify_at_def split: prod.splits)

lemma notify_all_inv:
  "notify_all lib now reg resolve e ps ph = (ns, ph') \<Longrightarrow> subs_inv (phSubs ph)
     \<Longrightarrow> \<forall>p \<in> set ps. get (ssHeap (phSubs ph)) p \<noteq> None \<Longrightarrow> subs_inv (phSubs ph')"
proof (induction ps arbitrary: ph ns ph')
  case (Cons p ps)
  obtain n ph1 ms where 1: "notify_at lib now reg resolve e ''active'' (sbExpires (sub_at (phSubs ph) p) - now) p ph = (n, ph1)"
    and 2: "notify_all lib now reg resolve e ps ph1 = (ms, ph')"
    using Cons.prems(1) by (auto split: prod.splits)
  have "subs_inv (phSubs ph1)" using notify_at_inv [OF 1 Cons.prems(2)] Cons.prems(3) by simp
  moreover have "\<forall>q \<in> set ps. get (ssHeap (phSubs ph1)) q \<noteq> None"
    using notify_at_heap [OF 1] Cons.prems(3) by auto
  ultimately show ?case using Cons.IH [OF 2] by blast
qed simp

lemma NotifyExtension_inv [inv_intros]:
  assumes "NotifyExtension lib now reg resolve e ph = (ns, ph')" "subs_inv (phSubs ph)"
  shows "subs_inv (phSubs ph')"
proof -
  have "get (ssHeap (phSubs ph)) p \<noteq> None" if "p \<in> set (ForWatched now e (phSubs ph))" for p
    using ForWatched_told [OF assms(2)] subs_invD(1) [OF assms(2)] that by (auto simp: told_def)
  then show ?thesis using notify_all_inv [OF assms(1) [unfolded NotifyExtension_def] assms(2)] by blast
qed


text \<open>Runs of the presence service: SUBSCRIBE requests (each new subscription at a fresh
  address), notifications, clean-up and changes of the accounts.\<close>
inductive presence_step :: "sip_lib \<Rightarrow> registrar \<Rightarrow> presence \<Rightarrow> notify list \<Rightarrow> presence \<Rightarrow> bool" for lib reg where
  subscribe: "get (ssHeap (phSubs ph)) p = None \<Longrightarrow>
    handleSubscribe lib now reg resolve p tag req ph = (resp, ns, ph') \<Longrightarrow> presence_step lib reg ph ns ph'"
| notify: "NotifyExtension lib now reg resolve e ph = (ns, ph') \<Longrightarrow> presence_step lib reg ph ns ph'"
| prune: "PruneExpired now (phSubs ph) = (n, s') \<Longrightarrow> presence_step lib reg ph [] (ph\<lparr>phSubs := s'\<rparr>)"
| accounts: "presence_step lib reg ph [] (ph\<lparr>phExts := exts, phFeatures := fc\<rparr>)"

inductive presence_reach :: "sip_lib \<Rightarrow> registrar \<Rightarrow> presence \<Rightarrow> bool" for lib reg where
  start: "presence_reach lib reg (NewPresence exts fc domain)"
| step: "presence_reach lib reg ph \<Longrightarrow> presence_step lib reg ph ns ph' \<Longrightarrow> presence_reach lib reg ph'"

lemma Upsert_key: "ssByKey (Upsert p sub s) = put (key_of sub) p (ssByKey s)"
  by (simp add: Upsert_def Let_def)

lemma Upsert_heap: "ssHeap (Upsert p sub s) = put p sub (ssHeap s)"
  by (simp add: Upsert_def Let_def)

lemma unsubscribe_inv [inv_intros]:
  assumes "unsubscribe lib now reg resolve req ph = (resp, ns, ph')" "subs_inv (phSubs ph)"
  shows "subs_inv (phSubs ph')"
proof (cases "get (ssByKey (phSubs ph)) (subKey (the (sqCallID req)) (the (sqFromTag req)))")
  case (Some q)
  let ?s = "drop_sub (subKey (the (sqCallID req)) (the (sqFromTag req))) q (phSubs ph)"
  obtain n where "notify_at lib now reg resolve (uUser (sqTo req)) ''terminated;reason=deactivated'' 0 q
      (ph\<lparr>phSubs := ?s\<rparr>) = (n, ph')"
    using assms(1) Some by (auto simp: unsubscribe_def RemoveSub_def split: prod.splits)
  then show ?thesis
    using notify_at_inv drop_sub_inv [OF assms(2) Some] subs_invD(1) [OF assms(2) Some] by fastforce
qed (use assms in \<open>simp add: unsubscribe_def RemoveSub_def\<close>)

lemma handleSubscribe_inv [inv_intros]:
  assumes "handleSubscribe lib now reg resolve p tag req ph = (resp, ns, ph')"
    "subs_inv (phSubs ph)" "get (ssHeap (phSubs ph)) p = None"
  shows "subs_inv (phSubs ph')"
proof -
  have "subs_inv (phSubs ph')" if "notify_at lib now reg resolve e ss x p (ph\<lparr>phSubs := Upsert p sub (phSubs ph)\<rparr>) = (n, ph')"
    for e ss x sub n
    using notify_at_inv [OF that] Upsert_inv [OF assms(2,3)] by (simp add: Upsert_heap)
  then show ?thesis
    using assms(1,2) by (auto simp: handleSubscribe_def Let_def intro: unsubscribe_inv
        split: option.splits if_splits prod.splits)
qed

lemma presence_step_inv: "presence_step lib reg ph ns ph' \<Longrightarrow> subs_inv (phSubs ph) \<Longrightarrow> subs_inv (phSubs ph')"
proof (induction rule: presence_step.induct)
  case (prune now ph n s')
  then show ?case using PruneExpired_told(1) by simp
qed (auto intro: inv_intros)

lemma presence_reach_inv: "presence_reach lib reg ph \<Longrightarrow> subs_inv (phSubs ph)"
proof (induction rule: presence_reach.induct)
  case (step ph ns ph')
  then show ?case using presence_step_inv by blast
qed (simp add: NewPresence_def NewSubscriptionStore_def subs_inv_def)

text \<open>C35: In every run the two indexes of the subscription store agree: an extension's
  watchers, as the notifier finds them, are exactly the subscriptions held under some
  Call-ID and tag that watch it and have not expired, each once; a Call-ID and tag hold
  one subscription, with that Call-ID and tag; and dropping expired subscriptions
  changes no later set of watchers and keeps exactly those that have not expired.\<close>
theorem subscriptions_agree:
  assumes "presence_reach lib reg ph"
  shows "set (ForWatched now e (phSubs ph)) = told now e (phSubs ph) \<and> distinct (ForWatched now e (phSubs ph))
    \<and> (\<forall>k p. get (ssByKey (phSubs ph)) k = Some p \<longrightarrow> key_of (sub_at (phSubs ph) p) = k)
    \<and> (\<forall>t n s'. PruneExpired t (phSubs ph) = (n, s') \<longrightarrow>
         (t \<le> now \<longrightarrow> set (ForWatched now e s') = told now e (phSubs ph))
         \<and> (\<forall>k p. get (ssByKey s') k = Some p \<longleftrightarrow>
              get (ssByKey (phSubs ph)) k = Some p \<and> t < sbExpires (sub_at (phSubs ph) p)))"
proof -
  have inv: "subs_inv (phSubs ph)" using assms by (rule presence_reach_inv)
  have "set (ForWatched now e s') = told now e (phSubs ph)" if "PruneExpired t (phSubs ph) = (n, s')" "t \<le> now" for t n s'
    using ForWatched_told [OF PruneExpired_told(1) [OF inv that(1)]] PruneExpired_told(3) [OF inv that] by simp
  then show ?thesis
    using ForWatched_told [OF inv] subs_invD(2) [OF inv] PruneExpired_told(4) [OF inv] by blast
qed

section \<open>Who may subscribe, and what is sent\<close>

lemma notify_at_fields:
  assumes "notify_at lib now reg resolve e ss x p ph = (n, ph')"
  shows "nfCSeq n = sbCSeq (sub_at (phSubs ph) p) + 1" "nfCallID n = sbCallID (sub_at (phSubs ph) p)"
    "nfToUser n = sbWatcher (sub_at (phSubs ph) p)" "nfToTag n = sbWatcherFrom (sub_at (phSubs ph) p)"
    "nfFromTag n = sbLocalToTag (sub_at (phSubs ph) p)" "nfFromUser n = sbWatched (sub_at (phSubs ph) p)"
    "ssByKey (phSubs ph') = ssByKey (phSubs ph)" "ssByWatched (phSubs ph') = ssByWatched (phSubs ph)"
    "phExts ph' = phExts ph" "phFeatures ph' = phFeatures ph"
  using assms by (auto simp: notify_at_def notifySubscription_def Let_def split: prod.splits)

lemma sub_at_Upsert [simp]: "sub_at (Upsert p sub s) p = sub"
  by (simp add: sub_at_def Upsert_heap)

definition may_subscribe :: "sip_lib \<Rightarrow> int \<Rightarrow> registrar \<Rightarrow> sub_request \<Rightarrow> presence \<Rightarrow> bool" where
  "may_subscribe lib now reg req ph =
     (SenderAuthorized lib now (uUser (sqFrom req)) (sqSource req) reg
      \<and> extensionEnabled (uUser (sqFrom req)) (phExts ph) \<and> extensionEnabled (uUser (sqTo req)) (phExts ph)
      \<and> rKind (RouteDial (uUser (sqTo req)) (phFeatures ph)) = KindExtension
      \<and> (eventValue req = [] \<or> eventValue req = ''presence'')
      \<and> (\<exists>c f. sqCallID req = Some c \<and> c \<noteq> [] \<and> sqFromTag req = Some f \<and> f \<noteq> []))"

lemma RouteDial_empty: "rKind (RouteDial [] fc) \<noteq> KindExtension"
  by (simp add: RouteDial_def route_plain_def route_of_def Let_def)

lemma refusal_iff: "subscribe_refusal lib now reg req ph = None \<longleftrightarrow> may_subscribe lib now reg req ph"
  using RouteDial_empty
  by (cases "sqCallID req"; cases "sqFromTag req")
     (auto simp: subscribe_refusal_def may_subscribe_def Let_def SenderAuthorized_def)


lemma clamp_bounds: "60 * second \<le> clamp_expiry e \<and> clamp_expiry e \<le> defaultMaxExpiry"
  by (simp add: clamp_expiry_def defaultMaxExpiry_def second_def)

lemma subscribe_accepts:
  assumes "may_subscribe lib now reg req ph" "parseSubscribeExpiry req \<noteq> 0" "sqContact req = Some c"
  shows "\<exists>n ph'. handleSubscribe lib now reg resolve p tag req ph
     = (SubOK (clamp_expiry (parseSubscribeExpiry req) div second) (Some tag), [n], ph')"
  using assms unfolding refusal_iff [symmetric] by (auto simp: handleSubscribe_def Let_def split: prod.split)

lemma clamp_seconds: "60 \<le> clamp_expiry e div second \<and> clamp_expiry e div second \<le> 86400"
proof -
  have "60000000000 \<le> clamp_expiry e" "clamp_expiry e \<le> 86400000000000"
    using clamp_bounds [of e] by (simp_all add: second_def defaultMaxExpiry_def)
  then show ?thesis by (simp add: second_def; linarith)
qed

lemma accepted_subscribe:
  assumes "handleSubscribe lib now reg resolve p tag req ph = (SubOK k (Some t), ns, ph')"
  shows "may_subscribe lib now reg req ph \<and> t = tag \<and> k = clamp_expiry (parseSubscribeExpiry req) div second
    \<and> (\<exists>c n. sqContact req = Some c \<and> ns = [n]
         \<and> notify_at lib now reg resolve (uUser (sqTo req)) ''active'' (clamp_expiry (parseSubscribeExpiry req)) p
             (ph\<lparr>phSubs := Upsert p (new_sub lib (now + clamp_expiry (parseSubscribeExpiry req)) tag req c) (phSubs ph)\<rparr>)
           = (n, ph'))"
proof -
  have "subscribe_refusal lib now reg req ph = None"
    using assms by (auto simp: handleSubscribe_def split: option.splits)
  moreover have "parseSubscribeExpiry req \<noteq> 0"
    using assms by (auto simp: handleSubscribe_def unsubscribe_def split: option.splits if_splits prod.splits)
  ultimately show ?thesis
    using assms unfolding refusal_iff [symmetric]
    by (auto simp: handleSubscribe_def Let_def split: option.splits prod.splits)
qed

text \<open>A SUBSCRIBE is granted only to a watcher that is registered and sends from the
  destination of one of its bindings, for an enabled extension of the dialling plan,
  for the presence event, and with a Call-ID and a tag; every other request is refused
  with 400, 403, 404 or 489, sends nothing and changes nothing.  A granted one lasts
  between a minute and a day, is stored under its Call-ID and tag, and is told the
  state at once by the first NOTIFY of its dialog, addressed with the watcher's tag
  and the tag of the 200 response.\<close>
theorem subscribe_gate:
  assumes "handleSubscribe lib now reg resolve p tag req ph = (resp, ns, ph')"
  shows "(\<not> may_subscribe lib now reg req ph \<longrightarrow>
            (\<exists>code \<in> {400, 403, 404, 489}. resp = SubStatus code) \<and> ns = [] \<and> ph' = ph)
    \<and> (\<forall>k t. resp = SubOK k (Some t) \<longrightarrow> may_subscribe lib now reg req ph \<and> t = tag \<and> 60 \<le> k \<and> k \<le> 86400
         \<and> (\<exists>n. ns = [n] \<and> nfToUser n = uUser (sqFrom req) \<and> Some (nfToTag n) = sqFromTag req
               \<and> Some (nfCallID n) = sqCallID req \<and> nfFromUser n = uUser (sqTo req) \<and> nfFromTag n = tag \<and> nfCSeq n = 1
               \<and> get (ssByKey (phSubs ph')) (subKey (nfCallID n) (nfToTag n)) = Some p))"
proof (intro conjI impI allI)
  assume "\<not> may_subscribe lib now reg req ph"
  then obtain code where c: "subscribe_refusal lib now reg req ph = Some code"
    unfolding refusal_iff [symmetric] by auto
  then have "code \<in> {400, 403, 404, 489}" by (auto simp: subscribe_refusal_def Let_def split: if_splits)
  with c assms show "\<exists>code \<in> {400, 403, 404, 489}. resp = SubStatus code" "ns = []" "ph' = ph"
    by (auto simp: handleSubscribe_def)
next
  fix k t
  assume "resp = SubOK k (Some t)"
  note acc = accepted_subscribe [OF assms [unfolded this]]
  show "may_subscribe lib now reg req ph" "t = tag" using acc by auto
  show "60 \<le> k" "k \<le> 86400"
    using acc clamp_seconds by simp_all
  obtain c n where n: "ns = [n]" "notify_at lib now reg resolve (uUser (sqTo req)) ''active'' (clamp_expiry (parseSubscribeExpiry req)) p
      (ph\<lparr>phSubs := Upsert p (new_sub lib (now + clamp_expiry (parseSubscribeExpiry req)) tag req c) (phSubs ph)\<rparr>) = (n, ph')"
    using acc by auto
  obtain cid f where "sqCallID req = Some cid" "sqFromTag req = Some f" using acc by (auto simp: may_subscribe_def)
  with n(1) notify_at_fields [OF n(2)]
  show "\<exists>n. ns = [n] \<and> nfToUser n = uUser (sqFrom req) \<and> Some (nfToTag n) = sqFromTag req
      \<and> Some (nfCallID n) = sqCallID req \<and> nfFromUser n = uUser (sqTo req) \<and> nfFromTag n = tag \<and> nfCSeq n = 1
      \<and> get (ssByKey (phSubs ph')) (subKey (nfCallID n) (nfToTag n)) = Some p"
    by (simp add: new_sub_def Upsert_key)
qed

text \<open>A watcher that refreshes its subscription within the dialog, with the same Call-ID
  and tag, replaces it: the old subscription is told nothing any more, and the first
  NOTIFY after the refresh starts again with CSeq 1 and the new tag, although the
  dialog has seen a NOTIFY with CSeq 1 before.\<close>
theorem refresh_restarts:
  assumes "presence_reach lib reg ph" "get (ssHeap (phSubs ph)) p = None"
    and "handleSubscribe lib now reg resolve p tag req ph = (SubOK k (Some tag), [n], ph1)"
    and "handleSubscribe lib now' reg resolve p' tag' req' ph1 = (SubOK k' (Some tag'), [n'], ph2)"
    and "sqCallID req' = sqCallID req" "sqFromTag req' = sqFromTag req" "get (ssHeap (phSubs ph1)) p' = None"
  shows "p \<notin> told t e (phSubs ph2) \<and> nfCallID n' = nfCallID n \<and> nfToTag n' = nfToTag n
    \<and> nfCSeq n = 1 \<and> nfCSeq n' = 1 \<and> nfFromTag n = tag \<and> nfFromTag n' = tag'"
proof -
  obtain c where c: "notify_at lib now reg resolve (uUser (sqTo req)) ''active'' (clamp_expiry (parseSubscribeExpiry req)) p
      (ph\<lparr>phSubs := Upsert p (new_sub lib (now + clamp_expiry (parseSubscribeExpiry req)) tag req c) (phSubs ph)\<rparr>) = (n, ph1)"
    using accepted_subscribe [OF assms(3)] by auto
  obtain c' where c': "notify_at lib now' reg resolve (uUser (sqTo req')) ''active'' (clamp_expiry (parseSubscribeExpiry req')) p'
      (ph1\<lparr>phSubs := Upsert p' (new_sub lib (now' + clamp_expiry (parseSubscribeExpiry req')) tag' req' c') (phSubs ph1)\<rparr>) = (n', ph2)"
    using accepted_subscribe [OF assms(4)] by auto
  have inv1: "subs_inv (phSubs ph1)" using handleSubscribe_inv [OF assms(3) presence_reach_inv [OF assms(1)] assms(2)] .
  have inv2: "subs_inv (phSubs ph2)" using handleSubscribe_inv [OF assms(4) inv1 assms(7)] .
  let ?key = "subKey (the (sqCallID req)) (the (sqFromTag req))"
  have p1: "get (ssByKey (phSubs ph1)) ?key = Some p"
    using notify_at_fields(7) [OF c] by (simp add: Upsert_def Let_def new_sub_def)
  with subs_invD(1) [OF inv1 p1] assms(7) have p: "get (ssByKey (phSubs ph1)) ?key = Some p" "p \<noteq> p'" by auto
  have p': "get (ssByKey (phSubs ph2)) ?key = Some p'"
    using notify_at_fields(7) [OF c'] assms(5,6) by (simp add: Upsert_def Let_def new_sub_def)
  have "sub_at (phSubs ph2) p = sub_at (phSubs ph1) p"
    using c' p(2) by (auto simp: notify_at_def sub_at_def Upsert_heap split: prod.splits)
  then have "key_of (sub_at (phSubs ph2) p) = ?key" using subs_invD(2) [OF inv1 p(1)] by simp
  then have "get (ssByKey (phSubs ph2)) k \<noteq> Some p" for k
    using subs_invD(2) [OF inv2, of k p] p' p(2) by auto
  then show ?thesis
    using notify_at_fields [OF c] notify_at_fields [OF c'] assms(5,6) by (simp add: told_def new_sub_def)
qed


section \<open>Witnesses\<close>

definition demo_subscribe :: sub_request where
  "demo_subscribe = \<lparr>sqFrom = demo_uri, sqFromTag = Some ''ft'', sqTo = demo_uri, sqEvent = Some ''presence;id=1'',
     sqExpires = None, sqCallID = Some ''c1'', sqContact = Some \<lparr>coAddress = demo_uri, coParams = None\<rparr>,
     sqSource = ''1.2.3.4:70''\<rparr>"

definition demo_presence0 :: presence where
  "demo_presence0 = NewPresence [(''101'', demo_ext\<lparr>exEnabled := True\<rparr>)] DefaultFeatureCodes []"

definition demo_subscribed :: presence where
  "demo_subscribed = snd (snd (handleSubscribe demo_sip 0 demo_registrar None 7 ''lt'' demo_subscribe demo_presence0))"

lemma demo_may: "t < 120000000000 \<Longrightarrow> may_subscribe demo_sip t demo_registrar demo_subscribe demo_presence0"
proof -
  have "extensionEnabled ''101'' (phExts demo_presence0)" "eventValue demo_subscribe = ''presence''"
    "rKind (RouteDial ''101'' DefaultFeatureCodes) = KindExtension"
    by code_simp+
  moreover have "phFeatures demo_presence0 = DefaultFeatureCodes" by (simp add: demo_presence0_def NewPresence_def)
  moreover assume "t < 120000000000"
  ultimately show ?thesis
    using demo_sender [of t] by (simp add: may_subscribe_def demo_subscribe_def demo_uri_def)
qed

lemma demo_subscribe_ok:
  "\<exists>n. handleSubscribe demo_sip 0 demo_registrar None 7 ''lt'' demo_subscribe demo_presence0
     = (SubOK 3600 (Some ''lt''), [n], demo_subscribed)"
proof -
  have e: "parseSubscribeExpiry demo_subscribe = 3600000000000" "clamp_expiry 3600000000000 = 3600000000000"
    by code_simp+
  have "sqContact demo_subscribe = Some \<lparr>coAddress = demo_uri, coParams = None\<rparr>" by (simp add: demo_subscribe_def)
  from subscribe_accepts [OF demo_may _ this, of 0 None 7 "''lt''"] e show ?thesis
    by (auto simp: demo_subscribed_def second_def)
qed

lemma demo_fresh: "get (ssHeap (phSubs demo_presence0)) q = None"
  by (simp add: demo_presence0_def NewPresence_def NewSubscriptionStore_def)

lemma demo_presence_reach:
  "presence_reach demo_sip demo_registrar demo_presence0" "presence_reach demo_sip demo_registrar demo_subscribed"
proof -
  show 0: "presence_reach demo_sip demo_registrar demo_presence0"
    unfolding demo_presence0_def by (rule presence_reach.start)
  obtain n where n: "handleSubscribe demo_sip 0 demo_registrar None 7 ''lt'' demo_subscribe demo_presence0
     = (SubOK 3600 (Some ''lt''), [n], demo_subscribed)" using demo_subscribe_ok by blast
  show "presence_reach demo_sip demo_registrar demo_subscribed"
    by (rule presence_reach.step [OF 0 presence_step.subscribe [OF demo_fresh n]])
qed

lemma subscriptions_agree_witness:
  "set (ForWatched 5 ''101'' (phSubs demo_subscribed)) = told 5 ''101'' (phSubs demo_subscribed)"
  using subscriptions_agree [OF demo_presence_reach(2)] by blast

lemma subscribe_gate_witness:
  "\<exists>n. handleSubscribe demo_sip 0 demo_registrar None 7 ''lt'' demo_subscribe demo_presence0
     = (SubOK 3600 (Some ''lt''), [n], demo_subscribed) \<and> nfToUser n = ''101'' \<and> nfCSeq n = 1"
proof -
  obtain n where n: "handleSubscribe demo_sip 0 demo_registrar None 7 ''lt'' demo_subscribe demo_presence0
     = (SubOK 3600 (Some ''lt''), [n], demo_subscribed)" using demo_subscribe_ok by blast
  have "uUser (sqFrom demo_subscribe) = ''101''" by (simp add: demo_subscribe_def demo_uri_def)
  with n subscribe_gate [OF n] show ?thesis by simp
qed

lemma refresh_restarts_witness:
  "\<exists>n n' ph. handleSubscribe demo_sip 0 demo_registrar None 7 ''lt'' demo_subscribe demo_presence0
     = (SubOK 3600 (Some ''lt''), [n], demo_subscribed)
   \<and> handleSubscribe demo_sip 9 demo_registrar None 8 ''lu'' demo_subscribe demo_subscribed
     = (SubOK 3600 (Some ''lu''), [n'], ph) \<and> nfCSeq n' = 1 \<and> nfFromTag n' = ''lu'' \<and> nfFromTag n = ''lt''"
proof -
  obtain n where n: "handleSubscribe demo_sip 0 demo_registrar None 7 ''lt'' demo_subscribe demo_presence0
     = (SubOK 3600 (Some ''lt''), [n], demo_subscribed)" using demo_subscribe_ok by blast
  have r: "may_subscribe demo_sip 9 demo_registrar demo_subscribe demo_subscribed"
  proof -
    have "phExts demo_subscribed = phExts demo_presence0" "phFeatures demo_subscribed = phFeatures demo_presence0"
      using accepted_subscribe [OF n] notify_at_fields(9,10) by fastforce+
    with demo_may [of 9] show ?thesis by (simp add: may_subscribe_def)
  qed
  have e: "parseSubscribeExpiry demo_subscribe = 3600000000000" "clamp_expiry 3600000000000 = 3600000000000"
    by code_simp+
  have "sqContact demo_subscribe = Some \<lparr>coAddress = demo_uri, coParams = None\<rparr>" by (simp add: demo_subscribe_def)
  from subscribe_accepts [OF r _ this, of None 8 "''lu''"] e obtain n' ph where n': "handleSubscribe demo_sip 9 demo_registrar None 8 ''lu'' demo_subscribe demo_subscribed
     = (SubOK 3600 (Some ''lu''), [n'], ph)"
    by (auto simp: second_def)
  have f: "get (ssHeap (phSubs demo_subscribed)) 8 = None"
    using accepted_subscribe [OF n] notify_at_other [where q = 8 and p = 7] demo_fresh
    by (fastforce simp: Upsert_heap)
  from refresh_restarts [OF demo_presence_reach(1) demo_fresh n n' refl refl f, of 0 "[]"] n n'
  show ?thesis by (intro exI [of _ n] exI [of _ n'] exI [of _ ph] conjI) simp_all
qed

end
