(* ===== verification/Message.thy ===== *)
theory Message
  imports Presence Store
begin

text \<open>
  SIP MESSAGE between extensions, internal/message: the handler that relays a
  message to a registered extension or stores it, and the delivery of stored
  messages when the extension registers.  What the phone answers to a relayed
  request is an argument.
\<close>

section \<open>Relaying\<close>

text \<open>What comes of a request sent to a phone: the transaction could not be started, it
  ended without a response, the ten seconds passed, or a first response arrived.\<close>
datatype relay_result = SendFailed | NoResponse | TimedOut | Answered int

record message =
  msFrom :: sip_uri
  msTo :: sip_uri
  msContentType :: "string option"
  msBody :: string
  msSource :: string

record message_handler =
  mhExts :: "(string, extension) gomap"
  mhFeatures :: feature_codes
  mhDomain :: string
  mhStore :: bool
  mhClient :: bool

definition NewMessageHandler :: "(string, extension) gomap \<Rightarrow> feature_codes \<Rightarrow> string \<Rightarrow> message_handler" where
  "NewMessageHandler exts features domain =
     \<lparr>mhExts = exts, mhFeatures = features, mhDomain = (if domain = [] then ''localhost'' else domain),
      mhStore = False, mhClient = False\<rparr>"

definition contentType :: "message \<Rightarrow> string" where
  "contentType m =
     (case msContentType m of None \<Rightarrow> ''text/plain'' | Some v \<Rightarrow> if v \<noteq> [] then v else ''text/plain'')"

definition extensionDND :: "string \<Rightarrow> (string, extension) gomap \<Rightarrow> bool" where
  "extensionDND e exts = (case get exts e of None \<Rightarrow> False | Some x \<Rightarrow> exDND x)"

text \<open>A request as it leaves the server: its URI, destination, the users of its From
  and To headers, its content type and body.\<close>
record outgoing =
  ogURI :: sip_uri
  ogDest :: string
  ogFrom :: sip_uri
  ogTo :: sip_uri
  ogContentType :: "string option"
  ogBody :: string

definition buildForwardRequest :: "message \<Rightarrow> sip_uri \<Rightarrow> string \<Rightarrow> outgoing" where
  "buildForwardRequest m uri dest =
     \<lparr>ogURI = uri, ogDest = dest, ogFrom = msFrom m, ogTo = msTo m, ogContentType = msContentType m, ogBody = msBody m\<rparr>"

definition domain_uri :: "string \<Rightarrow> string \<Rightarrow> sip_uri" where
  "domain_uri user domain = \<lparr>uUser = user, uHost = domain, uPort = 0, uWildcard = False, uParams = None\<rparr>"

text \<open>The target of a message, or the status that refuses it.\<close>
definition message_target :: "sip_lib \<Rightarrow> int \<Rightarrow> registrar \<Rightarrow> message \<Rightarrow> message_handler \<Rightarrow> (int, string) result" where
  "message_target lib now reg m h =
     (let from = uUser (msFrom m); to = uUser (msTo m); route = RouteDial to (mhFeatures h); target = rTarget route in
      if from = [] \<or> to = [] then Err 400
      else if \<not> SenderAuthorized lib now from (msSource m) reg then Err 403
      else if \<not> extensionEnabled from (mhExts h) then Err 403
      else if rKind route \<noteq> KindExtension then Err 404
      else if \<not> extensionEnabled target (mhExts h) then Err 404
      else if extensionDND target (mhExts h) then Err 480
      else Ok target)"

definition relay_status :: "relay_result \<Rightarrow> int" where
  "relay_status res =
     (case res of SendFailed \<Rightarrow> 503 | NoResponse \<Rightarrow> 504 | TimedOut \<Rightarrow> 504 | Answered code \<Rightarrow> code)"

text \<open>handleMessage: the status of the response, the request relayed, and the database.
  stored says whether the database takes the message.\<close>
definition handleMessage :: "sip_lib \<Rightarrow> int \<Rightarrow> string \<Rightarrow> registrar \<Rightarrow> bool \<Rightarrow> relay_result \<Rightarrow> message \<Rightarrow> message_handler
    \<Rightarrow> db \<Rightarrow> int \<times> outgoing option \<times> db" where
  "handleMessage lib now stamp reg stored res m h d =
     (case message_target lib now reg m h of
        Inl code \<Rightarrow> (code, None, d)
      | Inr target \<Rightarrow>
          (case DialTarget lib now target reg of
             None \<Rightarrow>
               if mhStore h \<and> stored
               then (202, None, EnqueueOfflineMessage stamp target (uUser (msFrom m)) (contentType m) (msBody m) d)
               else (480, None, d)
           | Some (uri, dest, _) \<Rightarrow>
               if \<not> mhClient h then (503, None, d)
               else (relay_status res, Some (buildForwardRequest m uri dest), d)))"

section \<open>Delivering stored messages\<close>

definition relayStored :: "sip_lib \<Rightarrow> int \<Rightarrow> registrar \<Rightarrow> message_handler \<Rightarrow> relay_result \<Rightarrow> offline_message
    \<Rightarrow> outgoing option \<times> bool" where
  "relayStored lib now reg h res m =
     (if \<not> mhClient h then (None, False)
      else case DialTarget lib now (omRecipient m) reg of
        None \<Rightarrow> (None, False)
      | Some (uri, dest, _) \<Rightarrow>
          (Some \<lparr>ogURI = uri, ogDest = dest, ogFrom = domain_uri (omSender m) (mhDomain h),
             ogTo = domain_uri (omRecipient m) (mhDomain h), ogContentType = Some (omContentType m), ogBody = omBody m\<rparr>,
           (case res of Answered code \<Rightarrow> 200 \<le> code \<and> code < 300 | _ \<Rightarrow> False)))"

text \<open>The loop of DeliverPending over the messages it listed; answers gives what the
  phone answers to each message id.\<close>
fun deliver_loop :: "sip_lib \<Rightarrow> int \<Rightarrow> string \<Rightarrow> registrar \<Rightarrow> message_handler \<Rightarrow> (int \<Rightarrow> relay_result)
    \<Rightarrow> (int \<times> offline_message) list \<Rightarrow> db \<Rightarrow> int \<times> outgoing list \<times> db" where
  "deliver_loop lib now stamp reg h answers [] d = (0, [], d)"
| "deliver_loop lib now stamp reg h answers ((i, m) # ms) d =
     (let (sent, ok) = relayStored lib now reg h (answers i) m;
          d1 = (if ok then MarkOfflineMessageDelivered stamp i d else d);
          (n, out, d2) = deliver_loop lib now stamp reg h answers ms d1
      in ((if ok then 1 else 0) + n, (case sent of None \<Rightarrow> out | Some g \<Rightarrow> g # out), d2))"

definition DeliverPending :: "sip_lib \<Rightarrow> int \<Rightarrow> string \<Rightarrow> registrar \<Rightarrow> message_handler \<Rightarrow> (int \<Rightarrow> relay_result) \<Rightarrow> string
    \<Rightarrow> db \<Rightarrow> int \<times> outgoing list \<times> db" where
  "DeliverPending lib now stamp reg h answers recipient d =
     deliver_loop lib now stamp reg h answers (ListPendingOfflineMessages recipient d) d"

definition OnRecipientOnline :: "sip_lib \<Rightarrow> int \<Rightarrow> string \<Rightarrow> registrar \<Rightarrow> message_handler \<Rightarrow> (int \<Rightarrow> relay_result) \<Rightarrow> string
    \<Rightarrow> db \<Rightarrow> outgoing list \<times> db" where
  "OnRecipientOnline lib now stamp reg h answers e d =
     (if \<not> mhStore h then ([], d) else snd (DeliverPending lib now stamp reg h answers e d))"

section \<open>What is delivered\<close>

definition accepted :: "relay_result \<Rightarrow> bool" where
  "accepted res = (case res of Answered code \<Rightarrow> 200 \<le> code \<and> code < 300 | _ \<Rightarrow> False)"

text \<open>A delivery attempt reaches the phone when there is a client and a contact.\<close>
definition reachable :: "sip_lib \<Rightarrow> int \<Rightarrow> registrar \<Rightarrow> message_handler \<Rightarrow> string \<Rightarrow> bool" where
  "reachable lib now reg h e = (mhClient h \<and> DialTarget lib now e reg \<noteq> None)"

lemma relayStored_ok:
  "snd (relayStored lib now reg h res m) \<longleftrightarrow> reachable lib now reg h (omRecipient m) \<and> accepted res"
  "fst (relayStored lib now reg h res m) \<noteq> None \<longleftrightarrow> reachable lib now reg h (omRecipient m)"
  by (auto simp: relayStored_def reachable_def accepted_def split: option.splits prod.splits)

lemma deliver_loop_rows:
  assumes "\<forall>p \<in> set ms. omRecipient (snd p) = e"
  shows "deliver_loop lib now stamp reg h answers ms d =
    (let ok = filter (\<lambda>p. reachable lib now reg h e \<and> accepted (answers (fst p))) ms in
     (int (length ok),
      (if reachable lib now reg h e then List.map (\<lambda>p. the (fst (relayStored lib now reg h (answers (fst p)) (snd p)))) ms else []),
      fold (\<lambda>p. MarkOfflineMessageDelivered stamp (fst p)) ok d))"
  using assms
proof (induction ms arbitrary: d)
  case (Cons p ms)
  obtain i m where p: "p = (i, m)" by (cases p)
  have e: "omRecipient m = e" using Cons.prems p by simp
  show ?case
    using Cons relayStored_ok [of lib now reg h "answers i" m] e
    by (cases "relayStored lib now reg h (answers i) m") (auto simp: p Let_def split: option.splits)
qed simp

lemma pending_marks:
  "rows_ok (dbOffline d) \<Longrightarrow>
   ListPendingOfflineMessages r (fold (\<lambda>p. MarkOfflineMessageDelivered stamp (fst p)) ps d) =
     filter (\<lambda>p. fst p \<notin> fst ` set ps) (ListPendingOfflineMessages r d)"
proof (induction ps arbitrary: d)
  case (Cons p ps)
  have ok: "rows_ok (dbOffline (MarkOfflineMessageDelivered stamp (fst p) d))"
    using Cons.prems by (simp add: MarkOfflineMessageDelivered_def rows_ok_set)
  have "ListPendingOfflineMessages r (MarkOfflineMessageDelivered stamp (fst p) d)
      = filter (\<lambda>q. fst q \<noteq> fst p) (ListPendingOfflineMessages r d)"
    using ListPending_filter [OF ok] ListPending_filter [OF Cons.prems]
    by (simp add: MarkOfflineMessageDelivered_def row_set_def filter_pending_mark)
  with Cons.IH [OF ok] show ?case by (auto intro: filter_cong)
qed simp

lemma pending_recipient:
  "p \<in> set (ListPendingOfflineMessages r d) \<Longrightarrow> omRecipient (snd p) = r"
  by (simp add: ListPendingOfflineMessages_def)

lemma pending_distinct: "rows_ok (dbOffline d) \<Longrightarrow> distinct (keys (ListPendingOfflineMessages r d))"
  by (simp add: ListPending_filter rows_ok_distinct distinct_map_filter)

lemma same_key: "distinct (keys ps) \<Longrightarrow> p \<in> set ps \<Longrightarrow> q \<in> set ps \<Longrightarrow> fst q = fst p \<Longrightarrow> q = p"
  using eq_key_imp_eq_value [of ps "fst p" "snd q" "snd p"] by (cases p; cases q) auto

lemma key_mem:
  assumes "distinct (keys ps)" "p \<in> set ps" "qs \<subseteq> set ps"
  shows "fst p \<in> fst ` qs \<longleftrightarrow> p \<in> qs"
  using assms same_key [OF assms(1,2)] by (auto simp: image_iff)

text \<open>Delivering the stored messages of an extension that can be reached sends every
  pending message once, oldest first; exactly those the phone answers with a 2xx are
  marked delivered and counted, the others stay pending in their order; the queues of
  other recipients are untouched.  An extension that cannot be reached is sent nothing
  and keeps its queue.\<close>
theorem deliver_pending:
  assumes "db_reach d" "DeliverPending lib now stamp reg h answers e d = (n, out, d')"
  shows "ListPendingOfflineMessages e d' =
      filter (\<lambda>p. \<not> (reachable lib now reg h e \<and> accepted (answers (fst p)))) (ListPendingOfflineMessages e d)
    \<and> n = int (length (ListPendingOfflineMessages e d)) - int (length (ListPendingOfflineMessages e d'))
    \<and> (r \<noteq> e \<longrightarrow> ListPendingOfflineMessages r d' = ListPendingOfflineMessages r d)
    \<and> List.map ogBody out = (if reachable lib now reg h e
        then List.map (\<lambda>p. omBody (snd p)) (ListPendingOfflineMessages e d) else [])"
proof -
  have ok: "rows_ok (dbOffline d)" using db_reach_inv [OF assms(1)] by (rule offline_inv)
  let ?P = "\<lambda>p. reachable lib now reg h e \<and> accepted (answers (fst p))"
  let ?q = "ListPendingOfflineMessages e d"
  have run: "n = int (length (filter ?P ?q))" "d' = fold (\<lambda>p. MarkOfflineMessageDelivered stamp (fst p)) (filter ?P ?q) d"
    "out = (if reachable lib now reg h e
            then List.map (\<lambda>p. the (fst (relayStored lib now reg h (answers (fst p)) (snd p)))) ?q else [])"
    using assms(2) deliver_loop_rows [of ?q e lib now stamp reg h answers d] pending_recipient
    by (auto simp: DeliverPending_def Let_def)
  have d: "distinct (keys (offline_rows d))" using ok by (rule rows_ok_distinct)
  have sub: "{p \<in> set ?q. ?P p} \<subseteq> set (offline_rows d)" by (auto simp: ListPending_filter [OF ok])
  have queue: "ListPendingOfflineMessages r d' = filter (\<lambda>p. p \<notin> {p \<in> set ?q. ?P p}) (ListPendingOfflineMessages r d)" for r
  proof -
    have "fst p \<in> fst ` {p \<in> set ?q. ?P p} \<longleftrightarrow> p \<in> {p \<in> set ?q. ?P p}" if "p \<in> set (ListPendingOfflineMessages r d)" for p
      using that by (intro key_mem [OF d _ sub]) (simp add: ListPending_filter [OF ok])
    then show ?thesis
      using pending_marks [OF ok, of r stamp "filter ?P ?q"] unfolding run(2) set_filter
      by (metis (no_types, lifting) filter_cong)
  qed
  have mine: "ListPendingOfflineMessages e d' = filter (\<lambda>p. \<not> ?P p) ?q"
    unfolding queue by (rule filter_cong) auto
  have other: "ListPendingOfflineMessages r d' = ListPendingOfflineMessages r d" if "r \<noteq> e"
  proof -
    have "p \<notin> {p \<in> set ?q. ?P p}" if "p \<in> set (ListPendingOfflineMessages r d)" for p
      using that \<open>r \<noteq> e\<close> pending_recipient by blast
    then show ?thesis unfolding queue by (intro filter_True) blast
  qed
  have "ogBody (the (fst (relayStored lib now reg h res m))) = omBody m"
    if "reachable lib now reg h e" "omRecipient m = e" for res m
    using that by (auto simp: relayStored_def reachable_def split: option.splits)
  then have "List.map ogBody out = (if reachable lib now reg h e then List.map (\<lambda>p. omBody (snd p)) ?q else [])"
    using pending_recipient by (auto simp: run(3))
  moreover have "n = int (length ?q) - int (length (filter (\<lambda>p. \<not> ?P p) ?q))"
    using sum_length_filter_compl [of ?P ?q] by (simp add: run(1))
  ultimately show ?thesis using mine other by simp
qed

lemma deliver_pending_witness:
  "let answers = (\<lambda>i. if i = 1 then Answered 200 else TimedOut);
       h = \<lparr>mhExts = [], mhFeatures = DefaultFeatureCodes, mhDomain = ''pbx'', mhStore = True, mhClient = True\<rparr>;
       res = DeliverPending demo_sip 0 ''t2'' demo_registrar h answers ''101'' demo_db
   in ListPendingOfflineMessages ''101'' (snd (snd res)) = [] \<and> List.map ogBody (fst (snd res)) = [''hi'']"
proof -
  let ?h = "\<lparr>mhExts = [], mhFeatures = DefaultFeatureCodes, mhDomain = ''pbx'', mhStore = True, mhClient = True\<rparr>"
  let ?answers = "\<lambda>i. if i = 1 then Answered 200 else TimedOut"
  let ?res = "DeliverPending demo_sip 0 ''t2'' demo_registrar ?h ?answers ''101'' demo_db"
  have q: "List.map (\<lambda>p. (fst p, omBody (snd p))) (ListPendingOfflineMessages ''101'' demo_db) = [(1, ''hi'')]"
    by code_simp
  have "IsRegistered demo_sip 0 ''101'' demo_registrar"
    using demo_sender [of 0] SenderAuthorized_registered by simp
  then have "reachable demo_sip 0 demo_registrar ?h ''101''"
    by (simp add: reachable_def IsRegistered_def ContactURI_def)
  then show ?thesis
    using deliver_pending [OF demo_db_reach, of demo_sip 0 "''t2''" demo_registrar ?h ?answers "''101''"
        "fst ?res" "fst (snd ?res)" "snd (snd ?res)"] q
    by (auto simp: accepted_def Let_def)
qed



text \<open>Two deliveries for the same extension that both list its queue before either has
  marked a message, as two quick registrations cause, send every message twice.\<close>
theorem concurrent_delivery_duplicates:
  assumes "reachable lib now reg h e" "DeliverPending lib now stamp reg h answers e d = (n1, out1, d1)"
    and "deliver_loop lib now stamp reg h answers (ListPendingOfflineMessages e d) d1 = (n2, out2, d2)"
  shows "List.map ogBody out1 = List.map (\<lambda>p. omBody (snd p)) (ListPendingOfflineMessages e d) \<and> out2 = out1 \<and> n2 = n1"
proof -
  have m: "\<forall>p \<in> set (ListPendingOfflineMessages e d). omRecipient (snd p) = e" using pending_recipient by blast
  have "ogBody (the (fst (relayStored lib now reg h res mm))) = omBody mm" if "omRecipient mm = e" for res mm
    using that assms(1) by (auto simp: relayStored_def reachable_def split: option.splits)
  then show ?thesis
    using assms m deliver_loop_rows [OF m, of lib now stamp reg h answers]
    by (auto simp: DeliverPending_def Let_def)
qed

lemma concurrent_delivery_duplicates_witness:
  "let answers = (\<lambda>_. Answered 200);
       h = \<lparr>mhExts = [], mhFeatures = DefaultFeatureCodes, mhDomain = ''pbx'', mhStore = True, mhClient = True\<rparr>;
       q = ListPendingOfflineMessages ''101'' demo_db;
       first = DeliverPending demo_sip 0 ''t'' demo_registrar h answers ''101'' demo_db;
       second = deliver_loop demo_sip 0 ''t'' demo_registrar h answers q (snd (snd first))
   in List.map ogBody (fst (snd first) @ fst (snd second)) = [''hi'', ''hi'']"
proof -
  let ?h = "\<lparr>mhExts = [], mhFeatures = DefaultFeatureCodes, mhDomain = ''pbx'', mhStore = True, mhClient = True\<rparr>"
  let ?first = "DeliverPending demo_sip 0 ''t'' demo_registrar ?h (\<lambda>_. Answered 200) ''101'' demo_db"
  let ?second = "deliver_loop demo_sip 0 ''t'' demo_registrar ?h (\<lambda>_. Answered 200)
    (ListPendingOfflineMessages ''101'' demo_db) (snd (snd ?first))"
  have q: "List.map (\<lambda>p. omBody (snd p)) (ListPendingOfflineMessages ''101'' demo_db) = [''hi'']" by code_simp
  have "IsRegistered demo_sip 0 ''101'' demo_registrar" using demo_sender [of 0] SenderAuthorized_registered by simp
  then have r: "reachable demo_sip 0 demo_registrar ?h ''101''"
    by (simp add: reachable_def IsRegistered_def ContactURI_def)
  have f: "?first = (fst ?first, fst (snd ?first), snd (snd ?first))"
    "?second = (fst ?second, fst (snd ?second), snd (snd ?second))" by simp_all
  from concurrent_delivery_duplicates [OF r f] q show ?thesis by (simp add: Let_def)
qed

end
