(* ===== verification/Conference.thy ===== *)
theory Conference
  imports Calls
begin

text \<open>
  Conference rooms of internal/conference/conference.go: the capacity slots a
  caller reserves before the PIN, the PIN gate, admission and departure, and
  the media of a room, which is hold music for one participant and the mixer
  for two or more.  Times are seconds.  The bcrypt check of a PIN is an
  argument; so is whether the mixer accepts a leg.
\<close>

section \<open>The PIN gate\<close>

definition maxPINAttempts :: nat where "maxPINAttempts = 3"
definition pinPromptInterval :: int where "pinPromptInterval = 15"
definition pinSessionDeadline :: int where "pinSessionDeadline = 35"

definition pinDigitTimeout :: "int \<Rightarrow> int \<Rightarrow> int" where
  "pinDigitTimeout deadline now =
     (let remaining = deadline - now in
      if remaining \<le> 0 then 0
      else if remaining < pinPromptInterval then remaining else pinPromptInterval)"

text \<open>What one pass of the loop meets: whether a context has ended, what the caller
  entered in the time the prompt allows (None: nothing), and how long it took.\<close>
record pin_pass =
  ppGone :: bool
  ppEntered :: "string option"
  ppElapsed :: int

text \<open>collectPIN; None when the list of passes ends before the loop does.\<close>
fun collectPIN :: "(string \<Rightarrow> bool) \<Rightarrow> int \<Rightarrow> int \<Rightarrow> nat \<Rightarrow> pin_pass list \<Rightarrow> bool option" where
  "collectPIN check deadline now wrong [] = None"
| "collectPIN check deadline now wrong (p # ps) =
     (if ppGone p then Some False
      else if now > deadline then Some False
      else if pinDigitTimeout deadline now \<le> 0 then Some False
      else case ppEntered p of
        None \<Rightarrow> collectPIN check deadline (now + ppElapsed p) wrong ps
      | Some code \<Rightarrow>
          if check code then Some True
          else if maxPINAttempts \<le> wrong + 1 then Some False
          else collectPIN check deadline (now + ppElapsed p) (wrong + 1) ps)"

section \<open>Rooms\<close>

record room =
  rmSessions :: "dlg list"
  rmCount :: int
  rmReserved :: int
  rmMax :: int
  rmMOH :: "dlg option"
  rmMixer :: "dlg list"

type_synonym rooms = "(string, room) gomap"

definition new_room :: "int \<Rightarrow> room" where
  "new_room mx = \<lparr>rmSessions = [], rmCount = 0, rmReserved = 0, rmMax = (if mx < 2 then 16 else mx),
     rmMOH = None, rmMixer = []\<rparr>"

text \<open>Manager.room: the maximum given when the room was first entered stays.\<close>
definition room_of :: "string \<Rightarrow> int \<Rightarrow> rooms \<Rightarrow> room \<times> rooms" where
  "room_of number mx rs =
     (case get rs number of
        Some r \<Rightarrow> (r, rs)
      | None \<Rightarrow> (new_room mx, put number (new_room mx) rs))"

text \<open>The media operations of a room in the order they happen.\<close>
datatype media_op = MOHStop | MixerRemoveAll | PrepareLeg dlg | MixerAdd dlg | MOHStart dlg

text \<open>What reconcile needs to know of the outside: which dialogs are alive, which legs
  the mixer takes, and whether the hold music directory is set and has tracks.\<close>
record room_env =
  reAlive :: "dlg list"
  reMixable :: "dlg list"
  reMOHDir :: bool
  reMOHTracks :: bool

definition aliveSessions :: "room_env \<Rightarrow> room \<Rightarrow> dlg list" where
  "aliveSessions env r = filter (\<lambda>d. d \<in> set (reAlive env)) (rmSessions r)"

definition applyMedia :: "room_env \<Rightarrow> dlg list \<Rightarrow> room \<Rightarrow> media_op list \<times> room" where
  "applyMedia env alive r =
     (let ops = (if rmMOH r \<noteq> None then [MOHStop] else []) @ [MixerRemoveAll] @ List.map PrepareLeg alive;
          r1 = r\<lparr>rmMOH := None, rmMixer := []\<rparr>;
          admitted = (if rmCount r = 0 then int (length alive) else rmCount r) in
      if alive = [] then (ops, r1)
      else if 2 \<le> admitted then
        (ops @ List.map MixerAdd alive, r1\<lparr>rmMixer := filter (\<lambda>d. d \<in> set (reMixable env)) alive\<rparr>)
      else if admitted = 1 \<and> length alive = 1 then
        (if \<not> reMOHDir env then (ops, r1)
         else if \<not> reMOHTracks env then (ops, r1)
         else (ops @ [MOHStart (hd alive)], r1\<lparr>rmMOH := Some (hd alive)\<rparr>))
      else (ops, r1))"

definition reconcile :: "room_env \<Rightarrow> room \<Rightarrow> media_op list \<times> room" where
  "reconcile env r = applyMedia env (aliveSessions env r) r"

text \<open>The critical sections of HandleJoin and leave.\<close>
definition reserve :: "room \<Rightarrow> room option" where
  "reserve r = (if rmMax r \<le> rmCount r + rmReserved r then None else Some (r\<lparr>rmReserved := rmReserved r + 1\<rparr>))"

definition unreserve :: "room \<Rightarrow> room" where
  "unreserve r = r\<lparr>rmReserved := rmReserved r - 1\<rparr>"

definition seat :: "dlg \<Rightarrow> room \<Rightarrow> room" where
  "seat d r = r\<lparr>rmReserved := rmReserved r - 1, rmCount := rmCount r + 1, rmSessions := rmSessions r @ [d]\<rparr>"

definition admit :: "room_env \<Rightarrow> dlg \<Rightarrow> room \<Rightarrow> media_op list \<times> room" where
  "admit env d r = reconcile env (seat d r)"

definition unseat :: "dlg \<Rightarrow> room \<Rightarrow> room" where
  "unseat d r = r\<lparr>rmCount := rmCount r - 1, rmSessions := remove1 d (rmSessions r)\<rparr>"

definition leave :: "room_env \<Rightarrow> dlg \<Rightarrow> room \<Rightarrow> media_op list \<times> room" where
  "leave env d r = reconcile env (unseat d r)"

definition onParticipantMediaUpdate :: "room_env \<Rightarrow> dlg \<Rightarrow> room \<Rightarrow> media_op list \<times> room" where
  "onParticipantMediaUpdate env d r =
     (if d \<notin> set (rmSessions r) then ([], r) else reconcile env r)"

definition Participants :: "string \<Rightarrow> rooms \<Rightarrow> int" where
  "Participants number rs = (case get rs number of None \<Rightarrow> 0 | Some r \<Rightarrow> rmCount r)"

datatype join_end = JBusy | JAnswerFailed | JPinRejected | JAdmitted | JPending

text \<open>HandleJoin up to the moment the caller is in or out: answer says whether the
  call could be answered, hash is the PIN hash of the conference.\<close>
definition HandleJoin :: "(string \<Rightarrow> string \<Rightarrow> bool) \<Rightarrow> room_env \<Rightarrow> dlg \<Rightarrow> string \<Rightarrow> bool \<Rightarrow> int \<Rightarrow> pin_pass list
    \<Rightarrow> room \<Rightarrow> join_end \<times> media_op list \<times> room" where
  "HandleJoin check env d hash answer now ps r =
     (case reserve r of
        None \<Rightarrow> (JBusy, [], r)
      | Some r1 \<Rightarrow>
          if \<not> answer then (JAnswerFailed, [], unreserve r1)
          else if hash = [] then (let (ops, r2) = admit env d r1 in (JAdmitted, ops, r2))
          else (case collectPIN (check hash) (now + pinSessionDeadline) now 0 ps of
                  None \<Rightarrow> (JPending, [], r1)
                | Some False \<Rightarrow> (JPinRejected, [], unreserve r1)
                | Some True \<Rightarrow> (let (ops, r2) = admit env d r1 in (JAdmitted, ops, r2))))"

section \<open>Runs of a room\<close>

text \<open>A room with the callers that hold a reservation and the number of reconcile
  calls still to come: admission and departure change the participants in one
  critical section and reconcile in a later one, so other callers' steps come
  between.\<close>
inductive room_step :: "room \<times> dlg list \<times> nat \<Rightarrow> media_op list \<Rightarrow> room \<times> dlg list \<times> nat \<Rightarrow> bool" where
  reserve: "reserve r = Some r' \<Longrightarrow> d \<notin> set pend \<Longrightarrow> d \<notin> set (rmSessions r) \<Longrightarrow>
            room_step (r, pend, n) [] (r', d # pend, n)"
| reject: "d \<in> set pend \<Longrightarrow> room_step (r, pend, n) [] (unreserve r, remove1 d pend, n)"
| seat: "d \<in> set pend \<Longrightarrow> room_step (r, pend, n) [] (seat d r, remove1 d pend, Suc n)"
| unseat: "d \<in> set (rmSessions r) \<Longrightarrow> room_step (r, pend, n) [] (unseat d r, pend, Suc n)"
| reconcile: "reconcile env r = (ops, r') \<Longrightarrow> room_step (r, pend, Suc n) ops (r', pend, n)"
| update: "onParticipantMediaUpdate env d r = (ops, r') \<Longrightarrow> room_step (r, pend, n) ops (r', pend, n)"

inductive room_reach :: "room \<times> dlg list \<times> nat \<Rightarrow> bool" where
  start: "room_reach (new_room mx, [], 0)"
| step: "room_reach s \<Longrightarrow> room_step s ops s' \<Longrightarrow> room_reach s'"

definition room_seats :: "room \<Rightarrow> dlg list \<Rightarrow> bool" where
  "room_seats r pend =
     (rmCount r = int (length (rmSessions r)) \<and> rmReserved r = int (length pend)
      \<and> rmCount r + rmReserved r \<le> rmMax r
      \<and> distinct (rmSessions r) \<and> distinct pend \<and> set pend \<inter> set (rmSessions r) = {})"

definition room_media :: "room \<Rightarrow> bool" where
  "room_media r = (set (rmMixer r) \<subseteq> set (rmSessions r) \<and> (\<forall>d. rmMOH r = Some d \<longrightarrow> rmSessions r = [d]))"

definition room_inv :: "room \<times> dlg list \<times> nat \<Rightarrow> bool" where
  "room_inv s = (case s of (r, pend, n) \<Rightarrow>
     room_seats r pend \<and> distinct (rmMixer r) \<and> (rmMOH r = None \<or> rmMixer r = []) \<and> (n = 0 \<longrightarrow> room_media r))"

lemma reconcile_fields:
  "rmCount (snd (reconcile env r)) = rmCount r" "rmReserved (snd (reconcile env r)) = rmReserved r"
  "rmMax (snd (reconcile env r)) = rmMax r" "rmSessions (snd (reconcile env r)) = rmSessions r"
  by (simp_all add: reconcile_def applyMedia_def Let_def)

lemma reconcile_mixer: "set (rmMixer (snd (reconcile env r))) \<subseteq> set (rmSessions r)"
  by (auto simp: reconcile_def applyMedia_def aliveSessions_def Let_def)

lemma reconcile_mixer_distinct:
  "distinct (rmSessions r) \<Longrightarrow> distinct (rmMixer (snd (reconcile env r)))"
  by (auto simp: reconcile_def applyMedia_def aliveSessions_def Let_def)

lemma reconcile_MOH:
  assumes "rmMOH (snd (reconcile env r)) = Some d" "rmCount r = int (length (rmSessions r))"
  shows "rmSessions r = [d] \<and> rmMixer (snd (reconcile env r)) = []"
proof -
  let ?a = "aliveSessions env r"
  have a: "?a \<noteq> []" "d = hd ?a" "rmMixer (snd (reconcile env r)) = []" "length ?a = 1"
    "(if rmCount r = 0 then int (length ?a) else rmCount r) = 1"
    using assms(1) by (auto simp: reconcile_def applyMedia_def Let_def split: if_splits)
  have "rmSessions r \<noteq> []" using a(1) by (auto simp: aliveSessions_def)
  then have "length (rmSessions r) = 1" using a(5) assms(2) by (auto split: if_splits)
  then obtain x where x: "rmSessions r = [x]" by (auto simp: length_Suc_conv)
  then have "?a = [x]" using a(1) by (auto simp: aliveSessions_def split: if_splits)
  with x a show ?thesis by simp
qed

lemma reconcile_seats:
  assumes "room_seats r pend" "reconcile env r = (ops, r')"
  shows "room_inv (r', pend, n)"
proof -
  have r': "r' = snd (reconcile env r)" using assms(2) by simp
  have "rmCount r = int (length (rmSessions r))" "distinct (rmSessions r)" using assms(1) by (auto simp: room_seats_def)
  then have "rmMOH r' = None \<or> rmMixer r' = []" "distinct (rmMixer r')" "room_media r'"
    using reconcile_mixer [of env r] reconcile_mixer_distinct [of r env] reconcile_MOH [of env r]
    by (cases "rmMOH r'"; auto simp: r' room_media_def reconcile_fields)+
  then show ?thesis using assms(1) by (simp add: room_inv_def room_seats_def r' reconcile_fields)
qed

lemma length_remove1_Suc: "d \<in> set xs \<Longrightarrow> length xs = Suc (length (remove1 d xs))"
  by (induction xs) auto

lemma room_step_inv: "room_step s ops s' \<Longrightarrow> room_inv s \<Longrightarrow> room_inv s'"
proof (induction rule: room_step.induct)
  case (reserve r r' d pend n)
  then show ?case by (auto simp: room_inv_def room_seats_def room_media_def reserve_def split: if_splits)
next
  case (reject d pend r n)
  then show ?case using set_remove1_subset [of d pend] length_remove1_Suc [of d pend]
    by (auto simp: room_inv_def room_seats_def room_media_def unreserve_def)
next
  case (seat d pend r n)
  then show ?case using set_remove1_subset [of d pend] length_remove1_Suc [of d pend]
    by (auto simp: room_inv_def room_seats_def seat_def)
next
  case (unseat d r pend n)
  then show ?case using set_remove1_subset [of d "rmSessions r"] length_remove1_Suc [of d "rmSessions r"]
    by (auto simp: room_inv_def room_seats_def unseat_def)
next
  case (reconcile env r ops r' pend n)
  then have "room_seats r pend" by (simp add: room_inv_def)
  then show ?case using reconcile by (intro reconcile_seats)
next
  case (update env d r ops r' pend n)
  then have "room_seats r pend" by (simp add: room_inv_def)
  then show ?case using update reconcile_seats
    by (cases "d \<in> set (rmSessions r)") (auto simp: onParticipantMediaUpdate_def)
qed

lemma room_reach_inv: "room_reach s \<Longrightarrow> room_inv s"
proof (induction rule: room_reach.induct)
  case (step s ops s')
  then show ?case using room_step_inv by blast
qed (simp add: room_inv_def room_seats_def room_media_def new_room_def)

text \<open>C10: In every run of a conference room, whatever the order in which callers
  reserve, are rejected, admitted and leave and in which the media is reconciled:
  the count is the number of participants, each caller past the capacity check and
  before the PIN holds one reservation, both together never exceed the room's
  maximum, no caller waiting at the PIN gate is a participant, and hold music and
  the mixer never serve the room at once.  When no reconcile is outstanding the
  music plays only to a single participant and the mixer holds only participants.\<close>
theorem room_capacity:
  assumes "room_reach (r, pend, n)"
  shows "rmCount r = int (length (rmSessions r)) \<and> rmReserved r = int (length pend)
    \<and> rmCount r + rmReserved r \<le> rmMax r \<and> set pend \<inter> set (rmSessions r) = {}
    \<and> (rmMOH r = None \<or> rmMixer r = [])
    \<and> (n = 0 \<longrightarrow> (\<forall>d. rmMOH r = Some d \<longrightarrow> rmSessions r = [d]) \<and> set (rmMixer r) \<subseteq> set (rmSessions r))"
  using room_reach_inv [OF assms] by (simp add: room_inv_def room_seats_def room_media_def)

definition demo_env :: room_env where
  "demo_env = \<lparr>reAlive = [''a'', ''b''], reMixable = [''a'', ''b''], reMOHDir = True, reMOHTracks = True\<rparr>"

lemma demo_room_run:
  "room_reach (snd (admit demo_env ''b'' (the (reserve (snd (admit demo_env ''a'' (the (reserve (new_room 2)))))))), [], 0)"
proof -
  have s: "room_step s ops s' \<Longrightarrow> room_reach s \<Longrightarrow> room_reach s'" for s ops s' by (rule room_reach.step)
  let ?a1 = "the (reserve (new_room 2))" and ?a2 = "seat ''a'' (the (reserve (new_room 2)))"
  let ?a3 = "snd (reconcile demo_env ?a2)"
  let ?b1 = "the (reserve ?a3)" and ?b2 = "seat ''b'' (the (reserve ?a3))"
  have "room_step (new_room 2, [], 0) [] (?a1, [''a''], 0)"
    by (rule room_step.reserve) (simp_all add: reserve_def new_room_def)
  then have "room_reach (?a1, [''a''], 0)" using room_reach.start by (rule s)
  moreover have "room_step (?a1, [''a''], 0) [] (?a2, [], 1)"
    using room_step.seat [of "''a''" "[''a'']" ?a1 0] by simp
  ultimately have "room_reach (?a2, [], 1)" by (metis s)
  moreover have "room_step (?a2, [], 1) (fst (reconcile demo_env ?a2)) (?a3, [], 0)"
    using room_step.reconcile [of demo_env ?a2 _ _ "[]" 0] by simp
  ultimately have "room_reach (?a3, [], 0)" by (metis s)
  moreover have "room_step (?a3, [], 0) [] (?b1, [''b''], 0)"
    by (rule room_step.reserve) (simp_all add: reserve_def new_room_def seat_def reconcile_fields)
  ultimately have "room_reach (?b1, [''b''], 0)" by (metis s)
  moreover have "room_step (?b1, [''b''], 0) [] (?b2, [], 1)"
    using room_step.seat [of "''b''" "[''b'']" ?b1 0] by simp
  ultimately have "room_reach (?b2, [], 1)" by (metis s)
  moreover have "room_step (?b2, [], 1) (fst (reconcile demo_env ?b2)) (snd (reconcile demo_env ?b2), [], 0)"
    using room_step.reconcile [of demo_env ?b2 _ _ "[]" 0] by simp
  ultimately show ?thesis unfolding admit_def by (metis s)
qed

lemma room_capacity_witness:
  "let r = snd (admit demo_env ''b'' (the (reserve (snd (admit demo_env ''a'' (the (reserve (new_room 2))))))))
   in rmCount r = int (length (rmSessions r)) \<and> rmCount r + rmReserved r \<le> rmMax r \<and> rmMixer r = [''a'', ''b'']"
proof -
  have "rmMixer (snd (admit demo_env ''b'' (the (reserve (snd (admit demo_env ''a'' (the (reserve (new_room 2)))))))))
    = [''a'', ''b'']" by code_simp
  with room_capacity [OF demo_room_run] show ?thesis by (simp add: Let_def)
qed

section \<open>What the participants hear\<close>

text \<open>Who hears the hold music and which legs the mixer was given, after one media
  operation.\<close>
fun media_effect :: "media_op \<Rightarrow> dlg option \<times> dlg list \<Rightarrow> dlg option \<times> dlg list" where
  "media_effect MOHStop (m, legs) = (None, legs)"
| "media_effect MixerRemoveAll (m, legs) = (m, [])"
| "media_effect (PrepareLeg d) (m, legs) = (m, legs)"
| "media_effect (MixerAdd d) (m, legs) = (m, legs @ [d])"
| "media_effect (MOHStart d) (m, legs) = (Some d, legs)"

abbreviation media_after :: "media_op list \<Rightarrow> dlg option \<times> dlg list \<Rightarrow> dlg option \<times> dlg list" where
  "media_after ops st \<equiv> fold media_effect ops st"

lemma media_after_prepare: "media_after (List.map PrepareLeg ds) st = st"
  by (induction ds arbitrary: st) (auto simp: split_paired_all)

lemma media_after_adds: "media_after (List.map MixerAdd ds) (m, legs) = (m, legs @ ds)"
  by (induction ds arbitrary: legs) auto

text \<open>The legs the mixer is given, and the hold music that starts, once the old
  media is gone.\<close>
definition media_goal :: "room_env \<Rightarrow> room \<Rightarrow> dlg option \<times> dlg list" where
  "media_goal env r =
     (let alive = aliveSessions env r; n = (if rmCount r = 0 then int (length alive) else rmCount r) in
      if alive \<noteq> [] \<and> 2 \<le> n then (None, alive)
      else if n = 1 \<and> length alive = 1 \<and> reMOHDir env \<and> reMOHTracks env then (Some (hd alive), [])
      else (None, []))"

definition media_starts :: "room_env \<Rightarrow> room \<Rightarrow> media_op list" where
  "media_starts env r =
     (case media_goal env r of (Some d, _) \<Rightarrow> [MOHStart d] | (None, legs) \<Rightarrow> List.map MixerAdd legs)"

lemma reconcile_ops:
  "fst (reconcile env r) =
     (if rmMOH r \<noteq> None then [MOHStop] else []) @ MixerRemoveAll
       # List.map PrepareLeg (aliveSessions env r) @ media_starts env r"
  by (auto simp: reconcile_def applyMedia_def media_starts_def media_goal_def Let_def split: if_splits)

lemma reconcile_result:
  "rmMOH (snd (reconcile env r)) = fst (media_goal env r)
   \<and> rmMixer (snd (reconcile env r)) = filter (\<lambda>d. d \<in> set (reMixable env)) (snd (media_goal env r))"
  by (auto simp: reconcile_def applyMedia_def media_goal_def Let_def split: if_splits)

lemma media_drop_safe:
  assumes "set ops \<subseteq> {MOHStop, MixerRemoveAll} \<union> range PrepareLeg"
    "fst st = None \<or> snd st = []"
  shows "fst (media_after ops st) = None \<or> snd (media_after ops st) = []"
  using assms
proof (induction ops arbitrary: st)
  case (Cons p ops)
  have "fst (media_effect p st) = None \<or> snd (media_effect p st) = []"
    using Cons.prems by (cases st) auto
  then show ?case using Cons by simp
qed simp

lemma media_starts_safe:
  "fst (media_after (take k (media_starts env r)) (None, [])) = None
   \<or> snd (media_after (take k (media_starts env r)) (None, [])) = []"
  by (cases "media_goal env r"; cases k)
     (auto simp: media_starts_def take_map media_after_adds split: option.splits)

lemma media_starts_goal: "media_after (media_starts env r) (None, []) = media_goal env r"
  by (auto simp: media_starts_def media_goal_def media_after_adds Let_def)

abbreviation media_stops :: "room_env \<Rightarrow> room \<Rightarrow> media_op list" where
  "media_stops env r \<equiv> (if rmMOH r \<noteq> None then [MOHStop] else [])
     @ MixerRemoveAll # List.map PrepareLeg (aliveSessions env r)"

lemma media_after_stops: "media_after (media_stops env r) (rmMOH r, legs) = (None, [])"
  by (simp add: media_after_prepare)

lemma reconcile_safe:
  assumes "rmMOH r = None \<or> legs = []"
  shows "fst (media_after (take k (fst (reconcile env r))) (rmMOH r, legs)) = None
       \<or> snd (media_after (take k (fst (reconcile env r))) (rmMOH r, legs)) = []"
proof (cases "k \<le> length (media_stops env r)")
  case True
  have "set (take k (media_stops env r)) \<subseteq> {MOHStop, MixerRemoveAll} \<union> range PrepareLeg"
    using set_take_subset [of k "media_stops env r"] by (auto split: if_splits)
  moreover have "take k (fst (reconcile env r)) = take k (media_stops env r)"
    using True by (simp only: reconcile_ops append_assoc [symmetric] append_Cons [symmetric] take_append) simp
  ultimately show ?thesis using media_drop_safe [of "take k (media_stops env r)" "(rmMOH r, legs)"] assms
    by simp
next
  case False
  then have "take k (fst (reconcile env r))
      = media_stops env r @ take (k - length (media_stops env r)) (media_starts env r)"
    by (simp only: reconcile_ops append_assoc [symmetric] append_Cons [symmetric] take_append) simp
  then show ?thesis
    using media_starts_safe [of "k - length (media_stops env r)" env r] media_after_stops [where env = env and r = r and legs = legs]
    by (simp only: fold_append comp_apply)
qed

text \<open>C24: While a room is reconciled, at no point between two media operations do
  hold music and mixer legs play at once, provided they did not before; the old
  music is stopped and the old legs are removed before anything starts; and in the
  end the mixer has been given every live leg when two or more are admitted, or
  the only participant hears the music when there are tracks, and nothing plays
  otherwise.\<close>
theorem reconcile_order:
  assumes "rmMOH r = None \<or> legs = []"
  shows "(\<forall>k. fst (media_after (take k (fst (reconcile env r))) (rmMOH r, legs)) = None
            \<or> snd (media_after (take k (fst (reconcile env r))) (rmMOH r, legs)) = [])
    \<and> media_after (fst (reconcile env r)) (rmMOH r, legs) = media_goal env r
    \<and> rmMOH (snd (reconcile env r)) = fst (media_goal env r)
    \<and> rmMixer (snd (reconcile env r)) = filter (\<lambda>d. d \<in> set (reMixable env)) (snd (media_goal env r))"
proof (intro conjI allI)
  show "fst (media_after (take k (fst (reconcile env r))) (rmMOH r, legs)) = None
      \<or> snd (media_after (take k (fst (reconcile env r))) (rmMOH r, legs)) = []" for k
    using assms by (rule reconcile_safe)
  show "media_after (fst (reconcile env r)) (rmMOH r, legs) = media_goal env r"
    by (simp add: reconcile_ops media_after_prepare media_starts_goal)
qed (simp_all add: reconcile_result)

lemma reconcile_order_witness:
  "let r = seat ''b'' (the (reserve (snd (admit demo_env ''a'' (the (reserve (new_room 2)))))))
   in rmMOH r = Some ''a'' \<and> media_after (fst (reconcile demo_env r)) (rmMOH r, []) = (None, [''a'', ''b''])"
proof -
  let ?r = "seat ''b'' (the (reserve (snd (admit demo_env ''a'' (the (reserve (new_room 2)))))))"
  have "media_after (fst (reconcile demo_env ?r)) (rmMOH ?r, []) = media_goal demo_env ?r"
    using reconcile_order [of ?r "[]" demo_env] by simp
  moreover have "media_goal demo_env ?r = (None, [''a'', ''b''])" "rmMOH ?r = Some ''a''" by code_simp+
  ultimately show ?thesis by (simp add: Let_def)
qed

section \<open>What the PIN gate lets through\<close>

lemma collectPIN_accepts:
  "collectPIN check deadline now wrong ps = Some True \<Longrightarrow>
   \<exists>ps1 p code ps2. ps = ps1 @ p # ps2 \<and> ppEntered p = Some code \<and> check code
     \<and> (\<forall>q \<in> set (ps1 @ [p]). \<not> ppGone q)
     \<and> (\<forall>q \<in> set ps1. \<forall>c. ppEntered q = Some c \<longrightarrow> \<not> check c)
     \<and> wrong + length (filter (\<lambda>q. ppEntered q \<noteq> None) ps1) < max (Suc wrong) maxPINAttempts
     \<and> now + sum_list (List.map ppElapsed ps1) < deadline"
proof (induction ps arbitrary: now wrong)
  case (Cons p ps)
  have live: "\<not> ppGone p" "now \<le> deadline" "0 < pinDigitTimeout deadline now"
    using Cons.prems by (auto split: if_splits)
  then have now: "now < deadline" by (auto simp: pinDigitTimeout_def Let_def split: if_splits)
  show ?case
  proof (cases "ppEntered p")
    case None
    then obtain ps1 q code ps2 where *: "ps = ps1 @ q # ps2" "ppEntered q = Some code" "check code"
      "\<forall>q \<in> set (ps1 @ [q]). \<not> ppGone q" "\<forall>q \<in> set ps1. \<forall>c. ppEntered q = Some c \<longrightarrow> \<not> check c"
      "wrong + length (filter (\<lambda>q. ppEntered q \<noteq> None) ps1) < max (Suc wrong) maxPINAttempts"
      "now + ppElapsed p + sum_list (List.map ppElapsed ps1) < deadline"
      using Cons.IH [of "now + ppElapsed p" wrong] Cons.prems live by (auto simp: not_less)
    then show ?thesis using None live
      by (intro exI [of _ "p # ps1"] exI [of _ q] exI [of _ code] exI [of _ ps2]) (auto simp: algebra_simps)
  next
    case (Some c)
    show ?thesis
    proof (cases "check c")
      case True
      then show ?thesis using Some live now
        by (intro exI [of _ "[]"] exI [of _ p] exI [of _ c] exI [of _ ps]) auto
    next
      case False
      then have few: "wrong + 1 < maxPINAttempts"
        and rest: "collectPIN check deadline (now + ppElapsed p) (wrong + 1) ps = Some True"
        using Some Cons.prems live by (auto split: if_splits)
      then obtain ps1 q code ps2 where *: "ps = ps1 @ q # ps2" "ppEntered q = Some code" "check code"
        "\<forall>q \<in> set (ps1 @ [q]). \<not> ppGone q" "\<forall>q \<in> set ps1. \<forall>c. ppEntered q = Some c \<longrightarrow> \<not> check c"
        "wrong + 1 + length (filter (\<lambda>q. ppEntered q \<noteq> None) ps1) < max (Suc (wrong + 1)) maxPINAttempts"
        "now + ppElapsed p + sum_list (List.map ppElapsed ps1) < deadline"
        using Cons.IH [OF rest] by blast
      then show ?thesis using Some False live few
        by (intro exI [of _ "p # ps1"] exI [of _ q] exI [of _ code] exI [of _ ps2]) (auto simp: algebra_simps)
    qed
  qed
qed simp


text \<open>A caller is admitted exactly when a capacity slot was free, the call could be
  answered and either the conference has no PIN or the PIN gate accepted; then one of
  the entered codes checks against the hash, it was entered before 35 seconds had
  passed and after at most two wrong ones, and the caller was there throughout.  A
  caller who is refused leaves the room as it was.\<close>
theorem HandleJoin_gate:
  assumes "HandleJoin check env d hash answer now ps r = (out, ops, r')"
  shows "(out = JAdmitted \<longleftrightarrow> rmCount r + rmReserved r < rmMax r \<and> answer
            \<and> (hash = [] \<or> collectPIN (check hash) (now + pinSessionDeadline) now 0 ps = Some True))
    \<and> (out \<in> {JBusy, JAnswerFailed, JPinRejected} \<longrightarrow> r' = r \<and> ops = [])
    \<and> (out = JAdmitted \<longrightarrow> rmSessions r' = rmSessions r @ [d] \<and> rmCount r' = rmCount r + 1
                           \<and> rmReserved r' = rmReserved r)
    \<and> (out = JAdmitted \<and> hash \<noteq> [] \<longrightarrow>
         (\<exists>ps1 p code ps2. ps = ps1 @ p # ps2 \<and> ppEntered p = Some code \<and> check hash code
            \<and> (\<forall>q \<in> set (ps1 @ [p]). \<not> ppGone q)
            \<and> length (filter (\<lambda>q. ppEntered q \<noteq> None) ps1) \<le> 2
            \<and> sum_list (List.map ppElapsed ps1) < 35))"
proof -
  have pin: "\<exists>ps1 p code ps2. ps = ps1 @ p # ps2 \<and> ppEntered p = Some code \<and> check hash code
            \<and> (\<forall>q \<in> set (ps1 @ [p]). \<not> ppGone q)
            \<and> length (filter (\<lambda>q. ppEntered q \<noteq> None) ps1) \<le> 2
            \<and> sum_list (List.map ppElapsed ps1) < 35"
    if "collectPIN (check hash) (now + pinSessionDeadline) now 0 ps = Some True"
    using collectPIN_accepts [OF that] by (force simp: pinSessionDeadline_def maxPINAttempts_def)
  show ?thesis
    using assms pin
    by (cases "collectPIN (check hash) (now + pinSessionDeadline) now 0 ps")
       (auto simp: HandleJoin_def reserve_def unreserve_def admit_def seat_def reconcile_fields
          split: if_splits prod.splits bool.splits dest!: arg_cong [where f = snd])
qed

lemma HandleJoin_gate_witness:
  "let check = (\<lambda>h c. c = ''42''); p = \<lparr>ppGone = False, ppEntered = Some ''41'', ppElapsed = 5\<rparr>;
       q = p\<lparr>ppEntered := Some ''42''\<rparr>; res = HandleJoin check demo_env ''a'' ''h'' True 0 [p, q] (new_room 2)
   in fst res = JAdmitted \<and> rmSessions (snd (snd res)) = [''a'']"
proof -
  let ?p = "\<lparr>ppGone = False, ppEntered = Some ''41'', ppElapsed = 5\<rparr>"
  let ?res = "HandleJoin (\<lambda>h c. c = ''42'') demo_env ''a'' ''h'' True 0 [?p, ?p\<lparr>ppEntered := Some ''42''\<rparr>] (new_room 2)"
  have "fst ?res = JAdmitted" by code_simp
  moreover have "rmSessions (new_room 2) = []" by (simp add: new_room_def)
  moreover have "?res = (fst ?res, fst (snd ?res), snd (snd ?res))" by simp
  ultimately show ?thesis using HandleJoin_gate [OF \<open>?res = _\<close>] by (simp add: Let_def)
qed

end
