(* ===== verification/Pbx.thy ===== *)
theory Pbx
  imports Trunk Hunt Message Conference
begin

text \<open>
  The switchboard, internal/pbx: what becomes of an INVITE.  A handler that
  would block for the length of a call ends here with the action it blocks in
  (the end of the INVITE) and the state it has reached by then; the deferred
  release of the call is the step invite_over.  INVITEs are not authenticated:
  the caller is the user of the From header.
\<close>

record invite =
  ivID :: dlg
  ivFrom :: string
  ivTo :: string
  ivName :: string

record connect_opts =
  opVideo :: bool
  opExternalIP :: string
  opCallerExt :: string
  opCalleeExt :: string
  opDialTimeout :: int
  opRingTimeout :: int
  opHeaders :: "header list"
  opDest :: string
  opTransport :: string

text \<open>The server's state; the registry of calls, the park lot and the dialogs are in the
  world of bridged calls.\<close>
record server =
  pbConfig :: config
  pbExts :: "(string, extension) gomap"
  pbStore :: db
  pbReg :: registrar
  pbCalls :: manager
  pbWorld :: world
  pbFeatures :: feature_codes

text \<open>What the environment decides: the time, whether a feature dialog can be answered, the
  digits a caller dials at a prompt, the outcome of writing an extension file.\<close>
record pbx_env =
  evLib :: sip_lib
  evNow :: int
  evStamp :: string
  evDetected :: string
  evCfgDir :: string
  evAnswers :: bool
  evDigits :: "string option"
  evSaved :: bool
  evOrder :: "string list \<Rightarrow> string list"

text \<open>How the handling of an INVITE ends.\<close>
datatype invite_end =
    Responds int
  | PlaysBusy
  | Announces string
  | KeepsRinging
  | Connects sip_uri connect_opts
  | ConnectsTrunk sip_uri string string connect_opts
  | Hunts "string list" string int connect_opts
  | JoinsRoom conference string string string
  | Pages paging_group "string list"
  | AnswersAndEnds
  | AnswerFailed
  | PicksUp parked_call
  | Transfers nat sip_uri connect_opts

section \<open>Paths and options\<close>

definition moh_dir :: "pbx_env \<Rightarrow> server \<Rightarrow> string" where
  "moh_dir env p =
     (let d = mohDir (cServer (pbConfig p))
      in if has_prefix d ''/'' then d else evCfgDir env @ ''/'' @ d)"

definition soundPath :: "pbx_env \<Rightarrow> server \<Rightarrow> string \<Rightarrow> string" where
  "soundPath env p filename = SoundPath (cSounds (pbConfig p)) (evCfgDir env) filename"

definition video_of :: "string \<Rightarrow> server \<Rightarrow> bool" where
  "video_of e p = (case get (pbExts p) e of None \<Rightarrow> False | Some x \<Rightarrow> exVideo x)"

definition connectOpts :: "pbx_env \<Rightarrow> string \<Rightarrow> string \<Rightarrow> server \<Rightarrow> connect_opts" where
  "connectOpts env from to p =
     \<lparr>opVideo = (video_of from p \<or> video_of to p), opExternalIP = ExternalHost (evDetected env) (pbConfig p),
      opCallerExt = from, opCalleeExt = to, opDialTimeout = dialTimeout (cLimits (pbConfig p)),
      opRingTimeout = ringTimeout (cLimits (pbConfig p)), opHeaders = [], opDest = [], opTransport = []\<rparr>"

definition with_headers :: "pbx_env \<Rightarrow> string \<Rightarrow> string \<Rightarrow> server \<Rightarrow> connect_opts \<Rightarrow> connect_opts" where
  "with_headers env name user p o' =
     o'\<lparr>opHeaders := OutboundHeaders name user (ExternalHost (evDetected env) (pbConfig p))\<rparr>"

section \<open>Call log\<close>

definition logCall :: "pbx_env \<Rightarrow> string \<Rightarrow> string \<Rightarrow> string \<Rightarrow> string \<Rightarrow> string \<Rightarrow> string \<Rightarrow> db \<Rightarrow> db" where
  "logCall env caller callee name dir trunkName trunkPrefix d =
     (if caller = [] \<and> callee = [] then d
      else LogCall (evStamp env)
        \<lparr>clStartedAt = [], clCaller = caller, clCallee = callee, clCallerName = name, clDirection = dir,
         clTrunkName = trunkName, clTrunkPrefix = trunkPrefix\<rparr> d)"

text \<open>recordCall, run by the bridge of the server when a call is answered\<close>
definition recordCall :: "pbx_env \<Rightarrow> string \<Rightarrow> string \<Rightarrow> db \<Rightarrow> db" where
  "recordCall env caller callee d =
     (if caller = [] \<or> callee = [] then d
      else logCall env caller callee [] ''internal'' [] [] (SetLastCaller callee caller (SetLastDialed caller callee d)))"

section \<open>Destinations\<close>

definition bridgeToExtension :: "pbx_env \<Rightarrow> string \<Rightarrow> string \<Rightarrow> connect_opts \<Rightarrow> server \<Rightarrow> invite_end" where
  "bridgeToExtension env from e o' p =
     (let reach = (\<lambda>oo.
            case DialTarget (evLib env) (evNow env) e (pbReg p) of
              None \<Rightarrow> let s = soundPath env p (sndUnavailable (cSounds (pbConfig p)))
                      in if s \<noteq> [] then Announces s else Responds 480
            | Some (uri, dest, tr) \<Rightarrow> Connects uri (oo\<lparr>opCalleeExt := e, opDest := dest, opTransport := tr\<rparr>))
      in case get (pbExts p) e of
           None \<Rightarrow> reach o'
         | Some x \<Rightarrow>
             if \<not> exEnabled x then Responds 480
             else if exDND x then KeepsRinging
             else reach (if CallerNameHeader (exDisplayName x) \<noteq> None \<and> opHeaders o' = []
                         then with_headers env (exDisplayName x) from p o' else o'))"

definition filterDND :: "string list \<Rightarrow> server \<Rightarrow> string list" where
  "filterDND ms p = filter (\<lambda>m. case get (pbExts p) m of None \<Rightarrow> True | Some e \<Rightarrow> \<not> exDND e) ms"

definition handleHunt :: "string \<Rightarrow> connect_opts \<Rightarrow> server \<Rightarrow> invite_end" where
  "handleHunt number o' p =
     (case GetHuntGroupByNumber number (pbStore p) of
        None \<Rightarrow> Responds 404
      | Some (i, g) \<Rightarrow>
          if \<not> hgEnabled g then Responds 404
          else let ms = filterDND (HuntMembers i (pbStore p)) p
               in if ms = [] then KeepsRinging else Hunts ms (hgStrategy g) (hgRingTimeout g) o')"

definition handleConference :: "pbx_env \<Rightarrow> string \<Rightarrow> server \<Rightarrow> invite_end" where
  "handleConference env number p =
     (case GetConferenceByNumber number (pbStore p) of
        None \<Rightarrow> Responds 404
      | Some (_, c) \<Rightarrow>
          if \<not> cfEnabled c then Responds 404
          else JoinsRoom c (moh_dir env p) (soundPath env p (sndConfPIN (cSounds (pbConfig p))))
                 (soundPath env p (sndConfPINBad (cSounds (pbConfig p)))))"

definition handlePaging :: "pbx_env \<Rightarrow> string \<Rightarrow> server \<Rightarrow> invite_end" where
  "handlePaging env code p =
     (case GetPagingByCode (trim_prefix code ''*'') (pbStore p) of
        None \<Rightarrow> Responds 404
      | Some (i, g) \<Rightarrow> if \<not> pgEnabled g then Responds 404 else Pages g (PagingMembers (evOrder env) i (pbStore p)))"

definition outboundTrunk :: "string \<Rightarrow> string \<Rightarrow> connect_opts \<Rightarrow> server \<Rightarrow> invite_end" where
  "outboundTrunk pre rest o' p =
     (case Outbound (pbConfig p) pre rest of
        TrunkNotFound \<Rightarrow> Responds 404
      | TrunkDial uri user pw \<Rightarrow> ConnectsTrunk uri user pw o')"

section \<open>Features\<close>

definition acquire :: "invite \<Rightarrow> string \<Rightarrow> string \<Rightarrow> server \<Rightarrow> bool \<times> server" where
  "acquire iv from dial p =
     (case TryAcquire (ivID iv) from dial (ivName iv) (pbExts p) (pbCalls p) of
        (Inl _, m) \<Rightarrow> (False, p\<lparr>pbCalls := m\<rparr>)
      | (Inr _, m) \<Rightarrow> (True, p\<lparr>pbCalls := m\<rparr>))"

text \<open>The deferred Release, when the handler returns.\<close>
definition invite_over :: "invite \<Rightarrow> server \<Rightarrow> server" where
  "invite_over iv p = p\<lparr>pbCalls := Release (ivID iv) (pbCalls p)\<rparr>"

definition dialResolvedWithOpts :: "pbx_env \<Rightarrow> invite \<Rightarrow> string \<Rightarrow> string \<Rightarrow> connect_opts \<Rightarrow> server \<Rightarrow> invite_end \<times> server" where
  "dialResolvedWithOpts env iv from dial o' p =
     (let r = RouteDial dial (pbFeatures p); oo = o'\<lparr>opCallerExt := from\<rparr>; (ok, p1) = acquire iv from dial p in
      if \<not> ok then (PlaysBusy, p1)
      else (case rKind r of
              KindExtension \<Rightarrow> bridgeToExtension env (ivFrom iv) (rTarget r) (oo\<lparr>opCalleeExt := rTarget r\<rparr>) p1
            | KindHunt \<Rightarrow> handleHunt (rTarget r) oo p1
            | KindTrunk \<Rightarrow> outboundTrunk (rPrefix r) (rRest r) oo p1
            | _ \<Rightarrow> Responds 404, p1))"

definition dialResolved :: "pbx_env \<Rightarrow> invite \<Rightarrow> string \<Rightarrow> string \<Rightarrow> string \<Rightarrow> server \<Rightarrow> invite_end \<times> server" where
  "dialResolved env iv from dial name p =
     dialResolvedWithOpts env iv from dial (with_headers env name from p (connectOpts env from dial p)) p"

definition handleRedial :: "pbx_env \<Rightarrow> invite \<Rightarrow> string \<Rightarrow> server \<Rightarrow> invite_end \<times> server" where
  "handleRedial env iv from p =
     (let n = GetLastDialed from (pbStore p)
      in if n = [] then (Responds 404, p) else dialResolved env iv from n (ivName iv) p)"

definition handleCallReturn :: "pbx_env \<Rightarrow> invite \<Rightarrow> string \<Rightarrow> server \<Rightarrow> invite_end \<times> server" where
  "handleCallReturn env iv from p =
     (let n = GetLastCaller from (pbStore p)
      in if n = [] then (Responds 404, p)
         else dialResolvedWithOpts env iv from n (with_headers env [] from p (connectOpts env from n p)) p)"

text \<open>HoldRemoteWithMOH: the bridge stops and the call counts as held.\<close>
definition hold_remote :: "nat \<Rightarrow> world \<Rightarrow> world" where
  "hold_remote r w = w\<lparr>wHeap := upd_call r (\<lambda>ac. ac\<lparr>acBridge := False, acHoldActive := True\<rparr>) (wHeap w)\<rparr>"

definition answer_and_end :: "pbx_env \<Rightarrow> invite_end" where
  "answer_and_end env = (if evAnswers env then AnswersAndEnds else AnswerFailed)"

definition handleTransfer :: "pbx_env \<Rightarrow> string \<Rightarrow> server \<Rightarrow> invite_end \<times> server" where
  "handleTransfer env from p =
     (let w = pbWorld p in
      case FindByExtension (wHeap w) (wReg w) from of
        None \<Rightarrow> (Responds 480, p)
      | Some r \<Rightarrow>
          (let (ok, h) = SetTransferReady from (wReg w) (wHeap w) in
           if \<not> ok then (Responds 480, p)
           else (answer_and_end env, p\<lparr>pbWorld := hold_remote r (w\<lparr>wHeap := h\<rparr>)\<rparr>)))"

definition park_call :: "pbx_env \<Rightarrow> invite \<Rightarrow> string \<Rightarrow> server \<Rightarrow> invite_end \<times> server" where
  "park_call env iv from p =
     (let (ok, w) = handlePark from (ivID iv) (pbWorld p)
      in if ok then (answer_and_end env, p\<lparr>pbWorld := w\<rparr>) else (Responds 480, p))"

text \<open>handleParkRetrieve; the digits are asked for when the code carries no slot.\<close>
definition park_slot :: "pbx_env \<Rightarrow> string \<Rightarrow> (invite_end, string) result" where
  "park_slot env slot =
     (if slot \<noteq> [] then Ok slot
      else if \<not> evAnswers env then Err AnswerFailed
      else (case evDigits env of None \<Rightarrow> Err AnswersAndEnds | Some d \<Rightarrow> if d = [] then Err AnswersAndEnds else Ok d))"

definition handleParkRetrieve :: "pbx_env \<Rightarrow> invite \<Rightarrow> string \<Rightarrow> string \<Rightarrow> server \<Rightarrow> invite_end \<times> server" where
  "handleParkRetrieve env iv from slot0 p =
     (case park_slot env slot0 of
        Inl e \<Rightarrow> (e, p)
      | Inr slot \<Rightarrow>
          (case Retrieve slot (wPark (pbWorld p)) of
             (None, _) \<Rightarrow> (Responds 404, p)
           | (Some pc, lot) \<Rightarrow>
               (let w = pbWorld p\<lparr>wPark := lot\<rparr>; (ok, p1) = acquire iv from (fcParkRetrieve (pbFeatures p) @ slot) p in
                if \<not> ok then (PlaysBusy, p1\<lparr>pbWorld := w\<lparr>wLive := release_parked pc (wLive w)\<rparr>\<rparr>)
                else (case BridgeParked (ivID iv) pc w of
                        (True, w') \<Rightarrow> (PicksUp pc, p1\<lparr>pbWorld := w'\<rparr>)
                      | (False, w') \<Rightarrow> (Responds 480, p1\<lparr>pbWorld := w'\<lparr>wLive := release_parked pc (wLive w')\<rparr>\<rparr>)))))"

text \<open>setDND changes the shared extension before it writes the file.\<close>
definition setDND :: "pbx_env \<Rightarrow> string \<Rightarrow> bool \<Rightarrow> server \<Rightarrow> bool \<times> server" where
  "setDND env e on p =
     (case get (pbExts p) e of
        None \<Rightarrow> (False, p)
      | Some x \<Rightarrow> (evSaved env, p\<lparr>pbExts := put e (x\<lparr>exDND := on\<rparr>) (pbExts p)\<rparr>))"

definition handleDND :: "pbx_env \<Rightarrow> string \<Rightarrow> bool \<Rightarrow> server \<Rightarrow> invite_end \<times> server" where
  "handleDND env from on p =
     (if \<not> IsRegistered (evLib env) (evNow env) from (pbReg p) then (Responds 403, p)
      else if \<not> has (pbExts p) from then (Responds 404, p)
      else let (ok, p1) = setDND env from on p in (if ok then answer_and_end env else Responds 500, p1))"

definition handleFeature :: "pbx_env \<Rightarrow> invite \<Rightarrow> string \<Rightarrow> route \<Rightarrow> server \<Rightarrow> invite_end \<times> server" where
  "handleFeature env iv from r p =
     (case rKind r of
        KindRedial \<Rightarrow> handleRedial env iv from p
      | KindCallReturn \<Rightarrow> handleCallReturn env iv from p
      | KindTransfer \<Rightarrow> handleTransfer env from p
      | KindPark \<Rightarrow> park_call env iv from p
      | KindParkRetrieve \<Rightarrow> handleParkRetrieve env iv from (rTarget r) p
      | KindDNDActivate \<Rightarrow> handleDND env from True p
      | KindDNDDeactivate \<Rightarrow> handleDND env from False p
      | _ \<Rightarrow> (Responds 404, p))"

text \<open>handleTransferComplete up to the start of CompleteTransfer\<close>
definition handleTransferComplete :: "pbx_env \<Rightarrow> invite \<Rightarrow> string \<Rightarrow> nat \<Rightarrow> string \<Rightarrow> server \<Rightarrow> invite_end \<times> server" where
  "handleTransferComplete env iv from r target p =
     (case DialTarget (evLib env) (evNow env) target (pbReg p) of
        None \<Rightarrow> (Responds 480, p)
      | Some (uri, dest, tr) \<Rightarrow>
          (let (ok, p1) = acquire iv from target p in
           if \<not> ok then (PlaysBusy, p1)
           else if \<not> evAnswers env then (AnswerFailed, invite_over iv p1)
           else (Transfers r uri (with_headers env (ivName iv) from p
                   (connectOpts env from target p\<lparr>opDest := dest, opTransport := tr\<rparr>)), p1)))"

section \<open>Inbound calls of trunks\<close>

text \<open>tryInboundTrunk: whether the trunk took the call, and how it ended.\<close>
definition tryInboundTrunk :: "pbx_env \<Rightarrow> invite \<Rightarrow> int \<Rightarrow> server \<Rightarrow> invite_end option \<times> server" where
  "tryInboundTrunk env iv trunkID p =
     (let route = GetTrunkRoute trunkID (pbStore p); dial = ivTo iv; kind = trRouteType route;
          (name, pre) = (case TrunkByID (pbConfig p) trunkID of None \<Rightarrow> ([], []) | Some t \<Rightarrow> (tkName t, tkPrefix t));
          target = (if kind = ''all'' then ''all-extensions'' else trRouteTarget route);
          p1 = p\<lparr>pbStore := logCall env dial target (ivName iv) ''inbound-trunk'' name pre (pbStore p)\<rparr>;
          oo = with_headers env (ivName iv) dial p (connectOpts env dial (trRouteTarget route) p)
      in if kind = ''extension'' then
           (if trRouteTarget route = [] then None else Some (bridgeToExtension env (ivFrom iv) (trRouteTarget route) oo p1), p1)
         else if kind = ''group'' then
           (if trRouteTarget route = [] then None else Some (handleHunt (trRouteTarget route) oo p1), p1)
         else if kind = ''all'' then
           (let exts = RegisteredExtensions (evNow env) (pbReg p); host = ExternalHost (evDetected env) (pbConfig p) in
            (Some (if exts = [] then Responds 480
                   else Hunts exts ''simultaneous'' 25
                          \<lparr>opVideo = False, opExternalIP = host, opCallerExt = dial, opCalleeExt = [],
                           opDialTimeout = 0, opRingTimeout = 0, opHeaders = OutboundHeaders (ivName iv) dial host,
                           opDest = [], opTransport = []\<rparr>), p1))
         else (None, p1))"

fun try_trunks :: "pbx_env \<Rightarrow> invite \<Rightarrow> trunk_config list \<Rightarrow> server \<Rightarrow> invite_end option \<times> server" where
  "try_trunks env iv [] p = (None, p)"
| "try_trunks env iv (t # ts) p =
     (case tryInboundTrunk env iv (tkID t) p of
        (Some e, p1) \<Rightarrow> (Some e, p1)
      | (None, p1) \<Rightarrow> try_trunks env iv ts p1)"

section \<open>The entry point\<close>

text \<open>A caller who is in a held call or about to transfer links the new dialog to it.\<close>
definition link_consult :: "invite \<Rightarrow> server \<Rightarrow> server" where
  "link_consult iv p =
     (let w = pbWorld p; linked = p\<lparr>pbWorld := w\<lparr>wHeap := SetConsult (ivFrom iv) (ivID iv) (wReg w) (wHeap w)\<rparr>\<rparr> in
      case FindByExtension (wHeap w) (wReg w) (ivFrom iv) of
        None \<Rightarrow> p
      | Some r \<Rightarrow>
          (case get (wHeap w) r of
             None \<Rightarrow> p
           | Some ac \<Rightarrow>
               if acHoldActive ac \<or> acTransferReady ac then
                 (if acIn ac \<noteq> None \<and> acIn ac \<noteq> Some (ivID iv) then linked
                  else if acHoldActive ac \<and> ivFrom iv = acCalleeExt ac then linked else p)
               else p))"

text \<open>The part of handleInvite that follows the dial plan.\<close>
definition dial_plan :: "pbx_env \<Rightarrow> invite \<Rightarrow> server \<Rightarrow> invite_end \<times> server" where
  "dial_plan env iv p =
     (let r = RouteDial (ivTo iv) (pbFeatures p); from = ivFrom iv in
      if rKind r \<in> {KindRedial, KindCallReturn, KindTransfer, KindPark, KindParkRetrieve, KindDNDActivate, KindDNDDeactivate}
      then handleFeature env iv from r p
      else if (case get (pbExts p) (ivTo iv) of None \<Rightarrow> False | Some e \<Rightarrow> \<not> exEnabled e) then (Responds 480, p)
      else
        (let (ok, p1) = acquire iv from (ivTo iv) p;
             oo = with_headers env (ivName iv) from p (connectOpts env from (rTarget r) p) in
         if \<not> ok then (PlaysBusy, p1)
         else (case rKind r of
                 KindExtension \<Rightarrow> (bridgeToExtension env from (rTarget r) oo p1, p1)
               | KindHunt \<Rightarrow> (handleHunt (rTarget r) oo p1, p1)
               | KindConference \<Rightarrow> (handleConference env (rTarget r) p1, p1)
               | KindPaging \<Rightarrow> (handlePaging env (rTarget r) p1, p1)
               | KindTrunk \<Rightarrow>
                   (outboundTrunk (rPrefix r) (rRest r) (oo\<lparr>opCalleeExt := rTarget r\<rparr>) p1,
                    case TrunkByPrefix (pbConfig p) (rPrefix r) of
                      None \<Rightarrow> p1
                    | Some t \<Rightarrow> p1\<lparr>pbStore := logCall env from (rTarget r) (ivName iv) ''outbound-trunk'' (tkName t) (tkPrefix t) (pbStore p1)\<rparr>)
               | _ \<Rightarrow> (let s = soundPath env p (sndWrongNumber (cSounds (pbConfig p)))
                      in if s \<noteq> [] then Announces s else Responds 404, p1))))"

definition transfer_waiting :: "string \<Rightarrow> server \<Rightarrow> nat option" where
  "transfer_waiting from p =
     (case FindByExtension (wHeap (pbWorld p)) (wReg (pbWorld p)) from of
        None \<Rightarrow> None
      | Some r \<Rightarrow> (case get (wHeap (pbWorld p)) r of None \<Rightarrow> None | Some ac \<Rightarrow> if acTransferReady ac then Some r else None))"

definition handleInvite :: "pbx_env \<Rightarrow> invite \<Rightarrow> server \<Rightarrow> invite_end \<times> server" where
  "handleInvite env iv p =
     (let r = RouteDial (ivTo iv) (pbFeatures p); from = ivFrom iv in
      case (if rKind r = KindExtension then transfer_waiting from p else None) of
        Some c \<Rightarrow> handleTransferComplete env iv from c (rTarget r) p
      | None \<Rightarrow>
          (let p1 = link_consult iv p in
           if IsRegistered (evLib env) (evNow env) from (pbReg p1) then dial_plan env iv p1
           else (case try_trunks env iv (EnabledTrunks (pbConfig p1)) p1 of
                   (Some e, p2) \<Rightarrow> (e, p2)
                 | (None, p2) \<Rightarrow> dial_plan env iv p2)))"

section \<open>State of extensions\<close>

definition presenceState :: "pbx_env \<Rightarrow> server \<Rightarrow> string \<Rightarrow> presence_state" where
  "presenceState env p e =
     (let up = IsRegistered (evLib env) (evNow env) e (pbReg p);
          st = (\<lambda>basic name. \<lparr>psBasic = basic, psDisplayName = name\<rparr>) in
      case get (pbExts p) e of
        Some x \<Rightarrow>
          st (if \<not> exEnabled x \<or> \<not> up then BasicClosed
              else if exDND x \<or> 0 < ExtensionActive (pbCalls p) e then BasicBusy else BasicOpen) (exDisplayName x)
      | None \<Rightarrow> st (if up then BasicOpen else BasicClosed) [])"

record extension_status =
  esExtension :: string
  esDisplayName :: string
  esRegistered :: bool
  esDND :: bool
  esActiveCalls :: int
  esInCallWith :: string

record status_report =
  srActiveCalls :: int
  srRegistered :: "string list"
  srExtensions :: "extension_status list"
  srBridged :: "call_snapshot list"
  srConnecting :: "session list"
  srParked :: "string list"

definition in_call :: "call_snapshot list \<Rightarrow> (string, string) gomap" where
  "in_call cs =
     fold (\<lambda>c m. if csCallerExt c \<noteq> [] \<and> csCalleeExt c \<noteq> []
                 then put (csCalleeExt c) (csCallerExt c) (put (csCallerExt c) (csCalleeExt c) m) else m) cs []"

definition Status :: "pbx_env \<Rightarrow> server \<Rightarrow> status_report" where
  "Status env p =
     (let reg = RegisteredExtensions (evNow env) (pbReg p);
          bridged = Snapshots (wHeap (pbWorld p)) (wReg (pbWorld p));
          exts = List.map (\<lambda>(i, e). \<lparr>esExtension = i, esDisplayName = exDisplayName e, esRegistered = (i \<in> set reg),
                    esDND = exDND e, esActiveCalls = ExtensionActive (pbCalls p) i,
                    esInCallWith = goget [] (in_call bridged) i\<rparr>) (pbExts p)
      in \<lparr>srActiveCalls = mgActive (pbCalls p), srRegistered = reg,
          srExtensions = sort_by (\<lambda>a b. str_le (esExtension a) (esExtension b)) exts,
          srBridged = bridged, srConnecting = ActiveSessions (pbCalls p), srParked = Slots (wPark (pbWorld p))\<rparr>)"

definition BridgedRelayBytes :: "string \<Rightarrow> string \<Rightarrow> world \<Rightarrow> nat option" where
  "BridgedRelayBytes caller callee w =
     (case FindByExtension (wHeap w) (wReg w) caller of
        None \<Rightarrow> None
      | Some r \<Rightarrow>
          (case get (wHeap w) r of
             None \<Rightarrow> None
           | Some ac \<Rightarrow>
               if (acCallerExt ac \<noteq> caller \<or> acCalleeExt ac \<noteq> callee) \<and> (acCallerExt ac \<noteq> callee \<or> acCalleeExt ac \<noteq> caller)
               then None else Some r))"

definition ReloadExtensions :: "(string, extension) gomap \<Rightarrow> server \<Rightarrow> server" where
  "ReloadExtensions exts p = p\<lparr>pbExts := exts, pbReg := UpdateExtensions exts (pbReg p)\<rparr>"

definition ReloadConfig :: "config \<Rightarrow> server \<Rightarrow> server" where
  "ReloadConfig cfg p = p\<lparr>pbConfig := cfg, pbFeatures := cFeatures cfg\<rparr>"

section \<open>Where an INVITE may end\<close>

definition reachable :: "pbx_env \<Rightarrow> server \<Rightarrow> string \<Rightarrow> sip_uri \<times> string \<times> string \<Rightarrow> bool" where
  "reachable env p e target =
     (DialTarget (evLib env) (evNow env) e (pbReg p) = Some target
      \<and> (\<forall>x. get (pbExts p) e = Some x \<longrightarrow> exEnabled x \<and> \<not> exDND x))"

definition in_dnd :: "server \<Rightarrow> string \<Rightarrow> bool" where
  "in_dnd p e = (\<exists>x. get (pbExts p) e = Some x \<and> exDND x)"

text \<open>What the caller may be connected to, by the way the handling ended.\<close>
definition end_ok :: "pbx_env \<Rightarrow> invite \<Rightarrow> server \<Rightarrow> invite_end \<Rightarrow> bool" where
  "end_ok env iv p e =
     (case e of
        Connects u oo \<Rightarrow> reachable env p (opCalleeExt oo) (u, opDest oo, opTransport oo)
      | ConnectsTrunk u user pw oo \<Rightarrow>
          (\<exists>t \<in> set (EnabledTrunks (pbConfig p)). uHost u = uHost (parseTrunkURI (tkServer t) []) \<and> user = tkUsername t \<and> pw = tkPassword t)
      | Hunts ms s n oo \<Rightarrow>
          (\<forall>m \<in> set ms. \<not> in_dnd p m)
          \<or> (\<not> IsRegistered (evLib env) (evNow env) (ivFrom iv) (pbReg p) \<and> ms = RegisteredExtensions (evNow env) (pbReg p))
      | JoinsRoom c m s b \<Rightarrow> cfEnabled c \<and> c \<in> set (vals (tbRows (dbConferences (pbStore p))))
      | Pages g ms \<Rightarrow> pgEnabled g \<and> g \<in> set (vals (tbRows (dbPagingGroups (pbStore p))))
      | PicksUp pc \<Rightarrow> pc \<in> set (vals (wPark (pbWorld p)))
      | Transfers r u oo \<Rightarrow>
          transfer_waiting (ivFrom iv) p = Some r
          \<and> DialTarget (evLib env) (evNow env) (opCalleeExt oo) (pbReg p) = Some (u, opDest oo, opTransport oo)
      | _ \<Rightarrow> True)"

text \<open>The parts of the state an end depends on.\<close>
definition same_targets :: "server \<Rightarrow> server \<Rightarrow> bool" where
  "same_targets p q =
     (pbConfig q = pbConfig p \<and> pbExts q = pbExts p \<and> pbReg q = pbReg p \<and> pbFeatures q = pbFeatures p
      \<and> wPark (pbWorld q) = wPark (pbWorld p)
      \<and> dbConferences (pbStore q) = dbConferences (pbStore p) \<and> dbPagingGroups (pbStore q) = dbPagingGroups (pbStore p))"

lemma same_targets_refl [simp]: "same_targets p p"
  by (simp add: same_targets_def)

lemma same_targets_trans: "same_targets p q \<Longrightarrow> same_targets q r \<Longrightarrow> same_targets p r"
  by (simp add: same_targets_def)

definition not_transfer :: "invite_end \<Rightarrow> bool" where
  "not_transfer e = (\<forall>r u oo. e \<noteq> Transfers r u oo)"

lemma end_ok_same: "same_targets p q \<Longrightarrow> not_transfer e \<Longrightarrow> end_ok env iv q e = end_ok env iv p e"
  by (cases e) (simp_all add: same_targets_def end_ok_def reachable_def in_dnd_def not_transfer_def)

lemma acquire_cases:
  "acquire iv from dial p = (b, q) \<Longrightarrow>
     \<exists>res m. TryAcquire (ivID iv) from dial (ivName iv) (pbExts p) (pbCalls p) = (res, m) \<and> q = p\<lparr>pbCalls := m\<rparr>"
  by (auto simp: acquire_def split: prod.splits sum.splits)

lemma acquire_same: "acquire iv from dial p = (b, q) \<Longrightarrow> same_targets p q"
  by (drule acquire_cases) (auto simp: same_targets_def)

lemma LogCall_tables [simp]:
  "dbConferences (LogCall t e d) = dbConferences d" "dbPagingGroups (LogCall t e d) = dbPagingGroups d"
  by (simp_all add: LogCall_def Let_def)

lemma logCall_tables [simp]:
  "dbConferences (logCall env a b c dir n x d) = dbConferences d" "dbPagingGroups (logCall env a b c dir n x d) = dbPagingGroups d"
  by (simp_all add: logCall_def)

lemma link_consult_same [simp]: "same_targets p (link_consult iv p)"
  by (auto simp: link_consult_def Let_def same_targets_def split: option.splits)

lemma link_consult_calls [simp]: "pbCalls (link_consult iv p) = pbCalls p"
  by (auto simp: link_consult_def Let_def split: option.splits)

lemma bridgeToExtension_ok: "end_ok env iv p (bridgeToExtension env from e oo p) \<and> not_transfer (bridgeToExtension env from e oo p)"
  by (auto simp: bridgeToExtension_def end_ok_def reachable_def not_transfer_def Let_def split: option.splits)

lemma handleHunt_ok: "end_ok env iv p (handleHunt n oo p) \<and> not_transfer (handleHunt n oo p)"
  by (auto simp: handleHunt_def end_ok_def not_transfer_def Let_def filterDND_def in_dnd_def split: option.splits)

lemma row_find_vals: "row_find key k tb = Some (i, r) \<Longrightarrow> r \<in> set (vals (tbRows tb))"
  by (simp add: row_find_def find_Some_iff del: set_map) (metis length_map nth_map nth_mem snd_conv)

lemma handleConference_ok: "end_ok env iv p (handleConference env n p) \<and> not_transfer (handleConference env n p)"
  by (auto simp: handleConference_def end_ok_def not_transfer_def GetConferenceByNumber_def simp del: set_map
      dest: row_find_vals split: option.splits)

lemma handlePaging_ok: "end_ok env iv p (handlePaging env n p) \<and> not_transfer (handlePaging env n p)"
  by (auto simp: handlePaging_def end_ok_def not_transfer_def GetPagingByCode_def simp del: set_map
      dest: row_find_vals split: option.splits)

lemma uHost_parseTrunkURI: "uHost (parseTrunkURI h user) = uHost (parseTrunkURI h [])"
  by (simp add: parseTrunkURI_def split: option.splits prod.splits)

lemma outboundTrunk_ok: "end_ok env iv p (outboundTrunk pre rest oo p) \<and> not_transfer (outboundTrunk pre rest oo p)"
proof (cases "TrunkByPrefix (pbConfig p) pre")
  case (Some t)
  then have "t \<in> set (EnabledTrunks (pbConfig p))"
    by (auto simp: TrunkByPrefix_def EnabledTrunks_def find_Some_iff)
  with Some show ?thesis
    by (auto simp: outboundTrunk_def Outbound_def end_ok_def not_transfer_def uHost_parseTrunkURI [of _ rest])
qed (simp add: outboundTrunk_def Outbound_def end_ok_def not_transfer_def)

lemmas destinations_ok = bridgeToExtension_ok handleHunt_ok handleConference_ok handlePaging_ok outboundTrunk_ok

text \<open>A handler is sound when it ends as the state it started in allows.\<close>
definition sound :: "pbx_env \<Rightarrow> invite \<Rightarrow> server \<Rightarrow> invite_end \<times> server \<Rightarrow> bool" where
  "sound env iv p er = (end_ok env iv p (fst er) \<and> not_transfer (fst er))"

lemma sound_plain [simp, intro]:
  "sound env iv p (PlaysBusy, q)" "sound env iv p (KeepsRinging, q)" "sound env iv p (AnswersAndEnds, q)"
  "sound env iv p (AnswerFailed, q)" "sound env iv p (Responds n, q)" "sound env iv p (Announces s, q)"
  by (simp_all add: sound_def end_ok_def not_transfer_def)

lemma sound_after: "same_targets p q \<Longrightarrow> sound env iv q er \<Longrightarrow> sound env iv p er"
  by (auto simp: sound_def end_ok_same)

lemma sound_end: "end_ok env iv p e \<and> not_transfer e \<Longrightarrow> sound env iv p (e, q)"
  by (simp add: sound_def)

lemma dialResolvedWithOpts_sound: "sound env iv p (dialResolvedWithOpts env iv from dial oo p)"
proof -
  obtain b q where q: "acquire iv from dial p = (b, q)" by fastforce
  show ?thesis
    by (rule sound_after [OF acquire_same [OF q]])
      (simp add: dialResolvedWithOpts_def Let_def q sound_end destinations_ok split: kind.split)
qed

lemma dialResolved_sound: "sound env iv p (dialResolved env iv from dial name p)"
  by (simp add: dialResolved_def dialResolvedWithOpts_sound)

lemma handleParkRetrieve_sound: "sound env iv p (handleParkRetrieve env iv from slot p)"
proof (cases "park_slot env slot")
  case (Inl e)
  then have "end_ok env iv p e \<and> not_transfer e"
    by (auto simp: park_slot_def end_ok_def not_transfer_def split: if_splits option.splits)
  with Inl show ?thesis by (simp add: handleParkRetrieve_def sound_def)
next
  case (Inr s)
  obtain b q where q: "acquire iv from (fcParkRetrieve (pbFeatures p) @ s) p = (b, q)" by fastforce
  show ?thesis
  proof (cases "get (wPark (pbWorld p)) s")
    case (Some pc)
    then have "pc \<in> set (vals (wPark (pbWorld p)))" by (force dest: get_in_set)
    then have "end_ok env iv p (PicksUp pc) \<and> not_transfer (PicksUp pc)" by (simp add: end_ok_def not_transfer_def)
    with Inr Some q show ?thesis
      by (auto simp: handleParkRetrieve_def Retrieve_def Let_def sound_end split: prod.split bool.split)
  qed (use Inr in \<open>simp add: handleParkRetrieve_def Retrieve_def\<close>)
qed

lemma handleFeature_sound: "sound env iv p (handleFeature env iv from r p)"
  by (auto simp: handleFeature_def handleRedial_def handleCallReturn_def handleTransfer_def park_call_def
      handleDND_def answer_and_end_def Let_def dialResolved_sound dialResolvedWithOpts_sound handleParkRetrieve_sound
      split: kind.split option.split prod.split)

lemma dial_plan_sound: "sound env iv p (dial_plan env iv p)"
proof -
  obtain b q where q: "acquire iv (ivFrom iv) (ivTo iv) p = (b, q)" by fastforce
  note same = acquire_same [OF q]
  have d: "sound env iv p (e, q')" if "end_ok env iv q e \<and> not_transfer e" for e q'
    using that end_ok_same [OF same] by (auto simp: sound_def)
  show ?thesis
    by (simp add: dial_plan_def Let_def q handleFeature_sound d destinations_ok split: kind.split)
qed

lemma tryInboundTrunk_same: "tryInboundTrunk env iv t p = (e, q) \<Longrightarrow> same_targets p q \<and> pbCalls q = pbCalls p \<and> pbWorld q = pbWorld p"
  by (auto simp: tryInboundTrunk_def same_targets_def Let_def split: prod.splits option.splits if_splits)

lemma tryInboundTrunk_ok:
  assumes new: "\<not> IsRegistered (evLib env) (evNow env) (ivFrom iv) (pbReg p)"
    and e: "tryInboundTrunk env iv t p = (Some e, q)"
  shows "end_ok env iv q e \<and> not_transfer e"
proof -
  have hunts: "end_ok env iv q (Hunts (RegisteredExtensions (evNow env) (pbReg q)) s n oo)" for s n oo
    using new tryInboundTrunk_same [OF e] by (simp add: end_ok_def same_targets_def)
  show ?thesis
    using e hunts destinations_ok tryInboundTrunk_same [OF e]
    by (auto simp: tryInboundTrunk_def Let_def same_targets_def end_ok_def not_transfer_def
        split: prod.splits option.splits if_splits)
qed

lemma try_trunks_ok:
  assumes "\<not> IsRegistered (evLib env) (evNow env) (ivFrom iv) (pbReg p)" "try_trunks env iv ts p = (r, q)"
  shows "same_targets p q \<and> pbCalls q = pbCalls p \<and> pbWorld q = pbWorld p \<and> (\<forall>e. r = Some e \<longrightarrow> sound env iv p (e, q))"
  using assms
proof (induction ts arbitrary: p)
  case (Cons t ts)
  obtain e p1 where t: "tryInboundTrunk env iv (tkID t) p = (e, p1)" by fastforce
  note same = tryInboundTrunk_same [OF t]
  show ?case
  proof (cases e)
    case None
    then have r: "try_trunks env iv ts p1 = (r, q)" using Cons.prems(2) t by simp
    have "\<not> IsRegistered (evLib env) (evNow env) (ivFrom iv) (pbReg p1)"
      using Cons.prems(1) same by (simp add: same_targets_def)
    from Cons.IH [OF this r] same show ?thesis by (auto intro: same_targets_trans sound_after)
  next
    case (Some x)
    then have "r = Some x" "q = p1" using Cons.prems(2) t by simp_all
    with same tryInboundTrunk_ok [OF Cons.prems(1), of "tkID t" x p1] t Some show ?thesis
      by (auto intro: sound_after sound_end)
  qed
qed simp

text \<open>C1: Where any INVITE may end: it is connected only to an extension that has a binding and is
  neither disabled nor in do-not-disturb, to an enabled trunk with that trunk's credentials,
  to members of a hunt group that are not in do-not-disturb, to an enabled conference or
  paging group, to a call that is parked, or as the target of a transfer its caller started;
  only a caller who is not registered can make every registered phone ring.\<close>
theorem invite_end_ok: "end_ok env iv p (fst (handleInvite env iv p))"
proof (cases "if rKind (RouteDial (ivTo iv) (pbFeatures p)) = KindExtension then transfer_waiting (ivFrom iv) p else None")
  case (Some c)
  then have c: "transfer_waiting (ivFrom iv) p = Some c" by (simp split: if_splits)
  show ?thesis
    using c by (auto simp: handleInvite_def Some handleTransferComplete_def end_ok_def Let_def connectOpts_def with_headers_def
        split: option.split prod.split)
next
  case None
  let ?p1 = "link_consult iv p"
  have s1: "sound env iv p (dial_plan env iv ?p1)" by (rule sound_after [OF link_consult_same dial_plan_sound])
  show ?thesis
  proof (cases "IsRegistered (evLib env) (evNow env) (ivFrom iv) (pbReg ?p1)")
    case True
    with None s1 show ?thesis by (simp add: handleInvite_def Let_def sound_def)
  next
    case False
    obtain r q where q: "try_trunks env iv (EnabledTrunks (pbConfig ?p1)) ?p1 = (r, q)" by fastforce
    note t = try_trunks_ok [OF False q]
    have "sound env iv p (dial_plan env iv q)"
      by (rule sound_after [OF link_consult_same sound_after [OF conjunct1 [OF t] dial_plan_sound]])
    moreover have "sound env iv p (e, q)" if "r = Some e" for e
      using t that sound_after [OF link_consult_same [of p iv]] by blast
    ultimately show ?thesis using None False q by (auto simp: handleInvite_def Let_def sound_def split: option.split)
  qed
qed

section \<open>Counting the calls of INVITEs\<close>

text \<open>A manager that has recorded the INVITE or not, so that its release leads back.\<close>
definition counted :: "string \<Rightarrow> manager \<Rightarrow> manager \<Rightarrow> bool" where
  "counted i m m' =
     (mgr_inv m' \<and> mgByID (Release i m') = mgByID m \<and> mgActive (Release i m') = mgActive m \<and> mgMax m' = mgMax m)"

lemma del_put_fresh: "\<not> has m k \<Longrightarrow> del k (put k v m) = m"
  by (induction m) (auto split: if_splits)

lemma Release_absent: "\<not> has (mgByID m) i \<Longrightarrow> Release i m = m"
  by (simp add: Release_def)

lemma counted_refl: "mgr_inv m \<Longrightarrow> \<not> has (mgByID m) i \<Longrightarrow> counted i m m"
  by (simp add: counted_def Release_absent)

lemma counted_acquire:
  assumes inv: "mgr_inv m" and new: "\<not> has (mgByID m) i"
  shows "counted i m (snd (TryAcquire i caller callee name exts m))"
proof -
  have "mgr_inv (snd (TryAcquire i caller callee name exts m))" using inv new by (rule TryAcquire_inv)
  then show ?thesis
    using new by (auto simp: counted_def TryAcquire_def mgr_record_def Release_def Let_def del_put_fresh split: option.split)
qed

lemma counted_release:
  assumes c: "counted i m m'" and new: "\<not> has (mgByID m) i"
  shows "counted i m (Release i m')"
proof -
  have "\<not> has (mgByID (Release i m')) i" using c new by (simp add: counted_def)
  then show ?thesis using c Release_inv [of m' i] by (simp add: counted_def Release_absent) (simp add: Release_def split: option.split)
qed

lemma counted_acquire_server:
  assumes "mgr_inv (pbCalls p)" "\<not> has (mgByID (pbCalls p)) (ivID iv)"
  shows "counted (ivID iv) (pbCalls p) (pbCalls (snd (acquire iv from dial p)))"
  using counted_acquire [OF assms, of "from" dial "ivName iv" "pbExts p"]
  by (auto simp: acquire_def split: prod.splits sum.splits)

text \<open>The managers an INVITE can leave behind.\<close>
lemma dialResolvedWithOpts_calls:
  "pbCalls (snd (dialResolvedWithOpts env iv from dial oo p)) = pbCalls (snd (acquire iv from dial p))"
  by (simp add: dialResolvedWithOpts_def Let_def split: prod.split kind.split)

lemma handleParkRetrieve_calls:
  "\<exists>dial. pbCalls (snd (handleParkRetrieve env iv from slot p)) \<in> {pbCalls p, pbCalls (snd (acquire iv from dial p))}"
  by (auto simp: handleParkRetrieve_def Let_def split: prod.split option.split sum.split bool.split)
    (metis snd_conv)+

lemma handleFeature_calls:
  "\<exists>dial. pbCalls (snd (handleFeature env iv from r p)) \<in> {pbCalls p, pbCalls (snd (acquire iv from dial p))}"
  using handleParkRetrieve_calls [of env iv "from" "rTarget r" p]
  by (auto simp: handleFeature_def handleRedial_def handleCallReturn_def handleTransfer_def park_call_def
      handleDND_def setDND_def Let_def dialResolved_def dialResolvedWithOpts_calls
      split: kind.split option.split prod.split)

lemma dial_plan_calls:
  "\<exists>dial. pbCalls (snd (dial_plan env iv p)) \<in> {pbCalls p, pbCalls (snd (acquire iv (ivFrom iv) dial p))}"
proof -
  let ?r = "RouteDial (ivTo iv) (pbFeatures p)"
  obtain b q where q: "acquire iv (ivFrom iv) (ivTo iv) p = (b, q)" by fastforce
  have "pbCalls (snd (dial_plan env iv p)) \<in> {pbCalls p, pbCalls q}"
    if "rKind ?r \<notin> {KindRedial, KindCallReturn, KindTransfer, KindPark, KindParkRetrieve, KindDNDActivate, KindDNDDeactivate}"
    using that by (auto simp: dial_plan_def Let_def q split: kind.split option.split)
  moreover have "snd (dial_plan env iv p) = snd (handleFeature env iv (ivFrom iv) ?r p)"
    if "rKind ?r \<in> {KindRedial, KindCallReturn, KindTransfer, KindPark, KindParkRetrieve, KindDNDActivate, KindDNDDeactivate}"
    using that by (simp add: dial_plan_def Let_def)
  ultimately show ?thesis
    using handleFeature_calls [of env iv "ivFrom iv" ?r p] q by (metis insert_iff snd_conv)
qed

lemma handleTransferComplete_calls:
  "\<exists>q. pbCalls (snd (handleTransferComplete env iv f c target p)) \<in> {pbCalls p, pbCalls q, Release (ivID iv) (pbCalls q)}
     \<and> q = snd (acquire iv f target p)"
  by (auto simp: handleTransferComplete_def invite_over_def Let_def split: prod.split option.split)

lemma handleInvite_counted:
  assumes inv: "mgr_inv (pbCalls p)" and new: "\<not> has (mgByID (pbCalls p)) (ivID iv)"
  shows "counted (ivID iv) (pbCalls p) (pbCalls (snd (handleInvite env iv p)))"
proof -
  have plan: "counted (ivID iv) (pbCalls p) (pbCalls (snd (dial_plan env iv q)))" if q: "pbCalls q = pbCalls p" for q
    using dial_plan_calls [of env iv q] counted_acquire_server [of q iv] counted_refl [OF inv new] inv new q by auto
  have complete: "counted (ivID iv) (pbCalls p) (pbCalls (snd (handleTransferComplete env iv f c target p)))" for f c target
    using handleTransferComplete_calls [of env iv f c target p] counted_acquire_server [OF inv new]
      counted_refl [OF inv new] counted_release [OF _ new] by auto
  have trunks: "pbCalls q = pbCalls p"
    if "\<not> IsRegistered (evLib env) (evNow env) (ivFrom iv) (pbReg (link_consult iv p))"
      "try_trunks env iv (EnabledTrunks (pbConfig (link_consult iv p))) (link_consult iv p) = (r, q)" for r q
    using try_trunks_ok [OF that] by simp
  show ?thesis
    using plan complete trunks counted_refl [OF inv new]
    by (auto simp: handleInvite_def Let_def split: option.split prod.split)
qed


section \<open>Histories, do-not-disturb and trunks\<close>

lemma history_put [simp]:
  "GetLastDialed e (SetLastDialed e' n d) = (if e = e' then n else GetLastDialed e d)"
  "GetLastCaller e (SetLastDialed e' n d) = GetLastCaller e d"
  "GetLastCaller e (SetLastCaller e' n d) = (if e = e' then n else GetLastCaller e d)"
  "GetLastDialed e (SetLastCaller e' n d) = GetLastDialed e d"
  by (auto simp: GetLastDialed_def GetLastCaller_def SetLastDialed_def SetLastCaller_def history_of_def goget_def split: option.split)

lemma history_logCall [simp]:
  "GetLastDialed e (logCall env a b c dir n x d) = GetLastDialed e d"
  "GetLastCaller e (logCall env a b c dir n x d) = GetLastCaller e d"
  by (simp_all add: GetLastDialed_def GetLastCaller_def logCall_def LogCall_def Let_def)

text \<open>After an answered call the caller's redial code dials the callee again, the callee's return
  code dials the caller, and no other extension's history has changed.\<close>
theorem redial_round_trip:
  assumes "caller \<noteq> []" "callee \<noteq> []" and q: "q = p\<lparr>pbStore := recordCall env' caller callee (pbStore p)\<rparr>"
  shows "handleRedial env iv caller q = dialResolved env iv caller callee (ivName iv) q
    \<and> handleCallReturn env iv callee q
        = dialResolvedWithOpts env iv callee caller (with_headers env [] callee q (connectOpts env callee caller q)) q
    \<and> (\<forall>e. e \<noteq> caller \<longrightarrow> GetLastDialed e (pbStore q) = GetLastDialed e (pbStore p))
    \<and> (\<forall>e. e \<noteq> callee \<longrightarrow> GetLastCaller e (pbStore q) = GetLastCaller e (pbStore p))"
  using assms(1,2) by (simp add: q handleRedial_def handleCallReturn_def recordCall_def Let_def)

text \<open>A call from a trunk that reaches an extension is recorded there as a call from the number
  that was dialled: the extension's return code dials that number and not the caller's.\<close>
theorem inbound_caller_lost:
  assumes call: "tryInboundTrunk env iv t p = (Some (Connects u oo), q)" and to: "ivTo iv \<noteq> []"
  shows "GetLastCaller (opCalleeExt oo) (recordCall env (opCallerExt oo) (opCalleeExt oo) (pbStore q)) = ivTo iv"
proof -
  have "opCallerExt oo = ivTo iv" "opCalleeExt oo \<noteq> []"
    using call by (auto simp: tryInboundTrunk_def bridgeToExtension_def handleHunt_def with_headers_def connectOpts_def Let_def
        split: if_splits option.splits prod.splits)
  with to show ?thesis by (simp add: recordCall_def)
qed


text \<open>C15: An INVITE whose caller is not registered is taken as a call from the first enabled trunk,
  whoever sent it; while that trunk's route is the default one, it makes every registered
  phone ring, whatever was dialled, and is not counted against max_calls.\<close>
theorem unregistered_rings_all:
  assumes new: "\<not> IsRegistered (evLib env) (evNow env) (ivFrom iv) (pbReg p)"
    and idle: "transfer_waiting (ivFrom iv) p = None"
    and trunk: "EnabledTrunks (pbConfig p) = t # ts" "trRouteType (GetTrunkRoute (tkID t) (pbStore p)) = ''all''"
    and some: "RegisteredExtensions (evNow env) (pbReg p) \<noteq> []"
  shows "\<exists>oo. fst (handleInvite env iv p) = Hunts (RegisteredExtensions (evNow env) (pbReg p)) ''simultaneous'' 25 oo
           \<and> pbCalls (snd (handleInvite env iv p)) = pbCalls p"
proof -
  let ?p = "link_consult iv p"
  have same: "pbReg ?p = pbReg p" "pbConfig ?p = pbConfig p" using link_consult_same [of p iv] by (simp_all add: same_targets_def)
  have store: "pbStore ?p = pbStore p" by (auto simp: link_consult_def Let_def split: option.splits)
  obtain nm pre where "(case TrunkByID (pbConfig p) (tkID t) of None \<Rightarrow> ([], []) | Some t \<Rightarrow> (tkName t, tkPrefix t)) = (nm, pre)"
    by fastforce
  then obtain oo q where q: "tryInboundTrunk env iv (tkID t) ?p
      = (Some (Hunts (RegisteredExtensions (evNow env) (pbReg p)) ''simultaneous'' 25 oo), q)"
    using trunk(2) some same store by (simp add: tryInboundTrunk_def Let_def)
  have none: "(if rKind (RouteDial (ivTo iv) (pbFeatures p)) = KindExtension then transfer_waiting (ivFrom iv) p else None) = None"
    using idle by simp
  have "handleInvite env iv p = (Hunts (RegisteredExtensions (evNow env) (pbReg p)) ''simultaneous'' 25 oo, q)"
    using new trunk(1) same q by (simp add: handleInvite_def Let_def none)
  with tryInboundTrunk_same [OF q] show ?thesis by simp
qed

section \<open>A small server\<close>

definition demo_env :: pbx_env where
  "demo_env = \<lparr>evLib = demo_sip, evNow = 0, evStamp = ''t1'', evDetected = ''10.0.0.1'', evCfgDir = ''/etc/pbx'',
     evAnswers = True, evDigits = None, evSaved = True, evOrder = (\<lambda>x. x)\<rparr>"

definition demo_server :: server where
  "demo_server = \<lparr>pbConfig = demo_kept True, pbExts = [(''101'', demo_ext\<lparr>exEnabled := True\<rparr>)], pbStore = empty_db,
     pbReg = demo_registrar, pbCalls = NewManager 10, pbWorld = empty_world, pbFeatures = DefaultFeatureCodes\<rparr>"

text \<open>A call from the outside: nobody registered as 555.\<close>
definition demo_invite :: invite where
  "demo_invite = \<lparr>ivID = ''d1'', ivFrom = ''555'', ivTo = ''101'', ivName = ''Eve''\<rparr>"

lemma demo_unregistered: "\<not> IsRegistered (evLib demo_env) (evNow demo_env) (ivFrom demo_invite) (pbReg demo_server)"
  by (simp add: IsRegistered_def ContactURI_def DialTarget_def demo_env_def demo_invite_def demo_server_def demo_registrar_def goget_def live_at_def)

lemma demo_registered:
  "RegisteredExtensions 0 demo_registrar = [''101'']" "IsRegistered demo_sip 0 ''101'' demo_registrar"
  "DialTarget demo_sip 0 ''101'' demo_registrar = Some (bindingToDialTarget demo_sip ''101'' demo_binding)"
  by (simp_all add: RegisteredExtensions_def IsRegistered_def ContactURI_def DialTarget_def demo_registrar_def live_at_def
      goget_def demo_binding_def)

theorem unregistered_rings_all_witness:
  "\<exists>oo. fst (handleInvite demo_env demo_invite demo_server) = Hunts [''101''] ''simultaneous'' 25 oo"
proof -
  have "transfer_waiting (ivFrom demo_invite) demo_server = None"
    by (simp add: transfer_waiting_def demo_server_def empty_world_def NewRegistry_def FindByExtension_def)
  moreover have "EnabledTrunks (pbConfig demo_server) = [demo_trunk\<lparr>tkID := 1, tkKeepalive := ''options'', tkEnabled := True\<rparr>]"
    by (simp add: EnabledTrunks_def demo_server_def demo_kept_def)
  moreover have "trRouteType (GetTrunkRoute 1 (pbStore demo_server)) = ''all''"
    by (simp add: GetTrunkRoute_def demo_server_def empty_db_def)
  ultimately show ?thesis
    using unregistered_rings_all [OF demo_unregistered] demo_registered(1) by (simp add: demo_server_def demo_env_def)
qed


theorem redial_round_trip_witness:
  "GetLastCaller ''102'' (recordCall demo_env ''101'' ''102'' empty_db) = ''101''
   \<and> handleRedial demo_env demo_invite ''101'' (demo_server\<lparr>pbStore := recordCall demo_env ''101'' ''102'' empty_db\<rparr>)
      = dialResolved demo_env demo_invite ''101'' ''102'' ''Eve'' (demo_server\<lparr>pbStore := recordCall demo_env ''101'' ''102'' empty_db\<rparr>)"
  using redial_round_trip [where caller = "''101''" and callee = "''102''" and p = demo_server and env' = demo_env
      and env = demo_env and iv = demo_invite, OF _ _ refl]
  by (simp add: demo_server_def demo_invite_def recordCall_def)


theorem inbound_caller_lost_witness:
  "\<exists>u oo q. tryInboundTrunk demo_env demo_invite 1
       (demo_server\<lparr>pbStore := SaveTrunkRoute \<lparr>trTrunkID = 1, trRouteType = ''extension'', trRouteTarget = ''101''\<rparr> empty_db\<rparr>)
       = (Some (Connects u oo), q)
     \<and> GetLastCaller (opCalleeExt oo) (recordCall demo_env (opCallerExt oo) (opCalleeExt oo) (pbStore q)) = ''101''"
proof -
  let ?p = "demo_server\<lparr>pbStore := SaveTrunkRoute \<lparr>trTrunkID = 1, trRouteType = ''extension'', trRouteTarget = ''101''\<rparr> empty_db\<rparr>"
  obtain u dest tr where b: "bindingToDialTarget demo_sip ''101'' demo_binding = (u, dest, tr)" by (metis prod_cases3)
  obtain oo q where q: "tryInboundTrunk demo_env demo_invite 1 ?p = (Some (Connects u oo), q)"
    using demo_registered(3) b
    by (simp add: tryInboundTrunk_def bridgeToExtension_def GetTrunkRoute_def SaveTrunkRoute_def demo_server_def demo_env_def
        demo_ext_def TrunkByID_def demo_kept_def Let_def)
  with inbound_caller_lost [OF q] show ?thesis by (auto simp: demo_invite_def)
qed

end
