(* ===== verification/Pages.thy ===== *)
theory Pages
  imports Pbx
begin

text \<open>
  The pages of the administration server (internal/web: ui.go, forms.go and
  the page handlers of server.go, phonebook.go, backup.go and status.go).  A
  page is a list of pieces: the literals of the code, texts that go through
  html.EscapeString and numbers; what is sent is their concatenation.  The
  frame of templates.go around a page, its style sheet and its icons are not
  modelled.  Bytes above 127 of the literals are written out in UTF-8.
\<close>

section \<open>HTML\<close>

datatype piece = Lit string | Dyn string | Num int

type_synonym html = "piece list"

text \<open>html.EscapeString\<close>
definition escape_char :: "char \<Rightarrow> string" where
  "escape_char c =
     (if c = CHR ''&'' then ''&amp;'' else if c = CHR 39 then ''&#39;'' else if c = CHR ''<'' then ''&lt;''
      else if c = CHR ''>'' then ''&gt;'' else if c = CHR 34 then ''&#34;'' else [c])"

definition EscapeString :: "string \<Rightarrow> string" where
  "EscapeString s = concat (List.map escape_char s)"

fun piece_string :: "piece \<Rightarrow> string" where
  "piece_string (Lit s) = s"
| "piece_string (Dyn s) = EscapeString s"
| "piece_string (Num n) = itoa n"

definition html_string :: "html \<Rightarrow> string" where
  "html_string h = concat (List.map piece_string h)"

abbreviation lit :: "string \<Rightarrow> html" where "lit s \<equiv> [Lit s]"
abbreviation dyn :: "string \<Rightarrow> html" where "dyn s \<equiv> [Dyn s]"
abbreviation num :: "int \<Rightarrow> html" where "num n \<equiv> [Num n]"

definition bool_html :: "bool \<Rightarrow> html" where
  "bool_html b = (if b then lit ''true'' else lit ''false'')"

text \<open>How a browser reads the characters: as text, inside a tag, after the equals sign of an
  attribute, inside its value without quotes or with them.\<close>
datatype html_state = InText | InTag | AfterEq | InBare | InValue | InSingle

fun html_step :: "html_state \<Rightarrow> char \<Rightarrow> html_state" where
  "html_step InText c = (if c = CHR ''<'' then InTag else InText)"
| "html_step InTag c = (if c = CHR ''='' then AfterEq else if c = CHR ''>'' then InText else InTag)"
| "html_step AfterEq c =
     (if c = CHR 34 then InValue else if c = CHR 39 then InSingle else if c = CHR ''>'' then InText
      else if is_space c then AfterEq else InBare)"
| "html_step InBare c = (if c = CHR ''>'' then InText else if is_space c then InTag else InBare)"
| "html_step InValue c = (if c = CHR 34 then InTag else InValue)"
| "html_step InSingle c = (if c = CHR 39 then InTag else InSingle)"

fun html_run :: "html_state \<Rightarrow> string \<Rightarrow> html_state" where
  "html_run q [] = q"
| "html_run q (c # cs) = html_run (html_step q c) cs"

text \<open>The markup: the characters of the tags, without what stands in quotes.\<close>
definition is_markup :: "html_state \<Rightarrow> char \<Rightarrow> bool" where
  "is_markup q c = (case q of InText \<Rightarrow> c = CHR ''<'' | InValue \<Rightarrow> c = CHR 34 | InSingle \<Rightarrow> c = CHR 39 | _ \<Rightarrow> True)"

fun markup :: "html_state \<Rightarrow> string \<Rightarrow> string" where
  "markup q [] = []"
| "markup q (c # cs) = (if is_markup q c then [c] else []) @ markup (html_step q c) cs"

text \<open>A page without its texts and numbers\<close>
fun erase :: "html \<Rightarrow> html" where
  "erase [] = []"
| "erase (Lit s # h) = Lit s # erase h"
| "erase (Dyn s # h) = erase h"
| "erase (Num n # h) = erase h"

text \<open>Where a page leaves the reader, if every text and number stands in the text or in a quoted
  value\<close>
fun scan :: "html_state \<Rightarrow> html \<Rightarrow> html_state option" where
  "scan q [] = Some q"
| "scan q (Lit s # h) = scan (html_run q s) h"
| "scan q (Dyn s # h) = (if q = InText \<or> q = InValue then scan q h else None)"
| "scan q (Num n # h) = (if q = InText \<or> q = InValue then scan q h else None)"

text \<open>Stored texts cannot add to the markup of a page, and the page ends outside its tags.\<close>
definition page_safe :: "html \<Rightarrow> bool" where
  "page_safe h = (markup InText (html_string h) = markup InText (html_string (erase h))
     \<and> html_run InText (html_string h) = InText)"

lemma html_run_append: "html_run q (a @ b) = html_run (html_run q a) b"
  by (induction a arbitrary: q) auto

lemma markup_append: "markup q (a @ b) = markup q a @ markup (html_run q a) b"
  by (induction a arbitrary: q) auto

definition harmless :: "char \<Rightarrow> bool" where
  "harmless c = (c \<noteq> CHR ''<'' \<and> c \<noteq> CHR 34)"

lemma harmless_step: "harmless c \<Longrightarrow> q = InText \<or> q = InValue \<Longrightarrow> html_step q c = q \<and> \<not> is_markup q c"
  by (elim disjE) (simp_all add: harmless_def is_markup_def)

lemma harmless_run:
  assumes "q = InText \<or> q = InValue"
  shows "\<forall>c \<in> set s. harmless c \<Longrightarrow> html_run q s = q \<and> markup q s = []"
  by (induction s) (simp_all add: harmless_step [OF _ assms])

lemma EscapeString_harmless: "c \<in> set (EscapeString s) \<Longrightarrow> harmless c"
  by (auto simp: EscapeString_def escape_char_def harmless_def split: if_splits)

lemma itoa_harmless: "c \<in> set (itoa n) \<Longrightarrow> harmless c"
  using nat_digits_digits [of c] by (auto simp: itoa_def harmless_def is_digit_def byte_def split: if_splits)

lemma scan_sound:
  "scan q h = Some q' \<Longrightarrow> html_run q (html_string h) = q' \<and> markup q (html_string h) = markup q (html_string (erase h))
     \<and> html_run q (html_string (erase h)) = q'"
proof (induction q h rule: scan.induct)
  case (3 q s h)
  then have "html_run q (EscapeString s) = q" "markup q (EscapeString s) = []"
    using harmless_run [of q "EscapeString s"] EscapeString_harmless by (auto split: if_splits)
  with 3 show ?case by (simp add: html_string_def html_run_append markup_append split: if_splits)
next
  case (4 q n h)
  then have "html_run q (itoa n) = q" "markup q (itoa n) = []"
    using harmless_run [of q "itoa n"] itoa_harmless by (auto split: if_splits)
  with 4 show ?case by (simp add: html_string_def html_run_append markup_append split: if_splits)
qed (simp_all add: html_string_def html_run_append markup_append)

lemma scan_append: "scan q (a @ b) = (case scan q a of None \<Rightarrow> None | Some q' \<Rightarrow> scan q' b)"
  by (induction q a rule: scan.induct) auto

text \<open>A piece of page that can stand anywhere in the text\<close>
definition balanced :: "html \<Rightarrow> bool" where
  "balanced h = (scan InText h = Some InText)"

lemma balanced_safe: "balanced h \<Longrightarrow> page_safe h"
  using scan_sound [of InText h InText] by (simp add: balanced_def page_safe_def)

named_theorems balance \<open>balanced parts of pages\<close>

lemma balanced_Nil [balance]: "balanced []"
  by (simp add: balanced_def)

lemma balanced_append [balance]: "balanced a \<Longrightarrow> balanced b \<Longrightarrow> balanced (a @ b)"
  by (simp add: balanced_def scan_append)

lemma balanced_dyn [balance]: "balanced (dyn s)" "balanced (num n)"
  by (simp_all add: balanced_def)

lemma balanced_concat [balance]: "(\<And>x. x \<in> set xs \<Longrightarrow> balanced (f x)) \<Longrightarrow> balanced (concat (List.map f xs))"
  by (induction xs) (auto intro: balance)

lemma balanced_if [balance]: "(b \<Longrightarrow> balanced x) \<Longrightarrow> (\<not> b \<Longrightarrow> balanced y) \<Longrightarrow> balanced (if b then x else y)"
  by simp

lemma bool_html_scan [simp]: "q = InText \<or> q = InValue \<Longrightarrow> scan q (bool_html b) = Some q"
  by (auto simp: bool_html_def)

lemma balanced_bool [balance]: "balanced (bool_html b)"
  by (simp add: balanced_def)

section \<open>Parts of pages\<close>

definition pageHeader :: "string \<Rightarrow> html \<Rightarrow> html" where
  "pageHeader title lead =
     lit ''<header class=\"page-header\"><h1>'' @ dyn title @ lit ''</h1>''
     @ (if lead \<noteq> [] then lit ''<p class=\"page-lead\">'' @ lead @ lit ''</p>'' else [])
     @ lit ''</header>''"

definition panel :: "string \<Rightarrow> html \<Rightarrow> html" where
  "panel title inner =
     lit ''<section class=\"panel\">''
     @ (if title \<noteq> [] then lit ''<div class=\"panel-head\"><h2>'' @ dyn title @ lit ''</h2></div>'' else [])
     @ lit ''<div class=\"panel-body\">'' @ inner @ lit ''</div></section>''"

definition dataTable :: "html \<Rightarrow> html \<Rightarrow> html" where
  "dataTable headRow bodyRows =
     lit ''<div class=\"table-wrap\"><table class=\"data-table\"><thead><tr>'' @ headRow
     @ lit ''</tr></thead><tbody>'' @ bodyRows @ lit ''</tbody></table></div>''"

definition th :: "string list \<Rightarrow> html" where
  "th cells = concat (List.map (\<lambda>c. lit ''<th>'' @ dyn c @ lit ''</th>'') cells)"

definition td :: "html \<Rightarrow> html" where
  "td cell = lit ''<td>'' @ cell @ lit ''</td>''"

definition tr :: "html list \<Rightarrow> html" where
  "tr cells = lit ''<tr>'' @ concat (List.map td cells) @ lit ''</tr>''"

definition formPost :: "string \<Rightarrow> html \<Rightarrow> html" where
  "formPost action inner =
     lit ''<form class=\"form-stack\" method=\"post\" action=\"'' @ dyn action @ lit ''\">'' @ inner @ lit ''</form>''"

definition deleteForm :: "string \<Rightarrow> string \<Rightarrow> string \<Rightarrow> html" where
  "deleteForm action hiddenName hiddenValue =
     lit ''<form class=\"inline-form\" method=\"post\" action=\"'' @ dyn action
     @ lit ''\"><input type=\"hidden\" name=\"'' @ dyn hiddenName @ lit ''\" value=\"'' @ dyn hiddenValue
     @ lit ''\"><button type=\"submit\" class=\"btn-danger btn-sm\">Delete</button></form>''"

definition statGrid :: "html \<Rightarrow> html" where
  "statGrid cards = lit ''<div class=\"stat-grid\">'' @ cards @ lit ''</div>''"

definition statCard :: "string \<Rightarrow> string \<Rightarrow> html" where
  "statCard label v =
     lit ''<div class=\"stat-card\"><span class=\"stat-label\">'' @ dyn label
     @ lit ''</span><span class=\"stat-value\">'' @ dyn v @ lit ''</span></div>''"

definition emptyState :: "string \<Rightarrow> html" where
  "emptyState msg = lit ''<p class=\"empty-state\">'' @ dyn msg @ lit ''</p>''"

definition field :: "string \<Rightarrow> html \<Rightarrow> html" where
  "field label input = lit ''<div class=\"field\"><label>'' @ dyn label @ lit ''</label>'' @ input @ lit ''</div>''"

definition checkField :: "string \<Rightarrow> html \<Rightarrow> html" where
  "checkField label input = lit ''<label class=\"check-field\">'' @ input @ lit '' <span>'' @ dyn label @ lit ''</span></label>''"

definition formActions :: "html \<Rightarrow> html" where
  "formActions inner = lit ''<div class=\"form-actions\">'' @ inner @ lit ''</div>''"

definition badge :: "string \<Rightarrow> string \<Rightarrow> html" where
  "badge cls label = lit (''<span class=\"badge '' @ cls @ ''\">'') @ dyn label @ lit ''</span>''"

definition adminOnly :: "bool \<Rightarrow> html \<Rightarrow> html" where
  "adminOnly admin h = (if admin then h else [])"

definition editFormAnchor :: string where
  "editFormAnchor = ''edit-form''"

definition editLink :: "string \<Rightarrow> html" where
  "editLink path = lit ''<a class=\"btn-secondary btn-sm\" href=\"'' @ dyn path @ lit (''#'' @ editFormAnchor @ ''\">Edit</a>'')"

definition rowActions :: "html \<Rightarrow> html \<Rightarrow> html" where
  "rowActions editLinkHTML deleteHTML =
     (if editLinkHTML = [] \<and> deleteHTML = [] then []
      else if editLinkHTML \<noteq> [] \<and> deleteHTML \<noteq> [] then editLinkHTML @ lit '' '' @ deleteHTML
      else editLinkHTML @ deleteHTML)"

definition hiddenField :: "string \<Rightarrow> string \<Rightarrow> html" where
  "hiddenField name v = lit ''<input type=\"hidden\" name=\"'' @ dyn name @ lit ''\" value=\"'' @ dyn v @ lit ''\">''"

text \<open>Attributes, which stand in a tag\<close>
definition valAttr :: "string \<Rightarrow> html" where
  "valAttr v = (if v = [] then [] else lit '' value=\"'' @ dyn v @ lit ''\"'')"

definition checkedAttr :: "bool \<Rightarrow> html" where
  "checkedAttr b = (if b then lit '' checked'' else [])"

definition selectedAttr :: "bool \<Rightarrow> html" where
  "selectedAttr b = (if b then lit '' selected'' else [])"

definition editPanelTitle :: "bool \<Rightarrow> string \<Rightarrow> string \<Rightarrow> string" where
  "editPanelTitle editing addTitle editTitle = (if editing then editTitle else addTitle)"

definition editSubmitLabel :: "bool \<Rightarrow> string" where
  "editSubmitLabel editing = (if editing then ''Save changes'' else ''Add'')"

definition option_html :: "string \<Rightarrow> bool \<Rightarrow> html" where
  "option_html v b = lit ''<option value=\"'' @ dyn v @ lit ''\"'' @ selectedAttr b @ lit ''>'' @ dyn v @ lit ''</option>''"

definition modeSelect :: "string \<Rightarrow> html" where
  "modeSelect current =
     (let cur = (if current = [] then ''unicast'' else current) in
      lit ''<select name=\"mode\">'' @ option_html ''unicast'' (cur = ''unicast'')
      @ option_html ''multicast'' (cur = ''multicast'') @ lit ''</select>'')"

definition strategySelect :: "string \<Rightarrow> html" where
  "strategySelect current =
     (let cur = (if current = [] then ''simultaneous'' else current) in
      lit ''<select name=\"strategy\">'' @ option_html ''simultaneous'' (cur = ''simultaneous'')
      @ option_html ''sequential'' (cur = ''sequential'') @ lit ''</select>'')"

definition sel :: "string \<Rightarrow> string \<Rightarrow> html" where
  "sel have_it want = (if have_it = want then lit ''selected'' else [])"

definition cancelEditLink :: "string \<Rightarrow> html" where
  "cancelEditLink path =
     lit '' <a class=\"btn-secondary\" href=\"'' @ dyn path @ lit (''#'' @ editFormAnchor @ ''\">Cancel</a>'')"

definition editFormActions :: "bool \<Rightarrow> string \<Rightarrow> html \<Rightarrow> html" where
  "editFormActions editing listPath submitButton =
     (if editing then formActions (submitButton @ cancelEditLink listPath) else formActions submitButton)"

definition editPanel :: "string \<Rightarrow> html \<Rightarrow> html" where
  "editPanel title inner =
     lit (''<section class=\"panel\" id=\"'' @ editFormAnchor @ ''\">'')
     @ (if title \<noteq> [] then lit ''<div class=\"panel-head\"><h2>'' @ dyn title @ lit ''</h2></div>'' else [])
     @ lit ''<div class=\"panel-body\">'' @ inner @ lit ''</div></section>''"

definition submit_button :: "string \<Rightarrow> html" where
  "submit_button label = lit ''<button type=\"submit\">'' @ dyn label @ lit ''</button>''"

lemma scan_lit: "scan q (lit s) = Some (html_run q s)"
  by simp

lemma balanced_parts [balance]:
  "balanced lead \<Longrightarrow> balanced (pageHeader title lead)"
  "balanced inner \<Longrightarrow> balanced (panel title inner)"
  "balanced a \<Longrightarrow> balanced b \<Longrightarrow> balanced (dataTable a b)"
  "balanced inner \<Longrightarrow> balanced (formPost action inner)"
  "balanced (deleteForm action n v)"
  "balanced inner \<Longrightarrow> balanced (statGrid inner)"
  "balanced (statCard l s)"
  "balanced (emptyState msg)"
  "balanced inner \<Longrightarrow> balanced (field l inner)"
  "balanced inner \<Longrightarrow> balanced (checkField l inner)"
  "balanced inner \<Longrightarrow> balanced (formActions inner)"
  "balanced h \<Longrightarrow> balanced (adminOnly admin h)"
  "balanced (editLink path)"
  "balanced a \<Longrightarrow> balanced b \<Longrightarrow> balanced (rowActions a b)"
  "balanced (hiddenField n v)"
  "balanced (option_html v c)"
  "balanced (cancelEditLink path)"
  "balanced inner \<Longrightarrow> balanced (editPanel title inner)"
  "balanced (submit_button label)"
  by (simp_all add: balanced_def scan_append pageHeader_def panel_def dataTable_def formPost_def deleteForm_def
      statGrid_def statCard_def emptyState_def field_def checkField_def formActions_def adminOnly_def editLink_def
      rowActions_def hiddenField_def option_html_def selectedAttr_def cancelEditLink_def editPanel_def submit_button_def
      editFormAnchor_def)

lemma balanced_lit [balance]: "html_run InText s = InText \<Longrightarrow> balanced (lit s)"
  by (simp add: balanced_def)

lemma balanced_parts2 [balance]:
  "balanced (modeSelect m)" "balanced (strategySelect m)"
  "balanced b \<Longrightarrow> balanced (editFormActions e p b)"
  unfolding modeSelect_def strategySelect_def editFormActions_def Let_def
  by (intro balance; simp)+

lemma balanced_th [balance]: "balanced (th cells)"
  unfolding th_def by (rule balanced_concat) (simp add: balanced_def)

lemma balanced_td [balance]: "balanced c \<Longrightarrow> balanced (td c)"
  by (simp add: td_def balanced_def scan_append)

lemma balanced_tr [balance]: "(\<And>c. c \<in> set cells \<Longrightarrow> balanced c) \<Longrightarrow> balanced (tr cells)"
proof -
  assume "\<And>c. c \<in> set cells \<Longrightarrow> balanced c"
  then have "balanced (concat (List.map td cells))" by (intro balanced_concat balanced_td)
  then show ?thesis by (simp add: tr_def balanced_def scan_append)
qed

lemma scan_attrs [simp]:
  "scan InTag (valAttr v) = Some InTag" "scan InTag (checkedAttr b) = Some InTag" "scan InTag (selectedAttr b) = Some InTag"
  "scan InTag (sel x y) = Some InTag"
  by (simp_all add: valAttr_def checkedAttr_def selectedAttr_def sel_def)

section \<open>The pages of the handlers\<close>

text \<open>An input, its attributes given as parts that stand in the tag\<close>
definition input_html :: "string \<Rightarrow> html \<Rightarrow> html" where
  "input_html attrs rest = lit (''<input '' @ attrs) @ rest @ lit ''>''"

definition in_tag :: "html \<Rightarrow> bool" where
  "in_tag h = (scan InTag h = Some InTag)"

lemma in_tag_parts [balance]:
  "in_tag []" "in_tag (valAttr v)" "in_tag (checkedAttr b)" "in_tag x \<Longrightarrow> in_tag y \<Longrightarrow> in_tag (x @ y)"
  "html_run InTag s = InTag \<Longrightarrow> in_tag (lit s)" "in_tag (if c then lit '' readonly'' else [])"
  "in_tag (if c then [] else lit '' required'')"
  by (simp_all add: in_tag_def scan_append)

lemma balanced_input [balance]: "html_run InTag attrs = InTag \<Longrightarrow> in_tag rest \<Longrightarrow> balanced (input_html attrs rest)"
  by (simp add: input_html_def balanced_def in_tag_def scan_append html_run_append)

definition readonly_if :: "bool \<Rightarrow> html" where
  "readonly_if b = (if b then lit '' readonly'' else [])"

definition required_unless :: "bool \<Rightarrow> html" where
  "required_unless b = (if b then [] else lit '' required'')"

lemma in_tag_ifs [balance]: "in_tag (readonly_if b)" "in_tag (required_unless b)"
  by (simp_all add: readonly_if_def required_unless_def balance)

definition placeholder :: "string \<Rightarrow> html" where
  "placeholder s = lit '' placeholder=\"'' @ dyn s @ lit ''\"''"

lemma in_tag_placeholder [balance]: "in_tag (placeholder s)"
  by (simp add: placeholder_def in_tag_def)

text \<open>The dash between two numbers\<close>
definition endash :: string where
  "endash = [CHR 0xE2, CHR 0x80, CHR 0x93]"

definition Stats :: "pbx_env \<Rightarrow> server \<Rightarrow> string" where
  "Stats env p = ''active_calls='' @ itoa (mgActive (pbCalls p)) @ '' registered=''
     @ itoa (int (length (RegisteredExtensions (evNow env) (pbReg p))))"

definition dashboardPage :: "pbx_env \<Rightarrow> config \<Rightarrow> server \<Rightarrow> (string, extension) gomap \<Rightarrow> string \<Rightarrow> bool \<Rightarrow> html" where
  "dashboardPage env cfg p exts version admin =
     pageHeader ''Dashboard'' (dyn (Stats env p))
      @ panel [] (statGrid (statCard ''Extensions configured'' (itoa (int (length exts)))
          @ statCard ''Registered'' (itoa (int (length (RegisteredExtensions (evNow env) (pbReg p)))))
          @ statCard ''SIP listen'' (EscapeString (bindHost (cServer cfg)) @ '':'' @ itoa (bindPort (cServer cfg)))
          @ statCard ''Version'' (EscapeString version)))
      @ adminOnly admin (panel ''Reload configuration''
          (formPost ''/reload'' (formActions (submit_button ''Reload config''))))"

definition extension_row :: "bool \<Rightarrow> extension \<Rightarrow> html" where
  "extension_row admin e =
     tr [dyn (exNumber e), dyn (exDisplayName e), bool_html (exEnabled e), bool_html (exCallWaiting e),
         bool_html (exDND e),
         if admin then rowActions (editLink (''/extensions?edit='' @ exNumber e))
                         (deleteForm ''/extensions/delete'' ''extension'' (exNumber e)) else []]"

definition extensionsPage :: "(string, extension) gomap \<Rightarrow> bool \<Rightarrow> string \<Rightarrow> html" where
  "extensionsPage exts admin editExt =
     (let editing = (if editExt \<noteq> [] then get exts editExt else None);
          ed = (editing \<noteq> None);
          name_val = (case editing of None \<Rightarrow> [] | Some e \<Rightarrow> exDisplayName e);
          enabled = (case editing of None \<Rightarrow> True | Some e \<Rightarrow> exEnabled e);
          cw = (case editing of None \<Rightarrow> True | Some e \<Rightarrow> exCallWaiting e);
          max_val = (case editing of None \<Rightarrow> DefaultMaxCallsPerExtension
                     | Some e \<Rightarrow> if 0 < exMaxCalls e then exMaxCalls e else DefaultMaxCallsPerExtension) in
      pageHeader ''Extensions'' (lit ''Manage SIP extensions, credentials, and call settings.'')
      @ panel ''Configured extensions''
          (dataTable (th ([''Ext'', ''Name'', ''Enabled'', ''CW'', ''DND''] @ (if admin then [''Actions''] else [])))
             (concat (List.map (extension_row admin) (vals exts))))
      @ adminOnly admin (editPanel (editPanelTitle ed ''Add extension'' ''Edit extension'') (formPost ''/extensions/save''
          (field ''Extension'' (input_html ''name=\"extension\" placeholder=\"101\" required'' (valAttr editExt @ readonly_if ed))
           @ field ''Display name'' (input_html ''name=\"display_name\" placeholder=\"Name\"'' (valAttr name_val))
           @ field ''Password'' (input_html ''name=\"password\"''
               (placeholder (if ed then ''Leave blank to keep current password'' else ''password'') @ required_unless ed))
           @ field ''Max simultaneous calls'' (input_html ''name=\"max_simultaneous_calls\"''
               (placeholder (itoa DefaultMaxCallsPerExtension) @ valAttr (itoa max_val)))
           @ checkField ''Enabled'' (input_html ''type=\"checkbox\" name=\"enabled\" value=\"1\"'' (checkedAttr enabled))
           @ checkField ''Call waiting'' (input_html ''type=\"checkbox\" name=\"call_waiting\" value=\"1\"'' (checkedAttr cw))
           @ editFormActions ed ''/extensions'' (submit_button (editSubmitLabel ed @ '' extension''))))))"

definition id_field :: "int \<Rightarrow> bool \<Rightarrow> html" where
  "id_field i ed = (if ed then hiddenField ''id'' (itoa i) else [])"

lemma balanced_id_field [balance]: "balanced (id_field i ed)"
  by (auto simp: id_field_def intro: balance)

definition row_links :: "bool \<Rightarrow> string \<Rightarrow> int \<Rightarrow> html" where
  "row_links admin path i =
     (if admin then rowActions (editLink (path @ ''?edit='' @ itoa i)) (deleteForm (path @ ''/delete'') ''id'' (itoa i))
      else [])"

lemma balanced_row_links [balance]: "balanced (row_links admin path i)"
  by (auto simp: row_links_def intro: balance)

definition hunt_row :: "db \<Rightarrow> bool \<Rightarrow> int \<times> hunt_group \<Rightarrow> html" where
  "hunt_row d admin r =
     tr [dyn (hgNumber (snd r)), dyn (hgName (snd r)), dyn (hgStrategy (snd r)), num (hgRingTimeout (snd r)),
         dyn (join_with '', '' (HuntMembers (fst r) d)), row_links admin ''/hunt'' (fst r)]"

definition huntPage :: "db \<Rightarrow> bool \<Rightarrow> int \<Rightarrow> html" where
  "huntPage d admin editID =
     (let editing = (if 0 < editID then GetHuntGroup editID d else None);
          ed = (editing \<noteq> None);
          show = (\<lambda>f z. case editing of None \<Rightarrow> z | Some g \<Rightarrow> f g);
          members = (if ed then join_with '', '' (HuntMembers editID d) else []) in
      pageHeader ''Hunt groups'' (lit (''Ring groups in the 500'' @ endash @ ''599 range.''))
      @ panel ''Groups''
          (dataTable (th ([''Number'', ''Name'', ''Strategy'', ''Timeout'', ''Members''] @ (if admin then [''Actions''] else [])))
             (concat (List.map (hunt_row d admin) (ListHuntGroups d))))
      @ adminOnly admin (editPanel (editPanelTitle ed ''Add group'' ''Edit group'') (formPost ''/hunt/save''
          (id_field editID ed
           @ field ''Number'' (input_html ''name=\"number\" placeholder=\"500\" required'' (valAttr (show hgNumber []) @ readonly_if ed))
           @ field ''Name'' (input_html ''name=\"name\" placeholder=\"Sales\"'' (valAttr (show hgName [])))
           @ field ''Strategy'' (strategySelect (show hgStrategy ''simultaneous''))
           @ field ''Ring timeout'' (input_html ''name=\"ring_timeout\" placeholder=\"20\"''
               (valAttr (show (\<lambda>g. itoa (hgRingTimeout g)) ''20'')))
           @ field ''Members'' (input_html ''name=\"members\" placeholder=\"101,102\"'' (valAttr members))
           @ editFormActions ed ''/hunt'' (submit_button (editSubmitLabel ed @ '' group''))))))"

definition conference_row :: "bool \<Rightarrow> int \<times> conference \<Rightarrow> html" where
  "conference_row admin r =
     tr [dyn (cfNumber (snd r)), dyn (cfName (snd r)), num (cfMax (snd r)), row_links admin ''/conferences'' (fst r)]"

definition conferencesPage :: "db \<Rightarrow> bool \<Rightarrow> int \<Rightarrow> html" where
  "conferencesPage d admin editID =
     (let editing = (if 0 < editID then GetConference editID d else None);
          ed = (editing \<noteq> None);
          show = (\<lambda>f z. case editing of None \<Rightarrow> z | Some c \<Rightarrow> f c) in
      pageHeader ''Conferences'' (lit (''Conference rooms in the 600'' @ endash @ ''699 range.''))
      @ panel ''Rooms''
          (dataTable (th ([''Number'', ''Name'', ''Max''] @ (if admin then [''Actions''] else [])))
             (concat (List.map (conference_row admin) (ListConferences d))))
      @ adminOnly admin (editPanel (editPanelTitle ed ''Add room'' ''Edit room'') (formPost ''/conferences/save''
          (id_field editID ed
           @ field ''Number'' (input_html ''name=\"number\" placeholder=\"600\" required'' (valAttr (show cfNumber []) @ readonly_if ed))
           @ field ''Name'' (input_html ''name=\"name\" placeholder=\"Room\"'' (valAttr (show cfName [])))
           @ field ''PIN'' (input_html ''name=\"pin\"''
               (placeholder (if ed then ''Leave blank to keep current PIN'' else ''PIN'') @ required_unless ed))
           @ field ''Max participants'' (input_html ''name=\"max_participants\" placeholder=\"16\"''
               (valAttr (show (\<lambda>c. itoa (cfMax c)) ''16'')))
           @ editFormActions ed ''/conferences'' (submit_button (editSubmitLabel ed @ '' room''))))))"

definition paging_row :: "(string list \<Rightarrow> string list) \<Rightarrow> db \<Rightarrow> bool \<Rightarrow> int \<times> paging_group \<Rightarrow> html" where
  "paging_row pick d admin r =
     tr [lit ''*'' @ dyn (pgCode (snd r)), dyn (pgName (snd r)), dyn (pgMode (snd r)), dyn (pgMulticastAddress (snd r)),
         dyn (join_with '', '' (PagingMembers pick (fst r) d)), row_links admin ''/paging'' (fst r)]"

definition pagingPage :: "(string list \<Rightarrow> string list) \<Rightarrow> db \<Rightarrow> bool \<Rightarrow> int \<Rightarrow> html" where
  "pagingPage pick d admin editID =
     (let editing = (if 0 < editID then GetPagingGroup editID d else None);
          ed = (editing \<noteq> None);
          show = (\<lambda>f z. case editing of None \<Rightarrow> z | Some g \<Rightarrow> f g);
          members = (if ed then join_with '', '' (PagingMembers pick editID d) else []) in
      pageHeader ''Paging'' (lit (''Paging groups using codes *80'' @ endash @ ''*99.''))
      @ panel ''Groups''
          (dataTable (th ([''Code'', ''Name'', ''Mode'', ''Multicast'', ''Members''] @ (if admin then [''Actions''] else [])))
             (concat (List.map (paging_row pick d admin) (ListPagingGroups d))))
      @ adminOnly admin (editPanel (editPanelTitle ed ''Add group'' ''Edit group'') (formPost ''/paging/save''
          (id_field editID ed
           @ field ''Code'' (input_html ''name=\"code\" placeholder=\"80\" required'' (valAttr (show pgCode []) @ readonly_if ed))
           @ field ''Name'' (input_html ''name=\"name\" placeholder=\"All hands\"'' (valAttr (show pgName [])))
           @ field ''Mode'' (modeSelect (show pgMode ''unicast''))
           @ field ''Multicast address'' (input_html ''name=\"multicast_address\" placeholder=\"224.0.1.100:10000\"''
               (valAttr (show pgMulticastAddress [])))
           @ field ''Channel'' (input_html ''name=\"channel\" placeholder=\"0\"'' (valAttr (show (\<lambda>g. itoa (pgChannel g)) ''0'')))
           @ field ''Members'' (input_html ''name=\"members\" placeholder=\"101,102\"'' (valAttr members))
           @ editFormActions ed ''/paging'' (submit_button (editSubmitLabel ed @ '' group''))))))"

definition keepalive_name :: "keepalive_mode option \<Rightarrow> string" where
  "keepalive_name m = (case m of None \<Rightarrow> [] | Some KeepOptions \<Rightarrow> ''options'' | Some KeepRegister \<Rightarrow> ''register''
     | Some KeepOff \<Rightarrow> ''off'')"

definition route_form :: "int \<Rightarrow> string \<Rightarrow> string \<Rightarrow> html" where
  "route_form i rtype target =
     lit (''<tr class=\"subform-row\"><td colspan=\"9\"><form class=\"inline-form-row\" method=\"post\" action=\"/trunks/route\">''
       @ [CHR 10] @ ''<input type=\"hidden\" name=\"trunk_id\" value=\"'') @ num i @ lit (''\">'' @ [CHR 10]
       @ ''<select name=\"route_type\"><option value=\"all\" '') @ sel rtype ''all''
     @ lit (''>All extensions</option>'' @ [CHR 10] @ ''<option value=\"extension\" '') @ sel rtype ''extension''
     @ lit ''>Extension</option><option value=\"group\" '' @ sel rtype ''group''
     @ lit (''>Hunt group</option></select>'' @ [CHR 10] @ ''<input name=\"route_target\" value=\"'') @ dyn target
     @ lit ''\" placeholder=\"101 or 500\"><button type=\"submit\" class=\"btn-secondary btn-sm\">Save route</button></form></td></tr>''"

lemma balanced_route_form [balance]: "balanced (route_form i rt tg)"
  by (simp add: route_form_def balanced_def scan_append html_run_append is_space_def)

definition trunk_rows :: "(int, trunk_route) gomap \<Rightarrow> bool \<Rightarrow> trunk_config \<Rightarrow> html" where
  "trunk_rows routeMap admin t =
     (let rt = goget \<lparr>trTrunkID = 0, trRouteType = [], trRouteTarget = []\<rparr> routeMap (tkID t);
          rtype = (if trRouteType rt = [] then ''all'' else trRouteType rt) in
      tr [num (tkID t), dyn (tkName t), dyn (tkPrefix t), dyn (tkServer t),
          dyn (keepalive_name (NormalizeTrunkKeepalive (tkKeepalive t))),
          num (tkKeepaliveSeconds t) @ lit ''s'', num (tkRegisterExpiry t) @ lit ''s'', dyn rtype, dyn (trRouteTarget rt)]
      @ (if admin then route_form (tkID t) rtype (trRouteTarget rt) else []))"

definition trunksPage :: "config \<Rightarrow> db \<Rightarrow> bool \<Rightarrow> html" where
  "trunksPage cfg d admin =
     (let routeMap = fold (\<lambda>r. put (trTrunkID r) r) (ListTrunkRoutes d) [] in
      pageHeader ''Trunks'' (lit ''Connection details are in <code>config.toml</code>. Set inbound routing below.'')
      @ panel ''Trunk routes''
          (dataTable (th [''ID'', ''Name'', ''Prefix'', ''Server'', ''Keepalive'', ''Ping(s)'', ''Reg(s)'', ''Route'', ''Target''])
             (concat (List.map (trunk_rows routeMap admin) (EnabledTrunks cfg)))))"

definition RoleAdmin :: string where "RoleAdmin = ''admin''"
definition RoleUser :: string where "RoleUser = ''user''"

definition NormalizeRole :: "string \<Rightarrow> string" where
  "NormalizeRole role = (if to_lower (trim_space role) = RoleUser then RoleUser else RoleAdmin)"

definition roleSelect :: "string \<Rightarrow> html" where
  "roleSelect selected =
     (let role = NormalizeRole selected in
      field ''Role'' (lit ''<select name=\"role\" required><option value=\"admin\"'' @ sel role RoleAdmin
        @ lit ''>Admin (full access)</option><option value=\"user\"'' @ sel role RoleUser
        @ lit ''>User (view only)</option></select>''))"

lemma balanced_roleSelect [balance]: "balanced (roleSelect r)"
  by (simp add: roleSelect_def Let_def field_def balanced_def scan_append is_space_def)

definition user_row :: "int \<times> stored_user \<Rightarrow> html" where
  "user_row r = tr [dyn (suUsername (snd r)), dyn (NormalizeRole (suRole (snd r))), row_links True ''/users'' (fst r)]"

definition usersPage :: "db \<Rightarrow> int \<Rightarrow> html" where
  "usersPage d editID =
     (let editing = (if 0 < editID then GetWebUser editID d else None);
          ed = (editing \<noteq> None);
          show = (\<lambda>f z. case editing of None \<Rightarrow> z | Some u \<Rightarrow> f u) in
      pageHeader ''Web users'' (lit ''Users in <code>config.toml</code> are synced on startup.'')
      @ panel ''Accounts''
          (dataTable (th [''User'', ''Role'', ''Actions'']) (concat (List.map user_row (ListWebUsers d))))
      @ editPanel (editPanelTitle ed ''Add user'' ''Edit user'') (formPost ''/users/save''
          (id_field editID ed
           @ field ''Username'' (input_html ''name=\"username\" required'' (valAttr (show suUsername []) @ readonly_if ed))
           @ field ''Password'' (input_html ''name=\"password\" type=\"password\"''
               (placeholder (if ed then ''Leave blank to keep current password'' else ''password'') @ required_unless ed))
           @ roleSelect (show (\<lambda>u. NormalizeRole (suRole u)) RoleUser)
           @ editFormActions ed ''/users'' (submit_button (editSubmitLabel ed @ '' user'')))))"

definition extensionDisplayName :: "extension \<Rightarrow> string" where
  "extensionDisplayName e = (if exDisplayName e \<noteq> [] then exDisplayName e else exNumber e)"

text \<open>Both uses of the list of enabled extensions sort it by name without regard to case.\<close>
definition by_name :: "extension \<Rightarrow> extension \<Rightarrow> bool" where
  "by_name a b = str_le (to_lower (extensionDisplayName a)) (to_lower (extensionDisplayName b))"

definition enabled_by_name :: "(string, extension) gomap \<Rightarrow> extension list" where
  "enabled_by_name exts = sort_by by_name (filter exEnabled (vals exts))"

definition phonebook_row :: "bool \<Rightarrow> int \<times> phonebook_entry \<Rightarrow> html" where
  "phonebook_row admin r =
     lit ''<tr>'' @ td (dyn (pbName (snd r))) @ td (dyn (pbNumber (snd r))) @ td (dyn (pbLabel (snd r)))
     @ (if admin then td (row_links admin ''/phonebook'' (fst r)) else []) @ lit ''</tr>''"

lemma balanced_phonebook_row [balance]: "balanced (phonebook_row admin r)"
  using balanced_row_links [of True "''/phonebook''" "fst r"]
  by (simp add: phonebook_row_def td_def balanced_def scan_append)

definition phonebookPage :: "db \<Rightarrow> (string, extension) gomap \<Rightarrow> bool \<Rightarrow> int \<Rightarrow> html" where
  "phonebookPage d exts admin editID =
     (let editing = (if 0 < editID then GetPhonebookEntry editID d else None);
          ed = (editing \<noteq> None);
          show = (\<lambda>f. case editing of None \<Rightarrow> [] | Some e \<Rightarrow> f e) in
      pageHeader ''Remote phonebook'' (lit ''Served at <code>/phonebook/directory.xml</code> for IP phones (Yealink/Grandstream compatible). Static contacts are managed here; enabled extensions are included automatically.'')
      @ panel ''Static entries''
          (dataTable (th (if admin then [''Name'', ''Number'', ''Label'', ''Actions''] else [''Name'', ''Number'', ''Label'']))
             (concat (List.map (phonebook_row admin) (ListPhonebookEntries d))))
      @ panel ''Extensions (automatic)''
          (lit ''<p class=\"sub\">These are included in <code>directory.xml</code> from extension config. Edit them under <a href=\"/extensions\">Extensions</a>.</p>''
           @ dataTable (th [''Name'', ''Number'', ''Label''])
               (concat (List.map (\<lambda>e. tr [dyn (extensionDisplayName e), dyn (exNumber e), dyn ''Extension'']) (enabled_by_name exts))))
      @ adminOnly admin (editPanel (editPanelTitle ed ''Add entry'' ''Edit entry'') (formPost ''/phonebook/save''
          (id_field editID ed
           @ field ''Name'' (input_html ''name=\"name\" placeholder=\"Contact name\" required'' (valAttr (show pbName)))
           @ field ''Number'' (input_html ''name=\"number\" placeholder=\"101 or 302@host\" required'' (valAttr (show pbNumber)))
           @ field ''Label'' (input_html ''name=\"label\" placeholder=\"label (optional)\"'' (valAttr (show pbLabel)))
           @ editFormActions ed ''/phonebook'' (submit_button (editSubmitLabel ed @ '' entry''))))))"

lemma page_tables [balance]:
  "balanced (extension_row admin e)" "balanced (hunt_row d admin h)" "balanced (conference_row admin c)"
  "balanced (paging_row pick d admin g)" "balanced (user_row u)" "balanced (trunk_rows m admin t)"
  "balanced (tr [dyn a, dyn b, dyn c'])"
proof -
  have s: "balanced (Num n # lit ''s'')" "balanced (Lit ''*'' # dyn x)" for n x by (simp_all add: balanced_def)
  have l: "balanced (if admin then rowActions (editLink p) (deleteForm a b v) else [])" for p a b v
    by (simp add: balance)
  show "balanced (extension_row admin e)" unfolding extension_row_def by (rule balanced_tr) (auto intro: balance l)
  show "balanced (hunt_row d admin h)" unfolding hunt_row_def by (rule balanced_tr) (auto intro: balance)
  show "balanced (conference_row admin c)" unfolding conference_row_def by (rule balanced_tr) (auto intro: balance)
  show "balanced (paging_row pick d admin g)" unfolding paging_row_def by (rule balanced_tr) (auto intro: balance s)
  show "balanced (user_row u)" unfolding user_row_def by (rule balanced_tr) (auto intro: balance)
  show "balanced (trunk_rows m admin t)" unfolding trunk_rows_def Let_def
    by (intro balanced_append balanced_if balanced_tr balance) (auto intro: balance s)
  show "balanced (tr [dyn a, dyn b, dyn c'])" by (rule balanced_tr) (auto intro: balance)
qed

definition checkbox :: "string \<Rightarrow> html" where
  "checkbox name = lit (''<input type=\"checkbox\" name=\"'' @ name @ ''\" value=\"1\">'')"

definition backupPage :: "bool \<Rightarrow> html" where
  "backupPage restored =
     pageHeader ''Backup & restore'' (lit ''Export or restore the full PBX configuration: <code>config.toml</code>, extensions, SQLite database, and optional MOH WAV files and static phonebook XML.'')
     @ (if restored then lit ''<p class=\"badge badge-online\">Backup restored and configuration reloaded.</p>'' else [])
     @ panel ''Download backup''
         (lit (''<p>Creates a <code>.tar.gz</code> archive with config, extensions, and the SQLite database.</p>'' @ [CHR 10]
            @ ''<form method=\"get\" action=\"/backup/download\" class=\"stack-form\">'' @ [CHR 10])
          @ checkField ''Include MOH WAV files'' (checkbox ''include_moh'') @ lit [CHR 10]
          @ checkField ''Include static phonebook XML'' (checkbox ''include_phonebook'')
          @ lit ([CHR 10] @ ''<p><button type=\"submit\">Download backup</button></p>'' @ [CHR 10] @ ''</form>''))
     @ panel ''Restore backup''
         (lit (''<p>Restore replaces <strong>config.toml</strong>, all extension files, and the database. Hunt groups, conferences, paging, trunk routes, phonebook entries, and web users come from the database backup.</p>'' @ [CHR 10]
            @ ''<form method=\"post\" action=\"/backup/restore\" enctype=\"multipart/form-data\" class=\"stack-form\">'' @ [CHR 10]
            @ ''<label>Backup archive (.tar.gz)</label>'' @ [CHR 10]
            @ ''<input type=\"file\" name=\"archive\" accept=\".tar.gz,.tgz,application/gzip\" required>'' @ [CHR 10]
            @ ''<p><button type=\"submit\">Restore backup</button></p>'' @ [CHR 10] @ ''</form>''))"

section \<open>Status\<close>

text \<open>The middle dot and the dash for an empty cell\<close>
definition middot :: string where "middot = [CHR 0xC2, CHR 0xB7]"
definition emdash :: string where "emdash = [CHR 0xE2, CHR 0x80, CHR 0x94]"

definition filteredCallLog :: "string \<Rightarrow> db \<Rightarrow> (int \<times> call_log_entry) list" where
  "filteredCallLog flt d =
     (let calls = ListCallLog 100 d in
      if flt = [] then calls else filter (\<lambda>e. clDirection (snd e) = flt) calls)"

definition filter_link :: "string \<Rightarrow> string \<times> string \<Rightarrow> html" where
  "filter_link active f =
     (case f of (label, v) \<Rightarrow>
        if v = active then lit (''<strong>'' @ label @ ''</strong>'')
        else if v = [] then lit (''<a href=\"/status\">'' @ label @ ''</a>'')
        else lit (''<a href=\"/status?filter='' @ v @ ''\">'' @ label @ ''</a>''))"

fun join_html :: "html \<Rightarrow> html list \<Rightarrow> html" where
  "join_html sep [] = []"
| "join_html sep [h] = h"
| "join_html sep (h # hs) = h @ sep @ join_html sep hs"

definition statusFilterLinks :: "string \<Rightarrow> html" where
  "statusFilterLinks active =
     join_html (lit ('' '' @ middot @ '' ''))
       (List.map (filter_link active)
          [(''All'', []), (''Internal'', ''internal''), (''Inbound trunk'', ''inbound-trunk''), (''Outbound trunk'', ''outbound-trunk'')])"

definition status_ext_row :: "extension_status \<Rightarrow> html" where
  "status_ext_row e =
     tr [dyn (esExtension e), dyn (esDisplayName e),
         if esRegistered e then badge ''badge-online'' ''online'' else badge ''badge-offline'' ''offline'',
         bool_html (esDND e), num (esActiveCalls e), dyn (if esInCallWith e = [] then emdash else esInCallWith e)]"

definition call_row :: "call_snapshot \<Rightarrow> html" where
  "call_row c =
     tr [dyn (csCallerExt c), dyn (csCalleeExt c),
         lit (if csParked c then ''parked'' else if csTransferReady c then ''transfer ready'' else ''bridged'')]"

definition connecting_row :: "session \<Rightarrow> html" where
  "connecting_row s = tr [dyn (sCaller s), dyn (sCallee s), lit ''connecting'']"

definition history_row :: "string \<times> extension_history \<Rightarrow> html" where
  "history_row h = tr [dyn (fst h), dyn (ehLastDialed (snd h)), dyn (ehLastCaller (snd h))]"

definition log_row :: "int \<times> call_log_entry \<Rightarrow> html" where
  "log_row r =
     (let e = snd r;
          trunk = (if clTrunkName e = [] \<and> clTrunkPrefix e \<noteq> [] then clTrunkPrefix e else clTrunkName e) in
      tr [dyn (clStartedAt e), dyn (clDirection e), dyn (clCaller e), dyn (clCallee e),
          dyn (if trunk = [] then emdash else trunk)])"

text \<open>The first argument is the time of day that is shown.\<close>
definition statusLive :: "string \<Rightarrow> status_report \<Rightarrow> db \<Rightarrow> (int \<times> call_log_entry) list \<Rightarrow> string \<Rightarrow> html" where
  "statusLive clock report d calls flt =
     lit ''<p class=\"status-meta\">Updated '' @ dyn clock @ lit ('' '' @ middot @ '' '')
     @ num (int (length (srRegistered report))) @ lit ('' registered '' @ middot @ '' '')
     @ num (srActiveCalls report) @ lit '' active</p>''
     @ panel ''Extensions'' (dataTable (th [''Ext'', ''Name'', ''Online'', ''DND'', ''Calls'', ''In call with''])
         (concat (List.map status_ext_row (srExtensions report))))
     @ panel ''Active calls''
         (if srBridged report = [] \<and> srConnecting report = [] then emptyState ''No active calls.''
          else dataTable (th [''Caller'', ''Callee'', ''State''])
                 (concat (List.map call_row (srBridged report)) @ concat (List.map connecting_row (srConnecting report))))
     @ (if srParked report = [] then []
        else panel ''Parked'' (lit ''<p>'' @ join_html (lit '', '') (List.map (\<lambda>s. dyn s) (srParked report)) @ lit ''</p>''))
     @ panel ''Extension call history''
         (if ListExtensionHistory d = [] then emptyState ''No extension history yet.''
          else dataTable (th [''Extension'', ''Last dialed'', ''Last caller'']) (concat (List.map history_row (ListExtensionHistory d))))
     @ panel ''Call audit log''
         (lit ''<div class=\"filter-bar\">Filter: '' @ statusFilterLinks flt @ lit ''</div>''
          @ (if calls = [] then emptyState ''No matching call records.''
             else dataTable (th [''Time'', ''Direction'', ''Caller'', ''Callee'', ''Trunk'']) (concat (List.map log_row calls))))"

definition status_head :: "string \<Rightarrow> status_report \<Rightarrow> html" where
  "status_head version report =
     pageHeader ''Status'' (lit ''Version <strong>'' @ dyn version @ lit (''</strong> '' @ middot @ '' '')
       @ num (int (length (srRegistered report))) @ lit ('' registered '' @ middot @ '' '')
       @ num (srActiveCalls report) @ lit '' active calls'')"

definition statusPage :: "string \<Rightarrow> string \<Rightarrow> status_report \<Rightarrow> db \<Rightarrow> string \<Rightarrow> html" where
  "statusPage version clock report d flt =
     status_head version report
     @ lit ''<div id=\"status-live\" hx-get=\"/status/fragment\"''
     @ (if flt \<noteq> [] then lit ''?filter='' @ dyn flt else [])
     @ lit ''\" hx-trigger=\"every 5s\" hx-swap=\"innerHTML\">''
     @ statusLive clock report d (filteredCallLog flt d) flt
     @ lit ''</div>''"

lemma balanced_join [balance]: "balanced sep \<Longrightarrow> (\<And>x. x \<in> set hs \<Longrightarrow> balanced x) \<Longrightarrow> balanced (join_html sep hs)"
  by (induction sep hs rule: join_html.induct) (auto intro: balance)

lemma balanced_filter_links [balance]: "balanced (statusFilterLinks active)"
  unfolding statusFilterLinks_def
  by (rule balanced_join) (auto simp: filter_link_def middot_def balanced_def is_space_def)

lemma balanced_status_rows [balance]:
  "balanced (status_ext_row e)" "balanced (call_row c)" "balanced (connecting_row s)" "balanced (history_row h)"
  "balanced (log_row r)"
proof -
  have b: "balanced (badge ''badge-online'' l)" "balanced (badge ''badge-offline'' l)" for l
    by (simp_all add: badge_def balanced_def scan_append)
  show "balanced (status_ext_row e)" unfolding status_ext_row_def by (rule balanced_tr) (auto intro: balance b)
  show "balanced (call_row c)" unfolding call_row_def by (rule balanced_tr) (auto intro: balance)
  show "balanced (connecting_row s)" unfolding connecting_row_def by (rule balanced_tr) (auto intro: balance)
  show "balanced (history_row h)" unfolding history_row_def by (rule balanced_tr) (auto intro: balance)
  show "balanced (log_row r)" unfolding log_row_def Let_def by (rule balanced_tr) (auto intro: balance)
qed

lemma balanced_around:
  "html_run InText (a @ b) = InText \<Longrightarrow> html_run InText a = InText \<Longrightarrow> balanced h \<Longrightarrow> balanced (lit a @ h @ lit b)"
  by (simp add: balanced_def scan_append html_run_append)

lemma balanced_status_parts [balance]:
  "balanced (status_head version report)"
  "balanced h \<Longrightarrow> balanced (lit ''<p>'' @ h @ lit ''</p>'')"
  "balanced h \<Longrightarrow> balanced (lit ''<div class=\"filter-bar\">Filter: '' @ h @ lit ''</div>'')"
  "balanced (lit ''<p class=\"status-meta\">Updated '' @ dyn clock @ lit ('' '' @ middot @ '' '')
     @ num n @ lit ('' registered '' @ middot @ '' '') @ num k @ lit '' active</p>'')"
  by (simp_all add: status_head_def pageHeader_def balanced_def scan_append middot_def)

section \<open>Properties\<close>

lemma page_literals [balance]:
  "balanced (lit ''Connection details are in <code>config.toml</code>. Set inbound routing below.'')"
  "balanced (lit ''Users in <code>config.toml</code> are synced on startup.'')"
  "balanced (lit (''Ring groups in the 500'' @ endash @ ''599 range.''))"
  "balanced (lit (''Conference rooms in the 600'' @ endash @ ''699 range.''))"
  "balanced (lit (''Paging groups using codes *80'' @ endash @ ''*99.''))"
  by (simp_all add: balanced_def endash_def)

lemma extensionsPage_balanced: "balanced (extensionsPage exts admin edit)"
  unfolding extensionsPage_def Let_def by (intro balance) simp_all

lemma huntPage_balanced: "balanced (huntPage d admin editID)"
  unfolding huntPage_def Let_def by (intro balance) simp_all

lemma conferencesPage_balanced: "balanced (conferencesPage d admin editID)"
  unfolding conferencesPage_def Let_def by (intro balance) simp_all

lemma pagingPage_balanced: "balanced (pagingPage pick d admin editID)"
  unfolding pagingPage_def Let_def by (intro balance) simp_all

lemma trunksPage_balanced: "balanced (trunksPage cfg d admin)"
  unfolding trunksPage_def Let_def by (intro balance)

lemma usersPage_balanced: "balanced (usersPage d editID)"
  unfolding usersPage_def Let_def by (intro balance) simp_all

lemma phonebookPage_balanced: "balanced (phonebookPage d exts admin editID)"
  unfolding phonebookPage_def Let_def by (intro balance) simp_all

lemma dashboardPage_balanced: "balanced (dashboardPage env cfg p exts version admin)"
  unfolding dashboardPage_def by (intro balance)

lemma statusLive_balanced: "balanced (statusLive clock report d calls flt)"
  unfolding statusLive_def by (intro balance) (auto simp: middot_def is_space_def intro: balance)

lemma backupPage_balanced: "balanced (backupPage restored)"
  unfolding backupPage_def checkbox_def by (intro balance) (simp_all add: is_space_def)

lemma statusPage_balanced: "balanced (statusPage version clock report d [])"
proof -
  have "balanced (lit ''<div id=\"status-live\" hx-get=\"/status/fragment\"'' @ lit ''\" hx-trigger=\"every 5s\" hx-swap=\"innerHTML\">'')"
    by (simp add: balanced_def is_space_def)
  from balanced_append [OF balanced_status_parts(1) balanced_append [OF this
      balanced_append [OF statusLive_balanced balanced_lit [of "''</div>''"]]]]
  show ?thesis by (simp add: statusPage_def)
qed


text \<open>Not so the filter of the status page, which is put after the closing quote of an attribute:
  a link to the page can add attributes, such as a handler that runs a script.\<close>
theorem status_filter_injection:
  "str_contains (markup InText (html_string (statusPage version clock report d ''x onfocus=alert(1) autofocus tabindex=1 '')))
     '' onfocus=alert(1) autofocus tabindex=''"
proof -
  let ?f = "''x onfocus=alert(1) autofocus tabindex=1 ''"
  let ?a = "html_string (status_head version report)" and ?rest = "html_string (lit ''\" hx-trigger=\"every 5s\" hx-swap=\"innerHTML\">''
      @ statusLive clock report d (filteredCallLog ?f d) ?f @ lit ''</div>'')"
  let ?open = "''<div id=\"status-live\" hx-get=\"/status/fragment\"?filter=''"
  have esc: "EscapeString ?f = ?f" by code_simp
  have page: "html_string (statusPage version clock report d ?f) = ?a @ ?open @ ?f @ ?rest"
    using esc by (simp add: statusPage_def html_string_def)
  have "html_run InText ?a = InText"
    using scan_sound [of InText "status_head version report" InText] balanced_status_parts(1) [of version report]
    by (simp add: balanced_def)
  moreover have "html_run InText ?open = AfterEq" by code_simp
  moreover have "markup AfterEq ?f = ?f" by code_simp
  ultimately have m: "markup InText (html_string (statusPage version clock report d ?f))
      = (markup InText ?a @ markup InText ?open @ ''x'') @ '' onfocus=alert(1) autofocus tabindex=''
        @ (''1 '' @ markup (html_run AfterEq ?f) ?rest)"
    by (simp only: page markup_append) simp
  show ?thesis unfolding m by (rule str_contains_mid)
qed

end
