(* ===== verification/Phonebook.thy ===== *)
theory Phonebook
  imports Pages
begin

text \<open>
  The phonebook for the phones (internal/web/phonebook.go): the directory made
  of the stored entries and of the enabled extensions that no entry stands for,
  and the other XML files of the phonebook directory.  Both are served without
  a login.  Writing XML is an argument; sort.Slice keeps no order of entries
  with the same name, so the sorted list is one of its results.
\<close>

section \<open>The directory\<close>

record directory_entry =
  deName :: string
  deLabel :: string
  deNumber :: string

text \<open>The number of an entry without spaces, the sip scheme and a host\<close>
definition phonebookNumberKey :: "string \<Rightarrow> string" where
  "phonebookNumberKey number =
     (let n = trim_prefix (to_lower (trim_space number)) ''sip:'' in
      case str_index n ''@'' of Some i \<Rightarrow> take i n | None \<Rightarrow> n)"

definition static_entry :: "phonebook_entry \<Rightarrow> directory_entry" where
  "static_entry e = \<lparr>deName = pbName e, deLabel = pbLabel e, deNumber = pbNumber e\<rparr>"

definition extension_entry :: "extension \<Rightarrow> directory_entry" where
  "extension_entry e = \<lparr>deName = extensionDisplayName e, deLabel = ''Extension'', deNumber = exNumber e\<rparr>"

definition by_lower_name :: "directory_entry \<Rightarrow> directory_entry \<Rightarrow> bool" where
  "by_lower_name a b = str_le (to_lower (deName a)) (to_lower (deName b))"

definition buildPhonebookDirectory :: "db \<Rightarrow> (ext_error, (string, extension) gomap) result
    \<Rightarrow> (ext_error, directory_entry list) result" where
  "buildPhonebookDirectory d loaded =
     (case loaded of
        Inl e \<Rightarrow> Err e
      | Inr exts \<Rightarrow>
          (let static = List.map snd (ListPhonebookEntries d);
               seen = List.map (\<lambda>e. phonebookNumberKey (pbNumber e)) static;
               listed = filter (\<lambda>e. exNumber e \<notin> set seen) (enabled_by_name exts)
           in Ok (sort_by by_lower_name (List.map static_entry static @ List.map extension_entry listed))))"

text \<open>Every stored entry once, every enabled extension that no entry has the number of once, and
  nothing else, in the order of their names.\<close>
theorem phonebook_directory:
  "\<exists>dir. buildPhonebookDirectory d (Ok exts) = Ok dir
     \<and> mset dir = image_mset static_entry (mset (vals (tbRows (dbPhonebook d))))
         + image_mset extension_entry (filter_mset (\<lambda>e. exEnabled e
             \<and> exNumber e \<notin> (\<lambda>p. phonebookNumberKey (pbNumber (snd p))) ` set (tbRows (dbPhonebook d))) (mset (vals exts)))
     \<and> sorted_wrt by_lower_name dir"
proof -
  let ?static = "List.map snd (ListPhonebookEntries d)"
  let ?seen = "List.map (\<lambda>e. phonebookNumberKey (pbNumber e)) ?static"
  let ?listed = "filter (\<lambda>e. exNumber e \<notin> set ?seen) (enabled_by_name exts)"
  have seen: "set ?seen = (\<lambda>p. phonebookNumberKey (pbNumber (snd p))) ` set (tbRows (dbPhonebook d))"
    by (auto simp: ListPhonebookEntries_def)
  have a: "mset ?static = mset (vals (tbRows (dbPhonebook d)))" by (simp add: ListPhonebookEntries_def)
  have b: "mset ?listed = filter_mset (\<lambda>e. exEnabled e \<and> exNumber e \<notin> set ?seen) (mset (vals exts))"
    by (simp add: enabled_by_name_def mset_filter filter_filter_mset)
  have "mset (List.map static_entry ?static @ List.map extension_entry ?listed)
      = image_mset static_entry (mset ?static) + image_mset extension_entry (mset ?listed)"
    by (simp only: mset_append mset_map)
  then have m: "mset (sort_by by_lower_name (List.map static_entry ?static @ List.map extension_entry ?listed))
      = image_mset static_entry (mset (vals (tbRows (dbPhonebook d))))
        + image_mset extension_entry (filter_mset (\<lambda>e. exEnabled e \<and> exNumber e \<notin> set ?seen) (mset (vals exts)))"
    unfolding a b mset_sort_by .
  have "sorted_wrt by_lower_name (sort_by by_lower_name xs)" for xs
    by (rule sorted_sort_by) (auto simp: by_lower_name_def str_le_total intro: str_le_trans)
  moreover have "buildPhonebookDirectory d (Ok exts)
      = Ok (sort_by by_lower_name (List.map static_entry ?static @ List.map extension_entry ?listed))"
    by (simp only: buildPhonebookDirectory_def Let_def sum.case)
  ultimately show ?thesis using m unfolding seen by blast
qed

section \<open>Files\<close>

text \<open>The path of the file a request for /phonebook/name is answered with\<close>
definition phonebook_file :: "string \<Rightarrow> string \<Rightarrow> string option" where
  "phonebook_file phonebookDir name =
     (if phonebookDir = [] \<or> CHR ''/'' \<in> set name \<or> CHR 92 \<in> set name \<or> \<not> has_suffix (to_lower name) ''.xml'' then None
      else Some (Join [phonebookDir, Base (Clean name)]))"

lemma xml_name: "has_suffix (to_lower name) ''.xml'' \<Longrightarrow> name \<noteq> [] \<and> name \<noteq> ''.'' \<and> name \<noteq> ''..''"
  by (auto simp: has_suffix_def to_lower_def lower_char_def)

lemma Base_plain: "slash \<notin> set name \<Longrightarrow> name \<noteq> [] \<Longrightarrow> Base name = name"
proof -
  assume s: "slash \<notin> set name" "name \<noteq> []"
  then have d: "rev (dropWhile (\<lambda>x. x = slash) (rev name)) = name"
    by (subst dropWhile_none) auto
  have t: "takeWhile (\<lambda>x. x \<noteq> slash) (rev name) = rev name" using s by (auto simp: takeWhile_eq_all_conv)
  show ?thesis unfolding Base_def Let_def d after_last_def t using s by simp
qed

lemma Clean_plain: "slash \<notin> set name \<Longrightarrow> plain_comp name \<Longrightarrow> Clean name = name"
  by (cases name) (auto simp: Clean_def split_on_none plain_comp_def IsAbs_def slash_def)

text \<open>Only files right in the configured directory are served.\<close>
theorem phonebook_file_in_dir:
  "phonebook_file dir name = Some p \<Longrightarrow> p = below dir name \<and> slash \<notin> set name \<and> plain_rel name"
proof -
  assume f: "phonebook_file dir name = Some p"
  then have n: "slash \<notin> set name" "has_suffix (to_lower name) ''.xml''" "dir \<noteq> []" "p = Join [dir, Base (Clean name)]"
    by (auto simp: phonebook_file_def slash_def split: if_splits)
  have pl: "plain_comp name" using xml_name [OF n(2)] by (simp add: plain_comp_def)
  then have "Base (Clean name) = name" using n(1) by (simp add: Clean_plain Base_plain plain_comp_def)
  moreover have "plain_rel name" using n(1) pl by (simp add: plain_rel_def split_on_none)
  ultimately show ?thesis using n Join_below by simp
qed

theorem phonebook_file_in_dir_witness: "''/pb/a.xml'' = below ''/pb'' ''a.xml'' \<and> slash \<notin> set ''a.xml'' \<and> plain_rel ''a.xml''"
proof -
  have "phonebook_file ''/pb'' ''a.xml'' = Some ''/pb/a.xml''" by code_simp
  from phonebook_file_in_dir [OF this] show ?thesis by simp
qed

end
