(* ===== verification/Web.thy ===== *)
theory Web
  imports Backup Sessions Phonebook
begin

text \<open>
  The administration server (internal/web): the numbers of forms, who may do
  what, and every request handler with its effect on the configuration, the
  disk, the database and the switchboard.  The pages it sends are those of the
  theories Pages and Phonebook.  bcrypt, TOML, the archive formats, the
  embedded files and the format of the database file are arguments.
\<close>

section \<open>Numbers in forms\<close>

text \<open>fmt.Sscan of an integer: after white space and a sign, decimal digits or a prefix 0b,
  0o, 0x or 0 for another base; underscores may separate digits.\<close>
definition digit_of :: "char \<Rightarrow> int option" where
  "digit_of c =
     (if is_digit c then Some (digit_val c)
      else if 97 \<le> byte (lower_char c) \<and> byte (lower_char c) \<le> 102 then Some (int (byte (lower_char c)) - 87)
      else None)"

definition in_base :: "int \<Rightarrow> char \<Rightarrow> bool" where
  "in_base b c = (case digit_of c of None \<Rightarrow> False | Some v \<Rightarrow> v < b)"

definition scan_char :: "int \<Rightarrow> char \<Rightarrow> bool" where
  "scan_char b c = (c = CHR ''_'' \<or> in_base b c)"

definition base_value :: "int \<Rightarrow> string \<Rightarrow> int" where
  "base_value b s = foldl (\<lambda>acc c. acc * b + (case digit_of c of None \<Rightarrow> 0 | Some v \<Rightarrow> v)) 0 s"

text \<open>Underscores stand between digits or after the prefix of a base.\<close>
fun underscores_ok :: "bool \<Rightarrow> string \<Rightarrow> bool" where
  "underscores_ok saw [] = True"
| "underscores_ok saw [c] = (c \<noteq> CHR ''_'')"
| "underscores_ok saw (c # cs) =
     (if c = CHR ''_'' then saw \<and> hd cs \<noteq> CHR ''_'' \<and> underscores_ok False cs else underscores_ok True cs)"

definition parse_digits :: "int \<Rightarrow> bool \<Rightarrow> string \<Rightarrow> int option" where
  "parse_digits b after_prefix ds =
     (if underscores_ok after_prefix ds then Some (base_value b (filter (\<lambda>c. c \<noteq> CHR ''_'') ds)) else None)"

text \<open>The magnitude after the sign; a prefix without digits is no number.\<close>
definition scan_magnitude :: "string \<Rightarrow> int option" where
  "scan_magnitude s =
     (case s of
        [] \<Rightarrow> None
      | c # r \<Rightarrow>
          if c \<noteq> CHR ''0'' then
            (let ds = takeWhile (scan_char 10) s in if ds = [] then None else parse_digits 10 False ds)
          else (let k = (case r of [] \<Rightarrow> CHR '' '' | x # _ \<Rightarrow> lower_char x);
                    pre = (\<lambda>b. let ds = takeWhile (scan_char b) (tl r) in if ds = [] then None else parse_digits b True ds) in
            if k = CHR ''b'' then pre 2 else if k = CHR ''o'' then pre 8 else if k = CHR ''x'' then pre 16
            else (let ds = takeWhile (scan_char 8) r in if ds = [] then Some 0 else parse_digits 8 True ds)))"

definition sscan :: "string \<Rightarrow> int option" where
  "sscan s =
     (let t = trim_left s;
          v = (case t of
                 [] \<Rightarrow> None
               | c # r \<Rightarrow> if c = CHR ''-'' then map_option uminus (scan_magnitude r)
                          else if c = CHR ''+'' then scan_magnitude r else scan_magnitude t)
      in case v of None \<Rightarrow> None | Some n \<Rightarrow> if int64_range n then Some n else None)"

text \<open>A number that cannot be read leaves the variable as it was.\<close>
definition scan_or :: "int \<Rightarrow> string \<Rightarrow> int" where
  "scan_or z s = (case sscan s of None \<Rightarrow> z | Some n \<Rightarrow> n)"

definition splitCSV :: "string \<Rightarrow> string list" where
  "splitCSV s = filter (\<lambda>p. p \<noteq> []) (List.map trim_space (split_on (CHR '','') s))"

section \<open>Server and requests\<close>

record web =
  wbCfg :: config
  wbCfgPath :: string
  wbExtDir :: string
  wbPhonebookDir :: string
  wbSessions :: sessions
  wbDisk :: disk
  wbPbx :: server

record request =
  hrMethod :: string
  hrPath :: string
  hrCookie :: "string option"
  hrForm :: "(string, string) gomap"
  hrQuery :: "(string, string) gomap"
  hrUpload :: "(string \<times> string) option"

record web_env =
  weSL :: session_lib
  weNow :: int
  wePbx :: pbx_env
  weHash :: "string \<Rightarrow> string option"
  weCheck :: "string \<Rightarrow> string \<Rightarrow> bool"
  weDecodeExt :: "string \<Rightarrow> extension option"
  weEncodeExt :: "extension \<Rightarrow> string"
  weDecodeCfg :: "string \<Rightarrow> config option"
  weArchive :: archive_lib
  weDump :: "db \<Rightarrow> string"
  weOpenDB :: "string \<Rightarrow> db option"
  wePick :: "string list \<Rightarrow> string list"
  weAssets :: "string \<Rightarrow> string option"
  weWd :: string
  weVersion :: string
  weClock :: string

datatype response =
    Redirects string "string option"
  | Fails int
  | SendsPage html
  | SendsLogin bool
  | SendsFile string
  | SendsDirectory "directory_entry list"
  | Downloads string

abbreviation see_other :: "string \<Rightarrow> response" where "see_other p \<equiv> Redirects p None"

definition FormValue :: "request \<Rightarrow> string \<Rightarrow> string" where
  "FormValue r k = goget [] (hrForm r) k"

definition QueryValue :: "request \<Rightarrow> string \<Rightarrow> string" where
  "QueryValue r k = goget [] (hrQuery r) k"

definition queryEditID :: "request \<Rightarrow> int" where
  "queryEditID r = scan_or 0 (QueryValue r ''edit'')"

definition formID :: "request \<Rightarrow> int" where
  "formID r = scan_or 0 (FormValue r ''id'')"

abbreviation store_of :: "web \<Rightarrow> db" where "store_of w \<equiv> pbStore (wbPbx w)"

definition set_store :: "db \<Rightarrow> web \<Rightarrow> web" where
  "set_store d w = w\<lparr>wbPbx := (wbPbx w)\<lparr>pbStore := d\<rparr>\<rparr>"

text \<open>What a database operation whose error is ignored leaves.\<close>
definition or_keep :: "db \<Rightarrow> (db_error, db) result \<Rightarrow> db" where
  "or_keep d r = (case r of Inl e \<Rightarrow> d | Inr d' \<Rightarrow> d')"

section \<open>Users and roles\<close>

definition session_user :: "web_env \<Rightarrow> request \<Rightarrow> web \<Rightarrow> string" where
  "session_user env r w = Username (weSL env) (wbSessions w) (weNow env) (hrCookie r)"

definition currentUser :: "web_env \<Rightarrow> request \<Rightarrow> web \<Rightarrow> stored_user option" where
  "currentUser env r w =
     (if session_user env r w = [] then None
      else case GetWebUserByUsername (session_user env r w) (store_of w) of
        None \<Rightarrow> None
      | Some (i, u) \<Rightarrow> Some (u\<lparr>suRole := NormalizeRole (suRole u)\<rparr>))"

definition isAdmin :: "web_env \<Rightarrow> request \<Rightarrow> web \<Rightarrow> bool" where
  "isAdmin env r w = (case currentUser env r w of None \<Rightarrow> False | Some u \<Rightarrow> suRole u = RoleAdmin)"

type_synonym handler = "request \<Rightarrow> web \<Rightarrow> response \<times> web"

text \<open>requirePOST, requireAdmin and the redirection to the login page around a handler\<close>
definition requirePOST :: "handler \<Rightarrow> handler" where
  "requirePOST h r w = (if hrMethod r \<noteq> ''POST'' then (Fails 405, w) else h r w)"

definition requireAdmin :: "web_env \<Rightarrow> handler \<Rightarrow> handler" where
  "requireAdmin env h r w = (if isAdmin env r w then h r w else (Fails 403, w))"

abbreviation admin_post :: "web_env \<Rightarrow> handler \<Rightarrow> handler" where
  "admin_post env h \<equiv> requirePOST (requireAdmin env h)"

definition auth :: "web_env \<Rightarrow> handler \<Rightarrow> handler" where
  "auth env h r w = (if session_user env r w = [] then (see_other ''/login'', w) else h r w)"

definition handleLogin :: "web_env \<Rightarrow> handler" where
  "handleLogin env r w =
     (if hrMethod r = ''GET'' then (SendsLogin False, w)
      else (let user = FormValue r ''username''; pass = FormValue r ''password'' in
        case GetWebUserByUsername user (store_of w) of
          None \<Rightarrow> (SendsLogin True, w)
        | Some (i, u) \<Rightarrow>
            if \<not> weCheck env (suPasswordHash u) pass then (SendsLogin True, w)
            else (Redirects ''/'' (Some (SetSession (weSL env) (wbSessions w) (weNow env) user)), w)))"

definition handleLogout :: handler where
  "handleLogout r w = (Redirects ''/login'' (Some ClearSession), w)"

section \<open>Extensions and configuration\<close>

text \<open>The working directory and the root are always there; os.ReadDir lists by name.\<close>
definition dir_exists :: "string \<Rightarrow> disk \<Rightarrow> bool" where
  "dir_exists d dk = (d \<noteq> [] \<and> (Clean d \<in> {''.'', ''/''} \<or> node dk d = Some IsDir))"

definition ext_dir_entries :: "string \<Rightarrow> disk \<Rightarrow> (string \<times> dirent) list option option" where
  "ext_dir_entries d dk =
     (if dir_exists d dk then Some (Some (sort_by (\<lambda>a b. str_le (fst a) (fst b)) (read_dir d dk)))
      else if node dk d = None then None else Some None)"

definition loadExtensions :: "web_env \<Rightarrow> web \<Rightarrow> (ext_error, (string, extension) gomap) result" where
  "loadExtensions env w =
     LoadExtensions (weDecodeExt env) (ext_dir_entries (wbExtDir w) (wbDisk w)) (maxCallsPerExt (cLimits (wbCfg w)))"

text \<open>When a file cannot be loaded the map is nil: no extensions at all.\<close>
definition loaded_or_nil :: "web_env \<Rightarrow> web \<Rightarrow> (string, extension) gomap" where
  "loaded_or_nil env w = (case loadExtensions env w of Inl e \<Rightarrow> [] | Inr m \<Rightarrow> m)"

definition reload_extensions :: "web_env \<Rightarrow> web \<Rightarrow> web" where
  "reload_extensions env w = w\<lparr>wbPbx := ReloadExtensions (loaded_or_nil env w) (wbPbx w)\<rparr>"

text \<open>os.Create needs the directory; os.Remove also removes an empty directory.\<close>
definition CreateFile :: "string \<Rightarrow> string \<Rightarrow> disk \<Rightarrow> bool \<times> disk" where
  "CreateFile p b dk = (if dir_exists (Dir p) dk then WriteFile p b dk else (False, dk))"

definition RemoveFile :: "string \<Rightarrow> disk \<Rightarrow> disk" where
  "RemoveFile p dk =
     (case node dk p of
        None \<Rightarrow> dk
      | Some IsDir \<Rightarrow> if walk_dir p dk = [] then del (Clean p) dk else dk
      | Some _ \<Rightarrow> del (Clean p) dk)"

definition ext_path :: "web \<Rightarrow> string \<Rightarrow> string" where
  "ext_path w n = Join [wbExtDir w, n @ ''.toml'']"

text \<open>The extension a form describes, completed from the one on disk\<close>
definition form_extension :: "web_env \<Rightarrow> request \<Rightarrow> web \<Rightarrow> extension" where
  "form_extension env r w =
     (let mx = scan_or (maxCallsPerExt (cLimits (wbCfg w))) (FormValue r ''max_simultaneous_calls'');
          n = FormValue r ''extension'';
          ext = \<lparr>exNumber = n, exDisplayName = dflt n (FormValue r ''display_name''),
                 exPassword = FormValue r ''password'', exEnabled = (FormValue r ''enabled'' = ''1''),
                 exCallWaiting = (FormValue r ''call_waiting'' = ''1''),
                 exMaxCalls = (if mx \<le> 0 then DefaultMaxCallsPerExtension else mx),
                 exVideo = False, exVoicemail = False, exDND = False\<rparr>
      in case get (loaded_or_nil env w) n of
           None \<Rightarrow> ext
         | Some old \<Rightarrow>
             ext\<lparr>exDND := exDND old, exVideo := exVideo old, exVoicemail := exVoicemail old,
                 exPassword := dflt (exPassword old) (exPassword ext)\<rparr>)"

definition handleExtensionSave :: "web_env \<Rightarrow> handler" where
  "handleExtensionSave env = admin_post env (\<lambda>r w.
     if FormValue r ''extension'' = [] then (Fails 400, w)
     else (let ext = form_extension env r w in
       if exPassword ext = [] then (Fails 400, w)
       else (let dk = snd (MkdirAll (wbExtDir w) (wbDisk w)) in
         case CreateFile (ext_path w (exNumber ext)) (weEncodeExt env ext) dk of
           (False, dk') \<Rightarrow> (Fails 500, w\<lparr>wbDisk := dk'\<rparr>)
         | (True, dk') \<Rightarrow> (see_other ''/extensions'', reload_extensions env (w\<lparr>wbDisk := dk'\<rparr>)))))"

definition handleExtensionDelete :: "web_env \<Rightarrow> handler" where
  "handleExtensionDelete env = admin_post env (\<lambda>r w.
     (see_other ''/extensions'',
      reload_extensions env (w\<lparr>wbDisk := RemoveFile (ext_path w (FormValue r ''extension'')) (wbDisk w)\<rparr>)))"

definition load_config :: "web_env \<Rightarrow> web \<Rightarrow> (load_error, config) result" where
  "load_config env w =
     LoadConfig (\<lambda>p. case ReadFile p (wbDisk w) of Bytes b \<Rightarrow> Some b | _ \<Rightarrow> None) (weDecodeCfg env) (wbCfgPath w)"

text \<open>The configuration just read, in the web server and the switchboard\<close>
definition use_config :: "web_env \<Rightarrow> config \<Rightarrow> web \<Rightarrow> web" where
  "use_config env cfg w =
     reload_extensions env (w\<lparr>wbCfg := cfg, wbPbx := ReloadConfig cfg (wbPbx w)\<rparr>)"

definition handleReload :: "web_env \<Rightarrow> handler" where
  "handleReload env = admin_post env (\<lambda>r w.
     (see_other ''/'', case load_config env w of Inl e \<Rightarrow> w | Inr cfg \<Rightarrow> use_config env cfg w))"

section \<open>Groups, conferences, trunks, users and phonebook\<close>

definition handleHuntSave :: "web_env \<Rightarrow> handler" where
  "handleHuntSave env = admin_post env (\<lambda>r w.
     (let timeout = scan_or 20 (FormValue r ''ring_timeout'');
          name = FormValue r ''name''; number = FormValue r ''number''; strategy = FormValue r ''strategy'';
          members = splitCSV (FormValue r ''members''); i = formID r; d = store_of w;
          d' = (if 0 < i then SetHuntMembers i members (or_keep d (UpdateHuntGroup i name number strategy timeout d))
                else (let d1 = or_keep d (CreateHuntGroup name number strategy timeout d) in
                  case GetHuntGroupByNumber number d1 of
                    None \<Rightarrow> d1
                  | Some (j, g) \<Rightarrow> SetHuntMembers j members d1))
      in (see_other ''/hunt'', set_store d' w)))"

definition handleHuntDelete :: "web_env \<Rightarrow> handler" where
  "handleHuntDelete env = admin_post env (\<lambda>r w.
     (let i = scan_or 0 (FormValue r ''id''); d = store_of w in
      case GetHuntGroup i d of
        None \<Rightarrow> (see_other ''/hunt'', set_store (DeleteHuntGroup i d) w)
      | Some g \<Rightarrow>
          if HuntGroupReferenced (hgNumber g) d then (Fails 400, w)
          else (see_other ''/hunt'', set_store (DeleteHuntGroup i d) w)))"

definition handleConferenceSave :: "web_env \<Rightarrow> handler" where
  "handleConferenceSave env = admin_post env (\<lambda>r w.
     (let mx = scan_or 16 (FormValue r ''max_participants'');
          name = FormValue r ''name''; number = FormValue r ''number''; pin = FormValue r ''pin'';
          i = formID r; d = store_of w in
      if 0 < i then
        (see_other ''/conferences'', set_store (or_keep d (UpdateConference (weHash env) i name number pin mx d)) w)
      else if pin = [] then (Fails 400, w)
      else (see_other ''/conferences'', set_store (or_keep d (CreateConference (weHash env) name number pin mx d)) w)))"

definition handleConferenceDelete :: "web_env \<Rightarrow> handler" where
  "handleConferenceDelete env = admin_post env (\<lambda>r w.
     (see_other ''/conferences'', set_store (DeleteConference (scan_or 0 (FormValue r ''id'')) (store_of w)) w))"

definition handlePagingSave :: "web_env \<Rightarrow> handler" where
  "handlePagingSave env = admin_post env (\<lambda>r w.
     (let code = trim_prefix (FormValue r ''code'') ''*''; ch = scan_or 0 (FormValue r ''channel'');
          name = FormValue r ''name''; mode = FormValue r ''mode''; mcast = FormValue r ''multicast_address'';
          members = splitCSV (FormValue r ''members''); i = formID r; d = store_of w;
          d' = (if 0 < i then SetPagingMembers i members (or_keep d (UpdatePagingGroup i name code mode mcast ch d))
                else (let d1 = or_keep d (CreatePagingGroup name code mode mcast ch d) in
                  case GetPagingByCode code d1 of
                    None \<Rightarrow> d1
                  | Some (j, g) \<Rightarrow> SetPagingMembers j members d1))
      in (see_other ''/paging'', set_store d' w)))"

definition handlePagingDelete :: "web_env \<Rightarrow> handler" where
  "handlePagingDelete env = admin_post env (\<lambda>r w.
     (see_other ''/paging'', set_store (DeletePagingGroup (scan_or 0 (FormValue r ''id'')) (store_of w)) w))"

definition handleTrunkRouteSave :: "web_env \<Rightarrow> handler" where
  "handleTrunkRouteSave env = admin_post env (\<lambda>r w.
     (see_other ''/trunks'',
      set_store (SaveTrunkRoute \<lparr>trTrunkID = scan_or 0 (FormValue r ''trunk_id''),
         trRouteType = FormValue r ''route_type'', trRouteTarget = FormValue r ''route_target''\<rparr> (store_of w)) w))"

definition handleUserSave :: "web_env \<Rightarrow> handler" where
  "handleUserSave env = admin_post env (\<lambda>r w.
     (let username = FormValue r ''username''; role = NormalizeRole (FormValue r ''role'');
          password = FormValue r ''password''; i = formID r; d = store_of w in
      if 0 < i then
        (if password = [] then (see_other ''/users'', set_store (or_keep d (UpdateWebUser i username role [] d)) w)
         else case weHash env password of
           None \<Rightarrow> (Fails 500, w)
         | Some h \<Rightarrow> (see_other ''/users'', set_store (or_keep d (UpdateWebUser i username role h d)) w))
      else if password = [] then (Fails 400, w)
      else (case weHash env password of
          None \<Rightarrow> (Fails 500, w)
        | Some h \<Rightarrow> (see_other ''/users'', set_store (UpsertWebUser username h role d) w))))"

definition handleUserDelete :: "web_env \<Rightarrow> handler" where
  "handleUserDelete env = admin_post env (\<lambda>r w.
     (see_other ''/users'', set_store (DeleteWebUser (scan_or 0 (FormValue r ''id'')) (store_of w)) w))"

definition handlePhonebookSave :: "web_env \<Rightarrow> handler" where
  "handlePhonebookSave env = admin_post env (\<lambda>r w.
     (let name = trim_space (FormValue r ''name''); number = trim_space (FormValue r ''number'');
          label = trim_space (FormValue r ''label''); i = scan_or 0 (FormValue r ''id''); d = store_of w in
      if name = [] \<or> number = [] then (Fails 400, w)
      else (see_other ''/phonebook'',
        set_store (if 0 < i then UpdatePhonebookEntry i name number label d
                   else snd (CreatePhonebookEntry name number label d)) w)))"

definition handlePhonebookDelete :: "web_env \<Rightarrow> handler" where
  "handlePhonebookDelete env = admin_post env (\<lambda>r w.
     (see_other ''/phonebook'', set_store (DeletePhonebookEntry (scan_or 0 (FormValue r ''id'')) (store_of w)) w))"

section \<open>Backups\<close>

definition cfgDir :: "web_env \<Rightarrow> web \<Rightarrow> string" where
  "cfgDir env w =
     (if wbCfgPath w = [] then ''.''
      else if Dir (wbCfgPath w) = ''.'' then weWd env else Dir (wbCfgPath w))"

definition backupLayout :: "web_env \<Rightarrow> web \<Rightarrow> layout" where
  "backupLayout env w = LayoutFrom (cfgDir env w) (wbCfgPath w) (wbCfg w)"

definition handleBackupDownload :: "web_env \<Rightarrow> handler" where
  "handleBackupDownload env = requireAdmin env (\<lambda>r w.
     (case Export (weArchive env) (weVersion env) (weClock env) (wbDisk w) (Snap (weDump env (store_of w)))
             (backupLayout env w) \<lparr>eoMOH = (QueryValue r ''include_moh'' = ''1''),
               eoPhonebook = (QueryValue r ''include_phonebook'' = ''1'')\<rparr> of
        Inl e \<Rightarrow> (Fails 500, w)
      | Inr data \<Rightarrow> (Downloads data, w)))"

text \<open>The database the store has after opening the file again; a file that is missing is made
  with empty tables.\<close>
definition Reopen :: "web_env \<Rightarrow> string \<Rightarrow> disk \<Rightarrow> db option" where
  "Reopen env p dk =
     (case ReadFile p dk of NoFile \<Rightarrow> Some empty_db | ReadBad \<Rightarrow> None | Bytes b \<Rightarrow> weOpenDB env b)"

text \<open>The database file holds what the store has written.\<close>
definition flushed :: "web_env \<Rightarrow> layout \<Rightarrow> web \<Rightarrow> disk" where
  "flushed env ly w = put (Clean (lyDatabasePath ly)) (FileEnt (weDump env (store_of w))) (wbDisk w)"

definition archive_name :: "string \<Rightarrow> bool" where
  "archive_name n = (has_suffix (to_lower n) ''.tar.gz'' \<or> has_suffix (to_lower n) ''.tgz'')"

definition handleBackupRestore :: "web_env \<Rightarrow> handler" where
  "handleBackupRestore env = admin_post env (\<lambda>r w.
     (case hrUpload r of
        None \<Rightarrow> (Fails 400, w)
      | Some (filename, raw) \<Rightarrow>
          if \<not> archive_name filename then (Fails 400, w)
          else (case Unpack (weArchive env) raw MaxArchiveBytes of
            Inl e \<Rightarrow> (Fails 400, w)
          | Inr files \<Rightarrow>
              (let ly = backupLayout env w;
                   (err, dk) = Restore (weArchive env) ly files (flushed env ly w);
                   w1 = w\<lparr>wbDisk := dk\<rparr>;
                   opened = Reopen env (lyDatabasePath ly) dk;
                   w2 = (case opened of None \<Rightarrow> w1 | Some d \<Rightarrow> set_store d w1)
               in case err of
                    Some e \<Rightarrow> (Fails 400, w2)
                  | None \<Rightarrow>
                      if opened = None then (Fails 500, w1)
                      else (case load_config env w2 of
                          Inl e \<Rightarrow> (Fails 500, w2)
                        | Inr cfg \<Rightarrow> (see_other ''/backup?restored=1'', use_config env cfg w2))))))"

section \<open>Requests\<close>

text \<open>A handler that only sends a page\<close>
definition sends :: "web_env \<Rightarrow> (request \<Rightarrow> web \<Rightarrow> bool \<Rightarrow> html) \<Rightarrow> handler" where
  "sends env page r w = (SendsPage (page r w (isAdmin env r w)), w)"

definition handleDashboard :: "web_env \<Rightarrow> handler" where
  "handleDashboard env = sends env (\<lambda>r w admin.
     dashboardPage (wePbx env) (wbCfg w) (wbPbx w) (loaded_or_nil env w) (weVersion env) admin)"

definition handleExtensions :: "web_env \<Rightarrow> handler" where
  "handleExtensions env = sends env (\<lambda>r w admin. extensionsPage (loaded_or_nil env w) admin (QueryValue r ''edit''))"

definition handleHunt :: "web_env \<Rightarrow> handler" where
  "handleHunt env = sends env (\<lambda>r w admin. huntPage (store_of w) admin (queryEditID r))"

definition handleConferences :: "web_env \<Rightarrow> handler" where
  "handleConferences env = sends env (\<lambda>r w admin. conferencesPage (store_of w) admin (queryEditID r))"

definition handlePaging :: "web_env \<Rightarrow> handler" where
  "handlePaging env = sends env (\<lambda>r w admin. pagingPage (wePick env) (store_of w) admin (queryEditID r))"

definition handleTrunks :: "web_env \<Rightarrow> handler" where
  "handleTrunks env = sends env (\<lambda>r w admin. trunksPage (wbCfg w) (store_of w) admin)"

definition handleUsers :: "web_env \<Rightarrow> handler" where
  "handleUsers env = requireAdmin env (sends env (\<lambda>r w admin. usersPage (store_of w) (queryEditID r)))"

definition handlePhonebook :: "web_env \<Rightarrow> handler" where
  "handlePhonebook env = sends env (\<lambda>r w admin.
     phonebookPage (store_of w) (loaded_or_nil env w) admin (queryEditID r))"

definition handleBackup :: "web_env \<Rightarrow> handler" where
  "handleBackup env = requireAdmin env (sends env (\<lambda>r w admin. backupPage (QueryValue r ''restored'' = ''1'')))"

definition handleStatus :: "web_env \<Rightarrow> handler" where
  "handleStatus env = sends env (\<lambda>r w admin.
     statusPage (weVersion env) (weClock env) (Status (wePbx env) (wbPbx w)) (store_of w) (QueryValue r ''filter''))"

definition handleStatusFragment :: "web_env \<Rightarrow> handler" where
  "handleStatusFragment env = sends env (\<lambda>r w admin.
     let flt = QueryValue r ''filter'' in
     statusLive (weClock env) (Status (wePbx env) (wbPbx w)) (store_of w) (filteredCallLog flt (store_of w)) flt)"

definition handlePhonebookXML :: "web_env \<Rightarrow> handler" where
  "handlePhonebookXML env r w =
     (case buildPhonebookDirectory (store_of w) (loadExtensions env w) of
        Inl e \<Rightarrow> (Fails 500, w)
      | Inr dir \<Rightarrow> (SendsDirectory dir, w))"

definition handlePhonebookStatic :: "web_env \<Rightarrow> handler" where
  "handlePhonebookStatic env r w =
     (let name = trim_prefix (hrPath r) ''/phonebook/'' in
      if name = [] \<or> name = ''directory.xml'' then handlePhonebookXML env r w
      else (case phonebook_file (wbPhonebookDir w) name of
          None \<Rightarrow> (Fails 404, w)
        | Some p \<Rightarrow> (case ReadFile p (wbDisk w) of Bytes b \<Rightarrow> (SendsFile b, w) | _ \<Rightarrow> (Fails 404, w))))"

definition staticContentType :: "string \<Rightarrow> string" where
  "staticContentType name =
     (let e = to_lower (Ext name) in
      if e = ''.svg'' then ''image/svg+xml'' else if e = ''.png'' then ''image/png''
      else if e = ''.webmanifest'' \<or> e = ''.json'' then ''application/manifest+json''
      else ''application/octet-stream'')"

definition handleWebStatic :: "web_env \<Rightarrow> handler" where
  "handleWebStatic env r w =
     (let name = trim_prefix (hrPath r) ''/web/'' in
      if hrMethod r \<noteq> ''GET'' \<and> hrMethod r \<noteq> ''HEAD'' then (Fails 405, w)
      else if name = [] \<or> str_contains name ''..'' then (Fails 404, w)
      else (case weAssets env (Join [''static'', name]) of
          None \<Rightarrow> (Fails 404, w)
        | Some b \<Rightarrow> (SendsFile (if hrMethod r = ''HEAD'' then [] else b), w)))"

text \<open>The patterns with a fixed path; those behind the login first\<close>
definition protected_routes :: "web_env \<Rightarrow> (string, handler) gomap" where
  "protected_routes env =
     [(''/status'', handleStatus env), (''/status/fragment'', handleStatusFragment env),
      (''/extensions'', handleExtensions env), (''/extensions/save'', handleExtensionSave env),
      (''/extensions/delete'', handleExtensionDelete env),
      (''/hunt'', handleHunt env), (''/hunt/save'', handleHuntSave env), (''/hunt/delete'', handleHuntDelete env),
      (''/conferences'', handleConferences env), (''/conferences/save'', handleConferenceSave env),
      (''/conferences/delete'', handleConferenceDelete env),
      (''/paging'', handlePaging env), (''/paging/save'', handlePagingSave env), (''/paging/delete'', handlePagingDelete env),
      (''/trunks'', handleTrunks env), (''/trunks/route'', handleTrunkRouteSave env),
      (''/users'', handleUsers env), (''/users/save'', handleUserSave env), (''/users/delete'', handleUserDelete env),
      (''/phonebook'', handlePhonebook env), (''/phonebook/save'', handlePhonebookSave env),
      (''/phonebook/delete'', handlePhonebookDelete env), (''/reload'', handleReload env),
      (''/backup'', handleBackup env), (''/backup/download'', handleBackupDownload env),
      (''/backup/restore'', handleBackupRestore env)]"

definition Handler :: "web_env \<Rightarrow> handler" where
  "Handler env r w =
     (if hrPath r = ''/login'' then handleLogin env r w
      else if hrPath r = ''/logout'' then handleLogout r w
      else case get (protected_routes env) (hrPath r) of
        Some h \<Rightarrow> auth env h r w
      | None \<Rightarrow>
          if has_prefix (hrPath r) ''/web/'' then handleWebStatic env r w
          else if has_prefix (hrPath r) ''/phonebook/'' then handlePhonebookStatic env r w
          else auth env (handleDashboard env) r w)"

section \<open>Only administrators change anything\<close>

text \<open>A handler that changes nothing, and one that changes something or hands out a backup
  only for a request that may\<close>
definition quiet :: "handler \<Rightarrow> bool" where
  "quiet h = (\<forall>r w. snd (h r w) = w \<and> (\<forall>data. fst (h r w) \<noteq> Downloads data))"

definition guarded :: "web_env \<Rightarrow> handler \<Rightarrow> bool" where
  "guarded env h = (\<forall>r w. snd (h r w) \<noteq> w \<or> (\<exists>data. fst (h r w) = Downloads data) \<longrightarrow> isAdmin env r w)"

named_theorems web_rules \<open>what the handlers may change\<close>

lemma quiet_guarded: "quiet h \<Longrightarrow> guarded env h"
  by (simp add: quiet_def guarded_def)

lemma quiet_sends [web_rules]: "quiet (sends env page)"
  by (simp add: quiet_def sends_def)

lemma guarded_requireAdmin [web_rules]: "guarded env (requireAdmin env h)"
  by (simp add: guarded_def requireAdmin_def)

lemma guarded_requirePOST [web_rules]: "guarded env h \<Longrightarrow> guarded env (requirePOST h)"
  by (simp add: guarded_def requirePOST_def)

lemma guarded_auth: "guarded env h \<Longrightarrow> guarded env (auth env h)"
  by (simp add: guarded_def auth_def)

lemma quiet_public [web_rules]:
  "quiet (handleLogin env)" "quiet handleLogout" "quiet (handleWebStatic env)" "quiet (handlePhonebookStatic env)"
proof -
  show "quiet (handleLogin env)" by (simp add: quiet_def handleLogin_def Let_def split: option.split)
  show "quiet handleLogout" by (simp add: quiet_def handleLogout_def)
  show "quiet (handleWebStatic env)" by (simp add: quiet_def handleWebStatic_def Let_def split: option.split)
  show "quiet (handlePhonebookStatic env)"
    by (simp add: quiet_def handlePhonebookStatic_def handlePhonebookXML_def Let_def split: option.split sum.split read_result.split)
qed

lemmas handler_defs = handleDashboard_def handleExtensions_def handleHunt_def handleConferences_def handlePaging_def
  handleTrunks_def handleUsers_def handlePhonebook_def handleBackup_def handleStatus_def handleStatusFragment_def

lemmas action_defs = handleExtensionSave_def handleExtensionDelete_def handleHuntSave_def handleHuntDelete_def
  handleConferenceSave_def handleConferenceDelete_def handlePagingSave_def handlePagingDelete_def handleTrunkRouteSave_def
  handleUserSave_def handleUserDelete_def handlePhonebookSave_def handlePhonebookDelete_def handleReload_def
  handleBackupDownload_def handleBackupRestore_def

lemma guarded_pages [web_rules]:
  "guarded env (handleDashboard env)" "guarded env (handleExtensions env)" "guarded env (handleHunt env)"
  "guarded env (handleConferences env)" "guarded env (handlePaging env)" "guarded env (handleTrunks env)"
  "guarded env (handleUsers env)" "guarded env (handlePhonebook env)" "guarded env (handleBackup env)"
  "guarded env (handleStatus env)" "guarded env (handleStatusFragment env)"
  by (simp_all only: handler_defs guarded_requireAdmin quiet_guarded quiet_sends)

lemma guarded_actions [web_rules]:
  "guarded env (handleExtensionSave env)" "guarded env (handleExtensionDelete env)" "guarded env (handleHuntSave env)"
  "guarded env (handleHuntDelete env)" "guarded env (handleConferenceSave env)" "guarded env (handleConferenceDelete env)"
  "guarded env (handlePagingSave env)" "guarded env (handlePagingDelete env)" "guarded env (handleTrunkRouteSave env)"
  "guarded env (handleUserSave env)" "guarded env (handleUserDelete env)" "guarded env (handlePhonebookSave env)"
  "guarded env (handlePhonebookDelete env)" "guarded env (handleReload env)" "guarded env (handleBackupDownload env)"
  "guarded env (handleBackupRestore env)"
  by (simp_all only: action_defs guarded_requireAdmin guarded_requirePOST)

lemma vals_protected:
  "set (vals (protected_routes env)) = {handleStatus env, handleStatusFragment env, handleExtensions env, handleExtensionSave env,
     handleExtensionDelete env, handleHunt env, handleHuntSave env, handleHuntDelete env, handleConferences env,
     handleConferenceSave env, handleConferenceDelete env, handlePaging env, handlePagingSave env, handlePagingDelete env,
     handleTrunks env, handleTrunkRouteSave env, handleUsers env, handleUserSave env, handleUserDelete env,
     handlePhonebook env, handlePhonebookSave env, handlePhonebookDelete env, handleReload env, handleBackup env,
     handleBackupDownload env, handleBackupRestore env}"
  by (simp only: protected_routes_def list.map snd_conv set_simps)

lemma route_handler: "get (protected_routes env) p = Some h \<Longrightarrow> h \<in> set (vals (protected_routes env))"
  by (force dest: get_in_set)

lemma guarded_routes: "get (protected_routes env) p = Some h \<Longrightarrow> guarded env h"
  by (drule route_handler) (simp only: vals_protected, elim insertE emptyE; simp only: guarded_pages guarded_actions)

definition posted :: "handler \<Rightarrow> bool" where
  "posted h = (\<forall>r w. snd (h r w) \<noteq> w \<longrightarrow> hrMethod r = ''POST'')"

lemma posted_rules:
  "quiet h \<Longrightarrow> posted h" "posted (requirePOST h)"
  by (simp_all add: posted_def quiet_def requirePOST_def)

lemma posted_around: "posted h \<Longrightarrow> posted (requireAdmin env h)" "posted h \<Longrightarrow> posted (auth env h)"
  by (auto simp: posted_def requireAdmin_def auth_def split: if_splits)

lemma posted_pages:
  "posted (handleDashboard env)" "posted (handleExtensions env)" "posted (handleHunt env)" "posted (handleConferences env)"
  "posted (handlePaging env)" "posted (handleTrunks env)" "posted (handleUsers env)" "posted (handlePhonebook env)"
  "posted (handleBackup env)" "posted (handleStatus env)" "posted (handleStatusFragment env)"
  by (simp_all only: handler_defs posted_around posted_rules(1) quiet_sends)

lemma posted_actions:
  "posted (handleExtensionSave env)" "posted (handleExtensionDelete env)" "posted (handleHuntSave env)"
  "posted (handleHuntDelete env)" "posted (handleConferenceSave env)" "posted (handleConferenceDelete env)"
  "posted (handlePagingSave env)" "posted (handlePagingDelete env)" "posted (handleTrunkRouteSave env)"
  "posted (handleUserSave env)" "posted (handleUserDelete env)" "posted (handlePhonebookSave env)"
  "posted (handlePhonebookDelete env)" "posted (handleReload env)" "posted (handleBackupRestore env)"
  by (simp_all only: action_defs posted_rules(2))

lemma posted_download: "posted (handleBackupDownload env)"
  by (simp add: posted_def handleBackupDownload_def requireAdmin_def split: sum.split)

lemma posted_routes: "get (protected_routes env) p = Some h \<Longrightarrow> posted h"
  by (drule route_handler) (simp only: vals_protected, elim insertE emptyE; simp only: posted_pages posted_actions posted_download)

lemma isAdmin_iff:
  "isAdmin env r w \<longleftrightarrow> (\<exists>i u. session_user env r w \<noteq> []
     \<and> GetWebUserByUsername (session_user env r w) (store_of w) = Some (i, u) \<and> NormalizeRole (suRole u) = RoleAdmin)"
  by (auto simp: isAdmin_def currentUser_def split: option.splits if_splits prod.splits)

text \<open>The handler a request ends in\<close>
lemma Handler_handler: "\<exists>h. Handler env r w = h r w \<and> guarded env h \<and> posted h"
proof -
  have pub: "quiet (handleLogin env)" "quiet handleLogout" "quiet (handleWebStatic env)" "quiet (handlePhonebookStatic env)"
    "quiet (handleDashboard env)" by (simp_all add: web_rules handleDashboard_def)
  show ?thesis
  proof (cases "hrPath r \<in> {''/login'', ''/logout''}")
    case True
    then have "Handler env r w = handleLogin env r w \<or> Handler env r w = handleLogout r w" by (auto simp: Handler_def)
    then show ?thesis using pub quiet_guarded posted_rules(1) by blast
  next
    case False
    show ?thesis
    proof (cases "get (protected_routes env) (hrPath r)")
      case None
      with False have "Handler env r w \<in> {handleWebStatic env r w, handlePhonebookStatic env r w, auth env (handleDashboard env) r w}"
        by (simp add: Handler_def)
      then show ?thesis using pub quiet_guarded posted_rules(1) guarded_auth posted_around(2) by blast
    next
      case (Some k)
      with False have "Handler env r w = auth env k r w" by (simp add: Handler_def)
      then show ?thesis using guarded_routes [OF Some] posted_routes [OF Some] guarded_auth posted_around(2) by blast
    qed
  qed
qed

text \<open>C4: Whatever request arrives: it changes the server, or hands out a backup, only when its
  session names a stored user whose role is administrator, and it changes the server only by POST.\<close>
theorem web_admin_only:
  assumes "Handler env r w = (resp, w')" "w' \<noteq> w \<or> (\<exists>data. resp = Downloads data)"
  shows "(\<exists>i u. session_user env r w \<noteq> [] \<and> GetWebUserByUsername (session_user env r w) (store_of w) = Some (i, u)
      \<and> NormalizeRole (suRole u) = RoleAdmin) \<and> (w' \<noteq> w \<longrightarrow> hrMethod r = ''POST'')"
proof -
  obtain h where h: "h r w = (resp, w')" "guarded env h" "posted h" using Handler_handler [of env r w] assms(1) by auto
  from h(2) have "isAdmin env r w" unfolding guarded_def using h(1) assms(2) by (metis fst_conv snd_conv)
  moreover from h(3) have "w' \<noteq> w \<longrightarrow> hrMethod r = ''POST''" unfolding posted_def using h(1) by (metis snd_conv)
  ultimately show ?thesis by (simp add: isAdmin_iff)
qed

text \<open>A user who has been deleted keeps reading until the session ends: the login of the
  pages asks for a session, not for a stored user.\<close>
theorem deleted_user_reads:
  assumes "session_user env r w \<noteq> []" "GetWebUserByUsername (session_user env r w) (store_of w) = None"
    and "hrPath r \<in> {''/status'', ''/extensions'', ''/hunt'', ''/trunks'', ''/phonebook''}"
  shows "(\<exists>page. Handler env r w = (SendsPage page, w)) \<and> \<not> isAdmin env r w"
proof
  have "\<exists>page. get (protected_routes env) (hrPath r) = Some (sends env page)"
    using assms(3) by (elim insertE emptyE) (auto simp: protected_routes_def handler_defs)
  then obtain page where p: "get (protected_routes env) (hrPath r) = Some (sends env page)" by blast
  have "hrPath r \<noteq> ''/login''" "hrPath r \<noteq> ''/logout''" using assms(3) by auto
  then show "\<exists>page. Handler env r w = (SendsPage page, w)"
    using p assms(1) by (simp add: Handler_def auth_def sends_def)
  show "\<not> isAdmin env r w" using assms(2) by (simp add: isAdmin_iff)
qed

end
