(* ===== verification/Admin.thy ===== *)
theory Admin
  imports Web
begin

text \<open>
  What the administration does to the rest of the server: the database keeps its
  invariant, a saved extension is in the switchboard, and what a form with an
  unexpected number or name does.
\<close>

section \<open>The database\<close>

lemma store_set_store [simp]: "store_of (set_store d w) = d"
  by (simp add: set_store_def)

lemma or_keep_inv:
  "(\<And>d'. r = Ok d' \<Longrightarrow> db_inv d') \<Longrightarrow> db_inv d \<Longrightarrow> db_inv (or_keep d r)"
  by (auto simp: or_keep_def split: sum.split)

definition keeps_store :: "handler \<Rightarrow> bool" where
  "keeps_store h = (\<forall>r w. db_inv (store_of w) \<longrightarrow> db_inv (store_of (snd (h r w))))"

lemma keeps_quiet: "quiet h \<Longrightarrow> keeps_store h"
  by (simp add: keeps_store_def quiet_def)

lemma keeps_around: "keeps_store h \<Longrightarrow> keeps_store (requirePOST h)" "keeps_store h \<Longrightarrow> keeps_store (requireAdmin env h)"
  "keeps_store h \<Longrightarrow> keeps_store (auth env h)"
  by (simp_all add: keeps_store_def requirePOST_def requireAdmin_def auth_def)

lemma keeps_set: "(\<And>r w. db_inv (store_of w) \<Longrightarrow> db_inv (f r w)) \<Longrightarrow> keeps_store (\<lambda>r w. (resp r w, set_store (f r w) w))"
  by (simp add: keeps_store_def)

lemma store_reload [simp]: "store_of (reload_extensions env w) = store_of w" "store_of (use_config env cfg w) = store_of w"
  by (simp_all add: reload_extensions_def use_config_def ReloadExtensions_def ReloadConfig_def)

lemma or_keep_saves:
  assumes "db_inv d"
  shows "db_inv (or_keep d (CreateHuntGroup n nr st rt d))" "db_inv (or_keep d (UpdateHuntGroup i n nr st rt d))"
    "db_inv (or_keep d (CreateConference hash n nr pin mx d))" "db_inv (or_keep d (UpdateConference hash i n nr pin mx d))"
    "db_inv (or_keep d (CreatePagingGroup n code m a ch d))" "db_inv (or_keep d (UpdatePagingGroup i n code m a ch d))"
    "db_inv (or_keep d (UpdateWebUser i u r h d))"
  using assms
  by (auto intro!: or_keep_inv dest: hunt_create_inv hunt_update_inv conf_create_inv conf_update_inv
      paging_create_inv paging_update_inv web_update_inv)

lemmas store_changes = or_keep_saves delete_inv members_inv log_inv map_inv UpsertWebUser_inv

lemma keeps_actions:
  "keeps_store (handleExtensionSave env)" "keeps_store (handleExtensionDelete env)" "keeps_store (handleReload env)"
  "keeps_store (handleHuntSave env)" "keeps_store (handleHuntDelete env)"
  "keeps_store (handleConferenceSave env)" "keeps_store (handleConferenceDelete env)"
  "keeps_store (handlePagingSave env)" "keeps_store (handlePagingDelete env)" "keeps_store (handleTrunkRouteSave env)"
  "keeps_store (handleUserSave env)" "keeps_store (handleUserDelete env)"
  "keeps_store (handlePhonebookSave env)" "keeps_store (handlePhonebookDelete env)"
proof -
  show "keeps_store (handleExtensionSave env)" unfolding handleExtensionSave_def
    by (intro keeps_around) (simp add: keeps_store_def Let_def split: prod.split bool.split)
  show "keeps_store (handleExtensionDelete env)" unfolding handleExtensionDelete_def
    by (intro keeps_around) (simp add: keeps_store_def)
  show "keeps_store (handleReload env)" unfolding handleReload_def
    by (intro keeps_around) (simp add: keeps_store_def split: sum.split)
  show "keeps_store (handleHuntSave env)" unfolding handleHuntSave_def
    by (intro keeps_around) (auto simp: keeps_store_def Let_def intro!: store_changes split: option.split)
  show "keeps_store (handleHuntDelete env)" unfolding handleHuntDelete_def
    by (intro keeps_around) (auto simp: keeps_store_def Let_def intro!: store_changes split: option.split)
  show "keeps_store (handleConferenceSave env)" unfolding handleConferenceSave_def
    by (intro keeps_around) (auto simp: keeps_store_def Let_def intro!: store_changes)
  show "keeps_store (handleConferenceDelete env)" unfolding handleConferenceDelete_def
    by (intro keeps_around) (auto simp: keeps_store_def intro!: store_changes)
  show "keeps_store (handlePagingSave env)" unfolding handlePagingSave_def
    by (intro keeps_around) (auto simp: keeps_store_def Let_def intro!: store_changes split: option.split)
  show "keeps_store (handlePagingDelete env)" unfolding handlePagingDelete_def
    by (intro keeps_around) (auto simp: keeps_store_def intro!: store_changes)
  show "keeps_store (handleTrunkRouteSave env)" unfolding handleTrunkRouteSave_def
    by (intro keeps_around) (auto simp: keeps_store_def intro!: store_changes)
  show "keeps_store (handleUserSave env)" unfolding handleUserSave_def
    by (intro keeps_around) (auto simp: keeps_store_def Let_def intro!: store_changes split: option.split)
  show "keeps_store (handleUserDelete env)" unfolding handleUserDelete_def
    by (intro keeps_around) (auto simp: keeps_store_def intro!: store_changes)
  show "keeps_store (handlePhonebookSave env)" unfolding handlePhonebookSave_def
    by (intro keeps_around) (auto simp: keeps_store_def Let_def intro!: store_changes)
  show "keeps_store (handlePhonebookDelete env)" unfolding handlePhonebookDelete_def
    by (intro keeps_around) (auto simp: keeps_store_def intro!: store_changes)
qed

lemma keeps_pages:
  "keeps_store (handleDashboard env)" "keeps_store (handleExtensions env)" "keeps_store (handleHunt env)"
  "keeps_store (handleConferences env)" "keeps_store (handlePaging env)" "keeps_store (handleTrunks env)"
  "keeps_store (handleUsers env)" "keeps_store (handlePhonebook env)" "keeps_store (handleBackup env)"
  "keeps_store (handleStatus env)" "keeps_store (handleStatusFragment env)"
  by (simp_all only: handler_defs keeps_around keeps_quiet quiet_sends)

lemma keeps_download: "keeps_store (handleBackupDownload env)"
  by (simp add: keeps_store_def handleBackupDownload_def requireAdmin_def split: sum.split)

lemma routes_but_restore:
  "protected_routes env = butlast (protected_routes env) @ [(''/backup/restore'', handleBackupRestore env)]"
  by (simp add: protected_routes_def)

lemma keeps_routes:
  assumes "get (protected_routes env) p = Some h" "p \<noteq> ''/backup/restore''"
  shows "keeps_store h"
proof -
  have "get (butlast (protected_routes env)) p = Some h"
    using assms by (subst (asm) routes_but_restore) (auto simp: map_add_def split: option.splits if_splits)
  then have "h \<in> set (vals (butlast (protected_routes env)))" by (force dest: get_in_set)
  then show ?thesis
    by (simp only: protected_routes_def butlast.simps list.distinct simp_thms if_False if_True list.map snd_conv set_simps)
       (elim insertE emptyE; simp only: keeps_pages keeps_actions keeps_download)
qed



section \<open>What a form does\<close>

lemma as_admin:
  assumes "isAdmin env r w" "hrMethod r = ''POST''" "hrPath r \<notin> {''/login'', ''/logout''}"
    "get (protected_routes env) (hrPath r) = Some h"
  shows "Handler env r w = h r w"
proof -
  have "session_user env r w \<noteq> []" using assms(1) by (auto simp: isAdmin_iff)
  then show ?thesis using assms by (simp add: Handler_def auth_def)
qed

lemma admin_post_runs: "isAdmin env r w \<Longrightarrow> hrMethod r = ''POST'' \<Longrightarrow> admin_post env h r w = h r w"
  by (simp add: requirePOST_def requireAdmin_def)

lemma or_keep_existing_hunt:
  assumes "GetHuntGroupByNumber number d = Some (j, g)"
  shows "or_keep d (CreateHuntGroup name number strategy timeout d) = d"
proof -
  have "\<exists>p \<in> set (hunt_rows d). hgNumber (snd p) = number"
    using assms find_holds by (fastforce simp: GetHuntGroupByNumber_def row_find_def)
  then show ?thesis by (simp add: CreateHuntGroup_def row_add_def or_keep_def)
qed

text \<open>Adding a hunt group under a number that is taken does not fail: the group that has the
  number keeps its name, strategy and time, but its members become those of the form.\<close>
theorem hunt_save_overwrites:
  assumes "isAdmin env r w" "hrMethod r = ''POST''" "hrPath r = ''/hunt/save''" "formID r \<le> 0"
    and "GetHuntGroupByNumber (FormValue r ''number'') (store_of w) = Some (j, g)"
    and "Handler env r w = (resp, w')"
  shows "resp = see_other ''/hunt'' \<and> HuntMembers j (store_of w') = splitCSV (FormValue r ''members'')
    \<and> GetHuntGroupByNumber (FormValue r ''number'') (store_of w') = Some (j, g)
    \<and> hunt_rows (store_of w') = hunt_rows (store_of w)"
proof -
  have "get (protected_routes env) (hrPath r) = Some (handleHuntSave env)" using assms(3) by (simp add: protected_routes_def)
  then have "Handler env r w = (see_other ''/hunt'',
      set_store (SetHuntMembers j (splitCSV (FormValue r ''members'')) (store_of w)) w)"
    using assms(1-5) or_keep_existing_hunt [OF assms(5)]
    by (subst as_admin [where h = "handleHuntSave env"]) (simp_all add: handleHuntSave_def admin_post_runs Let_def)
  then show ?thesis using assms(5,6) SetHuntMembers_same
    by (auto simp: GetHuntGroupByNumber_def SetHuntMembers_def)
qed


section \<open>Extension files\<close>

definition loads :: "(string \<Rightarrow> extension option) \<Rightarrow> string \<Rightarrow> dirent \<Rightarrow> bool" where
  "loads decode n ent = (ent = IsDir \<or> Ext n \<noteq> ''.toml''
     \<or> (\<exists>txt e. ent = FileEnt txt \<and> decode txt = Some e \<and> exNumber e \<noteq> []))"

lemma load_entries_ok:
  "(\<exists>out'. load_entries decode m out ents = Ok out') \<longleftrightarrow> (\<forall>(n, ent) \<in> set ents. loads decode n ent)"
  by (induction decode m out ents rule: load_entries.induct) (auto simp: loads_def split: dirent.splits option.splits)

lemma set_read_dir: "(r, e) \<in> set (read_dir d dk) \<longleftrightarrow> (below d r, e) \<in> set dk \<and> plain_rel r \<and> slash \<notin> set r"
  by (force simp: read_dir_def walk_dir_def List.map_filter_def strip_dir_Some)

lemma keys_walk_dir: "keys (walk_dir d dk) = List.map_filter (strip_dir d) (keys dk)"
  by (induction dk) (auto simp: walk_dir_def List.map_filter_simps split: option.splits)

lemma distinct_read_dir: "distinct (keys dk) \<Longrightarrow> distinct (keys (read_dir d dk))"
proof -
  assume "distinct (keys dk)"
  then have "distinct (filter (\<lambda>p. strip_dir d p \<noteq> None) (keys dk))" by (rule distinct_filter)
  moreover have "inj_on (the \<circ> strip_dir d) (set (filter (\<lambda>p. strip_dir d p \<noteq> None) (keys dk)))"
    by (auto simp: inj_on_def strip_dir_Some)
  ultimately have "distinct (keys (walk_dir d dk))"
    unfolding keys_walk_dir List.map_filter_def by (rule iffD2 [OF distinct_map, OF conjI])
  then show ?thesis by (auto simp: read_dir_def distinct_map inj_on_def)
qed

lemma ext_dir_listed:
  assumes "dir_exists d dk" "distinct (keys dk)"
  obtains ents where "ext_dir_entries d dk = Some (Some ents)" "set ents = set (read_dir d dk)" "distinct (keys ents)"
proof
  let ?ents = "sort_by (\<lambda>a b. str_le (fst a) (fst b)) (read_dir d dk)"
  show "ext_dir_entries d dk = Some (Some ?ents)" using assms(1) by (simp add: ext_dir_entries_def)
  have "mset (keys ?ents) = mset (keys (read_dir d dk))" by simp
  then show "distinct (keys ?ents)" using distinct_read_dir [OF assms(2)] by (metis mset_eq_imp_distinct_iff)
qed simp

lemma plain_file: "slash \<notin> set n \<Longrightarrow> plain_rel (n @ ''.toml'')"
proof -
  assume "slash \<notin> set n"
  then have "slash \<notin> set (n @ ''.toml'')" by (simp add: slash_def)
  moreover have "n @ ''.toml'' \<noteq> ''.''" "n @ ''.toml'' \<noteq> ''..''"
    by (auto simp: append_eq_Cons_conv)
  ultimately show ?thesis by (simp add: plain_rel_def plain_comp_def split_on_none)
qed


lemma upto_last_append: "slash \<notin> set rel \<Longrightarrow> upto_last slash (d @ slash # rel) = d @ [slash]"
  by (simp add: upto_last_def dropWhile_append dropWhile_eq_self_iff)

lemma upto_last_none: "slash \<notin> set rel \<Longrightarrow> upto_last slash rel = []"
  by (auto simp: upto_last_def)

lemma Clean_trailing: "p \<noteq> [] \<Longrightarrow> Clean (p @ [slash]) = Clean p"
  by (simp add: Clean_path_of IsAbs_append split_on_append clean_comps_append)

lemma Clean_nonempty: "Clean d \<noteq> []"
  using clean_form_nonempty [OF Clean_form [of "IsAbs d" d]] by (auto simp: Clean_def Let_def join_with_Nil_iff)

lemma Dir_below:
  assumes "d \<noteq> []" "slash \<notin> set rel"
  shows "Dir (below d rel) = Clean d"
proof -
  note ne = Clean_nonempty [of d]
  have u: "Dir (q @ slash # rel) = Clean (q @ [slash])" "Dir rel = ''.''" for q
    using assms(2) by (simp_all add: Dir_def upto_last_append upto_last_none) (simp add: Clean_def IsAbs_def)
  have root: "Clean ''/'' = ''/''" by code_simp
  show ?thesis using u(1) [of "[]"] u(1) [of "Clean d"] u(2) Clean_trailing [OF ne] root
    by (simp add: below_def slash_def)
qed


lemma form_number [simp]: "exNumber (form_extension env r w) = FormValue r ''extension''"
  by (simp add: form_extension_def Let_def split: option.split)

lemma ext_path_below:
  assumes "wbExtDir w \<noteq> []" "slash \<notin> set n"
  shows "ext_path w n = below (wbExtDir w) (n @ ''.toml'')" "Dir (ext_path w n) = Clean (wbExtDir w)"
    "Clean (ext_path w n) = below (wbExtDir w) (n @ ''.toml'')" "ext_path w n \<noteq> []"
proof -
  have s: "slash \<notin> set (n @ ''.toml'')" using assms(2) by (simp add: slash_def)
  show e: "ext_path w n = below (wbExtDir w) (n @ ''.toml'')"
    using assms plain_file by (simp add: ext_path_def Join_below)
  show "Dir (ext_path w n) = Clean (wbExtDir w)" unfolding e by (rule Dir_below [OF assms(1) s])
  show "Clean (ext_path w n) = below (wbExtDir w) (n @ ''.toml'')"
    unfolding e by (rule Clean_below [OF assms(1) plain_file [OF assms(2)]])
  show "ext_path w n \<noteq> []" unfolding e by (simp add: below_def)
qed

lemma dir_exists_Clean: "dir_exists d dk \<Longrightarrow> dir_exists (Clean d) dk"
  by (simp add: dir_exists_def node_def Clean_nonempty split: if_splits)

lemma dir_exists_put: "dir_exists d dk \<Longrightarrow> node dk p \<noteq> Some IsDir \<Longrightarrow> p \<noteq> [] \<Longrightarrow> dir_exists d (put (Clean p) e dk)"
  by (auto simp: dir_exists_def node_def)

text \<open>Writing the file of an extension into its directory\<close>
lemma save_writes:
  assumes "dir_exists (wbExtDir w) dk" "slash \<notin> set n" "node dk (ext_path w n) \<noteq> Some IsDir"
  shows "CreateFile (ext_path w n) b dk = (True, put (below (wbExtDir w) (n @ ''.toml'')) (FileEnt b) dk)"
    "dir_exists (wbExtDir w) (put (below (wbExtDir w) (n @ ''.toml'')) (FileEnt b) dk)"
proof -
  have d: "wbExtDir w \<noteq> []" using assms(1) by (simp add: dir_exists_def)
  note p = ext_path_below [OF d assms(2)]
  have "dir_exists (Dir (ext_path w n)) dk" using dir_exists_Clean [OF assms(1)] p(2) by simp
  then show "CreateFile (ext_path w n) b dk = (True, put (below (wbExtDir w) (n @ ''.toml'')) (FileEnt b) dk)"
    using assms(3) p(3) by (simp add: CreateFile_def WriteFile_def)
  show "dir_exists (wbExtDir w) (put (below (wbExtDir w) (n @ ''.toml'')) (FileEnt b) dk)"
    using dir_exists_put [OF assms(1,3) p(4)] p(3) by simp
qed

lemma set_put_distinct: "distinct (keys m) \<Longrightarrow> set (put k v m) = insert (k, v) {p \<in> set m. fst p \<noteq> k}"
  by (induction m) (auto simp: image_iff)

definition call_limit :: "web \<Rightarrow> int" where
  "call_limit w = (if maxCallsPerExt (cLimits (wbCfg w)) \<le> 0 then DefaultMaxCallsPerExtension
     else maxCallsPerExt (cLimits (wbCfg w)))"

lemma loadExtensions_dir:
  assumes "dir_exists (wbExtDir w) (wbDisk w)" "distinct (keys (wbDisk w))"
  obtains ents where "loadExtensions env w = load_entries (weDecodeExt env) (call_limit w) [] ents"
    "set ents = set (read_dir (wbExtDir w) (wbDisk w))" "distinct (keys ents)"
proof -
  obtain ents where e: "ext_dir_entries (wbExtDir w) (wbDisk w) = Some (Some ents)"
    "set ents = set (read_dir (wbExtDir w) (wbDisk w))" "distinct (keys ents)" by (rule ext_dir_listed [OF assms])
  show thesis
    by (rule that [OF _ e(2,3)]) (simp add: loadExtensions_def LoadExtensions_def call_limit_def e(1) Let_def)
qed

lemma loadExtensions_ok:
  assumes "dir_exists (wbExtDir w) (wbDisk w)" "distinct (keys (wbDisk w))"
  shows "(\<exists>m. loadExtensions env w = Ok m) \<longleftrightarrow> (\<forall>(n, e) \<in> set (read_dir (wbExtDir w) (wbDisk w)). loads (weDecodeExt env) n e)"
proof -
  obtain ents where "loadExtensions env w = load_entries (weDecodeExt env) (call_limit w) [] ents"
    "set ents = set (read_dir (wbExtDir w) (wbDisk w))" by (rule loadExtensions_dir [OF assms])
  then show ?thesis using load_entries_ok [of "weDecodeExt env" "call_limit w" "[]" ents] by simp
qed


lemma reload_extensions_run [simp]:
  "pbExts (wbPbx (reload_extensions env w)) = loaded_or_nil env w"
  "rgExts (pbReg (wbPbx (reload_extensions env w))) = loaded_or_nil env w"
  by (simp_all add: reload_extensions_def ReloadExtensions_def UpdateExtensions_def)

text \<open>C28: Where the extensions of the directory all load, and the encoder writes what the decoder
  reads, an extension saved from the form is in the switchboard and the registrar: with the
  fields of the form, those it does not show from the file before it, and the defaults.\<close>
theorem extension_save_installs:
  fixes env r w
  defines "e \<equiv> form_extension env r w" and "n \<equiv> FormValue r ''extension''"
  assumes "isAdmin env r w" "hrMethod r = ''POST''" "hrPath r = ''/extensions/save''"
    and n: "n \<noteq> []" "slash \<notin> set n" and "exPassword e \<noteq> []"
    and dir: "MkdirAll (wbExtDir w) (wbDisk w) = (True, wbDisk w)" "dir_exists (wbExtDir w) (wbDisk w)"
      "distinct (keys (wbDisk w))" "node (wbDisk w) (ext_path w n) \<noteq> Some IsDir"
    and load: "loadExtensions env w = Ok m" "weDecodeExt env (weEncodeExt env e) = Some e"
    and other: "\<forall>k b e'. (k, FileEnt b) \<in> set (read_dir (wbExtDir w) (wbDisk w)) \<longrightarrow> k \<noteq> n @ ''.toml'' \<longrightarrow>
        weDecodeExt env b = Some e' \<longrightarrow> exNumber e' \<noteq> n"
    and "Handler env r w = (resp, w')"
  shows "resp = see_other ''/extensions''
    \<and> get (pbExts (wbPbx w')) n = Some (complete_ext (call_limit w) (weEncodeExt env e) e)
    \<and> rgExts (pbReg (wbPbx w')) = pbExts (wbPbx w')"
proof -
  let ?f = "n @ ''.toml''" and ?b = "weEncodeExt env e"
  let ?dk = "put (below (wbExtDir w) ?f) (FileEnt ?b) (wbDisk w)"
  define w1 where "w1 = w\<lparr>wbDisk := ?dk\<rparr>"
  note sv = save_writes [OF dir(2) n(2) dir(4), of ?b]
  have en: "exNumber e = n" by (simp add: e_def n_def)
  have "Handler env r w = handleExtensionSave env r w" using assms(3-5) by (simp add: as_admin protected_routes_def)
  also have "\<dots> = (see_other ''/extensions'', reload_extensions env w1)"
    using assms(3,4) n(1) assms(8) dir(1) sv(1) en
    by (simp add: handleExtensionSave_def admin_post_runs w1_def e_def n_def Let_def)
  finally have h: "resp = see_other ''/extensions''" "w' = reload_extensions env w1" using assms(16) by simp_all
  have f: "plain_rel ?f" "slash \<notin> set ?f" using n(2) plain_file by (simp_all add: slash_def)
  have rd: "(k, x) \<in> set (read_dir (wbExtDir w) ?dk) \<longleftrightarrow>
      (k = ?f \<and> x = FileEnt ?b \<or> k \<noteq> ?f \<and> (k, x) \<in> set (read_dir (wbExtDir w) (wbDisk w)))" for k x
    using f by (auto simp: set_read_dir set_put_distinct [OF dir(3)])
  obtain ents where ents: "loadExtensions env w1 = load_entries (weDecodeExt env) (call_limit w1) [] ents"
    "set ents = set (read_dir (wbExtDir w) ?dk)" "distinct (keys ents)"
    by (rule loadExtensions_dir [of w1 env]) (use sv(2) dir(3) in \<open>simp_all add: w1_def\<close>)
  have "\<forall>(k, x) \<in> set (read_dir (wbExtDir w) (wbDisk w)). loads (weDecodeExt env) k x"
    using load(1) loadExtensions_ok [OF dir(2,3)] by metis
  moreover have "loads (weDecodeExt env) ?f (FileEnt ?b)" using load(2) en n(1) by (simp add: loads_def)
  ultimately have "\<forall>(k, x) \<in> set ents. loads (weDecodeExt env) k x" unfolding ents(2) by (auto simp: rd)
  then obtain out where out: "load_entries (weDecodeExt env) (call_limit w1) [] ents = Ok out"
    using load_entries_ok by metis
  have "get out (exNumber e) = Some (complete_ext (call_limit w1) ?b e)"
    by (rule load_entries_finds [OF load(2) _ _ ents(3) _ _ out]) (use n other in \<open>auto simp: en ents(2) rd\<close>)
  then show ?thesis using h ents(1) out by (simp add: loaded_or_nil_def en call_limit_def w1_def)
qed


text \<open>Numbers are not checked before they become file names: with the directories of the example
  configuration, saving the extension ../config replaces the configuration of the server.\<close>
theorem extension_save_escapes:
  assumes "isAdmin env r w" "hrMethod r = ''POST''" "hrPath r = ''/extensions/save''"
    and "FormValue r ''extension'' = ''../config''" "exPassword (form_extension env r w) \<noteq> []"
    and "wbExtDir w = ''config/extensions''" "wbCfgPath w = ''config/config.toml''"
    and "MkdirAll (wbExtDir w) (wbDisk w) = (True, wbDisk w)" "node (wbDisk w) ''config'' = Some IsDir"
      "node (wbDisk w) (wbCfgPath w) \<noteq> Some IsDir"
    and "Handler env r w = (resp, w')"
  shows "ReadFile (wbCfgPath w) (wbDisk w') = Bytes (weEncodeExt env (form_extension env r w))"
proof -
  let ?b = "weEncodeExt env (form_extension env r w)"
  have p: "Join [''config/extensions'', ''../config.toml''] = ''config/config.toml''" "Dir ''config/config.toml'' = ''config''"
    "Clean ''config/config.toml'' = ''config/config.toml''" by code_simp+
  have "CreateFile (ext_path w ''../config'') ?b (wbDisk w) = (True, put ''config/config.toml'' (FileEnt ?b) (wbDisk w))"
    using assms(6,7,9,10) by (simp add: ext_path_def p CreateFile_def WriteFile_def dir_exists_def)
  moreover have "Handler env r w = handleExtensionSave env r w" using assms(1-3) by (simp add: as_admin protected_routes_def)
  ultimately have "wbDisk w' = put ''config/config.toml'' (FileEnt ?b) (wbDisk w)"
    using assms by (auto simp: handleExtensionSave_def admin_post_runs Let_def reload_extensions_def)
  then show ?thesis using assms(7) by (simp add: ReadFile_def node_def p)
qed



section \<open>An administration server\<close>

definition demo_web_env :: web_env where
  "demo_web_env = \<lparr>weSL = demo_sl, weNow = 5, wePbx = demo_env, weHash = Some, weCheck = (\<lambda>h p. h = p),
     weDecodeExt = (\<lambda>b. if b = ''x'' then Some (demo_ext\<lparr>exMaxCalls := 5, exDisplayName := ''101''\<rparr>) else None),
     weEncodeExt = (\<lambda>_. ''x''), weDecodeCfg = (\<lambda>_. None), weArchive = demo_al demo_full [], weDump = (\<lambda>_. ''db''),
     weOpenDB = (\<lambda>_. None), wePick = (\<lambda>xs. xs), weAssets = (\<lambda>_. None), weWd = ''/'', weVersion = ''1'', weClock = ''now''\<rparr>"

definition demo_web :: "disk \<Rightarrow> web" where
  "demo_web dk = \<lparr>wbCfg = empty_config, wbCfgPath = ''config/config.toml'', wbExtDir = ''config/extensions'',
     wbPhonebookDir = ''config/phonebook'', wbSessions = NewSessions ''k'', wbDisk = dk,
     wbPbx = demo_server\<lparr>pbStore := UpsertWebUser ''bob'' ''h'' ''admin''
       (case CreateHuntGroup ''sales'' ''300'' ''linear'' 0 empty_db of Inr d \<Rightarrow> d | Inl _ \<Rightarrow> empty_db)\<rparr>\<rparr>"

definition demo_dirs :: "string \<Rightarrow> disk" where
  "demo_dirs b = [(''config'', IsDir), (''config/extensions'', IsDir), (''config/extensions/102.toml'', FileEnt b)]"

text \<open>A form posted by the administrator bob\<close>
definition demo_post :: "string \<Rightarrow> (string \<times> string) list \<Rightarrow> request" where
  "demo_post path form = \<lparr>hrMethod = ''POST'', hrPath = path, hrCookie = Some ''bob:99:fk'', hrForm = form,
     hrQuery = [], hrUpload = None\<rparr>"

lemma demo_admin: "isAdmin demo_web_env (demo_post path form) (demo_web dk)"
proof -
  have "session_user demo_web_env (demo_post path form) (demo_web dk) = ''bob''"
    by (simp add: session_user_def demo_web_env_def demo_post_def demo_web_def) code_simp
  moreover have "GetWebUserByUsername ''bob'' (store_of (demo_web dk))
      = Some (1, \<lparr>suUsername = ''bob'', suPasswordHash = ''h'', suRole = ''admin''\<rparr>)"
    by (simp add: demo_web_def) code_simp
  moreover have "NormalizeRole ''admin'' = RoleAdmin" by code_simp
  ultimately show ?thesis by (simp add: isAdmin_iff)
qed

theorem web_admin_only_witness:
  "session_user demo_web_env (demo_post ''/users/delete'' [(''id'', ''1'')]) (demo_web []) \<noteq> []
   \<and> store_of (snd (Handler demo_web_env (demo_post ''/users/delete'' [(''id'', ''1'')]) (demo_web []))) \<noteq> store_of (demo_web [])"
proof -
  let ?r = "demo_post ''/users/delete'' [(''id'', ''1'')]" and ?w = "demo_web []"
  have h: "Handler demo_web_env ?r ?w = (see_other ''/users'', set_store (DeleteWebUser 1 (store_of ?w)) ?w)"
    by (subst as_admin [OF demo_admin, where h = "handleUserDelete demo_web_env"])
       (simp_all add: protected_routes_def demo_post_def handleUserDelete_def admin_post_runs
          demo_admin [unfolded demo_post_def] FormValue_def scan_or_def, code_simp)
  have ne: "DeleteWebUser 1 (store_of ?w) \<noteq> store_of ?w" by code_simp
  then have "set_store (DeleteWebUser 1 (store_of ?w)) ?w \<noteq> ?w" by (metis store_set_store)
  then show ?thesis using web_admin_only [OF h] h ne by auto
qed


theorem deleted_user_reads_witness:
  "\<exists>page. Handler demo_web_env (demo_post ''/trunks'' []) ((demo_web [])\<lparr>wbPbx := demo_server\<rparr>)
     = (SendsPage page, (demo_web [])\<lparr>wbPbx := demo_server\<rparr>)"
proof -
  let ?r = "demo_post ''/trunks'' []" and ?w = "(demo_web [])\<lparr>wbPbx := demo_server\<rparr>"
  have "session_user demo_web_env ?r ?w = ''bob''"
    by (simp add: session_user_def demo_web_env_def demo_post_def demo_web_def) code_simp
  moreover have "GetWebUserByUsername ''bob'' (store_of ?w) = None" by code_simp
  moreover have "hrPath ?r = ''/trunks''" by (simp add: demo_post_def)
  ultimately show ?thesis using deleted_user_reads [of demo_web_env ?r ?w] by simp
qed

lemma demo_store_inv: "db_inv (store_of (demo_web dk))"
proof -
  have "db_inv empty_db" by (rule db_reach_inv [OF db_reach.start])
  moreover obtain d where "CreateHuntGroup ''sales'' ''300'' ''linear'' 0 empty_db = Ok d"
    by (simp add: CreateHuntGroup_def row_add_def empty_db_def no_rows_def)
  ultimately show ?thesis by (simp add: demo_web_def UpsertWebUser_inv hunt_create_inv)
qed


theorem hunt_save_overwrites_witness:
  "\<exists>resp w'. Handler demo_web_env (demo_post ''/hunt/save'' [(''number'', ''300''), (''members'', ''101, 102'')]) (demo_web []) = (resp, w')
     \<and> HuntMembers 1 (store_of w') = [''101'', ''102'']"
proof -
  let ?r = "demo_post ''/hunt/save'' [(''number'', ''300''), (''members'', ''101, 102'')]" and ?w = "demo_web []"
  obtain resp w' where h: "Handler demo_web_env ?r ?w = (resp, w')" by fastforce
  have f: "FormValue ?r ''number'' = ''300''" "splitCSV (FormValue ?r ''members'') = [''101'', ''102'']" "formID ?r \<le> 0"
    by code_simp+
  obtain g where g: "GetHuntGroupByNumber (FormValue ?r ''number'') (store_of ?w) = Some (1, g)"
  proof -
    have "map_option fst (GetHuntGroupByNumber ''300'' (store_of ?w)) = Some 1" by code_simp
    then show thesis using that f(1) by auto
  qed
  have "hrMethod ?r = ''POST''" "hrPath ?r = ''/hunt/save''" by (simp_all add: demo_post_def)
  from hunt_save_overwrites [OF demo_admin this f(3) g h] f(2) h show ?thesis by metis
qed

lemma demo_form: "hrMethod (demo_post p f) = ''POST''" "hrPath (demo_post p f) = p"
  by (simp_all add: demo_post_def)

theorem extension_save_installs_witness:
  "\<exists>resp w'. Handler demo_web_env (demo_post ''/extensions/save'' [(''extension'', ''101''), (''password'', ''pw'')])
        (demo_web [(''config'', IsDir), (''config/extensions'', IsDir)]) = (resp, w')
     \<and> map_option exPassword (get (pbExts (wbPbx w')) ''101'') = Some ''pw''"
proof -
  let ?r = "demo_post ''/extensions/save'' [(''extension'', ''101''), (''password'', ''pw'')]"
  let ?dk = "[(''config'', IsDir), (''config/extensions'', IsDir)] :: disk" and ?e = demo_web_env
  let ?w = "demo_web ?dk"
  obtain resp w' where h: "Handler ?e ?r ?w = (resp, w')" by fastforce
  have rd: "read_dir (wbExtDir ?w) (wbDisk ?w) = []" by code_simp
  have f: "FormValue ?r ''extension'' = ''101''" "slash \<notin> set (FormValue ?r ''extension'')" "exPassword (form_extension ?e ?r ?w) = ''pw''"
    by code_simp+
  have d: "MkdirAll (wbExtDir ?w) (wbDisk ?w) = (True, wbDisk ?w)" "dir_exists (wbExtDir ?w) (wbDisk ?w)"
    "distinct (keys (wbDisk ?w))" "node (wbDisk ?w) (ext_path ?w (FormValue ?r ''extension'')) \<noteq> Some IsDir"
    by code_simp+
  have l: "loadExtensions ?e ?w = Ok []" by code_simp
  have e: "weDecodeExt ?e (weEncodeExt ?e (form_extension ?e ?r ?w)) = Some (form_extension ?e ?r ?w)" by code_simp
  have "get (pbExts (wbPbx w')) ''101'' = Some (complete_ext (call_limit ?w) (weEncodeExt ?e (form_extension ?e ?r ?w)) (form_extension ?e ?r ?w))"
    using extension_save_installs [OF demo_admin demo_form _ f(2) _ d l e _ h] f(1,3) rd by simp
  then show ?thesis using h f(3) by (simp add: complete_ext_def)
qed

theorem extension_save_escapes_witness:
  "ReadFile ''config/config.toml'' (wbDisk (snd (Handler demo_web_env
      (demo_post ''/extensions/save'' [(''extension'', ''../config''), (''password'', ''pw'')]) (demo_web (demo_dirs ''x''))))) = Bytes ''x''"
proof -
  let ?r = "demo_post ''/extensions/save'' [(''extension'', ''../config''), (''password'', ''pw'')]"
  let ?w = "demo_web (demo_dirs ''x'')" and ?e = demo_web_env
  have f: "FormValue ?r ''extension'' = ''../config''" "exPassword (form_extension ?e ?r ?w) \<noteq> []" by code_simp+
  have d: "wbExtDir ?w = ''config/extensions''" "wbCfgPath ?w = ''config/config.toml''" by (simp_all add: demo_web_def)
  have m: "MkdirAll (wbExtDir ?w) (wbDisk ?w) = (True, wbDisk ?w)" "node (wbDisk ?w) ''config'' = Some IsDir"
    "node (wbDisk ?w) (wbCfgPath ?w) \<noteq> Some IsDir" by code_simp+
  obtain resp w' where h: "Handler ?e ?r ?w = (resp, w')" by fastforce
  have "weEncodeExt ?e (form_extension ?e ?r ?w) = ''x''" by (simp add: demo_web_env_def)
  with extension_save_escapes [OF demo_admin demo_form f d m h] d(2) h show ?thesis by simp
qed


end
