(* ===== verification/Playback.thy ===== *)
theory Playback
  imports Pcm Tones GoPath
begin

text \<open>
  Playing files and tones to a leg (internal/call: tone_playback.go, wav_normalize.go,
  mp3_prompt.go, wav_playback.go and prompt.go): which reader a file is played from, the
  copying of a reader to the leg, announcements and the busy tone at the end of a call.
  What the leg does at each step is an argument; MP3 decoding and the codec libraries
  are, too.
\<close>

section \<open>Readers of audio files\<close>

text \<open>A file as its headers and samples: WAV headers with the PCM data, and the pieces in which the
  library hands them out when it plays the file itself, or the MP3 decoder's rate with its output\<close>
record audio_files =
  afWav :: "string \<Rightarrow> (wav_info \<times> bytes) option"
  afPieces :: "string \<Rightarrow> bytes list"
  afMP3 :: "string \<Rightarrow> (int \<times> bytes) option"

datatype play_source = NativeWav string | PcmData bytes

definition isMP3Path :: "string \<Rightarrow> bool" where
  "isMP3Path path = (to_lower (Ext path) = ''.mp3'')"

definition loadMP3PCMForCodec :: "audio_files \<Rightarrow> string \<Rightarrow> codec \<Rightarrow> bytes option" where
  "loadMP3PCMForCodec af path c =
     (case afMP3 af path of
        None \<Rightarrow> None
      | Some (inRate, raw) \<Rightarrow>
          (case pcmBytesToInt16 raw of
             Inl n \<Rightarrow> None
           | Inr samples \<Rightarrow>
               (case downmixToMono samples (if odd (length samples) then 1 else 2) of
                  Inl e \<Rightarrow> None
                | Inr one_ch \<Rightarrow>
                    Some (samplesToBytesLE
                      (if inRate \<noteq> uint (cRate c) then resampleLinear one_ch inRate (uint (cRate c)) else one_ch)))))"

definition loadWavPCMForCodec :: "audio_files \<Rightarrow> string \<Rightarrow> codec \<Rightarrow> bytes option" where
  "loadWavPCMForCodec af path c =
     (case afWav af path of
        None \<Rightarrow> None
      | Some (info, raw) \<Rightarrow>
          (case normalize_wav (wiBits info) (wiChans info) (wiRate info) raw c of
             Inl e \<Rightarrow> None
           | Inr pcm \<Rightarrow> Some pcm))"

definition openWavPlaybackReader :: "audio_files \<Rightarrow> string \<Rightarrow> codec \<Rightarrow> play_source option" where
  "openWavPlaybackReader af path c =
     (case afWav af path of
        None \<Rightarrow> None
      | Some (info, raw) \<Rightarrow>
          if wavMatchesCodec info c then Some (NativeWav path)
          else map_option PcmData (loadWavPCMForCodec af path c))"

definition openAudioPlaybackReader :: "audio_files \<Rightarrow> string \<Rightarrow> codec \<Rightarrow> play_source option" where
  "openAudioPlaybackReader af path c =
     (if isMP3Path path then map_option PcmData (loadMP3PCMForCodec af path c) else openWavPlaybackReader af path c)"

section \<open>Copying a reader to a leg\<close>

text \<open>The copy loop of AudioPlayback.Play: the i-th chunk of the reader (None at its end) and whether
  the i-th write succeeds.  The result is the number of chunks written and whether the reader ended;
  a loop that does not return has none.\<close>
partial_function (option) copy_loop :: "(nat \<Rightarrow> 'a option) \<Rightarrow> (nat \<Rightarrow> bool) \<Rightarrow> nat \<Rightarrow> (nat \<times> bool) option" where
  "copy_loop rd wr i =
     (case rd i of
        None \<Rightarrow> Some (i, True)
      | Some chunk \<Rightarrow> if wr i then copy_loop rd wr (i + 1) else Some (i, False))"

declare copy_loop.simps [simp del]

lemma copy_loop_stops:
  "rd n = None \<or> \<not> wr n \<Longrightarrow> \<forall>k. i \<le> k \<and> k < n \<longrightarrow> rd k \<noteq> None \<and> wr k \<Longrightarrow> i \<le> n \<Longrightarrow>
    copy_loop rd wr i = Some (n, rd n = None)"
proof (induction "n - i" arbitrary: i)
  case 0
  then show ?case by (subst copy_loop.simps) (auto split: option.split)
next
  case (Suc m)
  then have "rd i \<noteq> None \<and> wr i" by auto
  moreover have "copy_loop rd wr (i + 1) = Some (n, rd n = None)" using Suc by (intro Suc(1)) auto
  ultimately show ?case by (subst copy_loop.simps) auto
qed

lemma copy_loop_end: "copy_loop rd wr i = Some r \<Longrightarrow> \<exists>n \<ge> i. rd n = None \<or> \<not> wr n"
proof (erule copy_loop.raw_induct [where P = "\<lambda>rd wr i r. \<exists>n \<ge> i. rd n = None \<or> \<not> wr n", rotated])
  fix loop :: "(nat \<Rightarrow> 'a option) \<Rightarrow> (nat \<Rightarrow> bool) \<Rightarrow> nat \<Rightarrow> (nat \<times> bool) option" and rd wr i r
  assume ih: "\<And>rd wr i r. loop rd wr i = Some r \<Longrightarrow> \<exists>n \<ge> i. rd n = None \<or> \<not> wr n"
    and step: "(case rd i of None \<Rightarrow> Some (i, True) | Some chunk \<Rightarrow> if wr i then loop rd wr (i + 1) else Some (i, False)) = Some r"
  show "\<exists>n \<ge> i. rd n = None \<or> \<not> wr n"
  proof (cases "rd i = None \<or> \<not> wr i")
    case False
    then have "loop rd wr (i + 1) = Some r" using step by (auto split: option.splits)
    from ih [OF this] obtain n where "i + 1 \<le> n" "rd n = None \<or> \<not> wr n" by blast
    then show ?thesis by (intro exI [of _ n]) auto
  qed blast
qed

text \<open>The copying returns exactly when the reader ends or a write fails.\<close>
lemma copy_loop_returns: "copy_loop rd wr i = None \<longleftrightarrow> (\<forall>n \<ge> i. rd n \<noteq> None \<and> wr n)"
proof
  assume none: "copy_loop rd wr i = None"
  show "\<forall>n \<ge> i. rd n \<noteq> None \<and> wr n"
  proof (rule ccontr)
    assume "\<not> (\<forall>n \<ge> i. rd n \<noteq> None \<and> wr n)"
    then have "\<exists>n. i \<le> n \<and> (rd n = None \<or> \<not> wr n)" by auto
    then obtain m where m: "i \<le> m" "rd m = None \<or> \<not> wr m"
      "\<forall>k < m. \<not> (i \<le> k \<and> (rd k = None \<or> \<not> wr k))"
      using exists_least_iff [of "\<lambda>n. i \<le> n \<and> (rd n = None \<or> \<not> wr n)"] by blast
    have "rd k \<noteq> None \<and> wr k" if "i \<le> k \<and> k < m" for k
      using spec [OF m(3), of k] that by simp
    then have "copy_loop rd wr i = Some (m, rd m = None)" using m(1,2) by (intro copy_loop_stops) simp_all
    with none show False by simp
  qed
next
  assume all: "\<forall>n \<ge> i. rd n \<noteq> None \<and> wr n"
  show "copy_loop rd wr i = None"
  proof (cases "copy_loop rd wr i")
    case (Some r)
    from copy_loop_end [OF this] obtain n where "i \<le> n" "rd n = None \<or> \<not> wr n" by blast
    with all have False by blast
    then show ?thesis ..
  qed
qed


section \<open>Tones and prompts at the end of a call\<close>

text \<open>The chunks of n bytes a generator gives, the i-th after i reads\<close>
fun gen_after :: "nat \<Rightarrow> generator \<Rightarrow> nat \<Rightarrow> generator" where
  "gen_after n g 0 = g"
| "gen_after n g (Suc i) = snd (gen_read (gen_after n g i) (replicate n 0))"

definition tone_chunks :: "nat \<Rightarrow> tone \<Rightarrow> nat \<Rightarrow> bytes option" where
  "tone_chunks n t i = Some (fst (gen_read (gen_after n (NewGenerator t) i) (replicate n 0)))"

definition busyDuration :: "profile \<Rightarrow> int" where
  "busyDuration p = (if pfBusySeconds p \<le> 0 then 5 else pfBusySeconds p) * 10 ^ 9"

text \<open>What happens on a leg: the outcome of answering it, whether neither the call nor the context
  has ended when a file is opened, the outcome of creating a playback, and whether its i-th write
  succeeds\<close>
record leg_env =
  leAnswers :: bool
  leLive :: bool
  lePlayback :: bool
  leWrites :: "nat \<Rightarrow> bool"

datatype leg_action = SendsTrying | Answers | Plays nat | HangsUp

text \<open>playToneFor starts the time-out, plays the tone and then waits for the time-out, which comes.\<close>
definition playToneFor :: "nat \<Rightarrow> tone \<Rightarrow> int \<Rightarrow> leg_env \<Rightarrow> leg_action list option" where
  "playToneFor n t duration le = map_option (\<lambda>(k, ended). [Plays k]) (copy_loop (tone_chunks n t) (leWrites le) 0)"

definition PlayBusyThenHangup :: "nat \<Rightarrow> profile \<Rightarrow> leg_env \<Rightarrow> leg_action list option" where
  "PlayBusyThenHangup n p le =
     (if \<not> leAnswers le then Some [Answers, HangsUp]
      else if \<not> lePlayback le then Some [Answers, HangsUp]
      else map_option (\<lambda>acts. Answers # acts @ [HangsUp]) (playToneFor n (pfBusy p) (busyDuration p) le))"

definition AnswerAndPlayBusy :: "nat \<Rightarrow> profile \<Rightarrow> leg_env \<Rightarrow> leg_action list option" where
  "AnswerAndPlayBusy n p le = map_option (Cons SendsTrying) (PlayBusyThenHangup n p le)"

text \<open>The chunks of n bytes of the data a file is played from\<close>
definition data_chunks :: "nat \<Rightarrow> 'b list \<Rightarrow> nat \<Rightarrow> 'b list option" where
  "data_chunks n bs i = (if i * n < length bs then Some (take n (drop (i * n) bs)) else None)"

definition source_chunks :: "audio_files \<Rightarrow> nat \<Rightarrow> play_source \<Rightarrow> nat \<Rightarrow> bytes option" where
  "source_chunks af n s i =
     (case s of
        PcmData b \<Rightarrow> data_chunks n b i
      | NativeWav p \<Rightarrow> if i < length (afPieces af p) then Some (afPieces af p ! i) else None)"

definition source_count :: "audio_files \<Rightarrow> nat \<Rightarrow> play_source \<Rightarrow> nat" where
  "source_count af n s =
     (case s of PcmData b \<Rightarrow> (length b + n - 1) div n | NativeWav p \<Rightarrow> length (afPieces af p))"

definition playWavFile :: "audio_files \<Rightarrow> nat \<Rightarrow> codec \<Rightarrow> string \<Rightarrow> leg_env \<Rightarrow> (bool \<times> nat) option" where
  "playWavFile af n c path le =
     (if \<not> leLive le then Some (False, 0)
      else case openAudioPlaybackReader af path c of
        None \<Rightarrow> Some (False, 0)
      | Some src \<Rightarrow> map_option (\<lambda>(k, ended). (ended, k)) (copy_loop (source_chunks af n src) (leWrites le) 0))"

text \<open>AnswerAndPrompt: an announcement and the end of the call; an empty path plays nothing.\<close>
definition PlayPromptToServer :: "audio_files \<Rightarrow> (string \<Rightarrow> bool) \<Rightarrow> nat \<Rightarrow> codec \<Rightarrow> string \<Rightarrow> leg_env \<Rightarrow> leg_action list option" where
  "PlayPromptToServer af exists_file n c path le =
     (if path = [] \<or> \<not> exists_file path \<or> \<not> lePlayback le then Some []
      else map_option (\<lambda>(ok, k). [Plays k]) (playWavFile af n c path le))"

definition AnswerAndPrompt :: "audio_files \<Rightarrow> (string \<Rightarrow> bool) \<Rightarrow> nat \<Rightarrow> codec \<Rightarrow> string \<Rightarrow> leg_env \<Rightarrow> leg_action list option" where
  "AnswerAndPrompt af exists_file n c path le =
     (if \<not> leAnswers le then Some [SendsTrying, Answers]
      else map_option (\<lambda>acts. [SendsTrying, Answers] @ acts @ [HangsUp]) (PlayPromptToServer af exists_file n c path le))"


lemma data_chunks_end: "0 < n \<Longrightarrow> data_chunks n bs i = None \<longleftrightarrow> (length bs + n - 1) div n \<le> i"
proof -
  assume n: "0 < n"
  have "(length bs + n - 1) div n \<le> i \<longleftrightarrow> length bs + n - 1 < (i + 1) * n"
    by (metis Suc_eq_plus1 div_less_iff_less_mult less_Suc_eq_le n)
  also have "\<dots> \<longleftrightarrow> length bs \<le> i * n" using n by (auto simp: algebra_simps)
  finally show ?thesis by (simp add: data_chunks_def not_less)
qed

lemma source_chunks_end: "0 < n \<Longrightarrow> source_chunks af n s i = None \<longleftrightarrow> source_count af n s \<le> i"
  by (cases s) (simp_all add: source_chunks_def source_count_def data_chunks_end not_less)

text \<open>A prompt, unlike a tone, ends: with writes that succeed, all its data is played and the call is
  hung up.\<close>
theorem prompt_ends:
  assumes "0 < n" "path \<noteq> []" "exists_file path" "leAnswers le" "lePlayback le" "leLive le"
    and "openAudioPlaybackReader af path c = Some src"
  shows "\<exists>k \<le> source_count af n src.
    AnswerAndPrompt af exists_file n c path le = Some [SendsTrying, Answers, Plays k, HangsUp]
    \<and> ((\<forall>i. leWrites le i) \<longrightarrow> k = source_count af n src)"
proof -
  let ?m = "source_count af n src" and ?rd = "source_chunks af n src"
  have "\<exists>k. (k = ?m \<or> \<not> leWrites le k) \<and> k \<le> ?m \<and> (\<forall>j < k. leWrites le j)"
  proof (cases "\<exists>j < ?m. \<not> leWrites le j")
    case True
    then obtain j where "j < ?m \<and> \<not> leWrites le j" "\<forall>i < j. \<not> (i < ?m \<and> \<not> leWrites le i)"
      using exists_least_iff [of "\<lambda>j. j < ?m \<and> \<not> leWrites le j"] by blast
    then show ?thesis by (intro exI [of _ j]) auto
  qed auto
  then obtain k where k: "k = ?m \<or> \<not> leWrites le k" "k \<le> ?m" "\<forall>j < k. leWrites le j" by blast
  have "copy_loop ?rd (leWrites le) 0 = Some (k, ?rd k = None)"
    using k source_chunks_end [OF assms(1), of af src] by (intro copy_loop_stops) (auto simp: not_le)
  then show ?thesis using assms k by (intro exI [of _ k]) (auto simp: AnswerAndPrompt_def PlayPromptToServer_def playWavFile_def)
qed


definition demo_wavs :: audio_files where
  "demo_wavs = \<lparr>afWav = (\<lambda>p. Some (\<lparr>wiRate = 8000, wiChans = 1, wiBits = 16\<rparr>, replicate 7 0)),
     afPieces = (\<lambda>p. [[0, 0, 0], [0, 0, 0], [0]]), afMP3 = (\<lambda>p. None)\<rparr>"

text \<open>A WAV file of 7 bytes in the leg's own format, played in three pieces\<close>
lemma prompt_ends_witness:
  "AnswerAndPrompt demo_wavs (\<lambda>p. True) 3 (mk_codec ''PCMU'' 0 20) ''a.wav''
     \<lparr>leAnswers = True, leLive = True, lePlayback = True, leWrites = (\<lambda>i. True)\<rparr>
   = Some [SendsTrying, Answers, Plays 3, HangsUp]"
proof -
  have "\<not> isMP3Path ''a.wav''" by code_simp
  then have o: "openAudioPlaybackReader demo_wavs ''a.wav'' (mk_codec ''PCMU'' 0 20) = Some (NativeWav ''a.wav'')"
    by (simp add: openAudioPlaybackReader_def openWavPlaybackReader_def demo_wavs_def wavMatchesCodec_def mk_codec_def)
  show ?thesis
    using prompt_ends [OF _ _ _ _ _ _ o, of 3 "\<lambda>p. True"
        "\<lparr>leAnswers = True, leLive = True, lePlayback = True, leWrites = (\<lambda>i. True)\<rparr>"]
    by (simp add: source_count_def demo_wavs_def)
qed

end
