(* ===== verification/HoldMusic.thy ===== *)
theory HoldMusic
  imports Playback
begin

text \<open>
  The loops of internal/call/hold_pcm_playback.go, which write hold music and dial tones to a leg
  frame by frame: at each tick they look at the leg again, so that a changed media session does
  not stop them.  What they see at each tick is a list of leg_turn; a list that ends leaves a loop
  running.  The state a codec library starts in is the argument fresh.
\<close>

text \<open>One turn of a loop: whether the call or the context is over when it begins, whether the leg can
  be sent media, whether the context ends before the tick, the negotiated codec, whether the session
  has a packet writer, and whether a write to it succeeds\<close>
record leg_turn =
  lvDone :: bool
  lvSend :: bool
  lvEnds :: bool
  lvCodec :: "codec option"
  lvWriter :: bool
  lvWrites :: bool

definition holdMediaViaPCMCodec :: "codec option \<Rightarrow> bool" where
  "holdMediaViaPCMCodec c = (case c of None \<Rightarrow> False | Some k \<Rightarrow> Supported k)"

definition holdCodecHandler :: "leg_turn \<Rightarrow> handler option" where
  "holdCodecHandler v =
     (case lvCodec v of
        None \<Rightarrow> None
      | Some c \<Rightarrow>
          (case New c of
             Inl e \<Rightarrow> None
           | Inr h \<Rightarrow> if lvWriter v then Some h else None))"

text \<open>The handler is made anew for each frame, and with it the state of its codec.\<close>
definition send_frame :: "('s, 'z) codec_libs_scheme \<Rightarrow> (handler \<Rightarrow> 's) \<Rightarrow> handler \<Rightarrow> leg_turn \<Rightarrow> sample list \<Rightarrow> bytes list" where
  "send_frame libs fresh h v frame =
     (case fst (Encode libs h (fresh h) frame) of
        Inl e \<Rightarrow> []
      | Inr payload \<Rightarrow> if lvWrites v then [payload] else [])"

text \<open>runPCMCodecToneLoop: the payloads sent\<close>
fun run_tone :: "('s, 'z) codec_libs_scheme \<Rightarrow> (handler \<Rightarrow> 's) \<Rightarrow> generator \<Rightarrow> leg_turn list \<Rightarrow> bytes list" where
  "run_tone libs fresh g [] = []"
| "run_tone libs fresh g (v # vs) =
     (if lvDone v \<or> lvEnds v then []
      else if \<not> lvSend v then run_tone libs fresh g vs
      else case holdCodecHandler v of
        None \<Rightarrow> run_tone libs fresh g vs
      | Some h \<Rightarrow>
          (let (buf, g') = gen_read g (replicate (HubFrameSamples h * 2) 0)
           in send_frame libs fresh h v (bytesLEToSamples buf) @ run_tone libs fresh g' vs))"

text \<open>The loop of streamMOHWAVPCM over the samples not yet sent: the payloads sent, and what is left of
  the turns when it returns true, if it does.  A frame is taken before it is encoded and written, so
  one that fails is lost.\<close>
fun stream_frames :: "('s, 'z) codec_libs_scheme \<Rightarrow> (handler \<Rightarrow> 's) \<Rightarrow> nat \<Rightarrow> sample list \<Rightarrow> leg_turn list
    \<Rightarrow> bytes list \<times> leg_turn list option" where
  "stream_frames libs fresh n ss [] = ([], None)"
| "stream_frames libs fresh n ss (v # vs) =
     (if lvDone v then ([], Some vs)
      else if \<not> lvSend v then stream_frames libs fresh n ss vs
      else if lvEnds v then ([], Some vs)
      else case holdCodecHandler v of
        None \<Rightarrow> stream_frames libs fresh n ss vs
      | Some h \<Rightarrow>
          if length ss < n then ([], Some vs)
          else (let (sent, r) = stream_frames libs fresh n (drop n ss) vs
                in (send_frame libs fresh h v (take n ss) @ sent, r)))"

text \<open>streamMOHWAVPCM; None when it returns false, which it does before the first tick\<close>
definition streamMOHWAVPCM :: "('s, 'z) codec_libs_scheme \<Rightarrow> (handler \<Rightarrow> 's) \<Rightarrow> audio_files \<Rightarrow> string \<Rightarrow> leg_turn list
    \<Rightarrow> (bytes list \<times> leg_turn list option) option" where
  "streamMOHWAVPCM libs fresh af path vs =
     (case vs of
        [] \<Rightarrow> None
      | v # _ \<Rightarrow>
          (case holdCodecHandler v of
             None \<Rightarrow> None
           | Some h \<Rightarrow>
               (case loadWavPCMForCodec af path (hCodec h) of
                  None \<Rightarrow> None
                | Some pcm \<Rightarrow>
                    (case pcmBytesToInt16 pcm of
                       Inl e \<Rightarrow> None
                     | Inr ss \<Rightarrow> Some (stream_frames libs fresh (HubFrameSamples h) ss vs)))))"

text \<open>The tracks tried in one round: the first that streams\<close>
fun first_track :: "('s, 'z) codec_libs_scheme \<Rightarrow> (handler \<Rightarrow> 's) \<Rightarrow> audio_files \<Rightarrow> string list \<Rightarrow> leg_turn list
    \<Rightarrow> (bytes list \<times> leg_turn list option) option" where
  "first_track libs fresh af [] vs = None"
| "first_track libs fresh af (p # ps) vs =
     (case streamMOHWAVPCM libs fresh af p vs of
        None \<Rightarrow> first_track libs fresh af ps vs
      | Some r \<Rightarrow> Some r)"

lemma stream_frames_shorter:
  "stream_frames libs fresh n ss vs = (sent, Some rest) \<Longrightarrow> length rest < length vs"
  by (induction libs fresh n ss vs arbitrary: sent rule: stream_frames.induct)
     (auto simp: Let_def less_Suc_eq split: if_splits option.splits prod.splits)

lemma stream_shorter:
  "streamMOHWAVPCM libs fresh af p vs = Some (sent, Some rest) \<Longrightarrow> length rest < length vs"
  by (auto simp: streamMOHWAVPCM_def simp del: stream_frames.simps split: list.splits option.splits sum.splits
      dest!: stream_frames_shorter)

lemma first_track_shorter:
  "first_track libs fresh af ps vs = Some (sent, Some rest) \<Longrightarrow> length rest < length vs"
  by (induction ps) (auto split: option.splits dest: stream_shorter)

text \<open>runPCMCodecMOHLoop.  (ctxDone is looked at again before each track, at the same instant here.)\<close>
function moh_loop :: "('s, 'z) codec_libs_scheme \<Rightarrow> (handler \<Rightarrow> 's) \<Rightarrow> audio_files \<Rightarrow> string list \<Rightarrow> tone \<Rightarrow> leg_turn list
    \<Rightarrow> bytes list" where
  "moh_loop libs fresh af tracks t vs =
     (case vs of
        [] \<Rightarrow> []
      | v # vs' \<Rightarrow>
          if lvDone v then []
          else if \<not> lvSend v then moh_loop libs fresh af tracks t vs'
          else (case first_track libs fresh af tracks vs of
                  None \<Rightarrow> run_tone libs fresh (NewGenerator t) vs
                | Some (sent, None) \<Rightarrow> sent
                | Some (sent, Some rest) \<Rightarrow> sent @ moh_loop libs fresh af tracks t rest))"
  by pat_completeness auto
termination
  by (relation "measure (\<lambda>(libs, fresh, af, tracks, t, vs). length vs)") (auto dest: first_track_shorter)

declare moh_loop.simps [simp del]

text \<open>fallbackMOHTone of a profile with a region; def is the default profile\<close>
definition fallbackMOHTone :: "profile \<Rightarrow> profile \<Rightarrow> tone" where
  "fallbackMOHTone def p = (if tFrequencies (pfRing p) \<noteq> [] then pfRing p else pfRing def)"

definition runPCMCodecMOHLoop :: "profile \<Rightarrow> ('s, 'z) codec_libs_scheme \<Rightarrow> (handler \<Rightarrow> 's) \<Rightarrow> audio_files \<Rightarrow> string list \<Rightarrow> tone
    \<Rightarrow> leg_turn list \<Rightarrow> bytes list" where
  "runPCMCodecMOHLoop def libs fresh af tracks fallback vs =
     moh_loop libs fresh af tracks (if tFrequencies fallback = [] then fallbackMOHTone def def else fallback) vs"

text \<open>The loop of startMOH that plays through the library (todo: the rest of the round): the tracks begun,
  and whether the tone is played in the end, given the outcomes of the plays so far\<close>
function wav_loop :: "string list \<Rightarrow> string list \<Rightarrow> bool list \<Rightarrow> string list \<times> bool" where
  "wav_loop tracks [] outs = (if tracks = [] then ([], False) else wav_loop tracks tracks outs)"
| "wav_loop tracks (p # todo) [] = ([p], False)"
| "wav_loop tracks (p # todo) (ok # outs) =
     (if ok then (let (ps, t) = wav_loop tracks todo outs in (p # ps, t)) else ([p], True))"
  by pat_completeness auto
termination
  by (relation "measures [\<lambda>(tracks, todo, outs). length outs, \<lambda>(tracks, todo, outs). if todo = [] then 1 else 0]") auto

section \<open>Lemmas\<close>

lemma samples_even: "length (samplesToBytesLE ss) mod 2 = 0"
  by (induction ss) auto

lemma loads_any_codec:
  "loadWavPCMForCodec af p c = Some pcm \<Longrightarrow>
     \<exists>ss. loadWavPCMForCodec af p c' = Some (samplesToBytesLE ss)"
  by (auto simp: loadWavPCMForCodec_def normalize_wav_def pcmBytesToInt16_def split: option.splits sum.splits if_splits)

lemma first_track_only:
  assumes "loadWavPCMForCodec af p c = Some pcm"
  shows "first_track libs fresh af (p # ps) vs = first_track libs fresh af [p] vs"
proof (cases "vs = [] \<or> holdCodecHandler (hd vs) = None")
  case True
  then have none: "streamMOHWAVPCM libs fresh af q vs = None" for q
    by (auto simp: streamMOHWAVPCM_def split: list.splits)
  then have "first_track libs fresh af qs vs = None" for qs by (induction qs) auto
  then show ?thesis by metis
next
  case False
  then obtain v vs' h where v: "vs = v # vs'" "holdCodecHandler v = Some h" by (cases vs) auto
  obtain ss where "loadWavPCMForCodec af p (hCodec h) = Some (samplesToBytesLE ss)"
    using loads_any_codec [OF assms] by blast
  then show ?thesis using v by (simp add: streamMOHWAVPCM_def pcmBytesToInt16_def samples_even del: stream_frames.simps)
qed

lemma moh_first_only:
  assumes "loadWavPCMForCodec af p c = Some pcm"
  shows "moh_loop libs fresh af (p # ps) t vs = moh_loop libs fresh af [p] t vs"
proof (induction "length vs" arbitrary: vs rule: less_induct)
  case less
  note ft = first_track_only [OF assms, of libs fresh ps]
  show ?case
  proof (cases vs)
    case Nil
    then show ?thesis by (subst (1 2) moh_loop.simps) simp
  next
    case (Cons v vs')
    have tl: "moh_loop libs fresh af (p # ps) t vs' = moh_loop libs fresh af [p] t vs'"
      using less [of vs'] Cons by simp
    consider "first_track libs fresh af [p] vs = None" | sent where "first_track libs fresh af [p] vs = Some (sent, None)"
      | sent rest where "first_track libs fresh af [p] vs = Some (sent, Some rest)"
      by (metis option.exhaust prod.exhaust)
    then show ?thesis
    proof cases
      case 1
      then show ?thesis using tl Cons ft [of vs] by (subst (1 2) moh_loop.simps) (simp del: first_track.simps)
    next
      case 2
      then show ?thesis using tl Cons ft [of vs] by (subst (1 2) moh_loop.simps) (simp del: first_track.simps)
    next
      case (3 sent rest)
      then have "moh_loop libs fresh af (p # ps) t rest = moh_loop libs fresh af [p] t rest"
        using less [of rest] first_track_shorter [of libs fresh af "[p]" vs] by simp
      then show ?thesis using 3 tl Cons ft [of vs] by (subst (1 2) moh_loop.simps) (simp del: first_track.simps)
    qed
  qed
qed

text \<open>A turn in which nothing goes wrong, on a leg with codec c\<close>
definition good_turn :: "codec \<Rightarrow> leg_turn \<Rightarrow> bool" where
  "good_turn c v = (\<not> lvDone v \<and> \<not> lvEnds v \<and> lvSend v \<and> lvCodec v = Some c \<and> lvWriter v \<and> lvWrites v)"

lemma good_handler: "good_turn c v \<Longrightarrow> New c = Inr h \<Longrightarrow> holdCodecHandler v = Some h"
  by (simp add: good_turn_def holdCodecHandler_def)

definition g711 :: "handler \<Rightarrow> bool" where
  "g711 h = (hKind h = HPCMU \<or> hKind h = HPCMA)"

lemma g711_encode: "g711 h \<Longrightarrow> ss \<noteq> [] \<Longrightarrow> \<exists>b. b \<noteq> [] \<and> (\<forall>st. Encode libs h st ss = (Ok b, st))"
  by (cases ss) (auto simp: g711_def Encode_def encodeG711_def)

lemma stream_cons:
  assumes "good_turn c v" "New c = Inr h" "\<not> length ss < HubFrameSamples h"
    and "fst (Encode libs h (fresh h) (take (HubFrameSamples h) ss)) = Inr b"
  shows "stream_frames libs fresh (HubFrameSamples h) ss (v # vs) =
    (let (sent, r) = stream_frames libs fresh (HubFrameSamples h) (drop (HubFrameSamples h) ss) vs in (b # sent, r))"
  using assms good_handler [OF assms(1,2)] by (simp add: good_turn_def send_frame_def Let_def case_prod_beta)

lemma g711_stream:
  assumes h: "New c = Inr h" "g711 h"
    and "\<forall>v \<in> set vs. good_turn c v" "length ss div HubFrameSamples h < length vs"
  shows "\<exists>sent. stream_frames libs fresh (HubFrameSamples h) ss vs = (sent, Some (drop (length ss div HubFrameSamples h + 1) vs))
    \<and> length sent = length ss div HubFrameSamples h
    \<and> write_loop libs rec_sink \<lparr>pwHandler = h, pwLib = st, pwPending = ss, pwOut = out\<rparr> =
        (None, \<lparr>pwHandler = h, pwLib = st,
                pwPending = drop (length ss div HubFrameSamples h * HubFrameSamples h) ss, pwOut = out @ sent\<rparr>)"
  using assms(3,4)
proof (induction vs arbitrary: ss out)
  case (Cons v vs)
  let ?n = "HubFrameSamples h"
  have n: "0 < ?n" by simp
  show ?case
  proof (cases "length ss < ?n")
    case True
    then show ?thesis using Cons.prems good_handler [of c v h] h
      by (subst write_loop.simps) (auto simp: good_turn_def)
  next
    case False
    have q: "length ss div ?n = Suc (length (drop ?n ss) div ?n)"
      using False n by (simp add: le_div_geq)
    have "take ?n ss \<noteq> []" using False n by auto
    then obtain b where b: "b \<noteq> []" "Encode libs h st' (take ?n ss) = (Ok b, st')" for st'
      using g711_encode [OF h(2), of "take ?n ss" libs] by blast
    obtain sent where ih: "stream_frames libs fresh ?n (drop ?n ss) vs = (sent, Some (drop (length (drop ?n ss) div ?n + 1) vs))"
      "length sent = length (drop ?n ss) div ?n"
      "write_loop libs rec_sink \<lparr>pwHandler = h, pwLib = st, pwPending = drop ?n ss, pwOut = out @ [b]\<rparr> =
        (None, \<lparr>pwHandler = h, pwLib = st, pwPending = drop (length (drop ?n ss) div ?n * ?n) (drop ?n ss), pwOut = (out @ [b]) @ sent\<rparr>)"
      using Cons.IH [of "drop ?n ss" "out @ [b]"] Cons.prems q by auto
    have "stream_frames libs fresh ?n ss (v # vs) = (b # sent, Some (drop (length ss div ?n + 1) (v # vs)))"
      using stream_cons [of c v h ss libs fresh b vs] Cons.prems h(1) False b(2) ih(1) q by simp
    moreover have "write_loop libs rec_sink \<lparr>pwHandler = h, pwLib = st, pwPending = ss, pwOut = out\<rparr> =
        (None, \<lparr>pwHandler = h, pwLib = st, pwPending = drop (length ss div ?n * ?n) ss, pwOut = out @ (b # sent)\<rparr>)"
      using ih(3) False b q by (subst write_loop.simps) (simp add: rec_sink_def Let_def add.commute)
    ultimately show ?thesis using ih(2) q by auto
  qed
qed simp

lemma wav_loop_from:
  "j < length tracks \<Longrightarrow> wav_loop tracks (drop j tracks) (replicate k True) =
     (List.map (\<lambda>i. tracks ! ((j + i) mod length tracks)) [0..<Suc k], False)"
proof (induction k arbitrary: j)
  case 0
  then show ?case by (simp add: Cons_nth_drop_Suc [symmetric])
next
  case (Suc k)
  have next_turn: "wav_loop tracks (drop (Suc j) tracks) (replicate k True) =
      (List.map (\<lambda>i. tracks ! ((Suc j + i) mod length tracks)) [0..<Suc k], False)"
  proof (cases "Suc j < length tracks")
    case False
    then have j: "Suc j = length tracks" using Suc.prems by simp
    moreover have "wav_loop tracks (drop 0 tracks) (replicate k True) = (List.map (\<lambda>i. tracks ! ((0 + i) mod length tracks)) [0..<Suc k], False)"
      using Suc.prems by (intro Suc.IH) auto
    ultimately show ?thesis by auto
  qed (rule Suc.IH)
  have "[0..<Suc (Suc k)] = 0 # List.map Suc [0..<Suc k]"
    using upt_conv_Cons [of 0 "Suc (Suc k)"] map_Suc_upt [of 0 "Suc k"] by (simp del: upt_Suc)
  then show ?case using next_turn Suc.prems
    by (simp add: Cons_nth_drop_Suc [symmetric] del: upt_Suc)
qed

section \<open>Properties\<close>

text \<open>C30: While nothing goes wrong, a leg in G.711 is sent a track as a bridged call would be: the payloads
  are those PCMWriter gives for the same data, one for each whole frame, and nothing for a last
  shorter one.  The turns left over are those after the frames and one more.\<close>
theorem hold_music_as_bridge:
  assumes "New c = Inr h" "hKind h = HPCMU \<or> hKind h = HPCMA"
    and "loadWavPCMForCodec af path c = Some pcm" "hCodec h = c"
    and "\<forall>v \<in> set vs. good_turn c v" "length pcm div 2 div HubFrameSamples h < length vs"
  shows "\<exists>sent w'. streamMOHWAVPCM libs fresh af path vs
      = Some (sent, Some (drop (length pcm div 2 div HubFrameSamples h + 1) vs))
    \<and> PCMWrite libs rec_sink pcm \<lparr>pwHandler = h, pwLib = st, pwPending = [], pwOut = []\<rparr> = ((length pcm, None), w')
    \<and> pwOut w' = sent \<and> length sent = length pcm div 2 div HubFrameSamples h"
proof -
  obtain ss where ss: "pcm = samplesToBytesLE ss" using loads_any_codec [OF assms(3), of c] assms(3) by auto
  have len: "length pcm div 2 = length ss" unfolding ss by (induction ss) auto
  have b: "bytesLEToSamples pcm = ss" unfolding ss by simp
  obtain v vs' where v: "vs = v # vs'" using assms(6) by (cases vs) auto
  have "good_turn c v" using assms(5) v by simp
  then have hd: "holdCodecHandler v = Some h" using good_handler assms(1) by blast
  obtain sent where s: "stream_frames libs fresh (HubFrameSamples h) ss vs = (sent, Some (drop (length ss div HubFrameSamples h + 1) vs))"
    "length sent = length ss div HubFrameSamples h"
    "write_loop libs rec_sink \<lparr>pwHandler = h, pwLib = st, pwPending = ss, pwOut = []\<rparr> =
        (None, \<lparr>pwHandler = h, pwLib = st, pwPending = drop (length ss div HubFrameSamples h * HubFrameSamples h) ss, pwOut = [] @ sent\<rparr>)"
    using g711_stream [OF assms(1) _ assms(5), of ss libs fresh st "[]"] assms(2,6) len by (auto simp: g711_def)
  have "streamMOHWAVPCM libs fresh af path vs = Some (stream_frames libs fresh (HubFrameSamples h) ss vs)"
    using v hd assms(3,4) b samples_even [of ss] by (simp add: streamMOHWAVPCM_def pcmBytesToInt16_def ss del: stream_frames.simps)
  moreover have "length pcm mod 2 = 0" by (simp only: ss samples_even)
  ultimately show ?thesis using s len b by (simp add: PCMWrite_def)
qed

text \<open>Which tracks are heard depends on the leg's codec: played through the library, the tracks follow
  each other and begin again; written frame by frame, the first one that can be read is repeated and
  those after it are never heard.\<close>
theorem hold_music_tracks:
  assumes "tracks \<noteq> []" "loadWavPCMForCodec af (hd tracks) c = Some pcm"
  shows "wav_loop tracks tracks (replicate k True) = (List.map (\<lambda>i. tracks ! (i mod length tracks)) [0..<Suc k], False)
    \<and> runPCMCodecMOHLoop def libs fresh af tracks t vs = runPCMCodecMOHLoop def libs fresh af [hd tracks] t vs"
proof
  show "wav_loop tracks tracks (replicate k True) = (List.map (\<lambda>i. tracks ! (i mod length tracks)) [0..<Suc k], False)"
    using wav_loop_from [of 0 tracks k] assms(1) by simp
  show "runPCMCodecMOHLoop def libs fresh af tracks t vs = runPCMCodecMOHLoop def libs fresh af [hd tracks] t vs"
    using moh_first_only [OF assms(2), of libs fresh "tl tracks" _ vs] assms(1)
    by (simp add: runPCMCodecMOHLoop_def del: moh_loop.simps)
qed

definition demo_turn :: leg_turn where
  "demo_turn = \<lparr>lvDone = False, lvSend = True, lvEnds = False, lvCodec = Some CodecAudioUlaw, lvWriter = True, lvWrites = True\<rparr>"

definition demo_track :: audio_files where
  "demo_track = \<lparr>afWav = (\<lambda>p. Some (\<lparr>wiRate = 8000, wiChans = 1, wiBits = 16\<rparr>, samplesToBytesLE (replicate 170 0))), afPieces = (\<lambda>p. []), afMP3 = (\<lambda>p. None)\<rparr>"

lemma demo_track_loads:
  "loadWavPCMForCodec demo_track p CodecAudioUlaw = Some (samplesToBytesLE (replicate 170 0))"
  by (simp add: loadWavPCMForCodec_def demo_track_def normalize_wav_def pcmBytesToInt16_def samples_even downmixToMono_def
      CodecAudioUlaw_def mk_codec_def)

lemma samples_length: "length (samplesToBytesLE ss) = 2 * length ss"
  by (induction ss) auto

lemma hold_music_as_bridge_witness:
  "\<exists>sent. streamMOHWAVPCM demo_libs (\<lambda>h. ()) demo_track ''a.wav'' [demo_turn, demo_turn, demo_turn] = Some (sent, Some [demo_turn])
     \<and> length sent = 1"
proof -
  let ?h = "mk_handler CodecAudioUlaw 160 HPCMU"
  have n: "New CodecAudioUlaw = Inr ?h"
    by (simp add: New_def CodecAudioUlaw_def mk_codec_def samplesPerFrame_def)
  show ?thesis
    using hold_music_as_bridge [OF n _ demo_track_loads, of "[demo_turn, demo_turn, demo_turn]" demo_libs "\<lambda>h. ()"]
    by (auto simp: mk_handler_def HubFrameSamples_def good_turn_def demo_turn_def samples_length)
qed

lemma hold_music_tracks_witness:
  "wav_loop [''a'', ''b''] [''a'', ''b''] (replicate 2 True) = ([''a'', ''b'', ''a''], False)
   \<and> runPCMCodecMOHLoop ukProfile demo_libs (\<lambda>h. ()) demo_track [''a'', ''b''] (pfRing ukProfile) [demo_turn]
     = runPCMCodecMOHLoop ukProfile demo_libs (\<lambda>h. ()) demo_track [''a''] (pfRing ukProfile) [demo_turn]"
  using hold_music_tracks [of "[''a'', ''b'']" demo_track CodecAudioUlaw "samplesToBytesLE (replicate 170 0)" 2
      ukProfile demo_libs "\<lambda>h. ()" "pfRing ukProfile" "[demo_turn]"] demo_track_loads [of "''a''"]
  by (simp add: upt_rec)

end
