(* ===== verification/Stun.thy ===== *)
theory Stun
  imports Registrar
begin

text \<open>
  The STUN server of internal/nat/stun.go and the addresses of Go's net package
  it uses.  An IP address is its 16 bytes, an IPv4 address with the prefix that
  maps it into IPv6.  The STUN message format is that of a library and an
  argument; so is the socket, as the packets it gives and takes.
\<close>

section \<open>Addresses\<close>

type_synonym ip_addr = "8 word list"

definition v4_prefix :: ip_addr where
  "v4_prefix = replicate 10 0 @ [255, 255]"

text \<open>A decimal field of an IPv4 address: no leading zero, at most 255\<close>
definition v4_field :: "string \<Rightarrow> (8 word) option" where
  "v4_field f =
     (if f = [] \<or> (2 \<le> length f \<and> hd f = CHR ''0'') then None
      else case digits_val 0 f of
        None \<Rightarrow> None
      | Some v \<Rightarrow> if v \<le> 255 then Some (word_of_int v) else None)"

definition all_some :: "'a option list \<Rightarrow> 'a list option" where
  "all_some xs = (if None \<in> set xs then None else Some (List.map the xs))"

definition parse_v4 :: "string \<Rightarrow> ip_addr option" where
  "parse_v4 s =
     (let fs = split_on (CHR ''.'') s in
      if length fs \<noteq> 4 then None else all_some (List.map v4_field fs))"

definition hex_digit :: "char \<Rightarrow> nat option" where
  "hex_digit c =
     (if is_digit c then Some (byte c - 48)
      else if 97 \<le> byte (lower_char c) \<and> byte (lower_char c) \<le> 102 then Some (byte (lower_char c) - 87)
      else None)"

definition is_hex :: "char \<Rightarrow> bool" where
  "is_hex c = (hex_digit c \<noteq> None)"

definition hex_value :: "string \<Rightarrow> nat" where
  "hex_value s = foldl (\<lambda>acc c. acc * 16 + the (hex_digit c)) 0 s"

definition group_bytes :: "string \<Rightarrow> ip_addr" where
  "group_bytes g = [word_of_nat (hex_value g div 256), word_of_nat (hex_value g mod 256)]"

text \<open>The groups of an IPv6 address after those read into acc; room is how many more fit.  The
  ellipsis is the number of bytes before it.  None when the text is no address.\<close>
fun v6_groups :: "nat \<Rightarrow> ip_addr \<Rightarrow> nat option \<Rightarrow> string \<Rightarrow> (ip_addr \<times> nat option) option" where
  "v6_groups 0 acc ell s = (if s = [] then Some (acc, ell) else None)"
| "v6_groups (Suc room) acc ell s =
     (let g = takeWhile is_hex s; r = dropWhile is_hex s in
      if g = [] \<or> 4 < length g then None
      else case r of
        [] \<Rightarrow> Some (acc @ group_bytes g, ell)
      | c # t \<Rightarrow>
          if c = CHR ''.'' then
            (if ell = None \<and> length acc \<noteq> 12 then None
             else if 16 < length acc + 4 then None
             else (case parse_v4 s of None \<Rightarrow> None | Some q \<Rightarrow> Some (acc @ q, ell)))
          else if c \<noteq> CHR '':'' then None
          else (case t of
              [] \<Rightarrow> None
            | d # u \<Rightarrow>
                if d \<noteq> CHR '':'' then v6_groups room (acc @ group_bytes g) ell t
                else if ell \<noteq> None then None
                else if u = [] then Some (acc @ group_bytes g, Some (length acc + 2))
                else v6_groups room (acc @ group_bytes g) (Some (length acc + 2)) u))"

definition parse_v6 :: "string \<Rightarrow> ip_addr option" where
  "parse_v6 s =
     (if s = ''::'' then Some (replicate 16 0)
      else case (if has_prefix s ''::'' then v6_groups 8 [] (Some 0) (drop 2 s) else v6_groups 8 [] None s) of
        None \<Rightarrow> None
      | Some (bs, None) \<Rightarrow> if length bs = 16 then Some bs else None
      | Some (bs, Some e) \<Rightarrow>
          if length bs < 16 then Some (take e bs @ replicate (16 - length bs) 0 @ drop e bs) else None)"

text \<open>net.ParseIP: what the first dot or colon announces; no zone\<close>
definition ParseIP :: "string \<Rightarrow> ip_addr option" where
  "ParseIP s =
     (case List.find (\<lambda>c. c \<in> set ''.:%'') s of
        None \<Rightarrow> None
      | Some c \<Rightarrow>
          if c = CHR ''.'' then map_option (\<lambda>q. v4_prefix @ q) (parse_v4 s)
          else if c = CHR '':'' then (if CHR ''%'' \<in> set s then None else parse_v6 s)
          else None)"

definition To4 :: "ip_addr \<Rightarrow> ip_addr option" where
  "To4 ip = (if length ip = 4 then Some ip
     else if length ip = 16 \<and> take 12 ip = v4_prefix then Some (drop 12 ip) else None)"

definition JoinHostPort :: "string \<Rightarrow> string \<Rightarrow> string" where
  "JoinHostPort host port =
     (if CHR '':'' \<in> set host \<or> CHR ''%'' \<in> set host then ''['' @ host @ '']:'' @ port else host @ '':'' @ port)"

text \<open>IP.String of an IPv4 address\<close>
definition v4_string :: "ip_addr \<Rightarrow> string" where
  "v4_string q = join_with ''.'' (List.map (\<lambda>b. itoa (uint b)) q)"

section \<open>The server\<close>

datatype stun_type = BindingRequest | OtherMessage

record 'tx stun_lib =
  stIsMessage :: "8 word list \<Rightarrow> bool"
  stDecode :: "8 word list \<Rightarrow> (stun_type \<times> 'tx) option"
  stBuild :: "'tx \<Rightarrow> ip_addr \<Rightarrow> int \<Rightarrow> (8 word list) option"

text \<open>The reply to a packet and where it goes\<close>
definition handlePacket :: "'tx stun_lib \<Rightarrow> 8 word list \<Rightarrow> string \<Rightarrow> (8 word list \<times> string) option" where
  "handlePacket sl data remote =
     (if \<not> stIsMessage sl data then None
      else case stDecode sl data of
        None \<Rightarrow> None
      | Some (OtherMessage, tx) \<Rightarrow> None
      | Some (BindingRequest, tx) \<Rightarrow>
          (case SplitHostPort remote of
             None \<Rightarrow> None
           | Some (host, portStr) \<Rightarrow>
               (case atoi portStr of
                  None \<Rightarrow> None
                | Some port \<Rightarrow>
                    (case ParseIP host of
                       None \<Rightarrow> None
                     | Some ip \<Rightarrow> map_option (\<lambda>raw. (raw, remote)) (stBuild sl tx ip port)))))"

definition stun_buf :: nat where
  "stun_buf = 1500"

text \<open>What happens while the loop of Run waits for a packet.  The context is looked at only
  between two packets; cancelled says whether it is done.  The result is the replies, and whether Run
  returned.\<close>
datatype stun_event = Arrives "8 word list" string | ReadFails | Cancelled

fun stun_loop :: "'tx stun_lib \<Rightarrow> bool \<Rightarrow> stun_event list \<Rightarrow> (8 word list \<times> string) list \<times> bool" where
  "stun_loop sl cancelled [] = ([], False)"
| "stun_loop sl cancelled (Cancelled # es) = stun_loop sl True es"
| "stun_loop sl cancelled (ReadFails # es) = (if cancelled then ([], True) else stun_loop sl False es)"
| "stun_loop sl cancelled (Arrives data remote # es) =
     (let out = (case handlePacket sl (take stun_buf data) remote of None \<Rightarrow> [] | Some r \<Rightarrow> [r]) in
      if cancelled then (out, True) else (case stun_loop sl False es of (rs, ret) \<Rightarrow> (out @ rs, ret)))"

definition stun_port :: "int \<Rightarrow> int" where
  "stun_port port = (if port \<le> 0 then 3478 else port)"

section \<open>IPv4 addresses read back\<close>

lemma digit_char_zero: "d < 10 \<Longrightarrow> digit_char d = CHR ''0'' \<longleftrightarrow> d = 0"
  using digit_val_digit_char [of d] byte_char_of [of "48 + d"] by (auto simp: digit_char_def char_of_eq_iff take_bit_eq_mod)

lemma nat_digits_small: "n < 256 \<Longrightarrow> length (nat_digits n) = 1 \<or> hd (nat_digits n) \<noteq> CHR ''0''"
  by (cases "n < 10"; cases "n < 100") (auto simp: digit_char_zero nat_digits.simps [of n] nat_digits.simps [of "n div 10"]
      nat_digits.simps [of "n div 10 div 10"])

lemma v4_field_itoa: "v4_field (itoa (uint (b :: 8 word))) = Some b"
proof -
  have b: "uint b < 256" "0 \<le> uint b" using uint_lt2p [of b] by simp_all
  then have n: "nat (uint b) < 256" by linarith
  have s: "itoa (uint b) = nat_digits (nat (uint b))" using b(2) by (simp add: itoa_def)
  have "\<not> (2 \<le> length (itoa (uint b)) \<and> hd (itoa (uint b)) = CHR ''0'')"
    using nat_digits_small [OF n] unfolding s by (metis One_nat_def Suc_1 not_less_eq_eq order_refl)
  then show ?thesis using b digits_val_nat_digits [of "nat (uint b)"] by (auto simp: v4_field_def s)
qed

lemma itoa_uint_digit: "c \<in> set (itoa (uint (b :: 8 word))) \<Longrightarrow> is_digit c"
  by (auto simp: itoa_def intro: nat_digits_digits)

lemma parse_v4_string:
  assumes "length q = 4"
  shows "parse_v4 (v4_string q) = Some q"
proof -
  let ?fs = "List.map (\<lambda>b. itoa (uint b)) q"
  have "\<forall>w \<in> set ?fs. CHR ''.'' \<notin> set w" using itoa_uint_digit by (fastforce simp: is_digit_def)
  then have "split_on (CHR ''.'') (v4_string q) = ?fs"
    unfolding v4_string_def using assms by (intro split_on_join) auto
  then show ?thesis using assms by (simp add: parse_v4_def all_some_def o_def v4_field_itoa image_iff)
qed


lemma set_v4_string: "c \<in> set (v4_string q) \<Longrightarrow> is_digit c \<or> c = CHR ''.''"
proof -
  have "c \<in> set (join_with ''.'' ws) \<Longrightarrow> (\<exists>w \<in> set ws. c \<in> set w) \<or> c = CHR ''.''" for ws
    by (induction "''.''" ws rule: join_with.induct) auto
  then show "c \<in> set (v4_string q) \<Longrightarrow> is_digit c \<or> c = CHR ''.''"
    using itoa_uint_digit by (fastforce simp: v4_string_def)
qed

lemma v4_string_plain: "c \<in> set (v4_string q) \<Longrightarrow> c \<notin> set '':%[]''"
  using set_v4_string [of c q] by (auto simp: is_digit_def)

lemma ParseIP_v4: "length q = 4 \<Longrightarrow> ParseIP (v4_string q) = Some (v4_prefix @ q)"
proof -
  assume q: "length q = 4"
  have "CHR ''.'' \<in> set (v4_string q)"
    using q by (auto simp: v4_string_def length_Suc_conv numeral_eq_Suc)
  then obtain c where c: "List.find (\<lambda>c. c \<in> set ''.:%'') (v4_string q) = Some c"
    by (metis find_None_iff list.set_intros(1) not_Some_eq)
  then have "c \<in> set (v4_string q)" "c \<in> set ''.:%''" by (auto simp: find_Some_iff simp del: list.set)
  then have "c = CHR ''.''" using v4_string_plain [of c q] by auto
  then show ?thesis using c parse_v4_string [OF q] by (simp add: ParseIP_def)
qed

lemma SplitHostPort_v4:
  "SplitHostPort (v4_string q @ '':'' @ itoa p) = Some (v4_string q, itoa p)" if "0 \<le> p"
proof -
  have d: "is_digit c" if "c \<in> set (itoa p)" for c
    using that \<open>0 \<le> p\<close> by (auto simp: itoa_def intro: nat_digits_digits)
  then have "CHR '':'' \<notin> set (itoa p)" "CHR ''['' \<notin> set (itoa p)" "CHR '']'' \<notin> set (itoa p)" by (fastforce simp: is_digit_def)+
  moreover have "CHR '':'' \<notin> set (v4_string q)" "CHR ''['' \<notin> set (v4_string q)" "CHR '']'' \<notin> set (v4_string q)"
    using v4_string_plain by fastforce+
  moreover have "\<not> has_prefix (v4_string q) ''[''"
    using v4_string_plain [of "CHR ''[''" q] by (auto simp: has_prefix_iff)
  moreover have "last_colon (v4_string q @ '':'' @ itoa p) = Some (v4_string q, itoa p)"
  proof -
    have r: "\<forall>c \<in> set (rev (itoa p)). c \<noteq> CHR '':''" using calculation(1) by auto
    have "takeWhile (\<lambda>c. c \<noteq> CHR '':'') (rev (itoa p) @ CHR '':'' # rev (v4_string q)) = rev (itoa p)"
      "dropWhile (\<lambda>c. c \<noteq> CHR '':'') (rev (itoa p) @ CHR '':'' # rev (v4_string q)) = CHR '':'' # rev (v4_string q)"
      using r by (simp_all add: takeWhile_append dropWhile_append)
    then show ?thesis by (simp add: last_colon_def)
  qed
  ultimately show ?thesis by (simp add: SplitHostPort_def)
qed

text \<open>A Binding request over IPv4 is answered to its sender, with its transaction and the address and
  port it came from; anything that is not a Binding request is not answered, and no reply goes to
  anybody but the sender.\<close>
theorem stun_answers:
  fixes sl :: "'tx stun_lib"
  assumes "length q = 4" "0 \<le> p" "p < 65536"
  shows "(stIsMessage sl data \<and> stDecode sl data = Some (BindingRequest, tx) \<and> stBuild sl tx (v4_prefix @ q) p = Some raw
      \<longrightarrow> handlePacket sl data (JoinHostPort (v4_string q) (itoa p)) = Some (raw, JoinHostPort (v4_string q) (itoa p)))
    \<and> (handlePacket sl data remote = Some (out, dest) \<longrightarrow> dest = remote \<and> stIsMessage sl data
        \<and> (\<exists>t ip port. stDecode sl data = Some (BindingRequest, t) \<and> stBuild sl t ip port = Some out))"
proof
  have j: "JoinHostPort (v4_string q) (itoa p) = v4_string q @ '':'' @ itoa p"
    using v4_string_plain by (fastforce simp: JoinHostPort_def)
  have "atoi (itoa p) = Some p" using assms(2,3) by (intro atoi_itoa) (simp add: int64_range_def)
  then show "stIsMessage sl data \<and> stDecode sl data = Some (BindingRequest, tx) \<and> stBuild sl tx (v4_prefix @ q) p = Some raw
      \<longrightarrow> handlePacket sl data (JoinHostPort (v4_string q) (itoa p)) = Some (raw, JoinHostPort (v4_string q) (itoa p))"
    using SplitHostPort_v4 [OF assms(2), of q] ParseIP_v4 [OF assms(1)] by (simp add: handlePacket_def j)
  show "handlePacket sl data remote = Some (out, dest) \<longrightarrow> dest = remote \<and> stIsMessage sl data
        \<and> (\<exists>t ip port. stDecode sl data = Some (BindingRequest, t) \<and> stBuild sl t ip port = Some out)"
    by (auto simp: handlePacket_def split: if_splits option.splits stun_type.splits prod.splits)
qed

text \<open>The loop: it returns only after the context is done, and then not before one more packet or
  read error, because nothing wakes it; a packet that comes then is still answered.\<close>
lemma stun_stops:
  "snd (stun_loop sl cancelled es) \<Longrightarrow> cancelled \<or> Cancelled \<in> set es"
  "\<forall>e \<in> set es. e = Cancelled \<Longrightarrow> stun_loop sl cancelled es = ([], False)"
  by (induction sl cancelled es rule: stun_loop.induct) (auto simp: Let_def split: if_splits prod.splits)

lemma stun_replies:
  "r \<in> set (fst (stun_loop sl cancelled es)) \<Longrightarrow>
    \<exists>data remote. Arrives data remote \<in> set es \<and> handlePacket sl (take stun_buf data) remote = Some r"
proof (induction sl cancelled es rule: stun_loop.induct)
  case (4 sl cancelled data remote es)
  show ?case
  proof (cases "handlePacket sl (take stun_buf data) remote = Some r")
    case True
    then show ?thesis by auto
  next
    case False
    then have "\<not> cancelled \<and> r \<in> set (fst (stun_loop sl False es))"
      using 4(2) by (cases "stun_loop sl False es") (auto simp: Let_def split: if_splits option.splits)
    then show ?thesis using 4(1) by auto
  qed
qed (auto split: if_splits)

definition demo_stun :: "nat stun_lib" where
  "demo_stun = \<lparr>stIsMessage = (\<lambda>d. d \<noteq> []), stDecode = (\<lambda>d. Some (if hd d = 0 then BindingRequest else OtherMessage, 7)),
     stBuild = (\<lambda>t ip p. Some (drop 12 ip @ [word_of_int (p div 256), word_of_int p]))\<rparr>"

theorem stun_answers_witness:
  "handlePacket demo_stun [0] ''10.0.0.9:4660'' = Some ([10, 0, 0, 9, 18, 52], ''10.0.0.9:4660'')"
proof -
  have j: "JoinHostPort (v4_string [10, 0, 0, 9]) (itoa 4660) = ''10.0.0.9:4660''"
    by (simp add: JoinHostPort_def v4_string_def itoa_def nat_digits.simps digit_char_def)
      code_simp
  have "stIsMessage demo_stun [0] \<and> stDecode demo_stun [0] = Some (BindingRequest, 7)
    \<and> stBuild demo_stun 7 (v4_prefix @ [10, 0, 0, 9]) 4660 = Some [10, 0, 0, 9, 18, 52]"
    by (simp add: demo_stun_def v4_prefix_def)
  then show ?thesis using stun_answers [of "[10, 0, 0, 9]" 4660 demo_stun "[0]" 7] j by simp
qed

end
