(* ===== verification/Video.thy ===== *)
theory Video
  imports Stun Trunk
begin

text \<open>
  Video (internal/media/sdp_video.go and video_relay.go) and the reading of SDP
  bodies it relies on (sdp.go of the vendored diago): whether a body offers
  video, the video line put into an answer, and the relay of packets.  A body
  is its text; a read of Go's slice out of its bounds is the error SdpPanics.
\<close>

section \<open>SDP bodies\<close>

datatype sdp_error = SdpPanics | NotTypeValue | NoConnection | BadAddress | EmptySDP | NoVideo | BadMediaLine | NoAudio

type_synonym session_description = "(string, string list) gomap"

definition lf :: char where "lf = CHR 0x0A"
definition cr :: char where "cr = CHR 0x0D"

definition sdpValues :: "session_description \<Rightarrow> string \<Rightarrow> string list" where
  "sdpValues sd k = goget [] sd k"

definition sdpValue :: "session_description \<Rightarrow> string \<Rightarrow> string" where
  "sdpValue sd k = (case sdpValues sd k of [] \<Rightarrow> [] | v # _ \<Rightarrow> v)"

text \<open>nextLine on a line without its line feed: a line that is nothing but a line feed is read
  at index -1.\<close>
definition strip_cr :: "string \<Rightarrow> (sdp_error, string) result" where
  "strip_cr line = (if line = [] then Err SdpPanics else if List.last line = cr then Ok (butlast line) else Ok line)"

text \<open>One line of Unmarshal; lines of less than two bytes are skipped.\<close>
definition add_line :: "string \<Rightarrow> session_description \<Rightarrow> (sdp_error, session_description) result" where
  "add_line line sd =
     (if length line < 2 then Ok sd
      else case str_index line ''='' of
        None \<Rightarrow> Err NotTypeValue
      | Some 0 \<Rightarrow> Err NotTypeValue
      | Some i \<Rightarrow> Ok (put (take i line) (sdpValues sd (take i line) @ [drop (i + 1) line]) sd))"

fun read_lines :: "string list \<Rightarrow> session_description \<Rightarrow> (sdp_error, session_description) result" where
  "read_lines [] sd = Ok sd"
| "read_lines (l # ls) sd =
     (case strip_cr l of
        Inl e \<Rightarrow> Err e
      | Inr line \<Rightarrow> (case add_line line sd of Inl e \<Rightarrow> Err e | Inr sd' \<Rightarrow> read_lines ls sd'))"

text \<open>Unmarshal: what follows the last line feed is not read.\<close>
definition Unmarshal :: "string \<Rightarrow> (sdp_error, session_description) result" where
  "Unmarshal data = read_lines (butlast (split_on lf data)) []"

text \<open>strings.Fields\<close>
fun fields_from :: "string \<Rightarrow> string \<Rightarrow> string list" where
  "fields_from word [] = (if word = [] then [] else [word])"
| "fields_from word (c # cs) =
     (if is_space c then (if word = [] then fields_from [] cs else word # fields_from [] cs)
      else fields_from (word @ [c]) cs)"

definition Fields :: "string \<Rightarrow> string list" where
  "Fields s = fields_from [] s"

definition ConnectionInformation :: "session_description \<Rightarrow> (sdp_error, ip_addr option) result" where
  "ConnectionInformation sd =
     (let v = sdpValue sd ''c''; fs = Fields v in
      if v = [] then Err NoConnection
      else if length fs < 3 then Err SdpPanics
      else (let ip = ParseIP (hd (split_on (CHR ''/'') (fs ! 2))) in
        if fs ! 1 = ''IP4'' then
          (case Option.bind ip To4 of None \<Rightarrow> Err BadAddress | Some a \<Rightarrow> Ok (Some a))
        else if fs ! 1 = ''IP6'' then (case ip of None \<Rightarrow> Err BadAddress | Some a \<Rightarrow> Ok (Some a))
        else Ok ip))"

section \<open>Video in a body\<close>

record video_info =
  viPayloadTypes :: "int list"
  viRemoteIP :: "ip_addr option"
  viRemotePort :: int
  viAttributes :: "string list"
  viProto :: string

definition is_video :: "string \<Rightarrow> bool" where
  "is_video line = has_prefix line ''video ''"

definition HasVideo :: "string \<Rightarrow> (sdp_error, bool) result" where
  "HasVideo body =
     (if body = [] then Ok False
      else case Unmarshal body of
        Inl e \<Rightarrow> if e = SdpPanics then Err e else Ok False
      | Inr sd \<Rightarrow> Ok (\<exists>line \<in> set (sdpValues sd ''m''). is_video line))"

text \<open>The last usable rtcp attribute wins over the port of the media line.\<close>
fun rtcp_port :: "string list \<Rightarrow> int \<Rightarrow> int" where
  "rtcp_port [] port = port"
| "rtcp_port (a # attrs) port =
     rtcp_port attrs
       (if has_prefix a ''rtcp:'' then
          (case atoi (trim_prefix a ''rtcp:'') of None \<Rightarrow> port | Some p \<Rightarrow> if 0 < p then p else port)
        else port)"

definition video_attr :: "string \<Rightarrow> bool" where
  "video_attr a = (has_prefix a ''rtpmap:'' \<or> has_prefix a ''fmtp:'' \<or> has_prefix a ''rtcp-fb:''
     \<or> a \<in> {''sendrecv'', ''sendonly'', ''recvonly'', ''inactive''})"

definition ParseVideo :: "string \<Rightarrow> (sdp_error, video_info) result" where
  "ParseVideo body =
     (if body = [] then Err EmptySDP
      else case Unmarshal body of
        Inl e \<Rightarrow> Err e
      | Inr sd \<Rightarrow>
      (case List.find is_video (sdpValues sd ''m'') of
         None \<Rightarrow> Err NoVideo
       | Some line \<Rightarrow>
           let fs = Fields line in
           if length fs < 4 then Err BadMediaLine
           else (case ConnectionInformation sd of
             Inl e \<Rightarrow> Err e
           | Inr ip \<Rightarrow>
               Ok \<lparr>viPayloadTypes = List.map_filter atoi (drop 3 fs), viRemoteIP = ip,
                   viRemotePort = rtcp_port (sdpValues sd ''a'') (atoi_ignored (hd (split_on (CHR ''/'') (fs ! 1)))),
                   viAttributes = filter video_attr (sdpValues sd ''a''), viProto = fs ! 2\<rparr>)))"

text \<open>The lines AppendVideo puts after the audio line\<close>
definition video_lines :: "video_info \<Rightarrow> string \<Rightarrow> int \<Rightarrow> string list" where
  "video_lines v localIP localPort =
     (let formats = (if viPayloadTypes v = [] then [''96''] else List.map itoa (viPayloadTypes v));
          proto = (if viProto v = [] then ''RTP/AVP'' else viProto v) in
      (''m=video '' @ itoa localPort @ '' '' @ proto @ '' '' @ join_with '' '' formats)
      # (''c=IN IP4 '' @ localIP) # List.map (\<lambda>a. ''a='' @ a) (viAttributes v) @ [''a=sendrecv''])"

definition trim_cr :: "string \<Rightarrow> string" where
  "trim_cr s = rev (dropWhile (\<lambda>c. c = cr) (rev s))"

definition is_audio_line :: "string \<Rightarrow> bool" where
  "is_audio_line line = has_prefix line ''m=audio ''"

fun insert_video :: "string list \<Rightarrow> string list \<Rightarrow> (string list) option" where
  "insert_video vs [] = None"
| "insert_video vs (l # ls) = (if is_audio_line l then Some (l # vs @ ls) else map_option (Cons l) (insert_video vs ls))"

definition crlf :: string where "crlf = [cr, lf]"

definition AppendVideo :: "string \<Rightarrow> string \<Rightarrow> string \<Rightarrow> int \<Rightarrow> (sdp_error, string) result" where
  "AppendVideo audioSDP offerSDP localIP localPort =
     (case ParseVideo offerSDP of
        Inl e \<Rightarrow> Err e
      | Inr v \<Rightarrow>
          (case insert_video (video_lines v localIP localPort)
                  (List.map trim_cr (split_on lf (trim_suffix audioSDP crlf))) of
             None \<Rightarrow> Err NoAudio
           | Some out \<Rightarrow> Ok (join_with crlf out @ crlf)))"


section \<open>The relay\<close>

record udp_addr =
  uaIP :: ip_addr
  uaPort :: int

text \<open>net.IP.Equal; the nil address has no bytes.\<close>
definition ip_equal :: "ip_addr \<Rightarrow> ip_addr \<Rightarrow> bool" where
  "ip_equal a b =
     (if length a = length b then a = b
      else if length a = 4 \<and> length b = 16 then b = v4_prefix @ a
      else if length a = 16 \<and> length b = 4 then a = v4_prefix @ b
      else False)"

text \<open>What a read of the socket gives: a packet, or an error, with whether the context is done by then\<close>
datatype read_event = Packet "8 word list" udp_addr | ReadError bool

definition rtpBuf :: nat where
  "rtpBuf = 1500"

text \<open>One pump of Start: the packets it sends with their addresses, and whether it has ended\<close>
fun pump :: "udp_addr option \<Rightarrow> udp_addr option \<Rightarrow> read_event list \<Rightarrow> (8 word list \<times> udp_addr) list \<times> bool" where
  "pump dest target [] = ([], False)"
| "pump dest target (ReadError ctx_done # es) = (if ctx_done then ([], True) else pump dest target es)"
| "pump dest target (Packet data from_addr # es) =
     (let target1 = (case dest of None \<Rightarrow> target | Some d \<Rightarrow> if ip_equal (uaIP from_addr) (uaIP d) then Some from_addr else target);
          target2 = (if target1 = None then dest else target1)
      in case target2 of
           None \<Rightarrow> pump dest None es
         | Some t \<Rightarrow> (case pump dest target2 es of (out, ended) \<Rightarrow> ((take rtpBuf data, t) # out, ended)))"

section \<open>Video of a call\<close>

text \<open>What startVideo does once its bodies are merged: the bodies of the two re-INVITEs and the relay,
  a side of it being the port of its socket and the address of the remote party\<close>
record video_plan =
  vpCallerBody :: string
  vpCalleeBody :: string
  vpCallerRemote :: udp_addr
  vpCalleeRemote :: udp_addr

definition remote_addr :: "video_info \<Rightarrow> udp_addr" where
  "remote_addr v = \<lparr>uaIP = (case viRemoteIP v of None \<Rightarrow> [] | Some a \<Rightarrow> a), uaPort = viRemotePort v\<rparr>"

definition unless_panic :: "(sdp_error, 'a) result \<Rightarrow> ('a \<Rightarrow> (sdp_error, 'b option) result) \<Rightarrow> (sdp_error, 'b option) result" where
  "unless_panic r f = (case r of Inl e \<Rightarrow> if e = SdpPanics then Err SdpPanics else Ok None | Inr x \<Rightarrow> f x)"

definition startVideo :: "string \<Rightarrow> (int \<times> int) option \<Rightarrow> string \<Rightarrow> string \<Rightarrow> string \<Rightarrow> string
    \<Rightarrow> (sdp_error, video_plan option) result" where
  "startVideo externalIP ports callerOffer calleeAnswer inAudio outAudio =
     (if externalIP = [] then Ok None
      else case ports of
        None \<Rightarrow> Ok None
      | Some (portA, portB) \<Rightarrow>
          unless_panic (ParseVideo callerOffer) (\<lambda>callerRemote.
          unless_panic (ParseVideo calleeAnswer) (\<lambda>calleeRemote.
          unless_panic (AppendVideo inAudio callerOffer externalIP portA) (\<lambda>inMerged.
          unless_panic (AppendVideo outAudio calleeAnswer externalIP portB) (\<lambda>outMerged.
            Ok (Some \<lparr>vpCallerBody = inMerged, vpCalleeBody = outMerged,
              vpCallerRemote = remote_addr callerRemote, vpCalleeRemote = remote_addr calleeRemote\<rparr>))))))"

text \<open>The relay of a plan: what arrives at the caller's socket goes to the callee and back.\<close>
definition relay :: "video_plan \<Rightarrow> read_event list \<Rightarrow> read_event list
    \<Rightarrow> (8 word list \<times> udp_addr) list \<times> (8 word list \<times> udp_addr) list" where
  "relay p atA atB =
     (fst (pump (Some (vpCalleeRemote p)) (Some (vpCalleeRemote p)) atA),
      fst (pump (Some (vpCallerRemote p)) (Some (vpCallerRemote p)) atB))"

section \<open>Packets that pass\<close>

lemma pump_other: "\<forall>p \<in> set ps. \<not> ip_equal (uaIP (snd p)) (uaIP d) \<Longrightarrow>
    fst (pump (Some d) (Some d) (List.map (\<lambda>(x, f). Packet x f) ps)) = List.map (\<lambda>(x, f). (take rtpBuf x, d)) ps"
  by (induction ps) (auto simp: case_prod_unfold Let_def)

lemma pump_same: "\<forall>p \<in> set ps. ip_equal (uaIP (snd p)) (uaIP d) \<Longrightarrow>
    fst (pump (Some d) (Some t) (List.map (\<lambda>(x, f). Packet x f) ps)) = List.map (\<lambda>(x, f). (take rtpBuf x, f)) ps"
  by (induction ps arbitrary: t) (auto simp: case_prod_unfold Let_def)

text \<open>Video between two parties: packets the caller sends from an address other than the callee's go
  to the callee in their order, cut to 1500 bytes; where both have the same address, as two phones
  behind one router do, every packet goes back to the party that sent it.\<close>
theorem relay_direction:
  assumes "\<forall>(x, f) \<in> set ps. uaIP f = ipA" "length ipA = length (uaIP (vpCalleeRemote p))"
  shows "fst (relay p (List.map (\<lambda>(x, f). Packet x f) ps) atB)
    = (if ipA \<noteq> uaIP (vpCalleeRemote p) then List.map (\<lambda>(x, f). (take rtpBuf x, vpCalleeRemote p)) ps
       else List.map (\<lambda>(x, f). (take rtpBuf x, f)) ps)"
proof (cases "ipA = uaIP (vpCalleeRemote p)")
  case True
  then show ?thesis using assms by (auto simp: relay_def ip_equal_def intro!: pump_same)
next
  case False
  then show ?thesis using assms by (auto simp: relay_def ip_equal_def intro!: pump_other)
qed


section \<open>Bodies read back\<close>

text \<open>A line of an SDP body: a letter, an equals sign, a value\<close>
definition sdp_line :: "string \<Rightarrow> bool" where
  "sdp_line l = (\<exists>k v. l = k # CHR ''='' # v \<and> k \<noteq> CHR ''='' \<and> lf \<notin> set l)"

definition sdp_text :: "string list \<Rightarrow> string" where
  "sdp_text ls = concat (List.map (\<lambda>l. l @ crlf) ls)"

definition line_values :: "char \<Rightarrow> string list \<Rightarrow> string list" where
  "line_values k ls = List.map (drop 2) (filter (\<lambda>l. l \<noteq> [] \<and> hd l = k) ls)"

lemma split_lines: "\<forall>l \<in> set ls. lf \<notin> set l \<Longrightarrow> split_on lf (sdp_text ls) = List.map (\<lambda>l. l @ [cr]) ls @ [[]]"
proof (induction ls)
  case (Cons l ls)
  have "split_on lf (l @ [cr]) = [l @ [cr]]" using Cons(2) by (intro split_on_none) (simp add: lf_def cr_def)
  moreover have "sdp_text (l # ls) = (l @ [cr]) @ lf # sdp_text ls" by (simp add: sdp_text_def crlf_def)
  ultimately show ?case using Cons split_on_append [of lf "l @ [cr]" "sdp_text ls"] by simp
qed (simp add: sdp_text_def)

lemma add_sdp_line:
  assumes "sdp_line l"
  shows "\<exists>sd'. strip_cr (l @ [cr]) = Ok l \<and> add_line l sd = Ok sd'
    \<and> (\<forall>k. sdpValues sd' [k] = sdpValues sd [k] @ line_values k [l])"
proof -
  obtain k v where l: "l = k # CHR ''='' # v" "k \<noteq> CHR ''=''" using assms by (auto simp: sdp_line_def)
  then have "str_index l ''='' = Some 1" by (simp add: has_prefix_def)
  then show ?thesis using l by (auto simp: strip_cr_def add_line_def sdpValues_def line_values_def)
qed

lemma read_sdp_lines:
  "\<forall>l \<in> set ls. sdp_line l \<Longrightarrow> \<exists>sd'. read_lines (List.map (\<lambda>l. l @ [cr]) ls) sd = Ok sd'
    \<and> (\<forall>k. sdpValues sd' [k] = sdpValues sd [k] @ line_values k ls)"
proof (induction ls arbitrary: sd)
  case (Cons l ls)
  obtain sd1 where 1: "strip_cr (l @ [cr]) = Ok l" "add_line l sd = Ok sd1"
    "\<forall>k. sdpValues sd1 [k] = sdpValues sd [k] @ line_values k [l]" using add_sdp_line Cons(2) by fastforce
  from Cons obtain sd2 where "read_lines (List.map (\<lambda>l. l @ [cr]) ls) sd1 = Ok sd2"
    "\<forall>k. sdpValues sd2 [k] = sdpValues sd1 [k] @ line_values k ls" by fastforce
  then show ?case using 1 by (auto simp: line_values_def)
qed (simp add: line_values_def)

lemma Unmarshal_text:
  assumes "\<forall>l \<in> set ls. sdp_line l"
  obtains sd where "Unmarshal (sdp_text ls) = Ok sd" "\<And>k. sdpValues sd [k] = line_values k ls"
proof -
  have "\<forall>l \<in> set ls. lf \<notin> set l" using assms by (auto simp: sdp_line_def)
  then show thesis using read_sdp_lines [OF assms, of "[]"] that by (auto simp: Unmarshal_def split_lines sdpValues_def)
qed

text \<open>A line feed where a line should start ends the server: nextLine reads the byte before it at
  index -1.\<close>
theorem blank_line_panics:
  assumes "\<forall>l \<in> set ls. sdp_line l"
  shows "Unmarshal (sdp_text ls @ lf # rest) = Err SdpPanics \<and> HasVideo (sdp_text ls @ lf # rest) = Err SdpPanics"
proof -
  have n: "\<forall>l \<in> set ls. lf \<notin> set l" using assms by (auto simp: sdp_line_def)
  have s: "split_on lf (sdp_text ls @ lf # rest) = List.map (\<lambda>l. l @ [cr]) ls @ [[]] @ split_on lf rest"
    using split_lines [OF n] by (simp add: split_on_append)
  have "read_lines (xs @ ys) sd = (case read_lines xs sd of Inl e \<Rightarrow> Err e | Inr sd' \<Rightarrow> read_lines ys sd')" for xs ys sd
    by (induction xs arbitrary: sd) (auto split: sum.splits)
  then have "Unmarshal (sdp_text ls @ lf # rest) = Err SdpPanics"
    using read_sdp_lines [OF assms, of "[]"] by (auto simp: Unmarshal_def s butlast_append strip_cr_def)
  then show ?thesis by (simp add: HasVideo_def)
qed

lemma blank_line_panics_witness: "HasVideo (''v=0'' @ crlf @ [lf]) = Err SdpPanics"
proof -
  have "sdp_line ''v=0''" by (simp add: sdp_line_def lf_def)
  then show ?thesis using blank_line_panics [of "[''v=0'']" "[]"] by (simp add: sdp_text_def)
qed


section \<open>Where AppendVideo puts the video\<close>

lemma join_crlf: "ls \<noteq> [] \<Longrightarrow> join_with crlf ls @ crlf = sdp_text ls"
  by (induction crlf ls rule: join_with.induct) (auto simp: sdp_text_def)

lemma split_join_crlf:
  "ls \<noteq> [] \<Longrightarrow> \<forall>l \<in> set ls. lf \<notin> set l \<Longrightarrow>
    split_on lf (join_with crlf ls) = List.map (\<lambda>l. l @ [cr]) (butlast ls) @ [List.last ls]"
proof (induction crlf ls rule: join_with.induct)
  case (3 l l' ls)
  have "split_on lf (l @ [cr]) = [l @ [cr]]" using 3(3) by (intro split_on_none) (simp add: lf_def cr_def)
  then show ?case using 3 split_on_append [of lf "l @ [cr]" "join_with crlf (l' # ls)"] by (simp add: crlf_def)
qed (simp_all add: split_on_none)

lemma trim_cr_line: "cr \<notin> set l \<Longrightarrow> trim_cr (l @ [cr]) = l" "cr \<notin> set l \<Longrightarrow> trim_cr l = l"
proof -
  assume "cr \<notin> set l"
  then have "\<forall>c \<in> set (rev l). \<not> c = cr" by auto
  then show "trim_cr (l @ [cr]) = l" "trim_cr l = l" by (simp_all add: trim_cr_def dropWhile_none)
qed

lemma audio_lines:
  assumes "ls \<noteq> []" "\<forall>l \<in> set ls. lf \<notin> set l \<and> cr \<notin> set l"
  shows "List.map trim_cr (split_on lf (trim_suffix (sdp_text ls) crlf)) = ls"
proof -
  have "trim_suffix (sdp_text ls) crlf = join_with crlf ls"
    using join_crlf [OF assms(1)] by (simp add: trim_suffix_def has_suffix_iff flip: join_crlf [OF assms(1)])
  moreover have "List.map trim_cr (List.map (\<lambda>l. l @ [cr]) (butlast ls)) = butlast ls"
    unfolding map_map by (rule map_idI) (use assms(2) in \<open>auto simp: trim_cr_line dest: in_set_butlastD\<close>)
  ultimately show ?thesis using assms by (simp add: split_join_crlf trim_cr_line)
qed

lemma insert_video_at:
  "\<forall>l \<in> set pre. \<not> is_audio_line l \<Longrightarrow> is_audio_line a \<Longrightarrow> insert_video vs (pre @ a # post) = Some (pre @ a # vs @ post)"
  by (induction pre) auto

lemma insert_video_Some: "insert_video vs ls = Some out \<Longrightarrow> ls \<noteq> [] \<and> out \<noteq> []"
  by (cases ls) (auto split: if_splits)

lemma AppendVideo_text:
  assumes "ParseVideo offer = Ok v" "\<forall>l \<in> set ls. lf \<notin> set l \<and> cr \<notin> set l"
    and "insert_video (video_lines v ip port) ls = Some out"
  shows "AppendVideo (sdp_text ls) offer ip port = Ok (sdp_text out)"
proof -
  have ne: "ls \<noteq> []" "out \<noteq> []" using insert_video_Some [OF assms(3)] by auto
  show ?thesis using assms audio_lines [OF ne(1) assms(2)] join_crlf [OF ne(2)] by (simp add: AppendVideo_def)
qed

text \<open>The section of a medium: the lines after its media line, up to the next media line\<close>
definition media_section :: "string \<Rightarrow> string list \<Rightarrow> string list" where
  "media_section m ls =
     takeWhile (\<lambda>l. \<not> has_prefix l ''m='') (tl (dropWhile (\<lambda>l. \<not> has_prefix l (''m='' @ m @ '' '')) ls))"

text \<open>The video is put directly behind the line of the audio, before the attributes of the audio.
  So the audio of the merged body has no attributes left, and those it had (its codecs, its
  direction, its address) follow those of the video in the section of the video.\<close>
theorem audio_loses_attributes:
  assumes "ParseVideo offer = Ok v" "\<forall>l \<in> set ls. lf \<notin> set l \<and> cr \<notin> set l \<and> \<not> has_prefix l ''m=video ''"
    and "\<exists>l \<in> set ls. has_prefix l ''m=audio ''"
  shows "\<exists>out. AppendVideo (sdp_text ls) offer ip port = Ok (sdp_text out)
    \<and> media_section ''audio'' out = []
    \<and> media_section ''video'' out = tl (video_lines v ip port) @ media_section ''audio'' ls"
proof -
  let ?vs = "video_lines v ip port"
  obtain pre a post where ls: "ls = pre @ a # post" "is_audio_line a" "\<forall>l \<in> set pre. \<not> is_audio_line l"
    using assms(3) by (metis (no_types) is_audio_line_def split_list_first_propE)
  then have ins: "insert_video ?vs ls = Some (pre @ a # ?vs @ post)" by (simp add: insert_video_at)
  have app: "AppendVideo (sdp_text ls) offer ip port = Ok (sdp_text (pre @ a # ?vs @ post))"
    by (rule AppendVideo_text [OF assms(1) _ ins]) (use assms(2) in blast)
  obtain m rest where vs: "?vs = m # rest" "has_prefix m ''m=video ''" "\<forall>l \<in> set rest. \<not> has_prefix l ''m=''"
    by (auto simp: video_lines_def has_prefix_def)
  have d: "dropWhile (\<lambda>l. \<not> has_prefix l ''m=audio '') (pre @ x) = dropWhile (\<lambda>l. \<not> has_prefix l ''m=audio '') x" for x
    using ls(3) by (induction pre) (auto simp: is_audio_line_def)
  have "\<forall>l \<in> set (pre @ [a]). \<not> has_prefix l ''m=video ''" using assms(2) ls(1) by auto
  then have v: "dropWhile (\<lambda>l. \<not> has_prefix l ''m=video '') (pre @ a # x) = dropWhile (\<lambda>l. \<not> has_prefix l ''m=video '') x" for x
    by (induction pre) auto
  have mm: "has_prefix m ''m=''" using vs(2) by (auto simp: has_prefix_iff)
  have "media_section ''audio'' (pre @ a # ?vs @ post) = []"
    using ls(2) mm by (simp add: media_section_def d is_audio_line_def vs(1))
  moreover have "media_section ''video'' (pre @ a # ?vs @ post) = rest @ media_section ''audio'' ls"
    using ls vs(2,3) by (simp add: media_section_def v d is_audio_line_def vs(1) takeWhile_append)
  ultimately show ?thesis using app vs(1) by auto
qed


section \<open>The merged body read back\<close>

lemma fields_from_word: "\<forall>c \<in> set w. \<not> is_space c \<Longrightarrow> fields_from u (w @ s) = fields_from (u @ w) s"
  by (induction w arbitrary: u) auto

lemma Fields_join: "\<forall>w \<in> set ws. w \<noteq> [] \<and> (\<forall>c \<in> set w. \<not> is_space c) \<Longrightarrow> Fields (join_with '' '' ws) = ws"
proof (induction "'' ''" ws rule: join_with.induct)
  case (2 w)
  then show ?case using fields_from_word [of w "[]" "[]"] by (simp add: Fields_def)
next
  case (3 w w' ws)
  have "is_space (CHR '' '')" by (simp add: is_space_def)
  then show ?case using 3 fields_from_word [of w "[]"] by (simp add: Fields_def)
qed (simp add: Fields_def)

lemma fields_words:
  "w \<in> set (fields_from u s) \<Longrightarrow> \<forall>c \<in> set u. \<not> is_space c \<Longrightarrow> w \<noteq> [] \<and> (\<forall>c \<in> set w. \<not> is_space c)"
proof (induction u s rule: fields_from.induct)
  case (1 u)
  then show ?case by (simp split: if_splits)
next
  case (2 u c cs)
  show ?case
  proof (cases "is_space c")
    case True
    then have "w \<in> set (fields_from [] cs) \<or> (w = u \<and> u \<noteq> [])" using 2(4) by (auto split: if_splits)
    moreover have "w \<in> set (fields_from [] cs) \<Longrightarrow> w \<noteq> [] \<and> (\<forall>c \<in> set w. \<not> is_space c)"
      using 2(1) [OF True] 2(2) [OF True] by (cases "u = []") fastforce+
    ultimately show ?thesis using 2(5) by blast
  next
    case False
    then show ?thesis using 2(3-5) by simp
  qed
qed

lemma atoi_range: "atoi s = Some n \<Longrightarrow> int64_range n"
  unfolding atoi_def by (simp add: Let_def split: list.splits if_splits option.splits)

definition lf_free :: "session_description \<Rightarrow> bool" where
  "lf_free sd = (\<forall>(k, vs) \<in> set sd. \<forall>v \<in> set vs. lf \<notin> set v)"

lemma lf_free_values: "lf_free sd \<Longrightarrow> v \<in> set (sdpValues sd k) \<Longrightarrow> lf \<notin> set v"
  by (cases "get sd k") (auto simp: lf_free_def sdpValues_def goget_def simp del: map_of_eq_Some_iff dest: get_in_set)

lemma lf_free_add: "add_line l sd = Ok sd' \<Longrightarrow> lf \<notin> set l \<Longrightarrow> lf_free sd \<Longrightarrow> lf_free sd'"
proof -
  assume a: "add_line l sd = Ok sd'" "lf \<notin> set l" "lf_free sd"
  have "lf_free (put k (sdpValues sd k @ [drop i l]) sd)" for k i
    using a(2,3) lf_free_values [OF a(3)] set_put_subset [of k "sdpValues sd k @ [drop i l]" sd]
    by (force simp: lf_free_def dest: in_set_dropD)
  then show "lf_free sd'" using a by (auto simp: add_line_def split: if_splits option.splits nat.splits)
qed

lemma lf_free_read: "read_lines ls sd = Ok sd' \<Longrightarrow> \<forall>l \<in> set ls. lf \<notin> set l \<Longrightarrow> lf_free sd \<Longrightarrow> lf_free sd'"
proof (induction ls sd rule: read_lines.induct)
  case (2 l ls sd)
  have "lf \<notin> set line" if "strip_cr l = Ok line" for line
    using that 2(3) by (auto simp: strip_cr_def split: if_splits dest: in_set_butlastD)
  then show ?case using 2 lf_free_add by (fastforce split: sum.splits)
qed simp

lemma lf_free_Unmarshal: "Unmarshal body = Ok sd \<Longrightarrow> lf_free sd"
proof -
  assume "Unmarshal body = Ok sd"
  moreover have "\<forall>l \<in> set (butlast (split_on lf body)). lf \<notin> set l" by (auto dest: in_set_butlastD split_on_no_sep)
  moreover have "lf_free []" by (simp add: lf_free_def)
  ultimately show "lf_free sd" unfolding Unmarshal_def by (rule lf_free_read)
qed

text \<open>What ParseVideo reads can stand in lines of its own.\<close>
lemma ParseVideo_parts:
  assumes "ParseVideo body = Ok v"
  shows "viProto v \<noteq> []" "\<forall>c \<in> set (viProto v). \<not> is_space c" "\<forall>a \<in> set (viAttributes v). lf \<notin> set a \<and> video_attr a"
    "\<forall>n \<in> set (viPayloadTypes v). int64_range n"
proof -
  obtain sd line where sd: "Unmarshal body = Ok sd" "\<not> length (Fields line) < 4" "viProto v = Fields line ! 2"
    "viAttributes v = filter video_attr (sdpValues sd ''a'')" "viPayloadTypes v = List.map_filter atoi (drop 3 (Fields line))"
    using assms by (auto simp: ParseVideo_def Let_def split: if_splits sum.splits option.splits)
  have "Fields line ! 2 \<in> set (Fields line)" using sd(2) by (intro nth_mem) simp
  from fields_words [OF this [unfolded Fields_def]] show "viProto v \<noteq> []" "\<forall>c \<in> set (viProto v). \<not> is_space c"
    by (simp_all add: sd(3) Fields_def)
  show "\<forall>a \<in> set (viAttributes v). lf \<notin> set a \<and> video_attr a"
    using lf_free_values [OF lf_free_Unmarshal [OF sd(1)]] by (auto simp: sd(4))
  show "\<forall>n \<in> set (viPayloadTypes v). int64_range n"
    using atoi_range by (auto simp: sd(5) List.map_filter_def)
qed


lemma line_values_append [simp]: "line_values k (xs @ ys) = line_values k xs @ line_values k ys"
  by (simp add: line_values_def)

lemma lf_digits: "lf \<notin> set (itoa n)"
  using itoa_not_space [of lf n] by (auto simp: lf_def is_space_def)

lemma lf_not_space: "\<forall>c \<in> set w. \<not> is_space c \<Longrightarrow> lf \<notin> set w"
  by (auto simp: lf_def is_space_def)

lemma set_join_with: "c \<in> set (join_with s ws) \<Longrightarrow> c \<in> set s \<or> (\<exists>w \<in> set ws. c \<in> set w)"
  by (induction s ws rule: join_with.induct) auto

text \<open>The words of the media line of video_lines\<close>
definition video_words :: "video_info \<Rightarrow> int \<Rightarrow> string list" where
  "video_words v port = [''video'', itoa port, viProto v] @ (if viPayloadTypes v = [] then [''96''] else List.map itoa (viPayloadTypes v))"

lemma video_lines_words:
  assumes "viProto v \<noteq> []"
  shows "video_lines v ip port = (''m='' @ join_with '' '' (video_words v port)) # (''c=IN IP4 '' @ ip)
    # List.map (\<lambda>a. ''a='' @ a) (viAttributes v) @ [''a=sendrecv'']"
  using assms by (cases "viPayloadTypes v") (simp_all add: video_lines_def video_words_def)

lemma video_words_fields:
  assumes "viProto v \<noteq> []" "\<forall>c \<in> set (viProto v). \<not> is_space c"
  shows "Fields (join_with '' '' (video_words v port)) = video_words v port"
proof (rule Fields_join)
  show "\<forall>w \<in> set (video_words v port). w \<noteq> [] \<and> (\<forall>c \<in> set w. \<not> is_space c)"
    using assms itoa_not_space by (auto simp: video_words_def is_space_def)
qed

lemma video_lines_sdp:
  assumes "ParseVideo offer = Ok v" "lf \<notin> set ip"
  shows "\<forall>l \<in> set (video_lines v ip port). sdp_line l"
proof -
  note p = ParseVideo_parts [OF assms(1)]
  have "lf \<notin> set w" if "w \<in> set (video_words v port)" for w
    using that lf_not_space [OF p(2)] lf_digits by (auto simp: video_words_def lf_def split: if_splits)
  then have "lf \<notin> set (join_with '' '' (video_words v port))"
    using set_join_with [of lf "'' ''" "video_words v port"] by (auto simp: lf_def)
  then have "sdp_line (''m='' @ join_with '' '' (video_words v port))" by (auto simp: sdp_line_def lf_def)
  moreover have "sdp_line (''c=IN IP4 '' @ ip)" "sdp_line ''a=sendrecv''" using assms(2) by (auto simp: sdp_line_def lf_def)
  moreover have "sdp_line (''a='' @ a)" if "a \<in> set (viAttributes v)" for a using that p(3) by (auto simp: sdp_line_def lf_def)
  ultimately show ?thesis by (auto simp: video_lines_words [OF p(1)])
qed

lemma rtcp_port_none: "\<forall>a \<in> set attrs. \<not> has_prefix a ''rtcp:'' \<Longrightarrow> rtcp_port attrs port = port"
  by (induction attrs arbitrary: port) auto

lemma video_attr_not_rtcp: "video_attr a \<Longrightarrow> \<not> has_prefix a ''rtcp:''"
  by (auto simp: video_attr_def has_prefix_iff)

lemma map_filter_atoi: "\<forall>n \<in> set ns. int64_range n \<Longrightarrow> List.map_filter atoi (List.map itoa ns) = ns"
  by (induction ns) (simp_all add: List.map_filter_simps atoi_itoa)

text \<open>What the line of the video says is read from any list of lines that has it as the first video line.\<close>
lemma ParseVideo_lines:
  assumes ls: "\<forall>l \<in> set ls. sdp_line l" "ls \<noteq> []"
    and m: "List.find is_video (line_values (CHR ''m'') ls) = Some line" "Fields line = video_words v port"
    and c: "ConnectionInformation sd = Ok a" "Unmarshal (sdp_text ls) = Ok sd"
    and r: "\<forall>x \<in> set (line_values (CHR ''a'') ls). \<not> has_prefix x ''rtcp:''"
    and v: "\<forall>n \<in> set (viPayloadTypes v). int64_range n" "int64_range port"
  shows "ParseVideo (sdp_text ls) = Ok \<lparr>viPayloadTypes = (if viPayloadTypes v = [] then [96] else viPayloadTypes v),
     viRemoteIP = a, viRemotePort = port, viAttributes = filter video_attr (line_values (CHR ''a'') ls), viProto = viProto v\<rparr>"
proof -
  obtain sd' where sd: "Unmarshal (sdp_text ls) = Ok sd'" "\<And>k. sdpValues sd' [k] = line_values k ls"
    using Unmarshal_text [OF ls(1)] by blast
  have ne: "sdp_text ls \<noteq> []" using ls(2) by (cases ls) (auto simp: sdp_text_def crlf_def)
  have "CHR ''/'' \<notin> set (itoa port)" by (auto simp: itoa_def is_digit_def dest: nat_digits_digits)
  then have p: "atoi_ignored (hd (split_on (CHR ''/'') (itoa port))) = port"
    using v(2) by (simp add: split_on_none atoi_ignored_def atoi_itoa)
  have w: "drop 3 (video_words v port) = (if viPayloadTypes v = [] then [''96''] else List.map itoa (viPayloadTypes v))"
    "video_words v port ! 1 = itoa port" "video_words v port ! 2 = viProto v" "\<not> length (video_words v port) < 4"
    by (simp_all add: video_words_def Suc_le_eq)
  have "atoi ''96'' = Some 96" by code_simp
  then have pts: "List.map_filter atoi (drop 3 (video_words v port)) = (if viPayloadTypes v = [] then [96] else viPayloadTypes v)"
    using map_filter_atoi [OF v(1)] by (simp add: w List.map_filter_simps)
  show ?thesis using c sd ne m w(2-4) pts p rtcp_port_none [OF r] by (simp add: ParseVideo_def)
qed


lemma v4_word: "length q = 4 \<Longrightarrow> v4_string q \<noteq> [] \<and> (\<forall>c \<in> set (v4_string q). \<not> is_space c \<and> c \<noteq> CHR ''/'')"
proof -
  assume "length q = 4"
  then have "v4_string q \<noteq> []" by (auto simp: v4_string_def length_Suc_conv numeral_eq_Suc)
  moreover have "\<not> is_space c \<and> c \<noteq> CHR ''/''" if "c \<in> set (v4_string q)" for c
    using set_v4_string [OF that] by (auto simp: is_digit_def is_space_def)
  ultimately show ?thesis by blast
qed

lemma Connection_v4:
  assumes "length q = 4" "sdpValue sd ''c'' = ''IN IP4 '' @ v4_string q"
  shows "ConnectionInformation sd = Ok (Some q)"
proof -
  have "Fields (join_with '' '' [''IN'', ''IP4'', v4_string q]) = [''IN'', ''IP4'', v4_string q]"
    using v4_word [OF assms(1)] by (intro Fields_join) (auto simp: is_space_def)
  then have f: "Fields (sdpValue sd ''c'') = [''IN'', ''IP4'', v4_string q]" by (simp add: assms(2))
  have "split_on (CHR ''/'') (v4_string q) = [v4_string q]" using v4_word [OF assms(1)] by (intro split_on_none) auto
  moreover have "sdpValue sd ''c'' \<noteq> []" by (simp add: assms(2))
  ultimately show ?thesis using assms(1) ParseIP_v4 [OF assms(1)]
    by (simp add: ConnectionInformation_def f To4_def v4_prefix_def)
qed

lemma find_append: "List.find P (xs @ ys) = (case List.find P xs of None \<Rightarrow> List.find P ys | Some x \<Rightarrow> Some x)"
  by (induction xs) auto

lemma in_line_values: "x \<in> set (line_values k ls) \<Longrightarrow> \<forall>l \<in> set ls. sdp_line l \<Longrightarrow> k # CHR ''='' # x \<in> set ls"
  by (force simp: line_values_def sdp_line_def)

text \<open>The body of an audio call: no video, no rtcp attribute, and the address q wherever one stands\<close>
definition plain_audio :: "ip_addr \<Rightarrow> string list \<Rightarrow> bool" where
  "plain_audio q ls = (\<forall>l \<in> set ls. sdp_line l \<and> cr \<notin> set l \<and> \<not> has_prefix l ''m=video '' \<and> \<not> has_prefix l ''a=rtcp:''
      \<and> (hd l = CHR ''c'' \<longrightarrow> l = ''c=IN IP4 '' @ v4_string q))"

lemma merged_values:
  assumes "plain_audio q0 (pre @ a # post)" "x \<in> set (line_values k (pre @ a # vs @ post))"
  shows "k # CHR ''='' # x \<in> set (pre @ a # post) \<or> x \<in> set (line_values k vs)"
proof -
  have "x \<in> set (line_values k (pre @ a # post)) \<or> x \<in> set (line_values k vs)"
    using assms(2) line_values_append [of k "pre @ [a]" post] line_values_append [of k "pre @ [a]" "vs @ post"] by auto
  then show ?thesis using in_line_values [of x k "pre @ a # post"] assms(1) unfolding plain_audio_def by blast
qed

lemma video_line_values:
  assumes "ParseVideo offer = Ok v"
  shows "line_values (CHR ''m'') (video_lines v ip port) = [join_with '' '' (video_words v port)]"
    "line_values (CHR ''a'') (video_lines v ip port) = viAttributes v @ [''sendrecv'']"
    "line_values (CHR ''c'') (video_lines v ip port) = [''IN IP4 '' @ ip]"
  by (simp_all add: video_lines_words [OF ParseVideo_parts(1) [OF assms]] line_values_def filter_empty_conv o_def)

lemma merged_media:
  assumes "ParseVideo offer = Ok v" "plain_audio q0 (pre @ a # post)"
  shows "List.find is_video (line_values (CHR ''m'') (pre @ a # video_lines v ip port @ post))
    = Some (join_with '' '' (video_words v port))"
proof -
  have "\<not> is_video x" if "x \<in> set (line_values (CHR ''m'') (pre @ [a]))" for x
  proof -
    have "\<forall>l \<in> set (pre @ [a]). sdp_line l" using assms(2) by (auto simp: plain_audio_def)
    then have "CHR ''m'' # CHR ''='' # x \<in> set (pre @ a # post)" using in_line_values [OF that] by auto
    then have "\<not> has_prefix (CHR ''m'' # CHR ''='' # x) ''m=video ''" using assms(2) unfolding plain_audio_def by blast
    then show ?thesis by (simp add: is_video_def)
  qed
  then have "List.find is_video (line_values (CHR ''m'') (pre @ [a])) = None" by (auto simp: find_None_iff)
  moreover have "is_video (join_with '' '' (video_words v port))" by (simp add: video_words_def is_video_def)
  moreover have "line_values (CHR ''m'') (pre @ a # video_lines v ip port @ post) = line_values (CHR ''m'') (pre @ [a])
      @ join_with '' '' (video_words v port) # line_values (CHR ''m'') post"
    using video_line_values(1) [OF assms(1)] line_values_append [of _ "pre @ [a]" "video_lines v ip port @ post"] by simp
  ultimately show ?thesis by (simp only: find_append option.case List.find.simps if_True)
qed

lemma merged_rtcp:
  assumes "ParseVideo offer = Ok v" "plain_audio q0 (pre @ a # post)"
    and "x \<in> set (line_values (CHR ''a'') (pre @ a # video_lines v ip port @ post))"
  shows "\<not> has_prefix x ''rtcp:''"
proof -
  consider "''a='' @ x \<in> set (pre @ a # post)" | "video_attr x" | "x = ''sendrecv''"
    using merged_values [OF assms(2,3)] ParseVideo_parts(3) [OF assms(1)] by (auto simp: video_line_values(2) [OF assms(1)])
  then show ?thesis
  proof cases
    case 1
    then have "\<not> has_prefix (''a='' @ x) ''a=rtcp:''" using assms(2) unfolding plain_audio_def by blast
    then show ?thesis by simp
  qed (simp_all add: video_attr_not_rtcp)
qed

lemma merged_address:
  assumes "ParseVideo offer = Ok v" "plain_audio q0 (pre @ a # post)" "length q = 4" "length q0 = 4"
    and "\<And>k. sdpValues sd [k] = line_values k (pre @ a # video_lines v (v4_string q) port @ post)"
  shows "\<exists>r \<in> {q, q0}. ConnectionInformation sd = Ok (Some r)"
proof -
  let ?cs = "line_values (CHR ''c'') (pre @ a # video_lines v (v4_string q) port @ post)"
  have cs: "x = ''IN IP4 '' @ v4_string q \<or> x = ''IN IP4 '' @ v4_string q0" if x: "x \<in> set ?cs" for x
  proof -
    consider "''c='' @ x \<in> set (pre @ a # post)" | "x = ''IN IP4 '' @ v4_string q"
      using merged_values [OF assms(2) x] by (auto simp: video_line_values(3) [OF assms(1)])
    then show ?thesis
    proof cases
      case 1
      moreover have "hd (''c='' @ x) = CHR ''c''" by simp
      ultimately have "''c='' @ x = ''c=IN IP4 '' @ v4_string q0" using assms(2) unfolding plain_audio_def by blast
      then show ?thesis by simp
    qed simp
  qed
  have "set (line_values (CHR ''c'') (video_lines v (v4_string q) port)) \<subseteq> set ?cs"
    using line_values_append [of _ "pre @ [a]" "video_lines v (v4_string q) port @ post"] by auto
  then obtain x u where x: "?cs = x # u" by (cases ?cs) (auto simp: video_line_values(3) [OF assms(1)])
  then have "sdpValue sd ''c'' = x" by (simp only: sdpValue_def assms(5) list.case)
  then have "sdpValue sd ''c'' = ''IN IP4 '' @ v4_string q \<or> sdpValue sd ''c'' = ''IN IP4 '' @ v4_string q0"
    using cs [of x] x by (metis list.set_intros(1))
  then show ?thesis using Connection_v4 [OF assms(3)] Connection_v4 [OF assms(4)] by blast
qed

text \<open>C34: A merged body is one the other party can read: the video it offers has the payload types and
  the protocol of the offer, the port of the relay, and the address given or that of the audio.\<close>
theorem appended_video_read_back:
  assumes offer: "ParseVideo offer = Ok v" and ls: "plain_audio q0 ls" "\<exists>l \<in> set ls. has_prefix l ''m=audio ''"
    and q: "length q = 4" "length q0 = 4" "int64_range port"
  shows "\<exists>out v'. AppendVideo (sdp_text ls) offer (v4_string q) port = Ok out \<and> ParseVideo out = Ok v'
    \<and> viPayloadTypes v' = (if viPayloadTypes v = [] then [96] else viPayloadTypes v) \<and> viProto v' = viProto v
    \<and> viRemotePort v' = port \<and> viRemoteIP v' \<in> {Some q, Some q0}"
proof -
  let ?vs = "video_lines v (v4_string q) port"
  note pv = ParseVideo_parts [OF offer]
  obtain pre a post where sp: "ls = pre @ a # post" "is_audio_line a" "\<forall>l \<in> set pre. \<not> is_audio_line l"
    using ls(2) by (metis (no_types) is_audio_line_def split_list_first_propE)
  let ?out = "pre @ a # ?vs @ post"
  have app: "AppendVideo (sdp_text ls) offer (v4_string q) port = Ok (sdp_text ?out)"
    using ls(1) sp by (intro AppendVideo_text [OF offer]) (auto simp: insert_video_at sdp_line_def plain_audio_def)
  have "lf \<notin> set (v4_string q)" using v4_word [OF q(1)] lf_not_space by blast
  then have out: "\<forall>l \<in> set ?out. sdp_line l" using video_lines_sdp [OF offer] ls(1) sp(1) by (auto simp: plain_audio_def)
  obtain sd where sd: "Unmarshal (sdp_text ?out) = Ok sd" "\<And>k. sdpValues sd [k] = line_values k ?out"
    using Unmarshal_text [OF out] by blast
  note pa = ls(1) [unfolded sp(1)]
  obtain r where r: "r \<in> {q, q0}" "ConnectionInformation sd = Ok (Some r)"
    using merged_address [OF offer pa q(1,2) sd(2)] by blast
  let ?v = "\<lparr>viPayloadTypes = (if viPayloadTypes v = [] then [96] else viPayloadTypes v),
     viRemoteIP = Some r, viRemotePort = port, viAttributes = filter video_attr (line_values (CHR ''a'') ?out), viProto = viProto v\<rparr>"
  have p: "ParseVideo (sdp_text ?out) = Ok ?v"
    by (rule ParseVideo_lines [OF out _ merged_media [OF offer pa] video_words_fields [OF pv(1,2)] r(2) sd(1) _ pv(4) q(3)])
      (use merged_rtcp [OF offer pa] in auto)
  have "viPayloadTypes ?v = (if viPayloadTypes v = [] then [96] else viPayloadTypes v) \<and> viProto ?v = viProto v
    \<and> viRemotePort ?v = port \<and> viRemoteIP ?v \<in> {Some q, Some q0}" using r(1) by auto
  with app p show ?thesis by blast
qed

section \<open>An example\<close>

definition demo_offer :: string where
  "demo_offer = sdp_text [''v=0'', ''c=IN IP4 10.0.0.9'', ''m=audio 4000 RTP/AVP 0'', ''m=video 4002 RTP/AVP 97'', ''a=rtpmap:97 H264/90000'']"

abbreviation demo_answer :: "string list" where
  "demo_answer \<equiv> [''v=0'', ''c=IN IP4 10.0.0.1'', ''m=audio 5000 RTP/AVP 0'', ''a=rtpmap:0 PCMU/8000'']"

lemma demo_v4: "v4_string [10, 0, 0, 1] = ''10.0.0.1''"
  by (simp add: v4_string_def itoa_def nat_digits.simps digit_char_def) code_simp

lemma demo_offer_video:
  "ParseVideo demo_offer = Ok \<lparr>viPayloadTypes = [97], viRemoteIP = Some [10, 0, 0, 9], viRemotePort = 4002,
     viAttributes = [''rtpmap:97 H264/90000''], viProto = ''RTP/AVP''\<rparr>"
  by code_simp

lemma demo_sdp:
  "plain_audio [10, 0, 0, 1] demo_answer" "\<exists>l \<in> set demo_answer. has_prefix l ''m=audio ''"
  by (simp_all add: plain_audio_def sdp_line_def lf_def cr_def demo_v4)

theorem appended_video_read_back_witness:
  "\<exists>out v'. AppendVideo (sdp_text demo_answer) demo_offer ''10.0.0.1'' 6000 = Ok out \<and> ParseVideo out = Ok v'
    \<and> viPayloadTypes v' = [97] \<and> viRemotePort v' = 6000"
proof -
  have "int64_range 6000" by (simp add: int64_range_def)
  from appended_video_read_back [OF demo_offer_video demo_sdp(1) demo_sdp(2) _ _ this, of "[10, 0, 0, 1]"]
  show ?thesis by (auto simp: demo_v4)
qed

theorem audio_loses_attributes_witness:
  "\<exists>out. AppendVideo (sdp_text demo_answer) demo_offer ''10.0.0.1'' 6000 = Ok (sdp_text out) \<and> media_section ''audio'' out = []
    \<and> ''a=rtpmap:0 PCMU/8000'' \<in> set (media_section ''video'' out)"
proof -
  have a: "''a=rtpmap:0 PCMU/8000'' \<in> set (media_section ''audio'' demo_answer)" by code_simp
  have "\<forall>l \<in> set demo_answer. lf \<notin> set l \<and> cr \<notin> set l \<and> \<not> has_prefix l ''m=video ''"
    by (simp add: lf_def cr_def)
  from audio_loses_attributes [OF demo_offer_video this demo_sdp(2), of "''10.0.0.1''" 6000] a show ?thesis by auto
qed

theorem relay_direction_witness:
  "\<exists>a p. fst (relay p [Packet [1, 2] a] []) = [([1, 2], a)] \<and> fst (relay p [Packet [1, 2] (a\<lparr>uaIP := [10, 0, 0, 8]\<rparr>)] []) = [([1, 2], vpCalleeRemote p)]"
proof -
  let ?a = "\<lparr>uaIP = [10, 0, 0, 9], uaPort = 4002\<rparr>" and ?b = "\<lparr>uaIP = [10, 0, 0, 9], uaPort = 5002\<rparr>"
  let ?p = "\<lparr>vpCallerBody = [], vpCalleeBody = [], vpCallerRemote = ?a, vpCalleeRemote = ?b\<rparr>"
  have "fst (relay ?p [Packet [1, 2] ?a] []) = [([1, 2], ?a)]"
    using relay_direction [of "[([1, 2], ?a)]" "[10, 0, 0, 9]" ?p "[]"] by (simp add: rtpBuf_def)
  moreover have "fst (relay ?p [Packet [1, 2] (?a\<lparr>uaIP := [10, 0, 0, 8]\<rparr>)] []) = [([1, 2], vpCalleeRemote ?p)]"
    using relay_direction [of "[([1, 2], ?a\<lparr>uaIP := [10, 0, 0, 8]\<rparr>)]" "[10, 0, 0, 8]" ?p "[]"] by (simp add: rtpBuf_def)
  ultimately show ?thesis by blast
qed

end
