(* ===== verification/Connect.thy ===== *)
theory Connect
  imports Pbx Video
begin

text \<open>
  The set-up of a bridged call (Connect and Join in internal/call/bridge.go) from the first
  response to the end of the call, as the sequence of what is done to the two legs, the registry,
  the call log and the watchers of extension states.  What the callee, the caller's leg and the
  media do is a record of outcomes.  Calls and Hold model what happens while the legs are bridged.
\<close>

section \<open>Actions and outcomes\<close>

datatype connect_action =
    SendsTrying | SendsRinging | StartsRingback | StopsRingback
  | DialsCallee "int" | AnswersCaller | PlaysBusyTone
  | RegistersCall | UnregistersCall | RecordsCall | NotifiesState bool
  | StartsVideo | StartsBridge | WaitsForLegs
  | HangsUpCallee | ClosesCallee | CancelsDial

text \<open>A BridgePair: which of its callbacks and whether its registry are set\<close>
record bridge_pair =
  bpRegistry :: bool
  bpRecordCall :: bool
  bpOnCallStateChange :: bool

text \<open>The responses to the outbound INVITE with the outcome of sending Ringing to the caller, whether the
  INVITE succeeds apart from that, whether the caller's leg can be answered and the bridge be started,
  whether offer and answer have video, and whether the call has been parked when its legs are left\<close>
record connect_env =
  ceResponses :: "(int \<times> bool) list"
  ceInvite :: bool
  ceAnswers :: bool
  ceBridge :: bool
  ceOfferVideo :: bool
  ceAnswerVideo :: bool
  ceParked :: bool

datatype connect_result = ConnectOk | DialFailed | CallerNotAnswered | NoBridge

text \<open>OnResponse for one response after the other (ringing: whether the ringback is on): what is done,
  whether it is on in the end, and whether a response was refused, which ends the INVITE\<close>
fun on_responses :: "bool \<Rightarrow> (int \<times> bool) list \<Rightarrow> connect_action list \<times> bool \<times> bool" where
  "on_responses ringing [] = ([], ringing, False)"
| "on_responses ringing ((code, sent) # rs) =
     (if responseStartsRingback code then
        (let told = (if code = 180 then [SendsRinging] else []) in
         if code = 180 \<and> \<not> sent then (told, ringing, True)
         else let (acts, r) = on_responses True rs
              in (told @ (if ringing then [] else [StartsRingback]) @ acts, r))
      else if 200 \<le> code \<and> code < 300 \<and> ringing then
        (let (acts, r) = on_responses False rs in (StopsRingback # acts, r))
      else on_responses ringing rs)"

definition stop_ring :: "bool \<Rightarrow> connect_action list" where
  "stop_ring ringing = (if ringing then [StopsRingback] else [])"

definition both_exts :: "connect_opts \<Rightarrow> bool" where
  "both_exts o' = (opCallerExt o' \<noteq> [] \<and> opCalleeExt o' \<noteq> [])"

definition tell_state :: "bridge_pair \<Rightarrow> connect_opts \<Rightarrow> bool \<Rightarrow> connect_action list" where
  "tell_state b o' active = (if bpOnCallStateChange b \<and> both_exts o' then [NotifiesState active] else [])"

text \<open>What Connect and Join share: from the answered caller to the end of the call, with the deferred
  Unregister\<close>
definition call_bridged :: "bridge_pair \<Rightarrow> connect_opts \<Rightarrow> connect_env \<Rightarrow> connect_action list \<times> connect_result" where
  "call_bridged b o' e =
     ((if bpRegistry b then [RegistersCall] else [])
      @ (if bpRecordCall b \<and> both_exts o' then [RecordsCall] else [])
      @ tell_state b o' True
      @ (if opVideo o' \<and> ceOfferVideo e \<and> ceAnswerVideo e then [StartsVideo] else [])
      @ [StartsBridge]
      @ (if ceBridge e then [WaitsForLegs] else [])
      @ (if bpRegistry b then [UnregistersCall] else []),
      if ceBridge e then ConnectOk else NoBridge)"

definition Connect :: "bridge_pair \<Rightarrow> connect_opts \<Rightarrow> connect_env \<Rightarrow> connect_action list \<times> connect_result" where
  "Connect b o' e =
     (let (acts, ringing, refused) = on_responses False (ceResponses e);
          dialled = SendsTrying # DialsCallee (RingTimeout (opRingTimeout o')) # acts @ stop_ring ringing in
      if refused \<or> \<not> ceInvite e then (dialled @ [PlaysBusyTone, CancelsDial], DialFailed)
      else let (rest, r) = (if \<not> ceAnswers e then ([HangsUpCallee], CallerNotAnswered) else call_bridged b o' e)
           in (dialled @ AnswersCaller # rest @ tell_state b o' False
                 @ (if ceParked e then [] else [ClosesCallee]) @ [CancelsDial], r))"

definition BridgeJoin :: "bridge_pair \<Rightarrow> connect_opts \<Rightarrow> connect_env \<Rightarrow> connect_action list \<times> connect_result" where
  "BridgeJoin b o' e =
     (let (rest, r) = (if \<not> ceAnswers e then ([], CallerNotAnswered) else call_bridged b o' e)
      in (AnswersCaller # rest @ tell_state b o' False, r))"

text \<open>A hunt group that has found a member: Join, and out.Close when it fails\<close>
definition hunt_join :: "bridge_pair \<Rightarrow> connect_opts \<Rightarrow> connect_env \<Rightarrow> connect_action list \<times> connect_result" where
  "hunt_join b o' e =
     (let (acts, r) = BridgeJoin b o' e in (acts @ (if r = ConnectOk then [] else [ClosesCallee]), r))"

text \<open>The two bridges New makes: the server has a copy, taken before OnCallStateChange is set, and
  RecordCall is set in the copy only; hunt groups have the original.\<close>
definition server_bridge :: bridge_pair where
  "server_bridge = \<lparr>bpRegistry = True, bpRecordCall = True, bpOnCallStateChange = False\<rparr>"

definition hunt_bridge :: bridge_pair where
  "hunt_bridge = \<lparr>bpRegistry = True, bpRecordCall = False, bpOnCallStateChange = True\<rparr>"

text \<open>The effect of a sequence on the call log and the extensions told to presence\<close>
fun call_log :: "pbx_env \<Rightarrow> connect_opts \<Rightarrow> connect_action list \<Rightarrow> db \<Rightarrow> db" where
  "call_log env o' [] d = d"
| "call_log env o' (a # acts) d =
     call_log env o' acts (if a = RecordsCall then recordCall env (opCallerExt o') (opCalleeExt o') d else d)"

definition told_presence :: "connect_opts \<Rightarrow> connect_action list \<Rightarrow> string list" where
  "told_presence o' acts =
     concat (List.map (\<lambda>a. case a of NotifiesState _ \<Rightarrow> [opCallerExt o', opCalleeExt o'] | _ \<Rightarrow> []) acts)"

section \<open>Well-formed sequences\<close>

text \<open>The state of a call on the way: ringback on, call in the registry, watchers told it is active,
  caller answered, callee's leg open\<close>
record connect_state =
  csRing :: bool
  csReg :: bool
  csActive :: bool
  csAnswered :: bool
  csOpen :: bool

definition start_state :: connect_state where
  "start_state = \<lparr>csRing = False, csReg = False, csActive = False, csAnswered = False, csOpen = False\<rparr>"

text \<open>The discipline of a call: ringback starts once at a time, only before the answer, and is never on
  when the caller is answered or hears the busy tone; a call is registered once, bridged and left
  only while its caller is answered, and unregistered before its watchers are told that it is over.\<close>
inductive connect_step :: "connect_state \<Rightarrow> connect_action \<Rightarrow> connect_state \<Rightarrow> bool" where
  csTrying: "\<not> csAnswered s \<Longrightarrow> connect_step s SendsTrying s"
| csRinging: "\<not> csAnswered s \<Longrightarrow> connect_step s SendsRinging s"
| csRingOn: "\<not> csRing s \<Longrightarrow> \<not> csAnswered s \<Longrightarrow> connect_step s StartsRingback (s\<lparr>csRing := True\<rparr>)"
| csRingOff: "csRing s \<Longrightarrow> connect_step s StopsRingback (s\<lparr>csRing := False\<rparr>)"
| csDials: "\<not> csOpen s \<Longrightarrow> connect_step s (DialsCallee t) s"
| csAnswers: "\<not> csRing s \<Longrightarrow> \<not> csAnswered s \<Longrightarrow> connect_step s AnswersCaller (s\<lparr>csAnswered := True, csOpen := True\<rparr>)"
| csBusy: "\<not> csRing s \<Longrightarrow> \<not> csAnswered s \<Longrightarrow> connect_step s PlaysBusyTone s"
| csRegisters: "\<not> csReg s \<Longrightarrow> csAnswered s \<Longrightarrow> connect_step s RegistersCall (s\<lparr>csReg := True\<rparr>)"
| csUnregisters: "csReg s \<Longrightarrow> connect_step s UnregistersCall (s\<lparr>csReg := False\<rparr>)"
| csRecords: "csAnswered s \<Longrightarrow> connect_step s RecordsCall s"
| csTells: "csAnswered s \<Longrightarrow> active = csReg s \<Longrightarrow> connect_step s (NotifiesState active) (s\<lparr>csActive := active\<rparr>)"
| csVideo: "csReg s \<Longrightarrow> connect_step s StartsVideo s"
| csBridges: "csReg s \<Longrightarrow> connect_step s StartsBridge s"
| csWaits: "csReg s \<Longrightarrow> connect_step s WaitsForLegs s"
| csHangsUp: "csOpen s \<Longrightarrow> connect_step s HangsUpCallee s"
| csCloses: "csOpen s \<Longrightarrow> \<not> csReg s \<Longrightarrow> connect_step s ClosesCallee (s\<lparr>csOpen := False\<rparr>)"
| csCancels: "connect_step s CancelsDial s"

inductive_simps connect_step_acts [simp]:
  "connect_step s SendsTrying s'" "connect_step s SendsRinging s'" "connect_step s StartsRingback s'" "connect_step s (DialsCallee t) s'" "connect_step s StopsRingback s'"
  "connect_step s AnswersCaller s'" "connect_step s PlaysBusyTone s'" "connect_step s RegistersCall s'"
  "connect_step s UnregistersCall s'" "connect_step s RecordsCall s'" "connect_step s (NotifiesState active) s'"
  "connect_step s StartsVideo s'" "connect_step s StartsBridge s'" "connect_step s WaitsForLegs s'"
  "connect_step s HangsUpCallee s'" "connect_step s ClosesCallee s'" "connect_step s CancelsDial s'"

inductive connect_run :: "connect_state \<Rightarrow> connect_action list \<Rightarrow> connect_state \<Rightarrow> bool" where
  crNil: "connect_run s [] s"
| crCons: "connect_step s a s' \<Longrightarrow> connect_run s' acts s'' \<Longrightarrow> connect_run s (a # acts) s''"

inductive_simps connect_run_Nil [simp]: "connect_run s [] s'"
inductive_simps connect_run_Cons [simp]: "connect_run s (a # acts) s'"

lemma connect_run_append:
  "connect_run s xs s' \<Longrightarrow> connect_run s' ys s'' \<Longrightarrow> connect_run s (xs @ ys) s''"
  by (induction rule: connect_run.induct) (auto intro: crCons)

lemma on_responses_run:
  "csRing s = ringing \<Longrightarrow> \<not> csAnswered s \<Longrightarrow> on_responses ringing rs = (acts, ringing', refused) \<Longrightarrow>
     connect_run s acts (s\<lparr>csRing := ringing'\<rparr>)"
proof (induction ringing rs arbitrary: s acts rule: on_responses.induct)
  case (2 ringing code sent rs)
  consider "responseStartsRingback code" "code = 180" "\<not> sent" | "responseStartsRingback code" "\<not> (code = 180 \<and> \<not> sent)"
    | "\<not> responseStartsRingback code" "200 \<le> code" "code < 300" ringing
    | "\<not> responseStartsRingback code" "\<not> (200 \<le> code \<and> code < 300 \<and> ringing)" by blast
  then show ?case
  proof cases
    case 1
    then have "acts = [SendsRinging]" "s\<lparr>csRing := ringing'\<rparr> = s" using "2.prems" by auto
    moreover have "connect_run s [SendsRinging] s" using "2.prems"(2) by simp
    ultimately show ?thesis by simp
  next
    case 2
    then obtain more where more: "on_responses True rs = (more, ringing', refused)"
      "acts = (if code = 180 then [SendsRinging] else []) @ (if ringing then [] else [StartsRingback]) @ more"
      using 2 "2.prems"(3) by (auto simp: Let_def split: prod.splits if_splits)
    have "connect_run s (if code = 180 then [SendsRinging] else []) s"
      using "2.prems"(2) by (auto simp: connect_run_Cons intro: csRinging)
    moreover have "connect_run s (if ringing then [] else [StartsRingback]) (s\<lparr>csRing := True\<rparr>)"
      using "2.prems"(1,2) by (cases ringing) (auto simp: connect_run_Cons intro: csRingOn)
    moreover have "connect_run (s\<lparr>csRing := True\<rparr>) more (s\<lparr>csRing := True, csRing := ringing'\<rparr>)"
      using 2 more(1) "2.prems"(2) by (intro "2.IH"(1)) auto
    ultimately have "connect_run s acts (s\<lparr>csRing := True, csRing := ringing'\<rparr>)"
      unfolding more(2) by (blast intro: connect_run_append)
    then show ?thesis by simp
  next
    case 3
    then obtain more where more: "on_responses False rs = (more, ringing', refused)" "acts = StopsRingback # more"
      using "2.prems"(3) by (auto simp: Let_def split: prod.splits)
    have "connect_run (s\<lparr>csRing := False\<rparr>) more (s\<lparr>csRing := False, csRing := ringing'\<rparr>)"
      using 3 more(1) "2.prems"(2) by (intro "2.IH"(2)) auto
    moreover have "connect_step s StopsRingback (s\<lparr>csRing := False\<rparr>)" using 3 "2.prems"(1) by (auto intro: csRingOff)
    ultimately show ?thesis unfolding more(2) by (auto intro: crCons)
  next
    case 4
    then have "on_responses ringing rs = (acts, ringing', refused)" using "2.prems"(3) by (auto split: if_splits)
    then show ?thesis using 4 "2.prems"(1,2) by (intro "2.IH"(3)) auto
  qed
qed auto

lemma call_bridged_run:
  assumes "bpRegistry b" "csAnswered s" "\<not> csReg s"
  shows "\<exists>active. connect_run s (fst (call_bridged b o' e)) (s\<lparr>csActive := active\<rparr>)
    \<and> (bpOnCallStateChange b \<and> both_exts o' \<or> active = csActive s)"
proof -
  let ?s1 = "s\<lparr>csReg := True\<rparr>" and ?act = "if bpOnCallStateChange b \<and> both_exts o' then True else csActive s"
  let ?s2 = "s\<lparr>csReg := True, csActive := ?act\<rparr>"
  have "connect_run s [RegistersCall] ?s1" using assms by simp
  moreover have "connect_run ?s1 (if bpRecordCall b \<and> both_exts o' then [RecordsCall] else []) ?s1" using assms by simp
  moreover have "connect_run ?s1 (tell_state b o' True) ?s2" using assms by (simp add: tell_state_def)
  moreover have "connect_run ?s2 ((if opVideo o' \<and> ceOfferVideo e \<and> ceAnswerVideo e then [StartsVideo] else [])
      @ [StartsBridge] @ (if ceBridge e then [WaitsForLegs] else [])) ?s2"
    by (rule connect_run_append [of _ _ ?s2]) auto
  moreover have "connect_run ?s2 [UnregistersCall] (s\<lparr>csActive := ?act\<rparr>)" using assms(3) by simp
  ultimately have "connect_run s (fst (call_bridged b o' e)) (s\<lparr>csActive := ?act\<rparr>)"
    using assms(1) by (simp add: call_bridged_def connect_run_append)
  then show ?thesis by (intro exI [of _ ?act]) auto
qed

text \<open>C6: Connect keeps the discipline of a call, whatever the callee, the legs and the media do, and leaves
  nothing behind: no ringback, no registered call and no watcher who thinks the call is up; the callee's
  leg stays open only when the call has been parked.\<close>
theorem connect_disciplined:
  assumes "bpRegistry b"
  shows "\<exists>s. connect_run start_state (fst (Connect b o' e)) s
    \<and> \<not> csRing s \<and> \<not> csReg s \<and> \<not> csActive s
    \<and> (csOpen s \<longleftrightarrow> ceParked e \<and> snd (Connect b o' e) \<noteq> DialFailed)"
proof -
  obtain acts ringing refused where r: "on_responses False (ceResponses e) = (acts, ringing, refused)" by (metis prod.exhaust)
  let ?dialled = "SendsTrying # DialsCallee (RingTimeout (opRingTimeout o')) # acts @ stop_ring ringing"
  have "connect_run start_state acts (start_state\<lparr>csRing := ringing\<rparr>)"
    using on_responses_run [OF _ _ r, of start_state] by (simp add: start_state_def)
  moreover have "connect_run (start_state\<lparr>csRing := ringing\<rparr>) (stop_ring ringing) start_state"
    by (cases ringing) (simp_all add: stop_ring_def start_state_def)
  ultimately have d: "connect_run start_state ?dialled start_state"
    by (simp add: connect_run_append) (simp add: start_state_def)
  let ?up = "start_state\<lparr>csAnswered := True, csOpen := True\<rparr>"
  let ?mid = "if \<not> ceAnswers e then ([HangsUpCallee], CallerNotAnswered) else call_bridged b o' e"
  let ?tail = "(if ceParked e then [] else [ClosesCallee]) @ [CancelsDial]"
  show ?thesis
  proof (cases "refused \<or> \<not> ceInvite e")
    case True
    then have c: "Connect b o' e = (?dialled @ [PlaysBusyTone, CancelsDial], DialFailed)" by (simp add: Connect_def r)
    have "connect_run start_state [PlaysBusyTone, CancelsDial] start_state" by (simp add: start_state_def)
    from connect_run_append [OF d this] show ?thesis unfolding c by (intro exI [of _ start_state]) (simp add: start_state_def)
  next
    case False
    then have c: "Connect b o' e = (?dialled @ AnswersCaller # fst ?mid @ tell_state b o' False @ ?tail, snd ?mid)"
      by (simp add: Connect_def r case_prod_beta)
    have a: "connect_run start_state [AnswersCaller] ?up" by (simp add: start_state_def)
    have "\<exists>active. connect_run ?up (fst ?mid) (?up\<lparr>csActive := active\<rparr>)
        \<and> (bpOnCallStateChange b \<and> both_exts o' \<or> \<not> active)"
      using call_bridged_run [OF assms, of ?up o' e] by (auto simp: start_state_def)
    then obtain active where m: "connect_run ?up (fst ?mid) (?up\<lparr>csActive := active\<rparr>)"
      "bpOnCallStateChange b \<and> both_exts o' \<or> \<not> active" by blast
    have n: "connect_run (?up\<lparr>csActive := active\<rparr>) (tell_state b o' False) ?up"
      using m(2) by (auto simp: tell_state_def start_state_def)
    have t: "connect_run ?up ?tail (?up\<lparr>csOpen := ceParked e\<rparr>)" by (simp add: start_state_def)
    have "connect_run start_state (fst (Connect b o' e)) (?up\<lparr>csOpen := ceParked e\<rparr>)"
      using connect_run_append [OF d connect_run_append [OF a connect_run_append [OF m(1) connect_run_append [OF n t]]]]
      unfolding c by simp
    moreover have "snd (Connect b o' e) \<noteq> DialFailed" unfolding c by (simp add: call_bridged_def)
    ultimately show ?thesis by (intro exI [of _ "?up\<lparr>csOpen := ceParked e\<rparr>"]) (simp add: start_state_def)
  qed
qed

section \<open>What is recorded, told and hung up\<close>

lemma call_log_append: "call_log env o' (xs @ ys) d = call_log env o' ys (call_log env o' xs d)"
  by (induction xs arbitrary: d) auto

lemma call_log_none: "RecordsCall \<notin> set acts \<Longrightarrow> call_log env o' acts d = d"
  by (induction acts arbitrary: d) auto

lemma told_none: "(\<And>active. NotifiesState active \<notin> set acts) \<Longrightarrow> told_presence o' acts = []"
  by (induction acts) (auto simp: told_presence_def split: connect_action.splits)

lemma told_append: "told_presence o' (xs @ ys) = told_presence o' xs @ told_presence o' ys"
  by (simp add: told_presence_def)

lemma on_responses_acts:
  "on_responses ringing rs = (acts, r) \<Longrightarrow> set acts \<subseteq> {SendsRinging, StartsRingback, StopsRingback}"
  by (induction ringing rs arbitrary: acts rule: on_responses.induct)
     (auto simp: Let_def split: prod.splits if_splits)

text \<open>The acts of Connect before the answer\<close>
lemma dialled_acts:
  assumes "on_responses False rs = (acts, ringing, refused)"
  shows "x \<notin> {SendsTrying, SendsRinging, StartsRingback, StopsRingback, DialsCallee t} \<Longrightarrow>
    x \<notin> set (SendsTrying # DialsCallee t # acts @ stop_ring ringing)"
  using on_responses_acts [OF assms] by (auto simp: stop_ring_def)

text \<open>C20: A call that comes to be bridged directly is logged, once, and its caller and callee are not told
  to presence; one that comes through a hunt group is told and never logged.  New gives the two
  different bridges.\<close>
theorem two_bridges:
  assumes "both_exts o'"
  shows "(snd (Connect server_bridge o' e) \<in> {ConnectOk, NoBridge} \<longrightarrow>
       call_log env o' (fst (Connect server_bridge o' e)) d = recordCall env (opCallerExt o') (opCalleeExt o') d
       \<and> told_presence o' (fst (Connect server_bridge o' e)) = [])
    \<and> (snd (hunt_join hunt_bridge o' e) \<in> {ConnectOk, NoBridge} \<longrightarrow>
       call_log env o' (fst (hunt_join hunt_bridge o' e)) d = d
       \<and> told_presence o' (fst (hunt_join hunt_bridge o' e))
          = [opCallerExt o', opCalleeExt o', opCallerExt o', opCalleeExt o'])"
proof (intro conjI impI)
  obtain acts ringing refused where r: "on_responses False (ceResponses e) = (acts, ringing, refused)" by (metis prod.exhaust)
  let ?dialled = "SendsTrying # DialsCallee (RingTimeout (opRingTimeout o')) # acts @ stop_ring ringing"
  assume ok: "snd (Connect server_bridge o' e) \<in> {ConnectOk, NoBridge}"
  then have up: "\<not> refused" "ceInvite e" "ceAnswers e"
    by (auto simp: Connect_def r Let_def split: if_splits prod.splits)
  then have c: "fst (Connect server_bridge o' e) = ?dialled @ AnswersCaller # fst (call_bridged server_bridge o' e)
      @ (if ceParked e then [] else [ClosesCallee]) @ [CancelsDial]"
    by (simp add: Connect_def r case_prod_beta tell_state_def server_bridge_def)
  have "call_log env o' ?dialled d = d" "told_presence o' ?dialled = []"
    using dialled_acts [OF r] by (blast intro: call_log_none told_none)+
  then show "call_log env o' (fst (Connect server_bridge o' e)) d = recordCall env (opCallerExt o') (opCalleeExt o') d"
    and "told_presence o' (fst (Connect server_bridge o' e)) = []"
    using assms unfolding c
    by (simp_all only: call_log_append told_append)
       (simp_all add: call_bridged_def server_bridge_def tell_state_def call_log_append told_append told_presence_def)
next
  assume "snd (hunt_join hunt_bridge o' e) \<in> {ConnectOk, NoBridge}"
  then have "ceAnswers e" by (auto simp: hunt_join_def BridgeJoin_def split: if_splits)
  then have j: "fst (hunt_join hunt_bridge o' e) = AnswersCaller # fst (call_bridged hunt_bridge o' e) @ [NotifiesState False]
      @ (if ceBridge e then [] else [ClosesCallee])"
    using assms by (simp add: hunt_join_def BridgeJoin_def call_bridged_def case_prod_beta tell_state_def hunt_bridge_def)
  show "call_log env o' (fst (hunt_join hunt_bridge o' e)) d = d"
    unfolding j by (rule call_log_none) (simp add: call_bridged_def tell_state_def hunt_bridge_def)
  show "told_presence o' (fst (hunt_join hunt_bridge o' e)) = [opCallerExt o', opCalleeExt o', opCallerExt o', opCalleeExt o']"
    using assms unfolding j by (simp add: call_bridged_def tell_state_def hunt_bridge_def told_presence_def)
qed

text \<open>How a call set-up fails.  The legs are waited for exactly when the bridge could be started, which
  is when Connect reports no error; the callee, who has answered, is hung up when the caller cannot be
  answered, but not when the bridge cannot be started: its leg is closed, if it is, without a BYE.\<close>
theorem connect_failures:
  "(let (acts, r) = Connect b o' e in
      (WaitsForLegs \<in> set acts \<longleftrightarrow> r = ConnectOk)
    \<and> (PlaysBusyTone \<in> set acts \<longleftrightarrow> r = DialFailed)
    \<and> (AnswersCaller \<in> set acts \<longleftrightarrow> r \<noteq> DialFailed)
    \<and> (HangsUpCallee \<in> set acts \<longleftrightarrow> r = CallerNotAnswered))
   \<and> (let (acts, r) = hunt_join b o' e in
      (WaitsForLegs \<in> set acts \<longleftrightarrow> r = ConnectOk)
    \<and> HangsUpCallee \<notin> set acts \<and> (ClosesCallee \<in> set acts \<longleftrightarrow> r \<noteq> ConnectOk))"
proof
  obtain acts ringing refused where r: "on_responses False (ceResponses e) = (acts, ringing, refused)" by (metis prod.exhaust)
  let ?dialled = "SendsTrying # DialsCallee (RingTimeout (opRingTimeout o')) # acts @ stop_ring ringing"
  have "x \<notin> set ?dialled" if "x \<in> {WaitsForLegs, PlaysBusyTone, AnswersCaller, HangsUpCallee}" for x
    using dialled_acts [OF r, of x] that by blast
  then have none: "WaitsForLegs \<notin> set ?dialled" "PlaysBusyTone \<notin> set ?dialled" "AnswersCaller \<notin> set ?dialled"
    "HangsUpCallee \<notin> set ?dialled" by blast+
  show "let (acts, r) = Connect b o' e in
      (WaitsForLegs \<in> set acts \<longleftrightarrow> r = ConnectOk)
    \<and> (PlaysBusyTone \<in> set acts \<longleftrightarrow> r = DialFailed)
    \<and> (AnswersCaller \<in> set acts \<longleftrightarrow> r \<noteq> DialFailed)
    \<and> (HangsUpCallee \<in> set acts \<longleftrightarrow> r = CallerNotAnswered)"
    using none by (cases "refused \<or> \<not> ceInvite e"; cases "ceAnswers e")
      (simp_all add: Connect_def r Let_def case_prod_beta call_bridged_def tell_state_def stop_ring_def)
  show "let (acts, r) = hunt_join b o' e in
      (WaitsForLegs \<in> set acts \<longleftrightarrow> r = ConnectOk)
    \<and> HangsUpCallee \<notin> set acts \<and> (ClosesCallee \<in> set acts \<longleftrightarrow> r \<noteq> ConnectOk)"
    by (simp add: hunt_join_def BridgeJoin_def call_bridged_def tell_state_def)
qed

definition demo_opts :: connect_opts where
  "demo_opts = \<lparr>opVideo = False, opExternalIP = [], opCallerExt = ''101'', opCalleeExt = ''102'', opDialTimeout = 0,
     opRingTimeout = 30, opHeaders = [], opDest = [], opTransport = []\<rparr>"

definition demo_up :: connect_env where
  "demo_up = \<lparr>ceResponses = [(100, True), (180, True), (180, True), (200, True)], ceInvite = True, ceAnswers = True,
     ceBridge = True, ceOfferVideo = False, ceAnswerVideo = False, ceParked = False\<rparr>"

lemma demo_connect:
  "Connect server_bridge demo_opts demo_up =
     ([SendsTrying, DialsCallee (RingTimeout 30), SendsRinging, StartsRingback, SendsRinging, StopsRingback, AnswersCaller,
       RegistersCall, RecordsCall, StartsBridge, WaitsForLegs, UnregistersCall, ClosesCallee, CancelsDial], ConnectOk)"
  by (simp add: Connect_def demo_up_def demo_opts_def server_bridge_def call_bridged_def tell_state_def both_exts_def stop_ring_def
      responseStartsRingback_def)

lemma connect_disciplined_witness:
  "\<exists>s. connect_run start_state [SendsTrying, DialsCallee (RingTimeout 30), SendsRinging, StartsRingback, SendsRinging,
      StopsRingback, AnswersCaller, RegistersCall, RecordsCall, StartsBridge, WaitsForLegs, UnregistersCall, ClosesCallee, CancelsDial] s
    \<and> \<not> csRing s \<and> \<not> csReg s \<and> \<not> csActive s \<and> \<not> csOpen s"
proof -
  have "bpRegistry server_bridge" by (simp add: server_bridge_def)
  from connect_disciplined [OF this, of demo_opts demo_up] show ?thesis
    unfolding demo_connect fst_conv by (auto simp: demo_up_def simp del: connect_run_Cons)
qed

lemma two_bridges_witness:
  "told_presence demo_opts (fst (Connect server_bridge demo_opts demo_up)) = []
   \<and> told_presence demo_opts (fst (hunt_join hunt_bridge demo_opts demo_up)) = [''101'', ''102'', ''101'', ''102'']"
proof -
  have x: "both_exts demo_opts" by (simp add: both_exts_def demo_opts_def)
  have h: "snd (hunt_join hunt_bridge demo_opts demo_up) = ConnectOk"
    by (simp add: hunt_join_def BridgeJoin_def call_bridged_def demo_up_def)
  show ?thesis using two_bridges [OF x, of demo_up] h by (simp add: demo_connect) (simp add: demo_opts_def)
qed

end
