(* ===== verification/AudioBridge.thy ===== *)
theory AudioBridge
  imports Pcm
begin

text \<open>
  The two-party relay, the jitter buffer and the conference mixer of
  internal/media/audiobridge.  Readers and writers of the diago library are
  lists of read results and functions that take a payload; an exhausted list
  is a reader that blocks.
\<close>

section \<open>Legs and negotiated codecs\<close>

record media_session =
  msCommon :: "codec list"
  msCodecs :: "codec list"

definition CodecAudioFromList :: "codec list \<Rightarrow> codec option" where
  "CodecAudioFromList cs = List.find (\<lambda>c. cName c \<noteq> ''telephone-event'') cs"

definition NegotiatedCodec :: "media_session option \<Rightarrow> codec option" where
  "NegotiatedCodec ms =
     (case ms of
        None \<Rightarrow> None
      | Some m \<Rightarrow> (case CodecAudioFromList (msCommon m) of
                     Some c \<Rightarrow> Some c
                   | None \<Rightarrow> CodecAudioFromList (msCodecs m)))"

definition CanTranscode :: "codec \<Rightarrow> bool" where
  "CanTranscode c = Supported c"

definition NeedsTranscoding :: "codec \<Rightarrow> codec \<Rightarrow> bool" where
  "NeedsTranscoding a b = (cPT a \<noteq> cPT b \<or> cName a \<noteq> cName b)"

datatype bridge_err = LegACodecUnknown | LegBCodecUnknown | TranscodingUnsupported string string

text \<open>The checks startPCMBridge makes before it starts the two relays.\<close>
definition bridge_codecs :: "media_session option \<Rightarrow> media_session option
    \<Rightarrow> (bridge_err, codec \<times> codec) result" where
  "bridge_codecs a b =
     (case NegotiatedCodec a of
        None \<Rightarrow> Err LegACodecUnknown
      | Some ca \<Rightarrow>
          (case NegotiatedCodec b of
             None \<Rightarrow> Err LegBCodecUnknown
           | Some cb \<Rightarrow>
               if \<not> CanTranscode ca \<or> \<not> CanTranscode cb
               then Err (TranscodingUnsupported (cName ca) (cName cb))
               else Ok (ca, cb)))"

section \<open>Relay statistics and the relay writer\<close>

record relay_stats =
  legAToB :: int
  legBToA :: int

definition stats_add :: "bool \<Rightarrow> int \<Rightarrow> relay_stats \<Rightarrow> relay_stats" where
  "stats_add aToB n s =
     (if n \<le> 0 then s
      else if aToB then s\<lparr>legAToB := legAToB s + n\<rparr> else s\<lparr>legBToA := legBToA s + n\<rparr>)"

record rtp_packet =
  rpPayload :: bytes
  rpTicks :: "32 word"
  rpMarker :: bool
  rpPT :: "8 word"

text \<open>rtpRelayWriter.Write: nothing for an empty payload; otherwise one packet,
  the first one with the marker bit.\<close>
definition relay_write :: "codec \<Rightarrow> bytes \<Rightarrow> bool \<times> rtp_packet list \<Rightarrow> bool \<times> rtp_packet list" where
  "relay_write c b w =
     (case w of (marker, out) \<Rightarrow>
        if b = [] then w
        else (False, out @ [\<lparr>rpPayload = b, rpTicks = SampleTimestamp c, rpMarker = marker,
                             rpPT = cPT c\<rparr>]))"

section \<open>The relay loops\<close>

datatype rel_err = Canceled | OtherErr string

datatype relay_ev = CtxDone | ReadEv bytes "rel_err option"

datatype relay_end = Blocked | Ended "rel_err option"

text \<open>runRelayCopy, for two legs with one codec: every payload read is counted and
  written at once.  A cancelled read or write is a normal end.\<close>
fun runRelayCopy :: "(bytes \<Rightarrow> 'w \<Rightarrow> rel_err option \<times> 'w) \<Rightarrow> bool \<Rightarrow> relay_ev list
    \<Rightarrow> relay_stats \<Rightarrow> 'w \<Rightarrow> relay_end \<times> relay_stats \<times> 'w" where
  "runRelayCopy sink aToB [] st w = (Blocked, st, w)"
| "runRelayCopy sink aToB (CtxDone # evs) st w = (Ended (Some Canceled), st, w)"
| "runRelayCopy sink aToB (ReadEv b e # evs) st w =
     (let st' = (if b \<noteq> [] then stats_add aToB (int (length b)) st else st);
          (werr, w') = (if b \<noteq> [] then sink b w else (None, w)) in
      case werr of
        Some Canceled \<Rightarrow> (Ended None, st', w')
      | Some err \<Rightarrow> (Ended (Some err), st', w')
      | None \<Rightarrow>
          (case e of
             None \<Rightarrow> runRelayCopy sink aToB evs st' w'
           | Some Canceled \<Rightarrow> (Ended None, st', w')
           | Some err \<Rightarrow> (Ended (Some err), st', w')))"

text \<open>The size of diago's RTP buffer.\<close>
definition RTPBufSize :: nat where
  "RTPBufSize = 1500"

lemma pcm_fill_source:
  "pcm_fill libs h st src = Some (r, st', src') \<Longrightarrow> length src' < length src"
proof (induction src arbitrary: st)
  case (Cons x src)
  show ?case
  proof (cases x)
    case (Inl e)
    then show ?thesis using Cons.prems by simp
  next
    case (Inr p)
    show ?thesis
    proof (cases "p = [] \<or> (\<exists>st1. Decode libs h st p = (Inr [], st1))")
      case True
      then obtain st1 where "pcm_fill libs h st1 src = Some (r, st', src')"
        using Cons.prems Inr by (auto split: if_splits)
      from Cons.IH [OF this] show ?thesis by simp
    next
      case False
      then show ?thesis using Cons.prems Inr by (auto split: if_splits prod.splits sum.splits)
    qed
  qed
qed simp

lemma pcm_read_smaller:
  "pcm_read libs n r = Some (Inr b, r') \<Longrightarrow> 0 < n \<Longrightarrow>
     length (prSource r') < length (prSource r)
     \<or> length (prSource r') = length (prSource r) \<and> length (prScratch r') < length (prScratch r)"
  by (auto simp: pcm_read_def split: if_splits option.splits prod.splits sum.splits
      dest: pcm_fill_source)

text \<open>runRelay between different codecs: what is decoded is written to the encoder.
  The result is the error that ended it, or None when the source blocks.\<close>
function runRelay :: "('s, 'z) codec_libs_scheme \<Rightarrow> (bytes \<Rightarrow> 'w \<Rightarrow> bool \<times> 'w) \<Rightarrow> bool
    \<Rightarrow> 's pcm_reader \<Rightarrow> ('s, 'w) pcm_writer \<Rightarrow> relay_stats
    \<Rightarrow> (codec_err + write_err) option \<times> 's pcm_reader \<times> ('s, 'w) pcm_writer \<times> relay_stats" where
  "runRelay libs sink aToB r w st =
     (case pcm_read libs RTPBufSize r of
        None \<Rightarrow> (None, r, w, st)
      | Some (Inl e, r') \<Rightarrow> (Some (Inl e), r', w, st)
      | Some (Inr b, r') \<Rightarrow>
          if b = [] then runRelay libs sink aToB r' w st
          else (let st' = stats_add aToB (int (length b)) st in
                case PCMWrite libs sink b w of
                  ((_, Some e), w') \<Rightarrow> (Some (Inr e), r', w', st')
                | ((_, None), w') \<Rightarrow> runRelay libs sink aToB r' w' st'))"
  by pat_completeness auto
termination
proof (relation "inv_image (less_than <*lex*> less_than)
    (\<lambda>(libs, sink, aToB, r, w, st). (length (prSource r), length (prScratch r)))", goal_cases)
  case (2 libs sink aToB r w st p res b r')
  then show ?case using pcm_read_smaller [of libs RTPBufSize r] by (auto simp: RTPBufSize_def)
next
  case (3 libs sink aToB r w st p res b r')
  then show ?case using pcm_read_smaller [of libs RTPBufSize r] by (auto simp: RTPBufSize_def)
qed auto

declare runRelay.simps [simp del]

section \<open>The jitter buffer\<close>

record jitter =
  jBuf :: "sample list"
  jReady :: bool
  jClosed :: bool

definition minPCMSamples :: nat where
  "minPCMSamples = 160"

definition newPCMJitterBuffer :: jitter where
  "newPCMJitterBuffer = \<lparr>jBuf = [], jReady = False, jClosed = False\<rparr>"

definition jpush :: "sample list \<Rightarrow> jitter \<Rightarrow> jitter" where
  "jpush xs j =
     (if jClosed j then j
      else let buf = jBuf j @ xs in
        j\<lparr>jBuf := buf, jReady := (if \<not> jReady j \<and> minPCMSamples \<le> length buf then True else jReady j)\<rparr>)"

definition popFrame :: "nat \<Rightarrow> jitter \<Rightarrow> (sample list \<times> jitter) option" where
  "popFrame n j =
     (if jClosed j \<or> \<not> jReady j \<or> length (jBuf j) < n then None
      else Some (take n (jBuf j), j\<lparr>jBuf := drop n (jBuf j)\<rparr>))"

definition jclose :: "jitter \<Rightarrow> jitter" where
  "jclose j = j\<lparr>jClosed := True\<rparr>"

definition jdrain :: "jitter \<Rightarrow> sample list \<times> jitter" where
  "jdrain j = (jBuf j, j\<lparr>jBuf := []\<rparr>)"

text \<open>An open jitter buffer is a frame buffer.\<close>
interpretation jit: frame_buffer jBuf jpush "popFrame n" n "\<lambda>j. \<not> jClosed j" for n
  by unfold_locales (auto simp: jpush_def popFrame_def Let_def split: if_splits)

text \<open>The jitter buffer loses and reorders nothing. Whatever the order of pushes
  and pops on an open buffer, the frames popped followed by what drain
  returns are the samples pushed, in order, and every frame has the length
  asked for; nothing can be popped before the first 160 samples are there.\<close>
theorem jitter_fifo:
  assumes "run_buffer jpush (popFrame n) ops newPCMJitterBuffer = (fs, j)"
  shows "concat fs @ fst (jdrain j) = pushed ops \<and> (\<forall>f \<in> set fs. length f = n)
    \<and> (length (pushed ops) < minPCMSamples \<longrightarrow> fs = [])"
proof -
  have c: "concat fs @ jBuf j = pushed ops" "\<forall>f \<in> set fs. length f = n"
    using jit.run_conserves [OF _ assms] by (simp_all add: newPCMJitterBuffer_def)
  have "fs = [] \<and> \<not> jReady j'"
    if "run_buffer jpush (popFrame n) ops j0 = (fs, j')" "\<not> jReady j0"
       "length (jBuf j0) + length (pushed ops) < minPCMSamples" for j0 j' fs and ops :: "sample buf_op list"
    using that
  proof (induction ops arbitrary: j0 fs)
    case (Cons opn ops)
    then show ?case
      by (cases opn) (auto simp: popFrame_def jpush_def Let_def split: if_splits)
  qed auto
  with assms have "length (pushed ops) < minPCMSamples \<longrightarrow> fs = []"
    by (simp add: newPCMJitterBuffer_def)
  with c show ?thesis by (simp add: jdrain_def)
qed

lemma jitter_fifo_witness:
  "concat [replicate 80 0] @ replicate 80 0 = pushed [Push (replicate 160 (0 :: sample)), Take]"
proof -
  have "run_buffer jpush (popFrame 80) [Push (replicate 160 0), Take] newPCMJitterBuffer
    = ([replicate 80 0], \<lparr>jBuf = replicate 80 0, jReady = True, jClosed = False\<rparr>)"
    by (simp add: newPCMJitterBuffer_def jpush_def popFrame_def minPCMSamples_def)
  from jitter_fifo [OF this] show ?thesis by (simp add: jdrain_def)
qed

text \<open>The payloads a relay passes on: those read up to the first event that ends it.\<close>
fun relayed :: "relay_ev list \<Rightarrow> bytes list" where
  "relayed [] = []"
| "relayed (CtxDone # evs) = []"
| "relayed (ReadEv b e # evs) =
     (if b = [] then [] else [b]) @ (if e = None then relayed evs else [])"

definition packet_of :: "codec \<Rightarrow> bool \<Rightarrow> bytes \<Rightarrow> rtp_packet" where
  "packet_of c m b = \<lparr>rpPayload = b, rpTicks = SampleTimestamp c, rpMarker = m, rpPT = cPT c\<rparr>"

fun packets_of :: "codec \<Rightarrow> bool \<Rightarrow> bytes list \<Rightarrow> rtp_packet list" where
  "packets_of c m [] = []"
| "packets_of c m (b # bs) = packet_of c m b # packets_of c False bs"

definition relay_sink :: "codec \<Rightarrow> bytes \<Rightarrow> bool \<times> rtp_packet list
    \<Rightarrow> rel_err option \<times> bool \<times> rtp_packet list" where
  "relay_sink c b w = (None, relay_write c b w)"

lemma relay_sink_step:
  "b \<noteq> [] \<Longrightarrow> relay_sink c b (m, out) = (None, (False, out @ [packet_of c m b]))"
  by (simp add: relay_sink_def relay_write_def packet_of_def)

lemma stats_add_twice [simp]:
  "stats_add d (int m) (stats_add d (int n) st) = stats_add d (int n + int m) st"
  by (auto simp: stats_add_def)

lemma runRelayCopy_packets:
  "runRelayCopy (relay_sink c) aToB evs st (m, out) = (fin, st', (m', out')) \<Longrightarrow>
     out' = out @ packets_of c m (relayed evs)
     \<and> st' = stats_add aToB (int (length (concat (relayed evs)))) st"
proof (induction evs arbitrary: st m out)
  case (Cons ev evs)
  show ?case
  proof (cases ev)
    case CtxDone
    then show ?thesis using Cons.prems by (simp add: stats_add_def)
  next
    case (ReadEv b e)
    show ?thesis
    proof (cases e)
      case None
      show ?thesis
      proof (cases "b = []")
        case True
        then show ?thesis using Cons.IH [of st m out] Cons.prems ReadEv None by simp
      next
        case False
        let ?st = "stats_add aToB (int (length b)) st"
        have "runRelayCopy (relay_sink c) aToB evs ?st (False, out @ [packet_of c m b])
            = (fin, st', (m', out'))"
          using Cons.prems ReadEv None False
          by (simp add: relay_sink_step)
        from Cons.IH [OF this] False None ReadEv show ?thesis by simp
      qed
    next
      case (Some err)
      then show ?thesis using Cons.prems ReadEv
        by (cases err; cases "b = []") (auto simp: relay_sink_step stats_add_def)
    qed
  qed
qed (auto simp: stats_add_def)

text \<open>The copying relay. Between two legs of one codec every payload read
  before the relay ends is sent, in order and unchanged, as one RTP packet of
  the destination codec, the first of them and no other with the marker bit;
  the statistics grow by exactly the bytes sent, in this direction only.\<close>
theorem runRelayCopy_sends:
  assumes "runRelayCopy (relay_sink c) aToB evs st (True, []) = (fin, st', (m', out))"
  shows "List.map rpPayload out = relayed evs
    \<and> List.map rpMarker out = List.map (\<lambda>i. i = 0) [0..<length out]
    \<and> (\<forall>p \<in> set out. rpPT p = cPT c \<and> rpTicks p = SampleTimestamp c)
    \<and> legAToB st' = legAToB st + (if aToB then int (length (concat (relayed evs))) else 0)
    \<and> legBToA st' = legBToA st + (if aToB then 0 else int (length (concat (relayed evs))))"
proof -
  have out: "out = packets_of c True (relayed evs)"
    and st: "st' = stats_add aToB (int (length (concat (relayed evs)))) st"
    using runRelayCopy_packets [OF assms] by simp_all
  have p: "List.map rpPayload (packets_of c m bs) = bs"
    "length (packets_of c m bs) = length bs"
    "\<forall>p \<in> set (packets_of c m bs). rpPT p = cPT c \<and> rpTicks p = SampleTimestamp c" for m bs
    by (induction bs arbitrary: m) (auto simp: packet_of_def)
  have f: "List.map rpMarker (packets_of c False bs) = replicate (length bs) False" for bs
    by (induction bs) (auto simp: packet_of_def)
  have "List.map rpMarker (packets_of c True bs) = List.map (\<lambda>i. i = 0) [0..<length bs]" for bs
    by (cases bs) (auto simp: packet_of_def f upt_conv_Cons map_replicate_const
        simp del: upt_Suc intro!: nth_equalityI)
  with p out show ?thesis by (simp add: st stats_add_def)
qed

lemma runRelayCopy_sends_witness:
  "List.map rpPayload (packets_of CodecAudioUlaw True [[1, 2], [3]]) = [[1, 2], [3]]"
proof -
  have "runRelayCopy (relay_sink CodecAudioUlaw) True
      [ReadEv [1, 2] None, ReadEv [] None, ReadEv [3] (Some Canceled)] \<lparr>legAToB = 0, legBToA = 0\<rparr> (True, [])
    = (Ended None, \<lparr>legAToB = 3, legBToA = 0\<rparr>,
       (False, packets_of CodecAudioUlaw True [[1, 2], [3]]))"
    by (simp add: relay_sink_def relay_write_def packet_of_def stats_add_def)
  from runRelayCopy_sends [OF this] show ?thesis by simp
qed

section \<open>The transcoding relay end to end\<close>

text \<open>What the decoder makes of a list of payloads, one after the other, as long as
  neither source nor decoder fails.\<close>
fun decode_all :: "('s, 'z) codec_libs_scheme \<Rightarrow> handler \<Rightarrow> 's \<Rightarrow> (codec_err, bytes) result list
    \<Rightarrow> sample list option" where
  "decode_all libs h st [] = Some []"
| "decode_all libs h st (Inl e # src) = None"
| "decode_all libs h st (Inr p # src) =
     (if p = [] then decode_all libs h st src
      else case Decode libs h st p of
        (Inl e, st') \<Rightarrow> None
      | (Inr ss, st') \<Rightarrow> map_option (\<lambda>rest. ss @ rest) (decode_all libs h st' src))"

lemma pcm_fill_decode_all:
  "decode_all libs h st src = Some ss \<Longrightarrow>
     (case pcm_fill libs h st src of
        None \<Rightarrow> ss = []
      | Some (Inl e, _, _) \<Rightarrow> False
      | Some (Inr b, st', src') \<Rightarrow>
          \<exists>now rest. b = samplesToBytesLE now \<and> now \<noteq> [] \<and> decode_all libs h st' src' = Some rest
            \<and> ss = now @ rest)"
proof (induction src arbitrary: st ss)
  case (Cons x src)
  from Cons.prems obtain p where x: "x = Inr p" by (cases x) auto
  show ?case
  proof (cases "p = []")
    case True
    with Cons x show ?thesis by simp
  next
    case False
    with Cons.prems x obtain now st1 rest where d: "Decode libs h st p = (Inr now, st1)"
      "decode_all libs h st1 src = Some rest" "ss = now @ rest"
      by (auto split: sum.splits prod.splits)
    show ?thesis
    proof (cases "now = []")
      case True
      then have "ss = rest" using d(3) by simp
      show ?thesis using Cons.IH [OF d(2)] d(1) x False True unfolding \<open>ss = rest\<close> by simp
    next
      case now: False
      with d x False show ?thesis by auto
    qed
  qed
qed simp

text \<open>What a reader still has to give: the bytes left over from the last payload and
  the decoding of the payloads to come.\<close>
definition reader_samples :: "('s, 'z) codec_libs_scheme \<Rightarrow> 's pcm_reader \<Rightarrow> sample list option" where
  "reader_samples libs r =
     (if odd (length (prScratch r)) then None
      else map_option (\<lambda>ss. bytesLEToSamples (prScratch r) @ ss)
             (decode_all libs (prHandler r) (prLib r) (prSource r)))"

lemma bytesLEToSamples_take_drop:
  "even n \<Longrightarrow> bytesLEToSamples (take n p) @ bytesLEToSamples (drop n p) = bytesLEToSamples p"
proof (induction p arbitrary: n rule: bytesLEToSamples.induct)
  case (1 a b p)
  show ?case
  proof (cases "n = 0")
    case False
    obtain k where "n = 2 * k" using 1(2) by (rule evenE)
    with False obtain m where "n = Suc (Suc (2 * m))" by (cases k) auto
    with 1(1) [of "2 * m"] show ?thesis by simp
  qed simp
qed (auto simp: take_Cons' drop_Cons')

lemma reader_samples_read:
  assumes "reader_samples libs r = Some ss"
  shows "case pcm_read libs RTPBufSize r of
      None \<Rightarrow> ss = []
    | Some (Inl e, _) \<Rightarrow> False
    | Some (Inr b, r') \<Rightarrow> even (length b) \<and> prHandler r' = prHandler r
        \<and> (\<exists>rest. reader_samples libs r' = Some rest \<and> ss = bytesLEToSamples b @ rest)"
proof (cases "prScratch r = []")
  case False
  with assms have e: "even (length (prScratch r))" by (auto simp: reader_samples_def split: if_splits)
  with False assms show ?thesis
    using bytesLEToSamples_take_drop [of RTPBufSize "prScratch r"]
    by (auto simp: pcm_read_def reader_samples_def RTPBufSize_def min_def)
next
  case True
  then have d: "decode_all libs (prHandler r) (prLib r) (prSource r) = Some ss"
    using assms by (auto simp: reader_samples_def)
  show ?thesis
  proof (cases "pcm_fill libs (prHandler r) (prLib r) (prSource r)")
    case None
    with pcm_fill_decode_all [OF d] True show ?thesis by (simp add: pcm_read_def)
  next
    case (Some f)
    with pcm_fill_decode_all [OF d] obtain b st' src' now rest where
      f: "f = (Inr b, st', src')" "b = samplesToBytesLE now"
        "decode_all libs (prHandler r) st' src' = Some rest" "ss = now @ rest"
      by (cases f) (auto split: sum.splits)
    have "bytesLEToSamples (take RTPBufSize b) @ bytesLEToSamples (drop RTPBufSize b) = now"
      using bytesLEToSamples_take_drop [of RTPBufSize b] f(2) by (simp add: RTPBufSize_def)
    then show ?thesis using Some f True
      by (auto simp: pcm_read_def reader_samples_def RTPBufSize_def min_def)
  qed
qed

lemma write_loop_pending:
  "write_loop libs sink w = (None, w') \<Longrightarrow> pwHandler w' = pwHandler w \<Longrightarrow>
   length (pwPending w') < HubFrameSamples (pwHandler w) \<Longrightarrow> write_loop libs sink w' = (None, w')"
  by (subst write_loop.simps) simp

lemma encode_all_append:
  "encode_all libs h st fs = Some (e1, st1) \<Longrightarrow> encode_all libs h st1 gs = Some (e2, st2) \<Longrightarrow>
   encode_all libs h st (fs @ gs) = Some (e1 @ e2, st2)"
  by (induction fs arbitrary: st e1) (auto split: prod.splits sum.splits)

text \<open>From writer w the samples ss lead to writer w': whole frames were cut off
  what was pending and ss, and encoded one after the other.\<close>
definition framed :: "('s, 'z) codec_libs_scheme \<Rightarrow> ('s, bytes list) pcm_writer \<Rightarrow> sample list
    \<Rightarrow> ('s, bytes list) pcm_writer \<Rightarrow> bool" where
  "framed libs w ss w' =
     (pwHandler w' = pwHandler w \<and>
      (\<exists>fs encs. concat fs @ pwPending w' = pwPending w @ ss
        \<and> (\<forall>f \<in> set fs. length f = HubFrameSamples (pwHandler w))
        \<and> (length (pwPending w) < HubFrameSamples (pwHandler w) \<longrightarrow>
            length (pwPending w') < HubFrameSamples (pwHandler w))
        \<and> encode_all libs (pwHandler w) (pwLib w) fs = Some (encs, pwLib w')
        \<and> pwOut w' = pwOut w @ filter (\<lambda>e. e \<noteq> []) encs))"

lemma framed_refl: "framed libs w [] w"
  unfolding framed_def by (intro conjI refl exI [of _ "[]"]) auto

lemma framed_trans:
  assumes "framed libs w ss w1" "framed libs w1 ss' w2"
  shows "framed libs w (ss @ ss') w2"
proof -
  obtain fs encs where f: "concat fs @ pwPending w1 = pwPending w @ ss"
    "\<forall>f \<in> set fs. length f = HubFrameSamples (pwHandler w)"
    "length (pwPending w) < HubFrameSamples (pwHandler w) \<longrightarrow> length (pwPending w1) < HubFrameSamples (pwHandler w)"
    "encode_all libs (pwHandler w) (pwLib w) fs = Some (encs, pwLib w1)"
    "pwOut w1 = pwOut w @ filter (\<lambda>e. e \<noteq> []) encs" "pwHandler w1 = pwHandler w"
    using assms(1) unfolding framed_def by blast
  obtain gs encs' where g: "concat gs @ pwPending w2 = pwPending w1 @ ss'"
    "\<forall>f \<in> set gs. length f = HubFrameSamples (pwHandler w1)"
    "length (pwPending w1) < HubFrameSamples (pwHandler w1) \<longrightarrow> length (pwPending w2) < HubFrameSamples (pwHandler w1)"
    "encode_all libs (pwHandler w1) (pwLib w1) gs = Some (encs', pwLib w2)"
    "pwOut w2 = pwOut w1 @ filter (\<lambda>e. e \<noteq> []) encs'" "pwHandler w2 = pwHandler w1"
    using assms(2) unfolding framed_def by blast
  have "concat (fs @ gs) @ pwPending w2 = pwPending w @ ss @ ss'"
    using f(1) g(1) by (metis append_assoc concat_append)
  moreover have "encode_all libs (pwHandler w) (pwLib w) (fs @ gs) = Some (encs @ encs', pwLib w2)"
    using encode_all_append [OF f(4)] g(4) f(6) by simp
  ultimately show ?thesis using f g unfolding framed_def
    by (intro conjI exI [of _ "fs @ gs"] exI [of _ "encs @ encs'"]) auto
qed

lemma framed_write:
  assumes "PCMWrite libs rec_sink b w = ((n, None), w')"
  shows "framed libs w (bytesLEToSamples b) w'"
proof -
  let ?w = "w\<lparr>pwPending := pwPending w @ bytesLEToSamples b\<rparr>"
  have "write_loop libs rec_sink ?w = (None, w')"
    using assms by (auto simp: PCMWrite_def Let_def split: if_splits prod.splits)
  from write_loop_frames [OF this] show ?thesis unfolding framed_def by auto
qed

lemma runRelay_framed:
  "reader_samples libs r = Some ss \<Longrightarrow> runRelay libs rec_sink aToB r w st = (None, r', w', st') \<Longrightarrow>
     framed libs w ss w'"
proof (induction libs "rec_sink :: bytes \<Rightarrow> bytes list \<Rightarrow> bool \<times> bytes list" aToB r w st
    arbitrary: ss rule: runRelay.induct)
  case (1 libs aToB r w st)
  note rd = reader_samples_read [OF 1(3)]
  show ?case
  proof (cases "pcm_read libs RTPBufSize r")
    case None
    then have "ss = []" "w' = w" using rd 1(4) by (subst (asm) runRelay.simps, simp)+
    then show ?thesis by (simp add: framed_refl)
  next
    case (Some q)
    with rd obtain b r1 rest where q: "q = (Inr b, r1)" "reader_samples libs r1 = Some rest"
      "ss = bytesLEToSamples b @ rest"
      by (cases q) (auto split: sum.splits)
    show ?thesis
    proof (cases "b = []")
      case True
      then have "runRelay libs rec_sink aToB r1 w st = (None, r', w', st')"
        using 1(4) Some q by (subst (asm) runRelay.simps) simp
      then show ?thesis using 1(1) [OF Some q(1) [symmetric] refl True q(2)] q(3) True by simp
    next
      case False
      obtain n w1 where w1: "PCMWrite libs rec_sink b w = ((n, None), w1)"
        "runRelay libs rec_sink aToB r1 w1 (stats_add aToB (int (length b)) st) = (None, r', w', st')"
        using 1(4) Some q False
        by (subst (asm) runRelay.simps) (auto simp: Let_def split: prod.splits option.splits)
      have "framed libs w1 rest w'"
        using 1(2) [OF Some q(1) [symmetric] refl False refl w1(1) [symmetric] refl refl q(2) w1(2)] .
      with framed_trans [OF framed_write [OF w1(1)]] q(3) show ?thesis by simp
    qed
  qed
qed

text \<open>The transcoding relay end to end. When the source only gives payloads its
  decoder accepts and the encoder takes every frame, the relay stops only
  because the source has no more; what it sent is then the encodings of
  consecutive whole hub frames of the decoded audio, no sample lost, repeated
  or reordered, and less than one frame is still pending.\<close>
theorem runRelay_conserves:
  assumes "reader_samples libs r = Some ss"
    and "runRelay libs rec_sink aToB r w st = (None, r', w', st')"
  shows "\<exists>fs encs. concat fs @ pwPending w' = pwPending w @ ss
      \<and> (\<forall>f \<in> set fs. length f = HubFrameSamples (pwHandler w))
      \<and> (length (pwPending w) < HubFrameSamples (pwHandler w) \<longrightarrow>
          length (pwPending w') < HubFrameSamples (pwHandler w))
      \<and> encode_all libs (pwHandler w) (pwLib w) fs = Some (encs, pwLib w')
      \<and> pwOut w' = pwOut w @ filter (\<lambda>e. e \<noteq> []) encs"
  using runRelay_framed [OF assms] unfolding framed_def by blast

definition demo_reader :: "unit pcm_reader" where
  "demo_reader = \<lparr>prHandler = mk_handler CodecAudioUlaw 2 HPCMU, prLib = (),
     prSource = [Inr [5, 6], Inr [], Inr [9]], prScratch = []\<rparr>"

lemma demo_reader_samples: "reader_samples demo_libs demo_reader = Some [5, 6, 9]"
  by (simp add: reader_samples_def demo_reader_def demo_libs_def Decode_def mk_handler_def decodeG711_def)

lemma demo_relay:
  "\<exists>r' st'. runRelay demo_libs rec_sink True demo_reader demo_writer \<lparr>legAToB = 0, legBToA = 0\<rparr>
     = (None, r', demo_writer\<lparr>pwOut := [[7, 5], [6, 9]], pwPending := []\<rparr>, st')"
  by (simp add: runRelay.simps write_loop.simps pcm_read_def demo_reader_def demo_writer_def
      demo_libs_def RTPBufSize_def Decode_def Encode_def decodeG711_def encodeG711_def PCMWrite_def
      rec_sink_def HubFrameSamples_def mk_handler_def)

lemma runRelay_conserves_witness:
  "\<exists>fs. concat fs = [7, 5, 6, 9 :: sample] \<and> (\<forall>f \<in> set fs. length f = 2)"
proof -
  obtain r' st' where "runRelay demo_libs rec_sink True demo_reader demo_writer \<lparr>legAToB = 0, legBToA = 0\<rparr>
     = (None, r', demo_writer\<lparr>pwOut := [[7, 5], [6, 9]], pwPending := []\<rparr>, st')"
    using demo_relay by blast
  from runRelay_conserves [OF demo_reader_samples this] show ?thesis
    by (auto simp: demo_writer_def HubFrameSamples_def mk_handler_def)
qed

section \<open>The conference mixer\<close>

definition conferenceFrameSamples :: nat where
  "conferenceFrameSamples = 160"

text \<open>readLoop keeps the last 160 samples heard from a leg.\<close>
definition window :: "sample list \<Rightarrow> sample list \<Rightarrow> sample list" where
  "window latest ss =
     (if ss = [] then latest
      else if conferenceFrameSamples \<le> length ss then drop (length ss - conferenceFrameSamples) ss
      else drop (length ss) latest @ ss)"

text \<open>PCMMix of the diago audio package: the sum, limited to 16 bits.\<close>
definition mix_sample :: "sample \<Rightarrow> sample \<Rightarrow> sample" where
  "mix_sample a b =
     (let m = sint a + sint b in
      if m > 32767 then 32767 else if m < - 32768 then word_of_int (- 32768) else word_of_int m)"

definition PCMMix :: "sample list \<Rightarrow> sample list \<Rightarrow> sample list" where
  "PCMMix buf frame = map2 mix_sample buf frame"

record conf_leg =
  clCodec :: codec
  clLatest :: "sample list"
  clSent :: "sample list list"

record mixer =
  mxLegs :: "(string, conf_leg) gomap"
  mxRun :: bool

definition NewConferenceMixer :: mixer where
  "NewConferenceMixer = \<lparr>mxLegs = [], mxRun = False\<rparr>"

definition RemoveAll :: "mixer \<Rightarrow> mixer" where
  "RemoveAll m = m\<lparr>mxLegs := [], mxRun := False\<rparr>"

datatype mixer_err = MixerNilLeg | MixerNotTranscodable | MixerNoReader | MixerNoWriter

text \<open>What Add looks at of a leg: its identifier, the negotiated codec and whether
  the diago calls for its reader and writer succeed.\<close>
record leg_view =
  lvId :: string
  lvMedia :: "media_session option"
  lvWriter :: bool
  lvReader :: bool

definition mixer_join :: "string \<Rightarrow> codec \<Rightarrow> mixer \<Rightarrow> mixer" where
  "mixer_join k c m =
     (let legs = put k \<lparr>clCodec = c, clLatest = replicate conferenceFrameSamples 0, clSent = []\<rparr> (mxLegs m)
      in m\<lparr>mxLegs := legs,
           mxRun := (if 2 \<le> length legs \<and> \<not> mxRun m then True else mxRun m)\<rparr>)"

definition mixer_add :: "leg_view option \<Rightarrow> mixer \<Rightarrow> mixer_err option \<times> mixer" where
  "mixer_add leg m =
     (case leg of
        None \<Rightarrow> (Some MixerNilLeg, m)
      | Some l \<Rightarrow>
          (case NegotiatedCodec (lvMedia l) of
             None \<Rightarrow> (Some MixerNotTranscodable, m)
           | Some c \<Rightarrow>
               if \<not> CanTranscode c then (Some MixerNotTranscodable, m)
               else if \<not> lvWriter l then (Some MixerNoWriter, m)
               else if \<not> lvReader l then (Some MixerNoReader, m)
               else if has (mxLegs m) (lvId l) then (None, m)
               else (None, mixer_join (lvId l) c m)))"

text \<open>One read of a leg's audio.\<close>
definition mixer_heard :: "string \<Rightarrow> sample list \<Rightarrow> mixer \<Rightarrow> mixer" where
  "mixer_heard k ss m =
     m\<lparr>mxLegs := List.map (\<lambda>(i, l). (i, if i = k then l\<lparr>clLatest := window (clLatest l) ss\<rparr> else l)) (mxLegs m)\<rparr>"

definition mix_for :: "(string, conf_leg) gomap \<Rightarrow> string \<Rightarrow> sample list" where
  "mix_for legs target =
     foldl (\<lambda>buf (i, l).
              if i = target \<or> length (clLatest l) \<noteq> conferenceFrameSamples then buf
              else PCMMix buf (clLatest l))
       (replicate conferenceFrameSamples 0) legs"

text \<open>One tick of mixLoop: the mixer ends when fewer than two legs are left,
  otherwise every leg is sent the sum of the others.\<close>
definition mix_tick :: "mixer \<Rightarrow> bool \<times> mixer" where
  "mix_tick m =
     (if length (mxLegs m) < 2 then (False, m)
      else (True, m\<lparr>mxLegs := List.map (\<lambda>(i, l). (i, l\<lparr>clSent := clSent l @ [mix_for (mxLegs m) i]\<rparr>))
                                (mxLegs m)\<rparr>))"

inductive mixer_step :: "mixer \<Rightarrow> mixer \<Rightarrow> bool" where
  add: "mixer_add leg m = (e, m') \<Longrightarrow> mixer_step m m'"
| heard: "mixer_step m (mixer_heard k ss m)"
| tick: "mxRun m \<Longrightarrow> mix_tick m = (b, m') \<Longrightarrow> mixer_step m (m'\<lparr>mxRun := b\<rparr>)"
| remove: "mixer_step m (RemoveAll m)"

inductive_cases mixer_step_cases: "mixer_step m m'"

inductive mixer_reach :: "mixer \<Rightarrow> bool" where
  start: "mixer_reach NewConferenceMixer"
| step: "mixer_reach m \<Longrightarrow> mixer_step m m' \<Longrightarrow> mixer_reach m'"

definition mixer_inv :: "mixer \<Rightarrow> bool" where
  "mixer_inv m =
     (distinct (keys (mxLegs m))
      \<and> (\<forall>l \<in> set (vals (mxLegs m)). length (clLatest l) = conferenceFrameSamples)
      \<and> (mxRun m \<longleftrightarrow> 2 \<le> length (mxLegs m)))"

lemma length_window [simp]:
  "length latest = conferenceFrameSamples \<Longrightarrow> length (window latest ss) = conferenceFrameSamples"
  by (auto simp: window_def)

lemma window_append:
  "length latest = conferenceFrameSamples \<Longrightarrow>
   window latest ss = drop (length ss) (latest @ ss)"
  by (auto simp: window_def)

lemma mixer_join_inv: "mixer_inv m \<Longrightarrow> \<not> has (mxLegs m) k \<Longrightarrow> mixer_inv (mixer_join k c m)"
  using has_iff_key [of "mxLegs m" k]
  by (auto simp: mixer_inv_def mixer_join_def put_fresh Let_def)

lemma mixer_add_inv [inv_intros]: "mixer_inv m \<Longrightarrow> mixer_inv (snd (mixer_add leg m))"
  using mixer_join_inv by (simp add: mixer_add_def split: option.splits)

lemma mixer_heard_inv [inv_intros]: "mixer_inv m \<Longrightarrow> mixer_inv (mixer_heard k ss m)"
  by (auto simp: mixer_inv_def mixer_heard_def o_def case_prod_beta image_iff)

lemma mix_tick_inv [inv_intros]:
  "mixer_inv m \<Longrightarrow> mxRun m \<Longrightarrow> mix_tick m = (b, m') \<Longrightarrow> b \<and> mixer_inv (m'\<lparr>mxRun := b\<rparr>)"
  by (auto simp: mixer_inv_def mix_tick_def o_def case_prod_beta image_iff) fastforce

lemma RemoveAll_inv [inv_intros]: "mixer_inv (RemoveAll m)"
  by (simp add: mixer_inv_def RemoveAll_def)

lemma mixer_step_inv: "mixer_step m m' \<Longrightarrow> mixer_inv m \<Longrightarrow> mixer_inv m'"
proof (induction rule: mixer_step.induct)
  case (add leg m e m')
  then show ?case using mixer_add_inv [of m leg] by simp
next
  case (tick m b m')
  then show ?case using mix_tick_inv by blast
qed (auto intro: inv_intros)

lemma mixer_reach_inv: "mixer_reach m \<Longrightarrow> mixer_inv m"
proof (induction rule: mixer_reach.induct)
  case (step m m')
  then show ?case using mixer_step_inv by blast
qed (simp add: mixer_inv_def NewConferenceMixer_def)

lemma mix_for_others:
  "\<forall>l' \<in> set (vals legs). length (clLatest l') = conferenceFrameSamples \<Longrightarrow>
   mix_for legs k = foldl PCMMix (replicate conferenceFrameSamples 0)
     (List.map clLatest (vals (filter (\<lambda>(i, l). i \<noteq> k) legs)))"
  unfolding mix_for_def
  by (induction legs arbitrary: rule: rev_induct) (auto simp: case_prod_beta)

lemma mix_sample_zero [simp]: "mix_sample 0 s = s"
  using sint16 [of s] by (simp add: mix_sample_def Let_def)

lemma PCMMix_zero: "length f = n \<Longrightarrow> PCMMix (replicate n 0) f = f"
  by (induction f arbitrary: n) (auto simp: PCMMix_def)

text \<open>The mixing goroutine. In every reachable state of a conference mixer it
  runs exactly while two or more legs take part, no leg is in the mix twice,
  every leg's window holds one frame, and a tick of a running mixer sends
  every leg one frame and does not end the goroutine.\<close>
theorem mixer_runs_iff:
  assumes "mixer_reach m"
  shows "(mxRun m \<longleftrightarrow> 2 \<le> length (mxLegs m)) \<and> distinct (keys (mxLegs m))
    \<and> (\<forall>l \<in> set (vals (mxLegs m)). length (clLatest l) = conferenceFrameSamples)
    \<and> (mxRun m \<longrightarrow> (\<exists>m'. mix_tick m = (True, m')
         \<and> keys (mxLegs m') = keys (mxLegs m)
         \<and> List.map (\<lambda>l. length (clSent l)) (vals (mxLegs m')) = List.map (\<lambda>l. Suc (length (clSent l))) (vals (mxLegs m))))"
proof -
  have inv: "mixer_inv m" using mixer_reach_inv [OF assms] .
  then show ?thesis
    by (auto simp: mixer_inv_def mix_tick_def o_def case_prod_beta)
qed

definition demo_leg :: "string \<Rightarrow> leg_view option" where
  "demo_leg i = Some \<lparr>lvId = i, lvMedia = Some \<lparr>msCommon = [], msCodecs = [CodecAudioUlaw]\<rparr>,
     lvWriter = True, lvReader = True\<rparr>"

definition demo_mixer :: mixer where
  "demo_mixer = snd (mixer_add (demo_leg ''b'') (snd (mixer_add (demo_leg ''a'') NewConferenceMixer)))"

lemma demo_mixer_reach: "mixer_reach demo_mixer"
  unfolding demo_mixer_def by (metis mixer_reach.simps mixer_step.add prod.collapse)

lemma mixer_runs_iff_witness: "mxRun demo_mixer \<and> length (mxLegs demo_mixer) = 2"
proof -
  have "length (mxLegs demo_mixer) = 2" by code_simp
  with mixer_runs_iff [OF demo_mixer_reach] show ?thesis by simp
qed

text \<open>Who hears whom. In a reachable mixer each leg is sent the saturated sum of
  the latest frames of all the other legs, never its own voice; between two
  legs each hears exactly the other.\<close>
theorem mix_excludes_self:
  assumes "mixer_reach m"
  shows "mix_for (mxLegs m) k = foldl PCMMix (replicate conferenceFrameSamples 0)
       (List.map clLatest (vals (filter (\<lambda>(i, l). i \<noteq> k) (mxLegs m))))
    \<and> (\<forall>a b la lb. mxLegs m = [(a, la), (b, lb)] \<longrightarrow>
         mix_for (mxLegs m) a = clLatest lb \<and> mix_for (mxLegs m) b = clLatest la)"
proof -
  have inv: "mixer_inv m" using mixer_reach_inv [OF assms] .
  then have len: "\<forall>l \<in> set (vals (mxLegs m)). length (clLatest l) = conferenceFrameSamples"
    by (simp add: mixer_inv_def)
  have "mix_for (mxLegs m) a = clLatest lb \<and> mix_for (mxLegs m) b = clLatest la"
    if "mxLegs m = [(a, la), (b, lb)]" for a b la lb
    using that inv mix_for_others [OF len] by (auto simp: mixer_inv_def PCMMix_zero)
  with mix_for_others [OF len] show ?thesis by blast
qed

lemma mix_excludes_self_witness:
  "mix_for (mxLegs demo_mixer) ''a'' = replicate 160 0"
proof -
  have "mxLegs demo_mixer = [(''a'', \<lparr>clCodec = CodecAudioUlaw, clLatest = replicate 160 0, clSent = []\<rparr>),
      (''b'', \<lparr>clCodec = CodecAudioUlaw, clLatest = replicate 160 0, clSent = []\<rparr>)]"
    by code_simp
  with mix_excludes_self [OF demo_mixer_reach, of "''a''"] show ?thesis by fastforce
qed

end
