(* ===== verification/Hold.thy ===== *)
theory Hold
  imports Codecs "HOL-Library.Multiset"
begin

text \<open>
  Phone hold, internal/call/hold_control.go with hold_dialtone.go, hold_media.go
  and hold_server.go.  A phone that holds sends a re-INVITE; the server stops
  the bridge, plays a dial tone to the holder and music to the held party, and
  bridges again when the phone resumes.  The state is what an ActiveCall keeps
  under its hold lock; a goroutine is a thread that takes one step for each of
  its critical sections, so that every interleaving the lock allows is a run.
  What negotiation and playback answer, and the clock, are arguments.
\<close>

section \<open>Media directions\<close>

definition ModeSendrecv :: string where "ModeSendrecv = ''sendrecv''"
definition ModeSendonly :: string where "ModeSendonly = ''sendonly''"
definition ModeRecvonly :: string where "ModeRecvonly = ''recvonly''"
definition ModeInactive :: string where "ModeInactive = ''inactive''"

lemmas mode_defs = ModeSendrecv_def ModeSendonly_def ModeRecvonly_def ModeInactive_def

text \<open>A media session: the negotiated mode, the local session description (absent, or
  unreadable, or with its direction), the preferred mode, and whether the remote
  address is known and unspecified.\<close>
record media_session =
  msMode :: string
  msLocal :: "string option option"
  msPref :: string
  msRaddr :: "bool option"

definition negotiatedMediaDirection :: "media_session option \<Rightarrow> string" where
  "negotiatedMediaDirection s =
     (case s of
        None \<Rightarrow> []
      | Some ms \<Rightarrow>
          if msMode ms \<noteq> [] then msMode ms
          else (case msLocal ms of None \<Rightarrow> msPref ms | Some None \<Rightarrow> msPref ms | Some (Some d) \<Rightarrow> d))"

definition setMediaSessionNegotiatedMode :: "string \<Rightarrow> media_session \<Rightarrow> media_session" where
  "setMediaSessionNegotiatedMode mode ms = (if mode = [] then ms else ms\<lparr>msMode := mode\<rparr>)"

definition remoteHoldMode :: "media_session option \<Rightarrow> bool" where
  "remoteHoldMode s =
     (case s of
        None \<Rightarrow> False
      | Some ms \<Rightarrow>
          negotiatedMediaDirection s \<in> {ModeRecvonly, ModeInactive}
          \<or> (msRaddr ms = Some True \<and> negotiatedMediaDirection s = ModeSendrecv))"

definition isRemoteUnhold :: "media_session option \<Rightarrow> bool" where
  "isRemoteUnhold s = (s \<noteq> None \<and> negotiatedMediaDirection s = ModeSendrecv)"

definition holderPhoneReleased :: "media_session option \<Rightarrow> bool \<Rightarrow> bool" where
  "holderPhoneReleased s signalled = (signalled \<and> s \<noteq> None \<and> negotiatedMediaDirection s = ModeSendrecv)"

definition legCanSendMedia :: "media_session option \<Rightarrow> bool" where
  "legCanSendMedia s = (s \<noteq> None \<and> negotiatedMediaDirection s \<in> {ModeSendonly, ModeSendrecv})"

definition legCanSendDialTone :: "media_session option \<Rightarrow> bool \<Rightarrow> bool" where
  "legCanSendDialTone s onHold =
     (s \<noteq> None \<and> (if onHold then negotiatedMediaDirection s = ModeSendonly else legCanSendMedia s))"

text \<open>The polling loops: what each poll sees until the context is done or the polls are
  used up, then a last look.\<close>
fun poll :: "nat \<Rightarrow> ('a \<Rightarrow> bool) \<Rightarrow> 'a list \<Rightarrow> 'a \<Rightarrow> bool" where
  "poll 0 good seen final = good final"
| "poll (Suc n) good [] final = good final"
| "poll (Suc n) good (x # seen) final = (good x \<or> poll n good seen final)"

definition holderMediaPolls :: nat where "holderMediaPolls = 20"

definition pollLegCanSendMediaLive :: "bool \<Rightarrow> media_session option list \<Rightarrow> media_session option \<Rightarrow> bool" where
  "pollLegCanSendMediaLive onHold seen final = poll holderMediaPolls (\<lambda>s. legCanSendDialTone s onHold) seen final"

section \<open>The state of a call's hold\<close>

record hold =
  hdCaller :: string
  hdCallee :: string
  hdIn :: "media_session option"
  hdOut :: "media_session option"
  hdActive :: bool
  hdHolder :: string
  hdEntering :: bool
  hdAborted :: bool
  hdStartedAt :: "int option"
  hdEnteredAt :: "int option"
  hdReady :: bool
  hdPending :: "bool option"
  hdPhoneHold :: bool
  hdSawRecvonly :: bool
  hdLegHeld :: bool
  hdReasserting :: bool
  hdDialPending :: bool
  hdPrevDir :: string
  hdPlayer :: "(int \<times> int) option"
  hdMOHSendonly :: bool
  hdBridge :: "nat option"
  hdRunning :: "nat list"
  hdNext :: nat

text \<open>The bridges that run, whether or not the call still holds their stop function, are
  hdRunning; the call holds the one of hdBridge.\<close>

definition holder_session :: "bool \<Rightarrow> hold \<Rightarrow> media_session option" where
  "holder_session callerHolds h = (if callerHolds then hdIn h else hdOut h)"

definition holder_ext :: "bool \<Rightarrow> hold \<Rightarrow> string" where
  "holder_ext callerHolds h = (if callerHolds then hdCaller h else hdCallee h)"

definition legsReadyForBridge :: "hold \<Rightarrow> bool" where
  "legsReadyForBridge h =
     ((hdIn h = None \<or> negotiatedMediaDirection (hdIn h) = ModeSendrecv)
      \<and> (hdOut h = None \<or> negotiatedMediaDirection (hdOut h) = ModeSendrecv))"

text \<open>recoverBridgeLocked; ok says whether the bridge starts.\<close>
definition recoverBridgeLocked :: "bool \<Rightarrow> hold \<Rightarrow> hold" where
  "recoverBridgeLocked ok h =
     (if ok then h\<lparr>hdBridge := Some (hdNext h), hdRunning := hdNext h # hdRunning h, hdNext := Suc (hdNext h)\<rparr> else h)"

definition stop_bridge :: "nat option \<Rightarrow> hold \<Rightarrow> hold" where
  "stop_bridge b h = (case b of None \<Rightarrow> h | Some n \<Rightarrow> h\<lparr>hdRunning := removeAll n (hdRunning h)\<rparr>)"

definition stopBridgeLocked :: "hold \<Rightarrow> hold" where
  "stopBridgeLocked h = (stop_bridge (hdBridge h) h)\<lparr>hdBridge := None\<rparr>"

text \<open>HoldRemoteWithMOH\<close>
definition HoldRemoteWithMOH :: "string \<Rightarrow> string \<Rightarrow> hold \<Rightarrow> hold" where
  "HoldRemoteWithMOH holderExt mohDir h =
     (stopBridgeLocked h)\<lparr>hdPlayer := (if mohDir = [] then None else Some (0, 0)), hdActive := True, hdHolder := holderExt\<rparr>"

definition clear_phone_flags :: "hold \<Rightarrow> hold" where
  "clear_phone_flags h = h\<lparr>hdPhoneHold := False, hdSawRecvonly := False, hdLegHeld := False\<rparr>"

section \<open>What a media update means\<close>

definition shouldLeaveOnPhoneUnhold :: "media_session option \<Rightarrow> hold \<Rightarrow> bool" where
  "shouldLeaveOnPhoneUnhold s h =
     (if s = None \<or> hdDialPending h then False
      else if negotiatedMediaDirection s = ModeSendrecv then
        if \<not> hdPhoneHold h \<or> \<not> hdSawRecvonly h then False
        else if hdLegHeld h then True
        else if hdPrevDir h \<in> {ModeRecvonly, ModeInactive} then \<not> hdEntering h
        else False
      else False)"

definition shouldReassertHolderHold :: "media_session option \<Rightarrow> hold \<Rightarrow> bool" where
  "shouldReassertHolderHold s h =
     (if s = None \<or> hdDialPending h \<or> hdReasserting h \<or> \<not> hdPhoneHold h then False
      else if negotiatedMediaDirection s \<noteq> ModeSendrecv then False
      else if \<not> hdLegHeld h \<and> \<not> hdSawRecvonly h then False
      else \<not> hdLegHeld h)"

definition holdMOHAudibleBytes :: int where "holdMOHAudibleBytes = 320"
definition holdSilentReleaseAfter :: int where "holdSilentReleaseAfter = 3 * 10 ^ 9"
definition holdEnterReleaseMinDuration :: int where "holdEnterReleaseMinDuration = 2 * 10 ^ 9"

definition holderSendrecvIsUnhold :: "int \<Rightarrow> bool \<Rightarrow> bool \<Rightarrow> bool \<Rightarrow> hold \<Rightarrow> bool" where
  "holderSendrecvIsUnhold now legHeld phoneHold sawRecvonly h =
     (if \<not> phoneHold \<or> \<not> sawRecvonly \<or> \<not> legHeld then False
      else let (moh, dial) = (case hdPlayer h of None \<Rightarrow> (0, 0) | Some b \<Rightarrow> b)
           in if holdMOHAudibleBytes \<le> moh \<and> holdMOHAudibleBytes \<le> dial then False
              else (case hdEnteredAt h of None \<Rightarrow> False | Some t \<Rightarrow> holdSilentReleaseAfter < now - t))"

definition phoneReleasedDuringEnter :: "int \<Rightarrow> media_session option \<Rightarrow> hold \<Rightarrow> bool" where
  "phoneReleasedDuringEnter now s h =
     (s \<noteq> None \<and> negotiatedMediaDirection s = ModeSendrecv
      \<and> hdEntering h \<and> \<not> hdActive h \<and> hdPhoneHold h \<and> hdSawRecvonly h
      \<and> (case hdStartedAt h of None \<Rightarrow> False | Some t \<Rightarrow> holdEnterReleaseMinDuration \<le> now - t))"

definition noteHolderHoldDirection :: "media_session option \<Rightarrow> hold \<Rightarrow> hold" where
  "noteHolderHoldDirection s h =
     (if s = None then h
      else let d = negotiatedMediaDirection s;
               h1 = (if d \<noteq> [] then h\<lparr>hdPrevDir := d\<rparr> else h)
           in if remoteHoldMode s then h1\<lparr>hdSawRecvonly := True, hdPhoneHold := True\<rparr> else h1)"

definition seedHolderHoldDirection :: "bool \<Rightarrow> hold \<Rightarrow> hold" where
  "seedHolderHoldDirection callerHolds h =
     (let s = holder_session callerHolds h in
      if s = None then h
      else let d = negotiatedMediaDirection s;
               h1 = (if d \<noteq> [] then h\<lparr>hdPrevDir := d\<rparr> else h)
           in if remoteHoldMode s then h1\<lparr>hdSawRecvonly := True\<rparr> else h1)"

definition abortHoldEntry :: "hold \<Rightarrow> hold" where
  "abortHoldEntry h = (if \<not> hdEntering h \<or> hdActive h then h else h\<lparr>hdAborted := True\<rparr>)"

definition maybeRestartBridgeAfterUnhold :: "hold \<Rightarrow> bool" where
  "maybeRestartBridgeAfterUnhold h =
     (hdReady h \<and> hdBridge h = None \<and> \<not> hdActive h \<and> \<not> hdEntering h \<and> legsReadyForBridge h)"

definition recordPendingHold :: "bool \<Rightarrow> hold \<Rightarrow> hold" where
  "recordPendingHold callerHolds h = h\<lparr>hdPending := Some callerHolds\<rparr>"

text \<open>The goroutines a handler starts.\<close>
datatype spawn = GoLeave | GoReassert bool | GoEnter bool | GoRestart | GoRestartMOH | GoRefreshMOH | GoEnsureBridge | GoWatchdog

definition stuck_reset :: "media_session option \<Rightarrow> hold \<Rightarrow> hold" where
  "stuck_reset s h =
     (if isRemoteUnhold s \<and> hdPhoneHold h \<and> \<not> hdEntering h then clear_phone_flags h else h)"

definition hold_request :: "bool \<Rightarrow> media_session option \<Rightarrow> hold \<Rightarrow> spawn list \<times> hold" where
  "hold_request callerHolds s h =
     (if remoteHoldMode s then (if hdReady h then ([GoEnter callerHolds], h) else ([], recordPendingHold callerHolds h))
      else ([], h))"

definition onInboundMediaUpdate :: "int \<Rightarrow> media_session option \<Rightarrow> hold \<Rightarrow> spawn list \<times> hold" where
  "onInboundMediaUpdate now s h =
     (if hdActive h then
        (if hdHolder h = hdCaller h then
           (if shouldLeaveOnPhoneUnhold s h then ([GoLeave], h)
            else if shouldReassertHolderHold s h then ([GoReassert True], h)
            else ([], noteHolderHoldDirection s h))
         else ([], h))
      else if phoneReleasedDuringEnter now s h then ([], abortHoldEntry h)
      else (let restart = (if maybeRestartBridgeAfterUnhold h then [GoRestart] else []);
                (go, h1) = hold_request True s (stuck_reset s h)
            in (restart @ go, h1)))"

text \<open>same says that the held party still has the media session its music plays to.\<close>
definition onOutboundMediaUpdate :: "int \<Rightarrow> bool \<Rightarrow> media_session option \<Rightarrow> hold \<Rightarrow> spawn list \<times> hold" where
  "onOutboundMediaUpdate now same s h =
     (if hdActive h then
        (let moh = (if hdHolder h = hdCaller h \<and> hdOut h \<noteq> None
                    then (if \<not> same then [GoRestartMOH] else if \<not> legCanSendMedia (hdOut h) then [GoRefreshMOH] else [])
                    else []) in
         if hdHolder h = hdCallee h then
           (if shouldLeaveOnPhoneUnhold s h then (moh @ [GoLeave], h)
            else if shouldReassertHolderHold s h then (moh @ [GoReassert False], h)
            else (moh, noteHolderHoldDirection s h))
         else (moh, h))
      else if phoneReleasedDuringEnter now s h then ([], abortHoldEntry h)
      else (let restart = (if maybeRestartBridgeAfterUnhold h then [GoRestart] else []);
                (go, h1) = hold_request False s h
            in (restart @ go, h1)))"

section \<open>Preparing the legs\<close>

text \<open>One attempt to send a hold re-INVITE: whether the entry was aborted before it, the
  context ended while waiting, the request succeeded, and the leg can then send.\<close>
record hold_attempt =
  haAborted :: bool
  haDone :: bool
  haOk :: bool
  haSendable :: bool

fun hold_attempts :: "nat \<Rightarrow> hold_attempt list \<Rightarrow> bool" where
  "hold_attempts 0 _ = False"
| "hold_attempts (Suc n) [] = False"
| "hold_attempts (Suc n) (a # rest) =
     (if haAborted a \<or> haDone a then False
      else if haOk a \<and> haSendable a then True
      else hold_attempts n rest)"

definition holderMediaRetries :: nat where "holderMediaRetries = 8"

text \<open>enableHolderSendMedia: settle says that the context outlives the settling delay and
  the entry is not aborted meanwhile.\<close>
definition enableHolderSendMedia :: "bool \<Rightarrow> bool \<Rightarrow> hold_attempt list \<Rightarrow> hold \<Rightarrow> bool \<times> hold" where
  "enableHolderSendMedia callerHolds settle tries h =
     (let s = holder_session callerHolds h; held = h\<lparr>hdLegHeld := True\<rparr> in
      if s = None then (False, h)
      else if \<not> hdPhoneHold h \<and> negotiatedMediaDirection s = ModeSendonly then (True, held)
      else if \<not> hdPhoneHold h \<and> negotiatedMediaDirection s = ModeSendrecv \<and> \<not> remoteHoldMode s then (True, h)
      else if hdAborted h then (False, h)
      else if hdPhoneHold h \<and> remoteHoldMode s then
        (if \<not> settle then (False, h)
         else let s' = map_option (setMediaSessionNegotiatedMode ModeSendonly) s
              in (True, if callerHolds then held\<lparr>hdIn := s'\<rparr> else held\<lparr>hdOut := s'\<rparr>))
      else if \<not> settle then (False, h)
      else if hold_attempts holderMediaRetries tries then (True, held) else (False, h))"

definition heldPartyMOHReinviteMax :: nat where "heldPartyMOHReinviteMax = 3"

text \<open>The attempts on the held party's leg: an abort ends them with what the leg can do,
  and a success tells whether the leg is now sendonly.\<close>
datatype held_end = HeldAborted | HeldReady bool | HeldFailed

fun held_attempts :: "nat \<Rightarrow> (hold_attempt \<times> bool) list \<Rightarrow> held_end" where
  "held_attempts 0 _ = HeldFailed"
| "held_attempts (Suc n) [] = HeldFailed"
| "held_attempts (Suc n) ((a, sendonly) # rest) =
     (if haAborted a \<or> haDone a then HeldAborted
      else if haOk a \<and> haSendable a then HeldReady sendonly
      else held_attempts n rest)"

text \<open>enableHeldPartyMOHMedia: final is the leg's session when all attempts are over.\<close>
definition enableHeldPartyMOHMedia :: "bool \<Rightarrow> bool \<Rightarrow> (hold_attempt \<times> bool) list \<Rightarrow> media_session option \<Rightarrow> hold \<Rightarrow> bool \<times> hold" where
  "enableHeldPartyMOHMedia heldOnOut settle tries final h =
     (let s = holder_session (\<not> heldOnOut) h in
      if s = None then (False, h)
      else if legCanSendMedia s then (True, h)
      else if hdAborted h \<or> \<not> settle then (False, h)
      else (case held_attempts heldPartyMOHReinviteMax tries of
              HeldAborted \<Rightarrow> (legCanSendMedia final, h)
            | HeldReady sendonly \<Rightarrow> (True, h\<lparr>hdMOHSendonly := sendonly\<rparr>)
            | HeldFailed \<Rightarrow> (legCanSendMedia final, h\<lparr>hdMOHSendonly := False\<rparr>)))"

section \<open>Playing to the held party\<close>

definition wavPlaybackCodecSupported :: "codec \<Rightarrow> bool" where
  "wavPlaybackCodecSupported c = ((cPT c = 0 \<and> cName c = ''PCMU'') \<or> (cPT c = 8 \<and> cName c = ''PCMA''))"

text \<open>What startMOH and startToneLoop start: the counter their bytes go to is the
  dial tone's for a generated tone.\<close>
datatype playback = NoPlayback | TonePCM | ToneDirect | MOHPCM | MOHDirect

definition startToneLoop :: "bool \<Rightarrow> bool option \<Rightarrow> playback" where
  "startToneLoop pcm create =
     (if pcm then TonePCM else (case create of None \<Rightarrow> NoPlayback | Some ok \<Rightarrow> if ok then ToneDirect else NoPlayback))"

definition startMOH :: "bool \<Rightarrow> string list option \<Rightarrow> bool \<Rightarrow> bool option \<Rightarrow> codec \<Rightarrow> playback" where
  "startMOH canSend tracks pcm create codec =
     (if \<not> canSend then NoPlayback
      else if tracks = None \<or> tracks = Some [] then startToneLoop pcm create
      else if pcm then MOHPCM
      else (case create of
              None \<Rightarrow> NoPlayback
            | Some False \<Rightarrow> NoPlayback
            | Some True \<Rightarrow> if wavPlaybackCodecSupported codec then MOHDirect else startToneLoop pcm create))"

definition counts_as_moh :: "playback \<Rightarrow> bool" where
  "counts_as_moh pb = (pb \<in> {MOHPCM, MOHDirect})"

text \<open>startHoldMediaWatchdog: how often it restarts the media, from what it sees at each of
  its three checks (whether the hold is active, and the bytes sent).\<close>
fun watchdog :: "nat \<Rightarrow> (bool \<times> int \<times> int) list \<Rightarrow> nat" where
  "watchdog 0 _ = 0"
| "watchdog (Suc n) [] = 0"
| "watchdog (Suc n) ((active, moh, dial) # rest) =
     (if \<not> active \<or> (holdMOHAudibleBytes \<le> moh \<and> holdMOHAudibleBytes \<le> dial) then 0
      else Suc (watchdog n rest))"

definition startHoldMediaWatchdog :: "(bool \<times> int \<times> int) list \<Rightarrow> nat" where
  "startHoldMediaWatchdog seen = watchdog 3 seen"

section \<open>Entering and leaving hold\<close>

datatype hold_thread =
    EnterStopping bool "nat option"
  | EnterMedia bool "nat option"
  | LeaveStopping nat
  | LeaveClearing
  | LeaveUnholding
  | LeaveStoring nat
  | Spawned spawn

text \<open>enter, up to the stop of the bridge\<close>
definition enter_begin :: "int \<Rightarrow> bool \<Rightarrow> hold \<Rightarrow> hold_thread list \<times> hold" where
  "enter_begin now callerHolds h =
     (if hdActive h \<or> hdEntering h then ([], h)
      else if \<not> remoteHoldMode (holder_session callerHolds h) then ([], h)
      else ([EnterStopping callerHolds (hdBridge h)],
            seedHolderHoldDirection callerHolds
              (h\<lparr>hdEntering := True, hdPhoneHold := True, hdStartedAt := Some now, hdAborted := False, hdBridge := None\<rparr>)))"

definition enter_over :: "hold \<Rightarrow> hold" where
  "enter_over h = h\<lparr>hdEntering := False, hdStartedAt := None, hdAborted := False\<rparr>"

text \<open>The bridge is stopped; a hold that became active meanwhile ends the entry.\<close>
definition enter_stopped :: "bool \<Rightarrow> nat option \<Rightarrow> hold \<Rightarrow> hold_thread list \<times> hold" where
  "enter_stopped callerHolds taken h =
     (let h1 = stop_bridge taken h in
      if hdActive h1 then ([], enter_over h1) else ([EnterMedia callerHolds taken], h1))"

text \<open>The media is set up, or not: the last critical section of enter.  ok says whether a
  bridge can be started again.\<close>
definition enter_finish :: "int \<Rightarrow> bool \<Rightarrow> nat option \<Rightarrow> bool \<Rightarrow> bool \<Rightarrow> bool \<Rightarrow> hold \<Rightarrow> hold_thread list \<times> hold" where
  "enter_finish now callerHolds taken dialOK mohOK ok h =
     (if hdAborted h then
        ([Spawned GoEnsureBridge],
         enter_over (recoverBridgeLocked ok (clear_phone_flags h\<lparr>hdDialPending := False\<rparr>)))
      else if hdActive h then ([], enter_over (if taken \<noteq> None then recoverBridgeLocked ok h else h))
      else if \<not> dialOK \<and> \<not> mohOK then ([], enter_over (recoverBridgeLocked ok (clear_phone_flags h)))
      else ([Spawned GoWatchdog],
            enter_over (h\<lparr>hdPlayer := Some (0, 0), hdActive := True, hdHolder := holder_ext callerHolds h,
                          hdEnteredAt := Some now\<rparr>)))"

definition leave_clear :: "hold \<Rightarrow> hold" where
  "leave_clear h = (clear_phone_flags h)\<lparr>hdPrevDir := [], hdReasserting := False, hdHolder := []\<rparr>"

definition leave_begin :: "hold \<Rightarrow> hold_thread list \<times> hold" where
  "leave_begin h =
     (if \<not> hdActive h then ([], h)
      else let h1 = h\<lparr>hdActive := False, hdPlayer := None\<rparr> in
           (case hdBridge h of
              Some n \<Rightarrow> ([LeaveStopping n], h1\<lparr>hdBridge := None\<rparr>)
            | None \<Rightarrow> ([LeaveUnholding], leave_clear h1)))"

text \<open>leave after it has waited for the legs to be back on sendrecv; starts lists how the
  attempts to start the bridge end.\<close>
definition leave_restart :: "bool list \<Rightarrow> hold \<Rightarrow> hold_thread list \<times> hold" where
  "leave_restart starts h =
     (let h1 = h\<lparr>hdMOHSendonly := False\<rparr> in
      if legsReadyForBridge h1 \<and> True \<in> set (take 3 starts)
      then ([LeaveStoring (hdNext h1)], h1\<lparr>hdRunning := hdNext h1 # hdRunning h1, hdNext := Suc (hdNext h1)\<rparr>)
      else ([], h1))"

definition restartBridgeIfNeeded :: "bool \<Rightarrow> hold \<Rightarrow> hold" where
  "restartBridgeIfNeeded ok h =
     (if \<not> hdReady h \<or> hdBridge h \<noteq> None \<or> hdActive h \<or> hdEntering h \<or> \<not> legsReadyForBridge h then h
      else recoverBridgeLocked ok h)"

text \<open>The critical section of ensureBridgeAfterHoldAbort, whenever its loop reaches it.\<close>
definition ensureBridgeAfterHoldAbort :: "bool \<Rightarrow> hold \<Rightarrow> hold" where
  "ensureBridgeAfterHoldAbort ok h =
     (if hdActive h \<or> hdEntering h \<or> hdBridge h \<noteq> None \<or> \<not> legsReadyForBridge h then h
      else recoverBridgeLocked ok h)"

definition markBridgeReady :: "hold \<Rightarrow> hold_thread list \<times> hold" where
  "markBridgeReady h =
     ((case hdPending h of None \<Rightarrow> [] | Some c \<Rightarrow> [Spawned (GoEnter c)]), h\<lparr>hdReady := True, hdPending := None\<rparr>)"

text \<open>reassertHolderHold: enabled says that the leg is on sendonly again.\<close>
definition reassertHolderHold :: "bool \<Rightarrow> bool \<Rightarrow> hold \<Rightarrow> hold_thread list \<times> hold" where
  "reassertHolderHold callerHolds enabled h =
     (if hdReasserting h \<or> \<not> hdActive h then ([], h)
      else if enabled \<and> negotiatedMediaDirection (holder_session callerHolds h) = ModeSendonly then ([], h)
      else if negotiatedMediaDirection (holder_session callerHolds h) = ModeSendrecv then ([Spawned GoLeave], h)
      else ([], h))"

section \<open>Runs\<close>

text \<open>One critical section of a goroutine: the goroutines it turns into and starts.\<close>
inductive thread_step :: "hold_thread \<Rightarrow> hold \<Rightarrow> hold_thread list \<Rightarrow> hold \<Rightarrow> bool" where
  enter: "enter_begin now c h = (new, h') \<Longrightarrow> thread_step (Spawned (GoEnter c)) h new h'"
| entered: "enter_stopped c taken h = (new, h') \<Longrightarrow> thread_step (EnterStopping c taken) h new h'"
| media: "enter_finish now c taken dial moh ok h = (new, h') \<Longrightarrow> thread_step (EnterMedia c taken) h new h'"
| leave: "leave_begin h = (new, h') \<Longrightarrow> thread_step (Spawned GoLeave) h new h'"
| leave_stop: "thread_step (LeaveStopping n) h [LeaveClearing] (stop_bridge (Some n) h)"
| leave_clear: "thread_step LeaveClearing h [LeaveUnholding] (leave_clear h)"
| leave_restart: "leave_restart starts h = (new, h') \<Longrightarrow> thread_step LeaveUnholding h new h'"
| leave_store: "thread_step (LeaveStoring n) h [] (h\<lparr>hdBridge := Some n\<rparr>)"
| restart: "thread_step (Spawned GoRestart) h [] (restartBridgeIfNeeded ok h)"
| ensure: "thread_step (Spawned GoEnsureBridge) h [] (ensureBridgeAfterHoldAbort ok h)"
| reassert: "reassertHolderHold c enabled h = (new, h') \<Longrightarrow> thread_step (Spawned (GoReassert c)) h new h'"
| music: "g \<in> {GoRestartMOH, GoRefreshMOH, GoWatchdog} \<Longrightarrow> thread_step (Spawned g) h [] h"

inductive hold_step :: "hold \<times> hold_thread list \<Rightarrow> hold \<times> hold_thread list \<Rightarrow> bool" where
  inbound: "onInboundMediaUpdate now s h = (go, h') \<Longrightarrow> hold_step (h, ts) (h', List.map Spawned go @ ts)"
| outbound: "onOutboundMediaUpdate now same s h = (go, h') \<Longrightarrow> hold_step (h, ts) (h', List.map Spawned go @ ts)"
| legs: "hold_step (h, ts) (h\<lparr>hdIn := i, hdOut := out\<rparr>, ts)"
| ready: "markBridgeReady h = (new, h') \<Longrightarrow> hold_step (h, ts) (h', new @ ts)"
| remote: "hold_step (h, ts) (HoldRemoteWithMOH e d h, ts)"
| bye: "hold_step (h, ts) (stopBridgeLocked h, ts)"
| holder: "EnterMedia c taken \<in> set ts \<Longrightarrow> enableHolderSendMedia c settle tries h = (b, h') \<Longrightarrow> hold_step (h, ts) (h', ts)"
| held: "EnterMedia c taken \<in> set ts \<Longrightarrow> enableHeldPartyMOHMedia c settle htries s h = (b, h') \<Longrightarrow> hold_step (h, ts) (h', ts)"
| thread: "t \<in> set ts \<Longrightarrow> thread_step t h new h' \<Longrightarrow> hold_step (h, ts) (h', new @ remove1 t ts)"

text \<open>A call that has just been bridged.\<close>
definition new_hold :: "string \<Rightarrow> string \<Rightarrow> media_session option \<Rightarrow> media_session option \<Rightarrow> hold" where
  "new_hold caller callee i out =
     \<lparr>hdCaller = caller, hdCallee = callee, hdIn = i, hdOut = out, hdActive = False, hdHolder = [], hdEntering = False,
      hdAborted = False, hdStartedAt = None, hdEnteredAt = None, hdReady = False, hdPending = None, hdPhoneHold = False,
      hdSawRecvonly = False, hdLegHeld = False, hdReasserting = False, hdDialPending = False, hdPrevDir = [],
      hdPlayer = None, hdMOHSendonly = False, hdBridge = Some 0, hdRunning = [0], hdNext = 1\<rparr>"

inductive hold_reach :: "hold \<times> hold_thread list \<Rightarrow> bool" where
  start: "hold_reach (new_hold caller callee i out, [])"
| step: "hold_reach c \<Longrightarrow> hold_step c c' \<Longrightarrow> hold_reach c'"

inductive_cases thread_step_cases: "thread_step t h new h'"

section \<open>The invariant\<close>

fun entering_thread :: "hold_thread \<Rightarrow> bool" where
  "entering_thread (EnterStopping _ _) = True"
| "entering_thread (EnterMedia _ _) = True"
| "entering_thread _ = False"

text \<open>The bridges a thread alone can stop or store.\<close>
fun owned :: "hold_thread \<Rightarrow> nat list" where
  "owned (EnterStopping _ (Some n)) = [n]"
| "owned (LeaveStopping n) = [n]"
| "owned (LeaveStoring n) = [n]"
| "owned _ = []"

definition bridge_of :: "hold \<Rightarrow> nat list" where
  "bridge_of h = (case hdBridge h of None \<Rightarrow> [] | Some n \<Rightarrow> [n])"

fun owned_all :: "hold_thread list \<Rightarrow> nat list" where
  "owned_all [] = []"
| "owned_all (t # ts) = owned t @ owned_all ts"

definition tokens :: "hold \<Rightarrow> hold_thread list \<Rightarrow> nat list" where
  "tokens h ts = bridge_of h @ owned_all ts"

lemma owned_all_append [simp]: "owned_all (a @ b) = owned_all a @ owned_all b"
  by (induction a) simp_all

lemma owned_all_none: "\<forall>t \<in> set new. owned t = [] \<Longrightarrow> owned_all new = []"
  by (induction new) simp_all

lemma mset_owned_all: "mset (owned_all ts) = (\<Sum>t \<in># mset ts. mset (owned t))"
  by (induction ts) simp_all

definition hold_inv :: "hold \<times> hold_thread list \<Rightarrow> bool" where
  "hold_inv c =
     (let (h, ts) = c in
      length (filter entering_thread ts) = (if hdEntering h then 1 else 0)
      \<and> (hdAborted h \<longrightarrow> hdEntering h)
      \<and> distinct (tokens h ts) \<and> set (tokens h ts) \<subseteq> set (hdRunning h)
      \<and> distinct (hdRunning h) \<and> (\<forall>n \<in> set (hdRunning h). n < hdNext h))"

text \<open>The invariant does not depend on the order of the threads.\<close>
lemma hold_inv_perm:
  assumes "mset ts = mset ts'"
  shows "hold_inv (h, ts) = hold_inv (h, ts')"
proof -
  have "mset (tokens h ts) = mset (tokens h ts')"
    using assms by (simp add: tokens_def mset_owned_all)
  then have tok: "set (tokens h ts) = set (tokens h ts')" "distinct (tokens h ts) = distinct (tokens h ts')"
    by (rule mset_eq_setD, rule mset_eq_imp_distinct_iff)
  have "size (filter_mset entering_thread (mset ts)) = size (filter_mset entering_thread (mset ts'))"
    using assms by simp
  then have "length (filter entering_thread ts) = length (filter entering_thread ts')"
    by (simp flip: mset_filter)
  with tok show ?thesis by (simp add: hold_inv_def)
qed

lemma hold_invD:
  assumes "hold_inv (h, ts)"
  shows "length (filter entering_thread ts) = (if hdEntering h then 1 else 0)" "hdAborted h \<Longrightarrow> hdEntering h"
    "distinct (tokens h ts)" "set (tokens h ts) \<subseteq> set (hdRunning h)" "distinct (hdRunning h)"
    "\<forall>n \<in> set (hdRunning h). n < hdNext h"
  using assms by (simp_all add: hold_inv_def)

text \<open>Changes that concern neither entry nor bridges.\<close>
definition same_core :: "hold \<Rightarrow> hold \<Rightarrow> bool" where
  "same_core h h' =
     (hdEntering h' = hdEntering h \<and> hdBridge h' = hdBridge h \<and> hdRunning h' = hdRunning h \<and> hdNext h' = hdNext h
      \<and> (hdAborted h' \<longrightarrow> hdEntering h))"

lemma hold_inv_same: "hold_inv (h, ts) \<Longrightarrow> same_core h h' \<Longrightarrow> hold_inv (h', ts)"
  by (simp add: hold_inv_def same_core_def tokens_def bridge_of_def)

lemma hold_inv_spawn:
  assumes "\<forall>t \<in> set new. owned t = [] \<and> \<not> entering_thread t"
  shows "hold_inv (h, new @ ts) = hold_inv (h, ts)"
proof -
  have "owned_all new = []" "filter entering_thread new = []"
    using assms by (auto intro: owned_all_none simp: filter_empty_conv)
  then show ?thesis by (simp add: hold_inv_def tokens_def)
qed

text \<open>A bridge started while the call holds none, or in place of the one it held.\<close>
lemma hold_inv_recover: "hold_inv (h, ts) \<Longrightarrow> hold_inv (recoverBridgeLocked ok h, ts)"
  by (auto simp: hold_inv_def recoverBridgeLocked_def tokens_def bridge_of_def split: option.splits)
    
lemma hold_inv_drop: "hold_inv (h, t # ts) \<Longrightarrow> \<not> entering_thread t \<Longrightarrow> hold_inv (h, ts)"
  by (auto simp: hold_inv_def tokens_def)

lemma core_simps [simp]:
  "hdEntering (seedHolderHoldDirection c h) = hdEntering h" "hdBridge (seedHolderHoldDirection c h) = hdBridge h"
  "hdRunning (seedHolderHoldDirection c h) = hdRunning h" "hdNext (seedHolderHoldDirection c h) = hdNext h"
  "hdAborted (seedHolderHoldDirection c h) = hdAborted h" "hdActive (seedHolderHoldDirection c h) = hdActive h"
  "hdEntering (noteHolderHoldDirection s h) = hdEntering h" "hdBridge (noteHolderHoldDirection s h) = hdBridge h"
  "hdRunning (noteHolderHoldDirection s h) = hdRunning h" "hdNext (noteHolderHoldDirection s h) = hdNext h"
  "hdAborted (noteHolderHoldDirection s h) = hdAborted h" "hdActive (noteHolderHoldDirection s h) = hdActive h"
  by (simp_all add: seedHolderHoldDirection_def noteHolderHoldDirection_def Let_def)

lemma clear_simps [simp]:
  "hdEntering (clear_phone_flags h) = hdEntering h" "hdBridge (clear_phone_flags h) = hdBridge h"
  "hdRunning (clear_phone_flags h) = hdRunning h" "hdNext (clear_phone_flags h) = hdNext h"
  "hdAborted (clear_phone_flags h) = hdAborted h" "hdActive (clear_phone_flags h) = hdActive h"
  "hdEntering (leave_clear h) = hdEntering h" "hdBridge (leave_clear h) = hdBridge h"
  "hdRunning (leave_clear h) = hdRunning h" "hdNext (leave_clear h) = hdNext h"
  "hdAborted (leave_clear h) = hdAborted h" "hdActive (leave_clear h) = hdActive h"
  by (simp_all add: clear_phone_flags_def leave_clear_def)

lemma hold_inv_update:
  "hold_inv (h, ts) \<Longrightarrow> same_core h h' \<Longrightarrow> \<forall>t \<in> set new. owned t = [] \<and> \<not> entering_thread t \<Longrightarrow> hold_inv (h', new @ ts)"
  using hold_inv_same hold_inv_spawn by blast

lemma enter_begin_inv:
  "enter_begin now c h = (new, h') \<Longrightarrow> hold_inv (h, ts) \<Longrightarrow> hold_inv (h', new @ ts)"
  by (cases "hdBridge h") (auto simp: enter_begin_def hold_inv_def tokens_def bridge_of_def split: if_splits)

lemma stop_bridge_inv:
  assumes "hold_inv (h, t # ts)" "owned t = (case taken of None \<Rightarrow> [] | Some n \<Rightarrow> [n])" "owned t' = []"
    "entering_thread t' = entering_thread t"
  shows "hold_inv (stop_bridge taken h, t' # ts)"
  using assms by (cases taken) (auto simp: hold_inv_def tokens_def bridge_of_def stop_bridge_def distinct_removeAll)

lemma enter_over_inv: "hold_inv (h, t # ts) \<Longrightarrow> entering_thread t \<Longrightarrow> hold_inv (enter_over h, ts)"
  by (auto simp: hold_inv_def enter_over_def tokens_def bridge_of_def split: if_splits)

lemma enter_stopped_inv:
  assumes e: "enter_stopped c taken h = (new, h')" and inv: "hold_inv (h, EnterStopping c taken # ts)"
  shows "hold_inv (h', new @ ts)"
proof -
  have "hold_inv (stop_bridge taken h, EnterMedia c taken # ts)"
    by (rule stop_bridge_inv [OF inv]) (auto split: option.split)
  with e enter_over_inv [of "stop_bridge taken h" "EnterMedia c taken" ts] show ?thesis
    by (auto simp: enter_stopped_def Let_def split: if_splits)
qed

text \<open>The last step of an entry changes the bridge at most by starting one.\<close>
lemma enter_finish_cases:
  assumes e: "enter_finish now c taken dial moh ok h = (new, h')" and ent: "hdEntering h"
  shows "(\<exists>h1. same_core h h1 \<and> (h' = enter_over (recoverBridgeLocked ok h1) \<or> h' = enter_over h1))
    \<and> (\<forall>t \<in> set new. owned t = [] \<and> \<not> entering_thread t)"
proof -
  have spawn: "\<forall>t \<in> set new. owned t = [] \<and> \<not> entering_thread t" using e by (auto simp: enter_finish_def split: if_splits)
  let ?a = "clear_phone_flags h\<lparr>hdDialPending := False\<rparr>"
  let ?b = "h\<lparr>hdPlayer := Some (0, 0), hdActive := True, hdHolder := holder_ext c h, hdEnteredAt := Some now\<rparr>"
  have core: "same_core h ?a" "same_core h h" "same_core h (clear_phone_flags h)" "same_core h ?b"
    using ent by (simp_all add: same_core_def)
  have "h' = enter_over (recoverBridgeLocked ok ?a) \<or> h' = enter_over (recoverBridgeLocked ok h) \<or> h' = enter_over h
    \<or> h' = enter_over (recoverBridgeLocked ok (clear_phone_flags h)) \<or> h' = enter_over ?b"
    using e by (simp add: enter_finish_def split: if_splits)
  with core spawn show ?thesis by metis
qed

lemma enter_finish_inv:
  assumes e: "enter_finish now c taken dial moh ok h = (new, h')" and inv: "hold_inv (h, EnterMedia c taken # ts)"
  shows "hold_inv (h', new @ ts)"
proof -
  have over: "hold_inv (enter_over h1, ts)" if "hold_inv (h1, EnterMedia c taken # ts)" for h1
    using enter_over_inv [OF that] by simp
  have ent: "hdEntering h" using hold_invD(1) [OF inv] by (auto split: if_splits)
  obtain h1 where h1: "same_core h h1" "h' = enter_over (recoverBridgeLocked ok h1) \<or> h' = enter_over h1"
    and spawn: "\<forall>t \<in> set new. owned t = [] \<and> \<not> entering_thread t"
    using enter_finish_cases [OF e ent] by blast
  have "hold_inv (h', ts)"
    using h1(2) over [OF hold_inv_recover [OF hold_inv_same [OF inv h1(1)]]] over [OF hold_inv_same [OF inv h1(1)]] by metis
  then show ?thesis using hold_inv_spawn [OF spawn] by simp
qed

lemma leave_begin_inv:
  "leave_begin h = (new, h') \<Longrightarrow> hold_inv (h, ts) \<Longrightarrow> hold_inv (h', new @ ts)"
  by (cases "hdBridge h") (auto simp: leave_begin_def hold_inv_def tokens_def bridge_of_def Let_def split: if_splits)

lemma leave_restart_inv:
  "leave_restart starts h = (new, h') \<Longrightarrow> hold_inv (h, ts) \<Longrightarrow> hold_inv (h', new @ ts)"
proof -
  assume e: "leave_restart starts h = (new, h')" and inv: "hold_inv (h, ts)"
  let ?h = "h\<lparr>hdMOHSendonly := False\<rparr>"
  have inv': "hold_inv (?h, ts)" using inv by (rule hold_inv_same) (simp add: same_core_def hold_invD(2) [OF inv])
  show ?thesis
  proof (cases "legsReadyForBridge ?h \<and> True \<in> set (take 3 starts)")
    case True
    then have "new = [LeaveStoring (hdNext h)]" "h' = ?h\<lparr>hdRunning := hdNext h # hdRunning h, hdNext := Suc (hdNext h)\<rparr>"
      using e by (simp_all add: leave_restart_def Let_def)
    moreover have "hdNext h \<notin> set (hdRunning h)" using hold_invD(6) [OF inv] by blast
    ultimately show ?thesis
      using hold_invD [OF inv'] by (auto simp: hold_inv_def tokens_def bridge_of_def less_Suc_eq split: option.splits)
  next
    case False
    then show ?thesis using e inv' by (auto simp: leave_restart_def Let_def)
  qed
qed

lemma leave_store_inv: "hold_inv (h, LeaveStoring n # ts) \<Longrightarrow> hold_inv (h\<lparr>hdBridge := Some n\<rparr>, ts)"
  by (auto simp: hold_inv_def tokens_def bridge_of_def split: option.splits)

lemma thread_step_inv:
  assumes "thread_step t h new h'" "hold_inv (h, t # ts)"
  shows "hold_inv (h', new @ ts)"
  using assms
proof (induction rule: thread_step.induct)
  case (leave_stop n h)
  then show ?case using stop_bridge_inv [of h "LeaveStopping n" ts "Some n" LeaveClearing] by simp
next
  case (leave_clear h)
  then have "hold_inv (h, LeaveUnholding # ts)" by (simp add: hold_inv_def tokens_def)
  moreover have "same_core h (leave_clear h)" using leave_clear hold_invD(2) [of h "LeaveClearing # ts"] by (simp add: same_core_def)
  ultimately show ?case using hold_inv_same by simp
next
  case (reassert c enabled h new h')
  then have "hold_inv (h, ts)" by (auto dest: hold_inv_drop)
  moreover have "h' = h \<and> (new = [] \<or> new = [Spawned GoLeave])"
    using reassert(1) by (simp add: reassertHolderHold_def split: if_splits)
  ultimately show ?case using hold_inv_spawn [of "[Spawned GoLeave]" h ts] by auto
next
  case (enter now c h new h')
  then show ?case using enter_begin_inv hold_inv_drop by force
next
  case (leave h new h')
  then show ?case using leave_begin_inv hold_inv_drop by force
next
  case (leave_restart starts h new h')
  then show ?case using leave_restart_inv hold_inv_drop by force
next
  case (restart h ok)
  then have "hold_inv (h, ts)" by (auto dest: hold_inv_drop)
  then show ?case by (simp add: restartBridgeIfNeeded_def hold_inv_recover)
next
  case (ensure h ok)
  then have "hold_inv (h, ts)" by (auto dest: hold_inv_drop)
  then show ?case by (simp add: ensureBridgeAfterHoldAbort_def hold_inv_recover)
next
  case (music g h)
  then show ?case using hold_inv_drop by force
next
  case (leave_store n h)
  then show ?case by (simp add: leave_store_inv)
next
  case (entered c taken h new h')
  then show ?case by (rule enter_stopped_inv)
next
  case (media now c taken dial moh ok h new h')
  then show ?case by (rule enter_finish_inv)
qed

lemma update_quiet:
  assumes "(go, h') = onInboundMediaUpdate now s h \<or> (go, h') = onOutboundMediaUpdate now same s h"
  shows "hdEntering h' = hdEntering h \<and> hdBridge h' = hdBridge h \<and> hdRunning h' = hdRunning h \<and> hdNext h' = hdNext h
    \<and> (hdAborted h' \<longrightarrow> hdAborted h \<or> hdEntering h)"
  using assms
  by (auto simp: onInboundMediaUpdate_def onOutboundMediaUpdate_def abortHoldEntry_def hold_request_def recordPendingHold_def
      stuck_reset_def Let_def split: if_splits prod.splits)

lemma stopBridgeLocked_inv: "hold_inv (h, ts) \<Longrightarrow> hold_inv (stopBridgeLocked h, ts)"
  by (cases "hdBridge h")
    (auto simp: hold_inv_def tokens_def bridge_of_def stopBridgeLocked_def stop_bridge_def distinct_removeAll)

lemma hold_step_inv: "hold_step c c' \<Longrightarrow> hold_inv c \<Longrightarrow> hold_inv c'"
proof (induction rule: hold_step.induct)
  case (inbound now s h go h' ts)
  then have "same_core h h'" using update_quiet [of go h' now s h False] hold_invD(2) by (auto simp: same_core_def)
  then show ?case using inbound(2) by (intro hold_inv_update [of h ts]) auto
next
  case (outbound now same s h go h' ts)
  then have "same_core h h'" using update_quiet [of go h' now s h same] hold_invD(2) by (auto simp: same_core_def)
  then show ?case using outbound(2) by (intro hold_inv_update [of h ts]) auto
next
  case (ready h new h' ts)
  then have "same_core h h'" "\<forall>t \<in> set new. owned t = [] \<and> \<not> entering_thread t"
    using hold_invD(2) by (auto simp: markBridgeReady_def same_core_def split: option.splits)
  with ready(2) show ?case by (intro hold_inv_update [of h ts])
next
  case (thread t ts h new h')
  have "hold_inv (h, t # remove1 t ts)" using thread(1,3) hold_inv_perm [of ts "t # remove1 t ts"] by simp
  then show ?case using thread_step_inv [OF thread(2)] by simp
next
  case (remote h ts e d)
  then have "hold_inv (stopBridgeLocked h, ts)" by (rule stopBridgeLocked_inv)
  moreover have "same_core (stopBridgeLocked h) (HoldRemoteWithMOH e d h)"
    using hold_invD(2) [OF calculation] by (simp add: same_core_def HoldRemoteWithMOH_def)
  ultimately show ?case by (rule hold_inv_same)
next
  case (bye h ts)
  then show ?case by (rule stopBridgeLocked_inv)
next
  case (legs h ts i out)
  then show ?case using hold_invD(2) [OF legs] by (auto intro: hold_inv_same simp: same_core_def)
next
  case (holder c taken ts settle tries h b h')
  then have "same_core h h'" using hold_invD(2) [of h ts] by (auto simp: enableHolderSendMedia_def same_core_def Let_def split: if_splits)
  then show ?case using holder(3) by (rule hold_inv_same [rotated])
next
  case (held c taken ts settle htries s h b h')
  then have "same_core h h'"
    using hold_invD(2) [of h ts] by (auto simp: enableHeldPartyMOHMedia_def same_core_def Let_def split: if_splits held_end.splits)
  then show ?case using held(3) by (rule hold_inv_same [rotated])
qed

lemma hold_reach_inv: "hold_reach c \<Longrightarrow> hold_inv c"
proof (induction rule: hold_reach.induct)
  case (start caller callee i out)
  show ?case by (simp add: hold_inv_def new_hold_def tokens_def bridge_of_def)
qed (rule hold_step_inv)

section \<open>Properties\<close>


text \<open>What a media update of the holder's phone does to a hold: only sendrecv, and only after the
  phone had asked for hold, can end it; the server's own sendonly never does, a hold that the
  server started is not ended by sendrecv until the phone asks for hold itself.\<close>
theorem holder_update_decision:
  assumes held: "hdActive h" "hdHolder h = hdCaller h" and go: "onInboundMediaUpdate now s h = (go, h')"
  shows "(GoLeave \<in> set go \<longrightarrow> negotiatedMediaDirection s = ModeSendrecv \<and> hdPhoneHold h \<and> hdSawRecvonly h \<and> \<not> hdDialPending h
            \<and> (hdLegHeld h \<or> \<not> hdEntering h))
    \<and> (negotiatedMediaDirection s = ModeSendonly \<longrightarrow> go = [])
    \<and> (\<not> hdPhoneHold h \<longrightarrow> go = [])
    \<and> (negotiatedMediaDirection s = ModeSendrecv \<and> hdPhoneHold h \<and> hdSawRecvonly h \<and> hdLegHeld h \<and> \<not> hdDialPending h
         \<and> s \<noteq> None \<longrightarrow> go = [GoLeave])
    \<and> hdActive h' \<and> hdBridge h' = hdBridge h"
proof -
  have modes: "ModeSendrecv \<noteq> ModeSendonly" by (simp add: mode_defs)
  have g: "go = (if shouldLeaveOnPhoneUnhold s h then [GoLeave] else if shouldReassertHolderHold s h then [GoReassert True] else [])"
    and h': "hdActive h'" "hdBridge h' = hdBridge h"
    using go held by (auto simp: onInboundMediaUpdate_def split: if_splits)
  have leave': "shouldLeaveOnPhoneUnhold s h \<Longrightarrow> negotiatedMediaDirection s = ModeSendrecv \<and> hdPhoneHold h \<and> hdSawRecvonly h
      \<and> \<not> hdDialPending h \<and> (hdLegHeld h \<or> \<not> hdEntering h)"
    by (auto simp: shouldLeaveOnPhoneUnhold_def split: if_splits)
  have reassert': "shouldReassertHolderHold s h \<Longrightarrow> negotiatedMediaDirection s = ModeSendrecv \<and> hdPhoneHold h"
    by (auto simp: shouldReassertHolderHold_def split: if_splits)
  have must: "shouldLeaveOnPhoneUnhold s h" if "negotiatedMediaDirection s = ModeSendrecv \<and> hdPhoneHold h \<and> hdSawRecvonly h \<and> hdLegHeld h
      \<and> \<not> hdDialPending h \<and> s \<noteq> None"
    using that by (simp add: shouldLeaveOnPhoneUnhold_def)
  consider (leave) "shouldLeaveOnPhoneUnhold s h" "go = [GoLeave]"
    | (reassert) "shouldReassertHolderHold s h" "go = [GoReassert True]" "\<not> shouldLeaveOnPhoneUnhold s h"
    | (none) "go = []" "\<not> shouldLeaveOnPhoneUnhold s h"
    using g by metis
  then show ?thesis
  proof cases
    case leave
    then show ?thesis using h' modes leave(1) [THEN leave'] by simp
  next
    case reassert
    then show ?thesis using h' modes reassert(1) [THEN reassert'] must by force
  next
    case none
    then show ?thesis using h' must by auto
  qed
qed

text \<open>An entry and a departure that nothing interrupts.\<close>
definition run_enter :: "int \<Rightarrow> bool \<Rightarrow> bool \<Rightarrow> bool \<Rightarrow> bool \<Rightarrow> hold \<Rightarrow> hold" where
  "run_enter now c dial moh ok h =
     (case enter_begin now c h of
        ([], h1) \<Rightarrow> h1
      | (_, h1) \<Rightarrow>
          (case enter_stopped c (hdBridge h) h1 of
             ([], h2) \<Rightarrow> h2
           | (_, h2) \<Rightarrow> snd (enter_finish now c (hdBridge h) dial moh ok h2)))"

definition store_bridge :: "hold_thread list \<times> hold \<Rightarrow> hold" where
  "store_bridge r = (case r of ([LeaveStoring n], h) \<Rightarrow> h\<lparr>hdBridge := Some n\<rparr> | (_, h) \<Rightarrow> h)"

definition run_leave :: "bool list \<Rightarrow> hold \<Rightarrow> hold" where
  "run_leave starts h =
     (case leave_begin h of
        ([LeaveUnholding], h1) \<Rightarrow> store_bridge (leave_restart starts h1)
      | ([LeaveStopping n], h1) \<Rightarrow> store_bridge (leave_restart starts (leave_clear (stop_bridge (Some n) h1)))
      | (_, h1) \<Rightarrow> h1)"

text \<open>A bridged call at rest.\<close>
definition bridged :: "hold \<Rightarrow> bool" where
  "bridged h =
     (\<not> hdActive h \<and> \<not> hdEntering h \<and> \<not> hdAborted h \<and> hdReady h \<and> hdPlayer h = None
      \<and> (\<exists>n. hdBridge h = Some n \<and> hdRunning h = [n] \<and> n < hdNext h))"

definition on_hold :: "bool \<Rightarrow> hold \<Rightarrow> bool" where
  "on_hold c h = (hdActive h \<and> \<not> hdEntering h \<and> hdHolder h = holder_ext c h \<and> hdBridge h = None \<and> hdRunning h = []
     \<and> hdPlayer h \<noteq> None \<and> hdPhoneHold h)"

lemma seed_simps [simp]:
  "hdCaller (seedHolderHoldDirection c h) = hdCaller h" "hdCallee (seedHolderHoldDirection c h) = hdCallee h"
  "hdReady (seedHolderHoldDirection c h) = hdReady h" "hdPhoneHold (seedHolderHoldDirection c h) = hdPhoneHold h"
  "hdPlayer (seedHolderHoldDirection c h) = hdPlayer h"
  by (simp_all add: seedHolderHoldDirection_def Let_def)

text \<open>C32: Hold and resume without interference: a bridged call whose holder signals hold ends up on hold,
  with no bridge running, as soon as the dial tone or the music can be played, and bridged
  again with the flags cleared when neither can; leaving hold with both legs on sendrecv gives
  a call with exactly one bridge and no trace of the hold.\<close>
theorem hold_round_trip:
  assumes "bridged h" and held: "remoteHoldMode (holder_session c h)"
  shows "(dial \<or> moh \<longrightarrow> on_hold c (run_enter now c dial moh ok h))
    \<and> (\<not> dial \<and> \<not> moh \<longrightarrow> bridged (run_enter now c dial moh True h) \<and> \<not> hdPhoneHold (run_enter now c dial moh True h))
    \<and> (\<forall>g. on_hold c g \<and> hdReady g \<and> \<not> hdAborted g \<and> legsReadyForBridge g \<and> True \<in> set (take 3 starts) \<longrightarrow>
         bridged (run_leave starts g) \<and> hdHolder (run_leave starts g) = [] \<and> \<not> hdPhoneHold (run_leave starts g)
         \<and> \<not> hdLegHeld (run_leave starts g) \<and> \<not> hdSawRecvonly (run_leave starts g))"
proof (intro conjI impI allI)
  obtain n where n: "hdBridge h = Some n" "hdRunning h = [n]" "\<not> hdActive h" "\<not> hdEntering h" "hdReady h" "hdPlayer h = None"
    using assms(1) by (auto simp: bridged_def)
  let ?h1 = "h\<lparr>hdEntering := True, hdPhoneHold := True, hdStartedAt := Some now, hdAborted := False, hdBridge := None\<rparr>"
  let ?h2 = "(seedHolderHoldDirection c ?h1)\<lparr>hdRunning := []\<rparr>"
  have run: "run_enter now c d m ok' h = snd (enter_finish now c (Some n) d m ok' ?h2)" for d m ok'
    using n held by (simp add: run_enter_def enter_begin_def enter_stopped_def stop_bridge_def Let_def)
  show "on_hold c (run_enter now c dial moh ok h)" if "dial \<or> moh"
    using that n by (auto simp: run enter_finish_def on_hold_def enter_over_def holder_ext_def)
  assume none: "\<not> dial \<and> \<not> moh"
  show "bridged (run_enter now c dial moh True h)" "\<not> hdPhoneHold (run_enter now c dial moh True h)"
    using none n by (simp_all add: run enter_finish_def bridged_def enter_over_def recoverBridgeLocked_def clear_phone_flags_def)
next
  fix g assume g: "on_hold c g \<and> hdReady g \<and> \<not> hdAborted g \<and> legsReadyForBridge g \<and> True \<in> set (take 3 starts)"
  have "legsReadyForBridge ((leave_clear (g\<lparr>hdActive := False, hdPlayer := None\<rparr>))\<lparr>hdMOHSendonly := False\<rparr>)"
    using g by (simp add: legsReadyForBridge_def leave_clear_def clear_phone_flags_def)
  then have run: "run_leave starts g = (let g1 = (leave_clear (g\<lparr>hdActive := False, hdPlayer := None\<rparr>))\<lparr>hdMOHSendonly := False\<rparr> in
      g1\<lparr>hdRunning := [hdNext g], hdNext := Suc (hdNext g), hdBridge := Some (hdNext g)\<rparr>)"
    using g by (simp add: run_leave_def leave_begin_def on_hold_def leave_restart_def store_bridge_def Let_def)
  show "bridged (run_leave starts g)" "hdHolder (run_leave starts g) = []" "\<not> hdPhoneHold (run_leave starts g)"
    "\<not> hdLegHeld (run_leave starts g)" "\<not> hdSawRecvonly (run_leave starts g)"
    using g by (simp_all add: run bridged_def on_hold_def leave_clear_def clear_phone_flags_def Let_def)
qed

section \<open>Races\<close>

text \<open>A bridge nobody can stop any more.\<close>
definition orphan :: "nat \<Rightarrow> hold \<times> hold_thread list \<Rightarrow> bool" where
  "orphan n c = (let (h, ts) = c in n \<in> set (hdRunning h) \<and> n \<notin> set (tokens h ts))"

lemma orphan_perm: "mset ts = mset ts' \<Longrightarrow> orphan n (h, ts) = orphan n (h, ts')"
proof -
  assume "mset ts = mset ts'"
  then have "mset (tokens h ts) = mset (tokens h ts')" by (simp add: tokens_def mset_owned_all)
  then have "set (tokens h ts) = set (tokens h ts')" by (rule mset_eq_setD)
  then show ?thesis by (simp add: orphan_def)
qed

lemma orphan_spawn: "\<forall>t \<in> set new. owned t = [] \<Longrightarrow> orphan n (h, new @ ts) = orphan n (h, ts)"
  by (simp add: orphan_def tokens_def owned_all_none)

lemma orphan_keep: "orphan n (h, ts) \<Longrightarrow> hdBridge h' = hdBridge h \<Longrightarrow> hdRunning h' = hdRunning h \<Longrightarrow> orphan n (h', ts)"
  by (simp add: orphan_def tokens_def bridge_of_def)

lemma orphan_recover: "orphan n (h, ts) \<Longrightarrow> hold_inv (h, ts) \<Longrightarrow> orphan n (recoverBridgeLocked ok h, ts)"
  by (auto simp: orphan_def tokens_def bridge_of_def recoverBridgeLocked_def hold_inv_def split: option.splits)

lemma orphan_stop:
  "orphan n (h, t # ts) \<Longrightarrow> owned t = (case taken of None \<Rightarrow> [] | Some k \<Rightarrow> [k]) \<Longrightarrow> owned t' = [] \<Longrightarrow> orphan n (stop_bridge taken h, t' # ts)"
  by (cases taken) (auto simp: orphan_def tokens_def bridge_of_def stop_bridge_def)

lemma orphan_drop: "orphan n (h, t # ts) \<Longrightarrow> orphan n (h, ts)"
  by (simp add: orphan_def tokens_def)

lemma orphan_stopLocked: "orphan n (h, ts) \<Longrightarrow> orphan n (stopBridgeLocked h, ts)"
  by (cases "hdBridge h") (auto simp: orphan_def tokens_def bridge_of_def stopBridgeLocked_def stop_bridge_def)

lemma orphan_enter_finish:
  assumes e: "enter_finish now c taken dial moh ok h = (new, h')" and inv: "hold_inv (h, ts)" and o: "orphan n (h, ts)"
    and ent: "hdEntering h"
  shows "orphan n (h', new @ ts)"
proof -
  obtain h1 where h1: "same_core h h1" "h' = enter_over (recoverBridgeLocked ok h1) \<or> h' = enter_over h1"
    and spawn: "\<forall>t \<in> set new. owned t = [] \<and> \<not> entering_thread t"
    using enter_finish_cases [OF e ent] by blast
  have o1: "orphan n (h1, ts)" using o by (rule orphan_keep) (use h1(1) in \<open>simp_all add: same_core_def\<close>)
  have "orphan n (enter_over g, ts)" if "orphan n (g, ts)" for g
    using that by (rule orphan_keep) (simp_all add: enter_over_def)
  then have "orphan n (h', ts)" using h1(2) o1 orphan_recover [OF o1 hold_inv_same [OF inv h1(1)]] by metis
  then show ?thesis using orphan_spawn spawn by blast
qed

lemma orphan_thread:
  assumes "thread_step t h new h'" "hold_inv (h, t # ts)" "orphan n (h, t # ts)"
  shows "orphan n (h', new @ ts)"
  using assms
proof (induction rule: thread_step.induct)
  case (enter now c h new h')
  then show ?case
    by (cases "hdBridge h") (auto simp: enter_begin_def orphan_def tokens_def bridge_of_def split: if_splits)
next
  case (entered c taken h new h')
  have "orphan n (stop_bridge taken h, EnterMedia c taken # ts)"
    by (rule orphan_stop [OF entered(3)]) (auto split: option.split)
  then show ?case using entered(1)
    by (auto simp: enter_stopped_def Let_def enter_over_def split: if_splits intro: orphan_keep dest: orphan_drop)
next
  case (media now c taken dial moh ok h new h')
  then have "hdEntering h" using hold_invD(1) [OF media(2)] by (auto split: if_splits)
  with media show ?case
    using orphan_enter_finish [OF media(1), of "EnterMedia c taken # ts" n] by (auto simp: orphan_def tokens_def)
next
  case (leave h new h')
  then show ?case
    by (cases "hdBridge h") (auto simp: leave_begin_def orphan_def tokens_def bridge_of_def Let_def split: if_splits)
next
  case (leave_stop k h)
  then show ?case using orphan_stop [of n h "LeaveStopping k" ts "Some k" LeaveClearing] by simp
next
  case (leave_clear h)
  then show ?case by (auto simp: orphan_def tokens_def bridge_of_def)
next
  case (leave_restart starts h new h')
  then have "n < hdNext h" by (auto simp: orphan_def hold_inv_def)
  with leave_restart(1,3) show ?case
    by (cases "legsReadyForBridge (h\<lparr>hdMOHSendonly := False\<rparr>) \<and> True \<in> set (take 3 starts)")
      (auto simp: leave_restart_def orphan_def tokens_def bridge_of_def Let_def)
next
  case (leave_store k h)
  then show ?case by (auto simp: orphan_def tokens_def bridge_of_def)
next
  case (restart h ok)
  then have "hold_inv (h, ts)" "orphan n (h, ts)" by (auto dest: hold_inv_drop orphan_drop)
  then show ?case by (simp add: restartBridgeIfNeeded_def orphan_recover)
next
  case (ensure h ok)
  then have "hold_inv (h, ts)" "orphan n (h, ts)" by (auto dest: hold_inv_drop orphan_drop)
  then show ?case by (simp add: ensureBridgeAfterHoldAbort_def orphan_recover)
next
  case (reassert c enabled h new h')
  then have "orphan n (h, ts)" by (auto dest: orphan_drop)
  moreover have "h' = h \<and> (new = [] \<or> new = [Spawned GoLeave])"
    using reassert(1) by (simp add: reassertHolderHold_def split: if_splits)
  ultimately show ?case by (auto simp: orphan_def tokens_def)
next
  case (music g h)
  then show ?case by (auto dest: orphan_drop)
qed

lemma orphan_step: "hold_step c c' \<Longrightarrow> hold_inv c \<Longrightarrow> orphan n c \<Longrightarrow> orphan n c'"
proof (induction rule: hold_step.induct)
  case (inbound now s h go h' ts)
  then have "orphan n (h', ts)" using update_quiet [of go h' now s h False] by (auto intro: orphan_keep)
  then show ?case by (auto simp: orphan_def tokens_def owned_all_none)
next
  case (outbound now same s h go h' ts)
  then have "orphan n (h', ts)" using update_quiet [of go h' now s h same] by (auto intro: orphan_keep)
  then show ?case by (auto simp: orphan_def tokens_def owned_all_none)
next
  case (legs h ts i out)
  then show ?case by (auto intro: orphan_keep)
next
  case (ready h new h' ts)
  then have "orphan n (h', ts)" "owned_all new = []"
    by (auto simp: markBridgeReady_def intro: orphan_keep split: option.splits)
  then show ?case by (simp add: orphan_def tokens_def)
next
  case (remote h ts e d)
  then show ?case by (auto simp: HoldRemoteWithMOH_def intro: orphan_keep [OF orphan_stopLocked])
next
  case (bye h ts)
  then show ?case by (auto intro: orphan_stopLocked)
next
  case (holder c taken ts settle tries h b h')
  then show ?case by (auto simp: enableHolderSendMedia_def Let_def split: if_splits intro: orphan_keep)
next
  case (held c taken ts settle htries s h b h')
  then show ?case by (auto simp: enableHeldPartyMOHMedia_def Let_def split: if_splits held_end.splits intro: orphan_keep)
next
  case (thread t ts h new h')
  have m: "mset ts = mset (t # remove1 t ts)" using thread(1) by simp
  have "hold_inv (h, t # remove1 t ts)" "orphan n (h, t # remove1 t ts)"
    using thread(3,4) hold_inv_perm [OF m] orphan_perm [OF m] by simp_all
  then show ?case using orphan_thread [OF thread(2)] by blast
qed

lemma orphan_forever: "hold_step\<^sup>*\<^sup>* c c' \<Longrightarrow> hold_inv c \<Longrightarrow> orphan n c \<Longrightarrow> orphan n c'"
proof (induction rule: rtranclp_induct)
  case (step y z)
  have "hold_inv y" using step(1,4)
    by (induction rule: rtranclp_induct) (auto intro: hold_step_inv)
  then show ?case using step orphan_step by blast
qed

lemma reach_thread: "hold_reach (h, t # ts) \<Longrightarrow> thread_step t h new h' \<Longrightarrow> hold_reach (h', new @ ts)"
  using hold_reach.step [OF _ hold_step.thread, of h "t # ts" t new h'] by simp

definition dir :: "string \<Rightarrow> media_session option" where
  "dir m = Some \<lparr>msMode = m, msLocal = None, msPref = [], msRaddr = None\<rparr>"

lemma dir_simps [simp]:
  "dir m \<noteq> None" "dir m = Some x \<longleftrightarrow> x = \<lparr>msMode = m, msLocal = None, msPref = [], msRaddr = None\<rparr>"
  "negotiatedMediaDirection (dir ModeSendrecv) = ModeSendrecv" "negotiatedMediaDirection (dir ModeRecvonly) = ModeRecvonly"
  "remoteHoldMode (dir ModeRecvonly)" "\<not> remoteHoldMode (dir ModeSendrecv)" "isRemoteUnhold (dir ModeSendrecv)"
  "\<not> isRemoteUnhold (dir ModeRecvonly)"
  by (auto simp: dir_def negotiatedMediaDirection_def remoteHoldMode_def isRemoteUnhold_def mode_defs)

lemma modes_named [simp]: "ModeRecvonly \<noteq> []" "ModeSendrecv \<noteq> []"
  by (simp_all add: mode_defs)

text \<open>A bridged call whose caller's phone then asks for hold.\<close>
definition demo_call :: hold where
  "demo_call = new_hold ''101'' ''102'' (dir ModeRecvonly) (dir ModeSendrecv)\<lparr>hdReady := True\<rparr>"

definition demo_entering :: hold where
  "demo_entering = demo_call\<lparr>hdEntering := True, hdPhoneHold := True, hdStartedAt := Some 0, hdBridge := None,
     hdSawRecvonly := True, hdPrevDir := ModeRecvonly, hdRunning := []\<rparr>"

definition demo_held :: hold where
  "demo_held = demo_entering\<lparr>hdEntering := False, hdStartedAt := None, hdPlayer := Some (0, 0), hdActive := True,
     hdHolder := ''101'', hdEnteredAt := Some 0\<rparr>"

lemma demo_call_reach: "hold_reach (demo_call, [])"
proof -
  have "hold_reach (new_hold ''101'' ''102'' (dir ModeRecvonly) (dir ModeSendrecv), [])" by (rule hold_reach.start)
  from hold_reach.step [OF this hold_step.ready] show ?thesis
    by (simp add: demo_call_def markBridgeReady_def new_hold_def)
qed

lemma demo_entering_reach: "hold_reach (demo_entering, [EnterMedia True (Some 0)])"
proof -
  have "onInboundMediaUpdate 0 (dir ModeRecvonly) demo_call = ([GoEnter True], demo_call)"
    by (simp add: onInboundMediaUpdate_def demo_call_def new_hold_def phoneReleasedDuringEnter_def
        maybeRestartBridgeAfterUnhold_def hold_request_def stuck_reset_def Let_def)
  from hold_reach.step [OF demo_call_reach hold_step.inbound [OF this]]
  have "hold_reach (demo_call, [Spawned (GoEnter True)])" by simp
  moreover have "enter_begin 0 True demo_call = ([EnterStopping True (Some 0)], demo_entering\<lparr>hdRunning := [0]\<rparr>)"
    by (simp add: enter_begin_def demo_call_def demo_entering_def new_hold_def holder_session_def seedHolderHoldDirection_def
        Let_def)
  ultimately have "hold_reach (demo_entering\<lparr>hdRunning := [0]\<rparr>, [EnterStopping True (Some 0)])"
    using reach_thread thread_step.enter by fastforce
  moreover have "enter_stopped True (Some 0) (demo_entering\<lparr>hdRunning := [0]\<rparr>) = ([EnterMedia True (Some 0)], demo_entering)"
    by (simp add: enter_stopped_def stop_bridge_def demo_entering_def demo_call_def new_hold_def)
  ultimately show ?thesis using reach_thread thread_step.entered by fastforce
qed

lemma demo_held_reach: "hold_reach (demo_held, [])"
proof -
  have "enter_finish 0 True (Some 0) True True True demo_entering = ([Spawned GoWatchdog], demo_held)"
    by (simp add: enter_finish_def demo_held_def demo_entering_def demo_call_def new_hold_def enter_over_def holder_ext_def)
  from reach_thread [OF demo_entering_reach thread_step.media [OF this]]
  have "hold_reach (demo_held, [Spawned GoWatchdog])" by simp
  from reach_thread [OF this thread_step.music] show ?thesis by simp
qed

text \<open>The legs are back on sendrecv and the goroutine of leave has cleared the flags.\<close>
definition demo_leaving :: hold where
  "demo_leaving = (leave_clear demo_held)\<lparr>hdIn := dir ModeSendrecv, hdActive := False, hdPlayer := None\<rparr>"

lemma demo_leaving_reach: "hold_reach (demo_leaving, [LeaveUnholding])"
proof -
  let ?h = "demo_held\<lparr>hdIn := dir ModeSendrecv\<rparr>"
  have "hold_reach (demo_held\<lparr>hdIn := dir ModeSendrecv, hdOut := hdOut demo_held\<rparr>, [])"
    by (rule hold_reach.step [OF demo_held_reach hold_step.legs])
  then have h: "hold_reach (?h, [])" by simp
  have "onInboundMediaUpdate 0 (dir ModeSendrecv) ?h = ([GoLeave], ?h)"
    by (simp add: onInboundMediaUpdate_def shouldLeaveOnPhoneUnhold_def demo_held_def demo_entering_def demo_call_def new_hold_def)
  from hold_reach.step [OF h hold_step.inbound [OF this]] have "hold_reach (?h, [Spawned GoLeave])" by simp
  moreover have "leave_begin ?h = ([LeaveUnholding], demo_leaving)"
    by (simp add: leave_begin_def demo_leaving_def demo_held_def demo_entering_def demo_call_def new_hold_def leave_clear_def
        clear_phone_flags_def)
  ultimately show ?thesis using reach_thread thread_step.leave by fastforce
qed

text \<open>Bridge \<^term>\<open>n\<close> runs in every state that follows.\<close>
definition runs_forever :: "nat \<Rightarrow> hold \<times> hold_thread list \<Rightarrow> bool" where
  "runs_forever n c \<longleftrightarrow> (\<forall>h' ts'. hold_step\<^sup>*\<^sup>* c (h', ts') \<longrightarrow> n \<in> set (hdRunning h'))"


text \<open>A server hold, as for a transfer, that comes while a phone hold is being set up ends with
  the call on hold and bridged at the same time.\<close>
theorem held_while_bridged:
  "\<exists>h. hold_reach (h, []) \<and> hdActive h \<and> hdPlayer h \<noteq> None \<and> (\<exists>n. hdBridge h = Some n \<and> n \<in> set (hdRunning h))"
proof -
  let ?h = "HoldRemoteWithMOH ''101'' ''/moh'' demo_entering"
  have r: "hold_reach (?h, [EnterMedia True (Some 0)])"
    by (rule hold_reach.step [OF demo_entering_reach hold_step.remote])
  have h: "hdActive ?h" "\<not> hdAborted ?h" "hdPlayer ?h \<noteq> None" "hdNext ?h = 1"
    by (simp_all add: HoldRemoteWithMOH_def stopBridgeLocked_def stop_bridge_def demo_entering_def demo_call_def new_hold_def)
  have "enter_finish 0 True (Some 0) True True True ?h = ([], enter_over (recoverBridgeLocked True ?h))"
    using h by (simp add: enter_finish_def)
  from reach_thread [OF r thread_step.media [OF this]] have "hold_reach (enter_over (recoverBridgeLocked True ?h), [])" by simp
  then show ?thesis using h by (intro exI [of _ "enter_over (recoverBridgeLocked True ?h)"])
      (simp add: enter_over_def recoverBridgeLocked_def)
qed


theorem holder_update_decision_witness:
  "fst (onInboundMediaUpdate 0 (dir ModeSendrecv) (demo_held\<lparr>hdLegHeld := True\<rparr>)) = [GoLeave]"
  using holder_update_decision [of "demo_held\<lparr>hdLegHeld := True\<rparr>" 0 "dir ModeSendrecv", OF _ _ surjective_pairing]
  by (simp add: demo_held_def demo_entering_def demo_call_def new_hold_def)

theorem hold_round_trip_witness: "on_hold True (run_enter 0 True True False True demo_call)"
proof -
  have "bridged demo_call" "remoteHoldMode (holder_session True demo_call)"
    by (simp_all add: bridged_def demo_call_def new_hold_def holder_session_def)
  from hold_round_trip [OF this, of True False 0 True] show ?thesis by blast
qed

section \<open>Music, dial tone and the watchdog\<close>

text \<open>Without a music file, or with a codec diago cannot stream, the generated tone is counted as dial
  tone: the watchdog never sees music and restarts the media at each of its checks.\<close>
lemma fallback_not_counted:
  "tracks = None \<or> tracks = Some [] \<Longrightarrow> \<not> counts_as_moh (startMOH canSend tracks pcm create codec)"
  by (auto simp: startMOH_def startToneLoop_def counts_as_moh_def split: option.splits)

lemma watchdog_restarts: "startHoldMediaWatchdog [(True, 0, a), (True, 0, b), (True, 0, c)] = 3"
  by (simp add: startHoldMediaWatchdog_def holdMOHAudibleBytes_def numeral_3_eq_3)

lemma watchdog_bound: "startHoldMediaWatchdog seen \<le> 3"
proof -
  have "watchdog n seen \<le> n" for n by (induction n seen rule: watchdog.induct) auto
  then show ?thesis by (simp add: startHoldMediaWatchdog_def)
qed

text \<open>After a phone hold the dial tone needs no re-INVITE: the leg is marked sendonly.\<close>
lemma dial_tone_on_phone_hold:
  assumes "hdPhoneHold h" "\<not> hdAborted h" "remoteHoldMode (holder_session c h)"
  shows "fst (enableHolderSendMedia c True tries h) \<and> hdLegHeld (snd (enableHolderSendMedia c True tries h))
    \<and> legCanSendDialTone (holder_session c (snd (enableHolderSendMedia c True tries h))) True"
proof -
  obtain ms where "holder_session c h = Some ms" using assms(3) by (cases "holder_session c h") (auto simp: remoteHoldMode_def)
  then show ?thesis using assms
    by (auto simp: enableHolderSendMedia_def Let_def holder_session_def legCanSendDialTone_def negotiatedMediaDirection_def
        setMediaSessionNegotiatedMode_def ModeSendonly_def)
qed

lemma held_party_sendable: "legCanSendMedia (holder_session (\<not> c) h) \<Longrightarrow> enableHeldPartyMOHMedia c settle tries s h = (True, h)"
  by (auto simp: enableHeldPartyMOHMedia_def legCanSendMedia_def)

end
