(* ===== verification/Legs.thy ===== *)
theory Legs
  imports AudioBridge Hold
begin

text \<open>
  The legs of a bridge (internal/call: bridge_media.go, bridge_prepare.go and the end of
  hold_control.go; internal/media/audiobridge/bridge.go): what is put in order on a leg before it
  is bridged or joins a conference, the checks under which the bridge starts, its stop, the wait for
  inbound audio, and the codecs kept over a hold.  A leg is what these functions read and set of a
  dialog and its media session.
\<close>

section \<open>A leg\<close>

datatype dialog_kind = ServerDialog | ClientDialog | OtherDialog

text \<open>The kind of the dialog, its media session if negotiated, whether the RTP reader and writer of the
  session exist, whether a reader or writer of a player or relay is set on the media, whether reading and
  writing RTP is stopped (their deadlines have passed), whether the writer's timestamp has been reset, and
  the telephone-event codec aligned with the remote one (alignment itself is in Dtmf)\<close>
record leg =
  lgKind :: dialog_kind
  lgMedia :: "AudioBridge.media_session option"
  lgReader :: bool
  lgWriter :: bool
  lgHooks :: bool
  lgReadStopped :: bool
  lgWriteStopped :: bool
  lgTimestampReset :: bool
  lgAligned :: bool

definition align_dtmf :: "leg \<Rightarrow> leg" where
  "align_dtmf l = (if lgKind l = OtherDialog then l else l\<lparr>lgAligned := True\<rparr>)"

definition prepareBridgeLegs :: "leg \<times> leg \<Rightarrow> leg \<times> leg" where
  "prepareBridgeLegs = (\<lambda>(a, c). (align_dtmf a, align_dtmf c))"

definition clearSessionMediaHooks :: "leg \<Rightarrow> leg" where
  "clearSessionMediaHooks l = l\<lparr>lgHooks := False\<rparr>"

text \<open>StopRTP and StartRTP of both directions, left alone without a media session\<close>
definition stopSessionMediaRTP :: "leg \<Rightarrow> leg" where
  "stopSessionMediaRTP l = (if lgMedia l = None then l else l\<lparr>lgReadStopped := True, lgWriteStopped := True\<rparr>)"

definition startSessionMediaRTP :: "leg \<Rightarrow> leg" where
  "startSessionMediaRTP l = (if lgMedia l = None then l else l\<lparr>lgReadStopped := False, lgWriteStopped := False\<rparr>)"

definition resetDialogLegRTP :: "leg \<Rightarrow> leg" where
  "resetDialogLegRTP l = (if lgKind l \<noteq> OtherDialog \<and> lgWriter l then l\<lparr>lgTimestampReset := True\<rparr> else l)"

text \<open>PrepareConferenceLeg; None is the nil session.\<close>
definition PrepareConferenceLeg :: "leg option \<Rightarrow> leg option" where
  "PrepareConferenceLeg l =
     map_option (\<lambda>l. resetDialogLegRTP (startSessionMediaRTP (align_dtmf (clearSessionMediaHooks l)))) l"

definition prepareLegsForBridge :: "leg option \<times> leg option \<Rightarrow> leg option \<times> leg option" where
  "prepareLegsForBridge p =
     (case p of
        (Some a, Some c) \<Rightarrow>
          (let (a1, c1) = prepareBridgeLegs (a, c); ready = (\<lambda>l. resetDialogLegRTP (startSessionMediaRTP (clearSessionMediaHooks l)))
           in (Some (ready a1), Some (ready c1)))
      | _ \<Rightarrow> p)"

section \<open>Starting and stopping a bridge\<close>

datatype leg_err = NilDialog | MediaNotNegotiated | RTPNotInitialized | UnsupportedDialog
datatype start_err = BadLegA leg_err | BadLegB leg_err | CodecNotNegotiated | NoTranscoding string string
  | UnsupportedPair | BridgeRefused bridge_err

definition validateBridgeLegRTP :: "leg option \<Rightarrow> leg_err option" where
  "validateBridgeLegRTP d =
     (case d of
        None \<Rightarrow> Some NilDialog
      | Some l \<Rightarrow>
          if lgMedia l = None then Some MediaNotNegotiated
          else if lgKind l = OtherDialog then Some UnsupportedDialog
          else if \<not> lgReader l \<or> \<not> lgWriter l then Some RTPNotInitialized
          else None)"

definition sessionAsLeg :: "leg \<Rightarrow> bool" where
  "sessionAsLeg l = (lgKind l = ServerDialog \<or> lgKind l = ClientDialog)"

text \<open>startTranscodingBridge: the legs as it leaves them, and the codecs of the two relays or the error\<close>
definition startTranscodingBridge :: "leg option \<times> leg option
    \<Rightarrow> (start_err, codec \<times> codec) result \<times> leg option \<times> leg option" where
  "startTranscodingBridge p =
     (let q = prepareLegsForBridge p in
      (case validateBridgeLegRTP (fst q) of
         Some e \<Rightarrow> Err (BadLegA e)
       | None \<Rightarrow>
           (case validateBridgeLegRTP (snd q) of
              Some e \<Rightarrow> Err (BadLegB e)
            | None \<Rightarrow>
                (case (NegotiatedCodec (lgMedia (the (fst q))), NegotiatedCodec (lgMedia (the (snd q)))) of
                   (Some ca, Some cb) \<Rightarrow>
                     if \<not> CanTranscode ca \<or> \<not> CanTranscode cb then Err (NoTranscoding (cName ca) (cName cb))
                     else if \<not> sessionAsLeg (the (fst q)) \<or> \<not> sessionAsLeg (the (snd q)) then Err UnsupportedPair
                     else (case bridge_codecs (lgMedia (the (fst q))) (lgMedia (the (snd q))) of
                             Inl e \<Rightarrow> Err (BridgeRefused e)
                           | Inr cs \<Rightarrow> Ok cs)
                 | _ \<Rightarrow> Err CodecNotNegotiated)),
       q))"

text \<open>stopLegMedia, and what the stop function of a bridge leaves of the legs\<close>
definition stopLegMedia :: "leg \<Rightarrow> leg" where
  "stopLegMedia l =
     (if lgKind l = OtherDialog then l else stopSessionMediaRTP (clearSessionMediaHooks l))"

definition bridge_stop :: "leg option \<times> leg option \<Rightarrow> leg option \<times> leg option" where
  "bridge_stop = (\<lambda>(a, c). (map_option stopLegMedia a, map_option stopLegMedia c))"

text \<open>A read of a relay under the bridge's context (readWithContext): whether the context is over before
  it, whether it ends while the read is under way, and what the read gives\<close>
definition readWithContext :: "bool \<Rightarrow> bool \<Rightarrow> (rel_err, bytes) result \<Rightarrow> (rel_err, bytes) result" where
  "readWithContext over ends r = (if over then Err Canceled else if ends then Err Canceled else r)"

section \<open>Waiting for inbound audio\<close>

definition holdInboundRTPWait :: int where "holdInboundRTPWait = 2 * 10 ^ 9"

text \<open>The reads of waitForInboundRTP, each with the time it takes, which its deadline limits, and whether
  it brings a packet; over: the context ends before the read.  The result has the time waited.\<close>
fun wait_reads :: "int \<Rightarrow> int \<Rightarrow> (bool \<times> int \<times> bool) list \<Rightarrow> bool \<times> int" where
  "wait_reads now deadline [] = (False, now)"
| "wait_reads now deadline ((over, took, got) # rs) =
     (if deadline \<le> now then (False, now)
      else if over then (False, now)
      else let until = min (now + 10 ^ 8) deadline; later = min (now + took) until
           in if got \<and> now + took \<le> until then (True, later) else wait_reads later deadline rs)"

definition waitForInboundRTP :: "bool \<Rightarrow> int \<Rightarrow> (bool \<times> int \<times> bool) list \<Rightarrow> bool \<times> int" where
  "waitForInboundRTP hasMedia timeout rs =
     (if \<not> hasMedia then (False, 0)
      else wait_reads 0 (if timeout \<le> 0 then holdInboundRTPWait else timeout) rs)"

section \<open>The codecs of a bridge over a hold\<close>

definition same_codec :: "codec \<Rightarrow> codec \<Rightarrow> bool" where
  "same_codec c x = (cPT x = cPT c \<and> cName x = cName c)"

definition RestorePrimaryCodec :: "codec \<Rightarrow> AudioBridge.media_session \<Rightarrow> AudioBridge.media_session" where
  "RestorePrimaryCodec c s =
     (if cName c = [] then s
      else let common = (if msCommon s = [] then msCodecs s else msCommon s);
               found = (case List.find (same_codec c) common of None \<Rightarrow> [] | Some x \<Rightarrow> [x]) @ filter (\<lambda>x. \<not> same_codec c x) common
           in if found \<noteq> [] then s\<lparr>msCommon := found\<rparr> else s)"

text \<open>The codecs saved in a call, and whether both are known\<close>
record saved_codecs =
  svA :: "codec option"
  svB :: "codec option"
  svSaved :: bool

definition named :: "codec option \<Rightarrow> bool" where
  "named c = (case c of None \<Rightarrow> False | Some k \<Rightarrow> cName k \<noteq> [])"

definition saveBridgeCodecs :: "AudioBridge.media_session option \<Rightarrow> AudioBridge.media_session option \<Rightarrow> saved_codecs \<Rightarrow> saved_codecs" where
  "saveBridgeCodecs i out s =
     (let a = (case NegotiatedCodec i of None \<Rightarrow> svA s | Some c \<Rightarrow> Some c);
          b = (case NegotiatedCodec out of None \<Rightarrow> svB s | Some c \<Rightarrow> Some c)
      in \<lparr>svA = a, svB = b, svSaved = (named a \<and> named b)\<rparr>)"

definition restore_one :: "codec option \<Rightarrow> AudioBridge.media_session option \<Rightarrow> AudioBridge.media_session option" where
  "restore_one c s = (case c of None \<Rightarrow> s | Some k \<Rightarrow> map_option (RestorePrimaryCodec k) s)"

definition restoreBridgeCodecs :: "saved_codecs \<Rightarrow> AudioBridge.media_session option \<Rightarrow> AudioBridge.media_session option
    \<Rightarrow> AudioBridge.media_session option \<times> AudioBridge.media_session option" where
  "restoreBridgeCodecs s i out = (if \<not> svSaved s then (i, out) else (restore_one (svA s) i, restore_one (svB s) out))"

section \<open>Properties\<close>

text \<open>A leg that can be bridged\<close>
definition bridgeable :: "leg \<Rightarrow> codec \<Rightarrow> bool" where
  "bridgeable l c =
     (lgKind l \<noteq> OtherDialog \<and> lgReader l \<and> lgWriter l \<and> NegotiatedCodec (lgMedia l) = Some c \<and> CanTranscode c)"

lemma leg_steps [simp]:
  "lgKind (align_dtmf l) = lgKind l" "lgMedia (align_dtmf l) = lgMedia l" "lgReader (align_dtmf l) = lgReader l"
  "lgWriter (align_dtmf l) = lgWriter l" "lgKind (clearSessionMediaHooks l) = lgKind l"
  "lgMedia (clearSessionMediaHooks l) = lgMedia l" "lgReader (clearSessionMediaHooks l) = lgReader l"
  "lgWriter (clearSessionMediaHooks l) = lgWriter l" "lgKind (startSessionMediaRTP l) = lgKind l"
  "lgMedia (startSessionMediaRTP l) = lgMedia l" "lgReader (startSessionMediaRTP l) = lgReader l"
  "lgWriter (startSessionMediaRTP l) = lgWriter l" "lgKind (resetDialogLegRTP l) = lgKind l"
  "lgMedia (resetDialogLegRTP l) = lgMedia l" "lgReader (resetDialogLegRTP l) = lgReader l"
  "lgWriter (resetDialogLegRTP l) = lgWriter l" "lgKind (stopLegMedia l) = lgKind l" "lgMedia (stopLegMedia l) = lgMedia l"
  "lgReader (stopLegMedia l) = lgReader l" "lgWriter (stopLegMedia l) = lgWriter l"
  by (simp_all add: align_dtmf_def clearSessionMediaHooks_def startSessionMediaRTP_def resetDialogLegRTP_def stopLegMedia_def
      stopSessionMediaRTP_def)

lemma NegotiatedCodec_None: "NegotiatedCodec None = None"
  by (simp add: NegotiatedCodec_def)

lemma leg_valid: "validateBridgeLegRTP (Some l) = None \<longleftrightarrow>
    lgMedia l \<noteq> None \<and> lgKind l \<noteq> OtherDialog \<and> lgReader l \<and> lgWriter l"
  by (simp add: validateBridgeLegRTP_def)

lemma valid_same:
  "lgMedia l' = lgMedia l \<Longrightarrow> lgKind l' = lgKind l \<Longrightarrow> lgReader l' = lgReader l \<Longrightarrow> lgWriter l' = lgWriter l \<Longrightarrow>
    validateBridgeLegRTP (Some l') = validateBridgeLegRTP (Some l)"
  by (simp add: validateBridgeLegRTP_def)

text \<open>A leg after prepareLegsForBridge\<close>
abbreviation ready_leg :: "leg \<Rightarrow> leg" where
  "ready_leg l \<equiv> resetDialogLegRTP (startSessionMediaRTP (clearSessionMediaHooks (align_dtmf l)))"

lemma prepare_both: "prepareLegsForBridge (Some a, Some c) = (Some (ready_leg a), Some (ready_leg c))"
  by (simp add: prepareLegsForBridge_def prepareBridgeLegs_def Let_def)

lemma ready_runs:
  "lgMedia l \<noteq> None \<Longrightarrow> \<not> lgHooks (ready_leg l) \<and> \<not> lgReadStopped (ready_leg l) \<and> \<not> lgWriteStopped (ready_leg l)"
  by (auto simp: startSessionMediaRTP_def resetDialogLegRTP_def clearSessionMediaHooks_def align_dtmf_def)

lemma valid_ready [simp]: "validateBridgeLegRTP (Some (ready_leg l)) = validateBridgeLegRTP (Some l)"
  by (rule valid_same) simp_all

lemma valid_stopped [simp]: "validateBridgeLegRTP (Some (stopLegMedia l)) = validateBridgeLegRTP (Some l)"
  by (rule valid_same) simp_all

lemma valid_kind: "validateBridgeLegRTP (Some l) = None \<Longrightarrow> sessionAsLeg (ready_leg l)"
  by (cases "lgKind l") (simp_all add: leg_valid sessionAsLeg_def)

text \<open>What a start depends on, apart from what it puts in order itself\<close>
definition start_of :: "leg \<Rightarrow> leg \<Rightarrow> (start_err, codec \<times> codec) result" where
  "start_of a c =
     (case validateBridgeLegRTP (Some a) of
        Some e \<Rightarrow> Err (BadLegA e)
      | None \<Rightarrow>
          (case validateBridgeLegRTP (Some c) of
             Some e \<Rightarrow> Err (BadLegB e)
           | None \<Rightarrow>
               (case (NegotiatedCodec (lgMedia a), NegotiatedCodec (lgMedia c)) of
                  (Some ca, Some cb) \<Rightarrow>
                    if \<not> CanTranscode ca \<or> \<not> CanTranscode cb then Err (NoTranscoding (cName ca) (cName cb)) else Ok (ca, cb)
                | _ \<Rightarrow> Err CodecNotNegotiated)))"

lemma start_both: "startTranscodingBridge (Some a, Some c) = (start_of a c, Some (ready_leg a), Some (ready_leg c))"
proof (cases "validateBridgeLegRTP (Some a) = None \<and> validateBridgeLegRTP (Some c) = None")
  case True
  then have k: "sessionAsLeg (ready_leg a)" "sessionAsLeg (ready_leg c)" by (simp_all add: valid_kind)
  show ?thesis
  proof (cases "NegotiatedCodec (lgMedia a)")
    case None
    then show ?thesis using True by (simp add: startTranscodingBridge_def prepare_both start_of_def Let_def)
  next
    case (Some ca)
    note ca = Some
    show ?thesis
    proof (cases "NegotiatedCodec (lgMedia c)")
      case None
      then show ?thesis using True ca by (simp add: startTranscodingBridge_def prepare_both start_of_def Let_def)
    next
      case (Some cb)
      then show ?thesis using True ca k
        by (simp add: startTranscodingBridge_def prepare_both start_of_def Let_def bridge_codecs_def)
    qed
  qed
next
  case False
  then show ?thesis
    by (cases "validateBridgeLegRTP (Some a)"; cases "validateBridgeLegRTP (Some c)")
       (simp_all add: startTranscodingBridge_def prepare_both start_of_def Let_def)
qed

lemma start_nil: "p = (None, c) \<or> p = (Some a, None) \<Longrightarrow>
    \<exists>e. startTranscodingBridge p = (Err (BadLegA e), p) \<or> startTranscodingBridge p = (Err (BadLegB e), p)"
proof (elim disjE)
  assume p: "p = (Some a, None)"
  show ?thesis unfolding p
    by (cases "validateBridgeLegRTP (Some a)") (auto simp: startTranscodingBridge_def prepareLegsForBridge_def validateBridgeLegRTP_def Let_def)
qed (simp add: startTranscodingBridge_def prepareLegsForBridge_def validateBridgeLegRTP_def)

lemma start_of_Ok: "start_of a c = Ok (ca, cb) \<longleftrightarrow> bridgeable a ca \<and> bridgeable c cb"
proof -
  have v: "validateBridgeLegRTP (Some l) = None \<and> NegotiatedCodec (lgMedia l) = Some k \<and> CanTranscode k \<longleftrightarrow> bridgeable l k" for l k
    by (cases "lgMedia l") (auto simp: leg_valid bridgeable_def NegotiatedCodec_None)
  have "start_of a c = Ok (ca, cb) \<longleftrightarrow>
      (validateBridgeLegRTP (Some a) = None \<and> NegotiatedCodec (lgMedia a) = Some ca \<and> CanTranscode ca)
      \<and> (validateBridgeLegRTP (Some c) = None \<and> NegotiatedCodec (lgMedia c) = Some cb \<and> CanTranscode cb)"
    by (auto simp: start_of_def split: option.splits if_splits)
  then show ?thesis by (simp only: v)
qed

text \<open>C17: The only bridge: it starts exactly when both legs are dialogs with media, an RTP reader and writer and codecs
  that can be transcoded, after which both are free of earlier players and run in both directions; the checks
  the audio bridge makes once more never fail.  What its stop function leaves can be bridged again, with the same
  codecs.\<close>
theorem bridge_starts_iff:
  "(\<forall>ca cb. fst (startTranscodingBridge p) = Ok (ca, cb) \<longleftrightarrow>
      (\<exists>a c. p = (Some a, Some c) \<and> bridgeable a ca \<and> bridgeable c cb))
   \<and> (\<forall>e. fst (startTranscodingBridge p) \<noteq> Err (BridgeRefused e)) \<and> fst (startTranscodingBridge p) \<noteq> Err UnsupportedPair
   \<and> (\<forall>cs a c. startTranscodingBridge p = (Ok cs, Some a, Some c) \<longrightarrow>
        (\<forall>l \<in> {a, c}. \<not> lgHooks l \<and> \<not> lgReadStopped l \<and> \<not> lgWriteStopped l))
   \<and> fst (startTranscodingBridge (bridge_stop (snd (startTranscodingBridge p)))) = fst (startTranscodingBridge p)"
proof -
  consider (both) a c where "p = (Some a, Some c)" | (nil) a c where "p = (None, c) \<or> p = (Some a, None)"
    by (cases p; cases "fst p"; cases "snd p") auto
  then show ?thesis
  proof cases
    case both
    have s: "start_of (stopLegMedia (ready_leg a)) (stopLegMedia (ready_leg c)) = start_of a c"
      by (simp only: start_of_def valid_ready valid_stopped leg_steps)
    have b: "lgMedia l \<noteq> None" if "bridgeable l k" for l k
      using that by (cases "lgMedia l") (simp_all add: bridgeable_def NegotiatedCodec_None)
    have "lgMedia a \<noteq> None \<and> lgMedia c \<noteq> None" if "start_of a c = Ok cs" for cs
      using that b start_of_Ok [of a c "fst cs" "snd cs"] by (metis prod.collapse)
    moreover have "start_of a c \<noteq> Err (BridgeRefused e) \<and> start_of a c \<noteq> Err UnsupportedPair" for e
      by (auto simp: start_of_def split: option.splits if_splits)
    ultimately show ?thesis using ready_runs
      unfolding both by (auto simp: start_both start_of_Ok bridge_stop_def s)
  next
    case nil
    have "\<exists>e. startTranscodingBridge p = (Err (BadLegA e), p) \<or> startTranscodingBridge p = (Err (BadLegB e), p)"
      by (rule start_nil [OF nil])
    moreover have "fst (startTranscodingBridge (bridge_stop p)) = fst (startTranscodingBridge p)"
    proof (cases "fst p")
      case None
      then obtain c' where p: "p = (None, c')" by (cases p) auto
      have none: "fst (startTranscodingBridge (None, q)) = Err (BadLegA NilDialog)" for q
        by (simp add: startTranscodingBridge_def prepareLegsForBridge_def validateBridgeLegRTP_def Let_def)
      show ?thesis unfolding p by (simp add: bridge_stop_def none)
    next
      case (Some a')
      then have "p = (Some a', None)" using nil by auto
      moreover have "validateBridgeLegRTP None = Some NilDialog" by (simp add: validateBridgeLegRTP_def)
      ultimately show ?thesis
        by (simp add: bridge_stop_def startTranscodingBridge_def prepareLegsForBridge_def Let_def split: option.split)
    qed
    ultimately show ?thesis using nil by auto
  qed
qed

section \<open>The wait for audio\<close>

text \<open>The wait is over by its deadline, at the latest, and reports audio only when a read brought a packet.\<close>
lemma wait_reads_bound:
  "\<forall>(over, took, got) \<in> set rs. 0 \<le> took \<Longrightarrow> now \<le> deadline \<Longrightarrow>
    now \<le> snd (wait_reads now deadline rs) \<and> snd (wait_reads now deadline rs) \<le> deadline
    \<and> (fst (wait_reads now deadline rs) \<longrightarrow> (\<exists>(over, took, got) \<in> set rs. got \<and> \<not> over))"
proof (induction now deadline rs rule: wait_reads.induct)
  case (2 now deadline over took got rs)
  let ?until = "min (now + 10 ^ 8) deadline"
  let ?later = "min (now + took) ?until"
  have e: "now \<le> ?later" "?later \<le> deadline" using "2.prems" by auto
  show ?case
  proof (cases "deadline \<le> now \<or> over")
    case False
    show ?thesis
    proof (cases "got \<and> now + took \<le> ?until")
      case True
      then show ?thesis using False e by (auto simp: Let_def)
    next
      case c: False
      have "wait_reads now deadline ((over, took, got) # rs) = wait_reads ?later deadline rs"
        using False c by (auto simp: Let_def)
      moreover have "?later \<le> snd (wait_reads ?later deadline rs) \<and> snd (wait_reads ?later deadline rs) \<le> deadline
        \<and> (fst (wait_reads ?later deadline rs) \<longrightarrow> (\<exists>(over, took, got) \<in> set rs. got \<and> \<not> over))"
        using "2.IH" [OF _ _ refl refl] False c e "2.prems"(1) by auto
      ultimately show ?thesis using e by auto
    qed
  qed (use "2.prems" in auto)
qed auto

lemma inbound_wait_bound:
  assumes "\<forall>(over, took, got) \<in> set rs. 0 \<le> took"
  shows "0 \<le> snd (waitForInboundRTP m timeout rs)
    \<and> snd (waitForInboundRTP m timeout rs) \<le> (if timeout \<le> 0 then 2 * 10 ^ 9 else timeout)"
  using wait_reads_bound [OF assms, of 0 "if timeout \<le> 0 then holdInboundRTPWait else timeout"]
  by (auto simp: waitForInboundRTP_def holdInboundRTPWait_def)

section \<open>The codecs after a hold\<close>

lemma find_none_iff: "List.find P xs = None \<longleftrightarrow> (\<forall>x \<in> set xs. \<not> P x)"
  by (induction xs) auto

text \<open>After a hold each leg goes back to the codec it was bridged with, whatever the descriptions exchanged
  during the hold have put first, when it is still agreed on; otherwise its codec stays.  No codec is lost.\<close>
theorem hold_restores_codec:
  assumes "NegotiatedCodec (Some before) = Some c" "cName c \<noteq> []"
  shows "let after = RestorePrimaryCodec c s; agreed = (if msCommon s = [] then msCodecs s else msCommon s) in
     (\<exists>x \<in> set agreed. same_codec c x) = (\<exists>x. NegotiatedCodec (Some after) = Some x \<and> same_codec c x \<and> x \<in> set agreed)
   \<and> ((\<forall>x \<in> set agreed. \<not> same_codec c x) \<longrightarrow> CodecAudioFromList (msCommon after) = CodecAudioFromList agreed)
   \<and> (\<forall>x \<in> set agreed. \<exists>y \<in> set (msCommon after). same_codec x y)"
proof -
  let ?agreed = "if msCommon s = [] then msCodecs s else msCommon s"
  have audio: "cName c \<noteq> ''telephone-event''"
    using assms(1) by (auto simp: NegotiatedCodec_def CodecAudioFromList_def find_Some_iff split: option.splits)
  let ?found = "(case List.find (same_codec c) ?agreed of None \<Rightarrow> [] | Some x \<Rightarrow> [x]) @ filter (\<lambda>x. \<not> same_codec c x) ?agreed"
  have after: "msCommon (RestorePrimaryCodec c s) = (if ?found \<noteq> [] then ?found else msCommon s)"
    using assms(2) by (simp add: RestorePrimaryCodec_def Let_def)
  show ?thesis
  proof (cases "List.find (same_codec c) ?agreed")
    case None
    then have n: "\<forall>x \<in> set ?agreed. \<not> same_codec c x" by (simp only: find_none_iff)
    then have f: "?found = ?agreed" using None by (simp add: filter_id_conv)
    have "msCommon (RestorePrimaryCodec c s) = (if ?agreed \<noteq> [] then ?agreed else msCommon s)" unfolding after f ..
    then have m: "msCommon (RestorePrimaryCodec c s) = ?agreed" by auto
    have "msCodecs (RestorePrimaryCodec c s) = msCodecs s" by (simp add: RestorePrimaryCodec_def Let_def)
    then show ?thesis using n m by (auto simp: Let_def same_codec_def)
  next
    case (Some x)
    then have x: "same_codec c x" "x \<in> set ?agreed" by (auto simp: find_Some_iff)
    have m: "msCommon (RestorePrimaryCodec c s) = x # filter (\<lambda>x. \<not> same_codec c x) ?agreed" unfolding after Some by simp
    have "cName x \<noteq> ''telephone-event''" using audio x(1) by (simp add: same_codec_def)
    then have "NegotiatedCodec (Some (RestorePrimaryCodec c s)) = Some x"
      by (simp add: NegotiatedCodec_def CodecAudioFromList_def m)
    then show ?thesis using x m by (auto simp: Let_def same_codec_def)
  qed
qed

lemma hold_restores_codec_witness:
  "NegotiatedCodec (Some (RestorePrimaryCodec (mk_codec ''PCMA'' 8 20)
      \<lparr>msCommon = [mk_codec ''PCMU'' 0 20, mk_codec ''PCMA'' 8 20], msCodecs = []\<rparr>)) = Some (mk_codec ''PCMA'' 8 20)"
proof -
  let ?c = "mk_codec ''PCMA'' 8 20" and ?s = "\<lparr>msCommon = [mk_codec ''PCMU'' 0 20, mk_codec ''PCMA'' 8 20], msCodecs = []\<rparr>"
  have "NegotiatedCodec (Some \<lparr>msCommon = [mk_codec ''PCMA'' 8 20], msCodecs = []\<rparr>) = Some (mk_codec ''PCMA'' 8 20)"
    by (simp add: NegotiatedCodec_def CodecAudioFromList_def mk_codec_def)
  note h = hold_restores_codec [OF this, of ?s, unfolded Let_def, THEN conjunct1]
  have "\<exists>x \<in> set (msCommon ?s). same_codec ?c x" by (simp add: same_codec_def mk_codec_def)
  then obtain x where x: "NegotiatedCodec (Some (RestorePrimaryCodec ?c ?s)) = Some x" "same_codec ?c x" "x \<in> set (msCommon ?s)"
    using h by (auto simp: mk_codec_def)
  then have "x = ?c" by (auto simp: same_codec_def mk_codec_def)
  with x(1) show ?thesis by simp
qed


lemma bridge_starts_iff_witness:
  "let l = \<lparr>lgKind = ClientDialog, lgMedia = Some \<lparr>msCommon = [], msCodecs = [mk_codec ''PCMU'' 0 20]\<rparr>, lgReader = True, lgWriter = True,
      lgHooks = True, lgReadStopped = True, lgWriteStopped = True, lgTimestampReset = False, lgAligned = False\<rparr>
   in fst (startTranscodingBridge (bridge_stop (snd (startTranscodingBridge (Some l, Some l))))) = Ok (mk_codec ''PCMU'' 0 20, mk_codec ''PCMU'' 0 20)"
proof -
  let ?c = "mk_codec ''PCMU'' 0 20"
  let ?l = "\<lparr>lgKind = ClientDialog, lgMedia = Some \<lparr>msCommon = [], msCodecs = [?c]\<rparr>, lgReader = True, lgWriter = True,
      lgHooks = True, lgReadStopped = True, lgWriteStopped = True, lgTimestampReset = False, lgAligned = False\<rparr>"
  have "bridgeable ?l ?c"
    by (simp add: bridgeable_def NegotiatedCodec_def CodecAudioFromList_def mk_codec_def CanTranscode_def Supported_def New_def)
  then have "fst (startTranscodingBridge (Some ?l, Some ?l)) = Ok (?c, ?c)"
    using bridge_starts_iff [of "(Some ?l, Some ?l)", THEN conjunct1] by blast
  with bridge_starts_iff [of "(Some ?l, Some ?l)"] show ?thesis by (simp add: Let_def)
qed

end
