(* ===== verification/Dtmf.thy ===== *)
theory Dtmf
  imports Complex_Main Codecs GoPath
begin

unbundle bit_operations_syntax

text \<open>
  Digits a caller dials, internal/call/dtmf.go, dtmf_inband.go, dtmf_dual.go,
  dtmf_codec.go and dtmf_sdp.go: telephone-event packets of RFC 4733, tones in
  the audio, and the payload types of both.  The Goertzel filter and the audio
  decoders are arguments; what a filter measures in a block of samples is a
  list of eight rational magnitudes, as floats are rationals.
\<close>

section \<open>Telephone events\<close>

record dtmf_event =
  dvEvent :: "8 word"
  dvEnd :: bool
  dvVolume :: "8 word"
  dvDuration :: "16 word"

definition zero_event :: dtmf_event where
  "zero_event = \<lparr>dvEvent = 0, dvEnd = False, dvVolume = 0, dvDuration = 0\<rparr>"

definition dtmf_digits :: string where "dtmf_digits = ''0123456789*#ABCD''"

definition DTMFToRune :: "8 word \<Rightarrow> char option" where
  "DTMFToRune e = (if unat e < 16 then Some (dtmf_digits ! unat e) else None)"

definition DTMFDecode :: "8 word list \<Rightarrow> dtmf_event option" where
  "DTMFDecode payload =
     (case payload of
        a # b # c # d # _ \<Rightarrow>
          Some \<lparr>dvEvent = a, dvEnd = ((b AND 0x80) \<noteq> 0), dvVolume = b AND 0x7F,
                dvDuration = (push_bit 8 (ucast c) OR ucast d)\<rparr>
      | _ \<Rightarrow> None)"

definition DTMFEncode :: "dtmf_event \<Rightarrow> 8 word list" where
  "DTMFEncode e =
     [dvEvent e, (if dvEnd e then 0x80 else 0) OR (dvVolume e AND 0x3F),
      ucast (drop_bit 8 (dvDuration e)), ucast (dvDuration e)]"

text \<open>The packets diago sends for a digit.\<close>
definition RTPDTMFEncode8000 :: "8 word \<Rightarrow> dtmf_event list" where
  "RTPDTMFEncode8000 e =
     List.map (\<lambda>i. \<lparr>dvEvent = e, dvEnd = False, dvVolume = 10, dvDuration = 160 * (word_of_nat i + 1)\<rparr>) [0..<4]
     @ replicate 3 \<lparr>dvEvent = e, dvEnd = True, dvVolume = 10, dvDuration = 800\<rparr>"

record rfc2833 =
  rdTimestamp :: "32 word"
  rdLast :: dtmf_event
  rdEmitted :: bool

definition new_rfc2833 :: rfc2833 where
  "new_rfc2833 = \<lparr>rdTimestamp = 0, rdLast = zero_event, rdEmitted = False\<rparr>"

definition processEvent :: "dtmf_event \<Rightarrow> bool \<Rightarrow> rfc2833 \<Rightarrow> char option \<times> rfc2833" where
  "processEvent ev marker r =
     (if dvEnd ev then
        (if rdEmitted r then (None, r)
         else if dvDuration (rdLast r) = 0 then (None, r)
         else if dvEvent (rdLast r) \<noteq> dvEvent ev then (None, r)
         else (DTMFToRune (dvEvent ev), r\<lparr>rdLast := zero_event, rdEmitted := True\<rparr>))
      else if marker \<or> dvEvent (rdLast r) \<noteq> dvEvent ev then (None, r\<lparr>rdLast := ev, rdEmitted := False\<rparr>)
      else if \<not> rdEmitted r \<and> 320 \<le> dvDuration ev then
        (case DTMFToRune (dvEvent ev) of
           Some d \<Rightarrow> (Some d, r\<lparr>rdEmitted := True\<rparr>)
         | None \<Rightarrow> (None, r\<lparr>rdEmitted := True, rdLast := ev\<rparr>))
      else (None, r\<lparr>rdLast := ev\<rparr>))"

definition processPayload :: "8 word list \<Rightarrow> bool \<Rightarrow> rfc2833 \<Rightarrow> char option \<times> rfc2833" where
  "processPayload payload marker r =
     (case DTMFDecode payload of None \<Rightarrow> (None, r) | Some ev \<Rightarrow> processEvent ev marker r)"

section \<open>Tones in the audio\<close>

definition inbandBlockSamples :: nat where "inbandBlockSamples = 160"
definition inbandMinActive :: nat where "inbandMinActive = 2"
definition inbandMinGap :: nat where "inbandMinGap = 2"

definition inbandDTMFDigit :: "string list" where
  "inbandDTMFDigit = [''123A'', ''456B'', ''789C'', ''*0#D'']"

text \<open>bestMagnitude with the loop's index, and secondBestMagnitude\<close>
fun best_from :: "nat \<Rightarrow> rat list \<Rightarrow> nat \<times> rat \<Rightarrow> nat \<times> rat" where
  "best_from i [] acc = acc"
| "best_from i (m # ms) (idx, mag) = best_from (Suc i) ms (if mag < m then (i, m) else (idx, mag))"

definition bestMagnitude :: "rat list \<Rightarrow> nat \<times> rat" where
  "bestMagnitude ms = best_from 0 ms (0, 0)"

definition secondBestMagnitude :: "rat list \<Rightarrow> rat" where
  "secondBestMagnitude ms =
     snd (fold (\<lambda>m (first, second). if first < m then (m, first) else if second < m then (first, m) else (first, second)) ms (0, 0))"

definition detectInbandDigit :: "rat \<Rightarrow> rat list \<Rightarrow> char option" where
  "detectInbandDigit threshold mags =
     (let low = take 4 mags; high = take 4 (drop 4 mags); (li, lm) = bestMagnitude low; (hi, hm) = bestMagnitude high in
      if lm < threshold \<or> hm < threshold then None
      else if lm / 4 < secondBestMagnitude low then None
      else if hm / 4 < secondBestMagnitude high then None
      else if li < 4 \<and> hi < 4 then Some (inbandDTMFDigit ! li ! hi) else None)"

record inband =
  ibBlock :: "int list"
  ibPending :: "char option"
  ibPendingBlks :: nat
  ibGapBlks :: nat
  ibEmitted :: bool

definition newInbandDetector :: inband where
  "newInbandDetector = \<lparr>ibBlock = [], ibPending = None, ibPendingBlks = 0, ibGapBlks = 0, ibEmitted = False\<rparr>"

text \<open>finishBlock, for what was detected in the block\<close>
definition finish_block :: "char option \<Rightarrow> inband \<Rightarrow> char option \<times> inband" where
  "finish_block found d =
     (case found of
        Some c \<Rightarrow>
          (let d1 = d\<lparr>ibGapBlks := 0\<rparr>;
               d2 = (if ibPending d1 = Some c then d1\<lparr>ibPendingBlks := Suc (ibPendingBlks d1)\<rparr>
                     else d1\<lparr>ibPending := Some c, ibPendingBlks := 1, ibEmitted := False\<rparr>)
           in if inbandMinActive \<le> ibPendingBlks d2 \<and> \<not> ibEmitted d2 then (Some c, d2\<lparr>ibEmitted := True\<rparr>) else (None, d2))
      | None \<Rightarrow>
          (let d1 = d\<lparr>ibGapBlks := Suc (ibGapBlks d)\<rparr>
           in (None, if inbandMinGap \<le> ibGapBlks d1 then d1\<lparr>ibPending := None, ibPendingBlks := 0, ibEmitted := False\<rparr> else d1)))"

text \<open>What the Goertzel filters measure in a block, and the threshold of the library.\<close>
record tone_lib =
  tnMags :: "int list \<Rightarrow> rat list"
  tnThreshold :: rat

definition finishBlock :: "tone_lib \<Rightarrow> inband \<Rightarrow> char option \<times> inband" where
  "finishBlock lib d =
     (let (r, d1) = finish_block (detectInbandDigit (tnThreshold lib) (tnMags lib (ibBlock d))) d
      in (r, d1\<lparr>ibBlock := []\<rparr>))"

fun FeedPCM :: "tone_lib \<Rightarrow> int list \<Rightarrow> inband \<Rightarrow> string \<times> inband" where
  "FeedPCM lib [] d = ([], d)"
| "FeedPCM lib (x # xs) d =
     (let d1 = d\<lparr>ibBlock := ibBlock d @ [x]\<rparr> in
      if length (ibBlock d1) < inbandBlockSamples then FeedPCM lib xs d1
      else (let (r, d2) = finishBlock lib d1; (out, d3) = FeedPCM lib xs d2
            in ((case r of None \<Rightarrow> out | Some c \<Rightarrow> c # out), d3)))"

section \<open>Both at once\<close>

definition inbandSupportedCodec :: "codec \<Rightarrow> bool" where
  "inbandSupportedCodec c = (cPT c \<in> {0, 8} \<and> cRate c = 8000)"

record collector =
  coAudio :: codec
  coPTs :: "8 word list"
  coInband :: "inband option"
  coRfc :: rfc2833

record rtp_packet =
  rkPT :: "8 word"
  rkMarker :: bool
  rkTimestamp :: "32 word"
  rkPayload :: "8 word list"

definition uses_g722 :: "codec \<Rightarrow> bool" where
  "uses_g722 c = (\<not> inbandSupportedCodec c \<and> (cName c = ''G722'' \<or> cPT c = 9))"

definition newDualDTMFCollector :: "codec \<Rightarrow> 8 word list \<Rightarrow> collector" where
  "newDualDTMFCollector audio pts =
     \<lparr>coAudio = audio, coPTs = pts,
      coInband = (if inbandSupportedCodec audio \<or> uses_g722 audio then Some newInbandDetector else None),
      coRfc = new_rfc2833\<rparr>"

definition isAudioPacket :: "8 word \<Rightarrow> collector \<Rightarrow> bool" where
  "isAudioPacket pt d = (pt = cPT (coAudio d) \<or> (cName (coAudio d) = ''G722'' \<and> pt = 9))"

text \<open>Read: the digits a packet reports, for a decoder of the audio codec that may fail.  A
  digit that ends the entry stops the reading of its packet.\<close>
definition read_packet :: "tone_lib \<Rightarrow> (8 word list \<Rightarrow> int list option) \<Rightarrow> rtp_packet \<Rightarrow> collector \<Rightarrow> string \<times> collector" where
  "read_packet lib decode p d =
     (if rkPT p \<in> set (coPTs d) then
        (let marker = (rkMarker p \<or> rdTimestamp (coRfc d) \<noteq> rkTimestamp p);
             (digit, r) = processPayload (rkPayload p) marker (coRfc d)
         in ((case digit of None \<Rightarrow> [] | Some c \<Rightarrow> [c]),
             d\<lparr>coRfc := (if digit = Some (CHR ''#'') then r else r\<lparr>rdTimestamp := rkTimestamp p\<rparr>)\<rparr>))
      else (case coInband d of
              None \<Rightarrow> ([], d)
            | Some ib \<Rightarrow>
                if \<not> isAudioPacket (rkPT p) d then ([], d)
                else (case decode (rkPayload p) of
                        None \<Rightarrow> ([], d)
                      | Some pcm \<Rightarrow> (let (out, ib1) = FeedPCM lib pcm ib in (out, d\<lparr>coInband := Some ib1\<rparr>)))))"

fun listen :: "tone_lib \<Rightarrow> (8 word list \<Rightarrow> int list option) \<Rightarrow> rtp_packet list \<Rightarrow> collector \<Rightarrow> string" where
  "listen lib decode [] d = []"
| "listen lib decode (p # ps) d =
     (let (out, d1) = read_packet lib decode p d
      in if CHR ''#'' \<in> set out then takeWhile (\<lambda>c. c \<noteq> CHR ''#'') out @ ''#'' else out @ listen lib decode ps d1)"

section \<open>Collecting an entry\<close>

text \<open>How the collection ends: the timeout, the end of the call, or the reader.\<close>
datatype collect_end = TimedOut | CallEnded | ReaderEnded

definition ReadDTMFDigits :: "bool \<Rightarrow> collect_end \<Rightarrow> string \<Rightarrow> string option" where
  "ReadDTMFDigits acceptPartial how seen =
     (let entered = filter is_digit (takeWhile (\<lambda>c. c \<noteq> CHR ''#'') seen); hash = (CHR ''#'' \<in> set seen) in
      case how of
        TimedOut \<Rightarrow> if hash then Some entered else if acceptPartial \<and> entered \<noteq> [] then Some entered else None
      | CallEnded \<Rightarrow> None
      | ReaderEnded \<Rightarrow> if hash then Some entered else None)"

section \<open>Payload types\<close>

definition DynamicPayloadTypeMin :: "8 word" where "DynamicPayloadTypeMin = 96"
definition DynamicPayloadTypeMax :: "8 word" where "DynamicPayloadTypeMax = 127"

definition isDynamicPayloadType :: "8 word \<Rightarrow> bool" where
  "isDynamicPayloadType pt = (DynamicPayloadTypeMin \<le> pt \<and> pt \<le> DynamicPayloadTypeMax)"

definition is_te :: "codec \<Rightarrow> bool" where
  "is_te c = (cName c = ''telephone-event'')"

text \<open>The loops over codecs that keep the first codec of every payload type.\<close>
fun keep_new :: "codec list \<Rightarrow> codec list \<Rightarrow> codec list" where
  "keep_new kept [] = kept"
| "keep_new kept (c # cs) =
     keep_new (if cPT c \<in> set (List.map cPT kept) then kept else kept @ [c]) cs"

definition alignCodecsWithRemoteDTMF :: "codec list \<Rightarrow> codec list \<Rightarrow> codec list" where
  "alignCodecsWithRemoteDTMF local remotes =
     (if remotes = [] \<or> local = [] then local
      else keep_new (keep_new [] (filter (\<lambda>c. \<not> is_te c) local)) remotes)"

text \<open>telephoneEventsFromSDP, from the codecs the library reads in the body\<close>
definition telephoneEventsFromSDP :: "codec list option \<Rightarrow> codec list" where
  "telephoneEventsFromSDP body = (case body of None \<Rightarrow> [] | Some cs \<Rightarrow> filter is_te cs)"

definition dtmfPrimaryCodec :: "codec list \<Rightarrow> codec \<Rightarrow> codec" where
  "dtmfPrimaryCodec remotes fallback = (case remotes of [] \<Rightarrow> fallback | c # _ \<Rightarrow> c)"

definition dtmfCodecFromList :: "codec list \<Rightarrow> codec \<Rightarrow> codec" where
  "dtmfCodecFromList cs fallback = (case List.find is_te cs of None \<Rightarrow> fallback | Some c \<Rightarrow> c)"

definition patchMediaSessionDTMFCodec :: "codec list option \<Rightarrow> codec \<Rightarrow> codec list \<Rightarrow> codec \<times> codec list" where
  "patchMediaSessionDTMFCodec body fallback cs =
     (let remotes = telephoneEventsFromSDP body; primary = dtmfPrimaryCodec remotes fallback;
          kept = keep_new (keep_new [] (filter (\<lambda>c. \<not> is_te c) cs)) remotes;
          extra = (if remotes = [] then fallback else primary)
      in (primary, if cPT extra \<in> set (List.map cPT kept) then kept else kept @ [extra]))"

text \<open>EnsureSessionDTMFCodec over the bodies of sdpBodiesForDTMF\<close>
fun ensure_dtmf :: "codec list option list \<Rightarrow> codec \<Rightarrow> codec list \<Rightarrow> codec \<times> codec list" where
  "ensure_dtmf [] primary cs = (primary, cs)"
| "ensure_dtmf (b # bs) primary cs =
     (let (p, cs1) = patchMediaSessionDTMFCodec b primary cs in ensure_dtmf bs p cs1)"

definition EnsureSessionDTMFCodec :: "codec list option list \<Rightarrow> codec list \<Rightarrow> codec \<times> codec list" where
  "EnsureSessionDTMFCodec bodies cs = ensure_dtmf bodies CodecTelephoneEvent8000 cs"

definition audioPayloadTypes :: "codec list option \<Rightarrow> codec \<Rightarrow> 8 word list" where
  "audioPayloadTypes session primary =
     List.map cPT (filter (\<lambda>c. \<not> is_te c) ((case session of None \<Rightarrow> [] | Some cs \<Rightarrow> cs) @ [primary]))"

text \<open>The codecs of a session are its own and the common ones.\<close>
definition buildTelephoneEventPTSetFromSDPs :: "codec list option \<Rightarrow> codec list option list \<Rightarrow> codec \<Rightarrow> 8 word list" where
  "buildTelephoneEventPTSetFromSDPs session bodies primary =
     List.map cPT (filter is_te (primary # (case session of None \<Rightarrow> [] | Some cs \<Rightarrow> cs)) @ concat (List.map telephoneEventsFromSDP bodies))
     @ filter (\<lambda>pt. pt \<notin> set (audioPayloadTypes session primary)) (List.map word_of_nat [96..<128])"

definition BuildTelephoneEventPTSet :: "codec list option \<Rightarrow> codec list option \<Rightarrow> codec \<Rightarrow> 8 word list" where
  "BuildTelephoneEventPTSet session invite primary = buildTelephoneEventPTSetFromSDPs session [invite] primary"

section \<open>Music on hold files\<close>

text \<open>wavFilesIn and MOHTracks: a directory that can be read is the list of its entries with
  whether each is a directory; isFile says which paths are files.\<close>
definition wavFilesIn :: "string \<Rightarrow> (string \<times> bool) list option \<Rightarrow> string list option" where
  "wavFilesIn dir entries =
     map_option (\<lambda>es. List.map (\<lambda>n. Join [dir, n])
       (sortStrings (List.map fst (filter (\<lambda>e. \<not> snd e \<and> equal_fold (Ext (fst e)) ''.wav'') es)))) entries"

definition MOHTracks :: "string \<Rightarrow> (string \<times> bool) list option \<Rightarrow> (string \<Rightarrow> bool) \<Rightarrow> string list option" where
  "MOHTracks dir entries isFile =
     (case wavFilesIn dir entries of
        None \<Rightarrow> None
      | Some ts \<Rightarrow>
          if ts \<noteq> [] then Some ts
          else map_option (\<lambda>p. [p]) (List.find isFile (List.map (\<lambda>n. Join [Dir dir, n]) [''moh.wav'', ''hold.wav''])))"

section \<open>Telephone events are read back\<close>

fun run_events :: "(dtmf_event \<times> bool) list \<Rightarrow> rfc2833 \<Rightarrow> string \<times> rfc2833" where
  "run_events [] r = ([], r)"
| "run_events ((ev, m) # rest) r =
     (let (d, r1) = processEvent ev m r; (ds, r2) = run_events rest r1
      in ((case d of None \<Rightarrow> ds | Some c \<Rightarrow> c # ds), r2))"

lemma fst_run_Cons:
  "fst (run_events ((ev, m) # rest) r) =
     (case fst (processEvent ev m r) of None \<Rightarrow> [] | Some c \<Rightarrow> [c]) @ fst (run_events rest (snd (processEvent ev m r)))"
  by (simp add: Let_def case_prod_unfold split: option.split)

declare run_events.simps(2) [simp del] fst_run_Cons [simp]

text \<open>Packets of a press after its digit was reported.\<close>
lemma run_quiet:
  assumes "rdEmitted r" "dvEvent (rdLast r) = e" "\<forall>ev \<in> set evs. \<not> dvEnd ev \<longrightarrow> dvEvent ev = e"
  shows "fst (run_events (List.map (\<lambda>ev. (ev, False)) evs) r) = []"
  using assms
proof (induction evs arbitrary: r)
  case (Cons ev evs)
  show ?case
  proof (cases "dvEnd ev")
    case True
    then have "processEvent ev False r = (None, r)" using Cons.prems(1) by (simp add: processEvent_def)
    with Cons.IH [of r] Cons.prems show ?thesis by simp
  next
    case False
    then have "processEvent ev False r = (None, r\<lparr>rdLast := ev\<rparr>)"
      using Cons.prems by (simp add: processEvent_def)
    with Cons.IH [of "r\<lparr>rdLast := ev\<rparr>"] Cons.prems False show ?thesis by simp
  qed
qed simp

lemma run_ends:
  assumes "rdEmitted r" "\<forall>ev \<in> set evs. dvEnd ev"
  shows "fst (run_events (List.map (\<lambda>ev. (ev, False)) evs) r) = []"
  using assms(2)
proof (induction evs)
  case (Cons ev evs)
  then have "processEvent ev False r = (None, r)" using assms(1) by (simp add: processEvent_def)
  with Cons show ?case by simp
qed simp

lemma run_press:
  assumes "\<not> rdEmitted r" "dvEvent (rdLast r) = e" "DTMFToRune e = Some c"
    and ns: "\<forall>ev \<in> set ns. \<not> dvEnd ev \<and> dvEvent ev = e" and es: "\<forall>ev \<in> set es. dvEnd ev \<and> dvEvent ev = e" "es \<noteq> []"
    and dur: "dvDuration (last (rdLast r # ns)) \<noteq> 0"
  shows "fst (run_events (List.map (\<lambda>ev. (ev, False)) (ns @ es)) r) = [c]"
  using assms(1,2) ns dur
proof (induction ns arbitrary: r)
  case Nil
  obtain x xs where x: "es = x # xs" using es(2) by (cases es) auto
  have xe: "dvEnd x" "dvEvent x = e" and l: "dvDuration (rdLast r) \<noteq> 0" using es(1) x Nil(4) by auto
  have p: "processEvent x False r = (Some c, r\<lparr>rdLast := zero_event, rdEmitted := True\<rparr>)"
    using xe l Nil(1,2) assms(3) unfolding processEvent_def by (simp only: if_True if_False simp_thms)
  have "fst (run_events (List.map (\<lambda>ev. (ev, False)) xs) (r\<lparr>rdLast := zero_event, rdEmitted := True\<rparr>)) = []"
    by (rule run_ends) (use es(1) x in auto)
  then show ?case unfolding x by (simp add: p)
next
  case (Cons ev ns)
  show ?case
  proof (cases "320 \<le> dvDuration ev")
    case True
    have p: "processEvent ev False r = (Some c, r\<lparr>rdEmitted := True\<rparr>)"
      using Cons.prems True assms(3) by (simp add: processEvent_def)
    have "fst (run_events (List.map (\<lambda>ev. (ev, False)) (ns @ es)) (r\<lparr>rdEmitted := True\<rparr>)) = []"
      by (rule run_quiet [of _ e]) (use Cons.prems es(1) in auto)
    then show ?thesis by (simp add: p)
  next
    case False
    then have p: "processEvent ev False r = (None, r\<lparr>rdLast := ev\<rparr>)" using Cons.prems(1-3) by (simp add: processEvent_def)
    have "fst (run_events (List.map (\<lambda>ev. (ev, False)) (ns @ es)) (r\<lparr>rdLast := ev\<rparr>)) = [c]"
      by (rule Cons.IH) (use Cons.prems in auto)
    then show ?thesis by (simp add: p)
  qed
qed

text \<open>A key press is read as exactly one digit, whatever came before it and however many of its
  packets are lost, as long as one packet of the tone with a duration and one end packet arrive
  in order.\<close>
theorem press_read_once:
  assumes "DTMFToRune e = Some c" "ns \<noteq> []" "es \<noteq> []"
    and "\<forall>ev \<in> set ns. \<not> dvEnd ev \<and> dvEvent ev = e" "\<forall>ev \<in> set es. dvEnd ev \<and> dvEvent ev = e"
    and "dvDuration (last ns) \<noteq> 0"
  shows "fst (run_events ((hd ns, True) # List.map (\<lambda>ev. (ev, False)) (tl ns @ es)) r) = [c]"
proof -
  obtain n ms where n: "ns = n # ms" using assms(2) by (cases ns) auto
  have p: "processEvent n True r = (None, r\<lparr>rdLast := n, rdEmitted := False\<rparr>)"
    using assms(4) n by (simp add: processEvent_def)
  have "fst (run_events (List.map (\<lambda>ev. (ev, False)) (ms @ es)) (r\<lparr>rdLast := n, rdEmitted := False\<rparr>)) = [c]"
    by (rule run_press [OF _ _ assms(1) _ assms(5,3)]) (use assms(4,6) n in auto)
  then show ?thesis unfolding n by (simp add: p)
qed

text \<open>A packet of the tone that arrives after an end packet makes the next end packet report
  the digit a second time.\<close>
theorem late_packet_repeats:
  assumes "DTMFToRune e = Some c" "e \<noteq> 0"
    and "\<not> dvEnd n \<and> dvEvent n = e \<and> dvDuration n \<noteq> 0 \<and> dvDuration n < 320" "dvEnd x \<and> dvEvent x = e"
  shows "fst (run_events [(n, True), (x, False), (n, False), (x, False)] r) = [c, c]"
  using assms by (simp add: processEvent_def zero_event_def)

lemma decode_encode: "DTMFDecode (DTMFEncode ev) = Some (ev\<lparr>dvVolume := dvVolume ev AND 0x3F\<rparr>)"
proof -
  have d: "push_bit 8 (ucast (ucast (drop_bit 8 x) :: 8 word)) OR ucast (ucast x :: 8 word) = x" for x :: "16 word"
    by (rule bit_word_eqI) (auto simp: bit_simps)
  have e: "(((if b then 0x80 else 0) OR (v AND 0x3F)) AND 0x80 \<noteq> 0) = b" for b and v :: "8 word"
  proof -
    have "(v AND 0x3F) AND 0x80 = 0" by (simp only: and.assoc) simp
    then show ?thesis by (cases b) (simp_all add: bit.conj_disj_distrib2)
  qed
  have v: "((if b then 0x80 else 0) OR (v AND 0x3F)) AND 0x7F = v AND 0x3F" for b and v :: "8 word"
  proof -
    have "(v AND 0x3F) AND 0x7F = v AND 0x3F" by (simp only: and.assoc) simp
    then show ?thesis by (cases b) (simp_all add: bit.conj_disj_distrib2)
  qed
  show ?thesis by (simp add: DTMFDecode_def DTMFEncode_def d e v)
qed

text \<open>A press as diago sends it, on one timestamp.\<close>
definition press_packets :: "8 word \<Rightarrow> 32 word \<Rightarrow> 8 word \<Rightarrow> rtp_packet list" where
  "press_packets pt ts e =
     List.map (\<lambda>i. \<lparr>rkPT = pt, rkMarker = (i = 0), rkTimestamp = ts,
                    rkPayload = DTMFEncode (RTPDTMFEncode8000 e ! i)\<rparr>) [0..<7]"

lemma RTPDTMFEncode8000_simps:
  "RTPDTMFEncode8000 e =
     [\<lparr>dvEvent = e, dvEnd = False, dvVolume = 10, dvDuration = 160\<rparr>, \<lparr>dvEvent = e, dvEnd = False, dvVolume = 10, dvDuration = 320\<rparr>,
      \<lparr>dvEvent = e, dvEnd = False, dvVolume = 10, dvDuration = 480\<rparr>, \<lparr>dvEvent = e, dvEnd = False, dvVolume = 10, dvDuration = 640\<rparr>]
     @ replicate 3 \<lparr>dvEvent = e, dvEnd = True, dvVolume = 10, dvDuration = 800\<rparr>"
  by (simp add: RTPDTMFEncode8000_def upt_rec)

definition after_press :: "32 word \<Rightarrow> dtmf_event \<Rightarrow> collector \<Rightarrow> collector" where
  "after_press ts ev d = d\<lparr>coRfc := \<lparr>rdTimestamp = ts, rdLast = ev, rdEmitted = True\<rparr>\<rparr>"

text \<open>The packets of a press, read one after the other.\<close>
lemma listen_press:
  assumes pt: "pt \<in> set (coPTs d)" and c: "DTMFToRune e = Some c"
  shows "\<exists>ev. listen lib decode (press_packets pt ts e @ rest) d
      = (if c = CHR ''#'' then ''#'' else c # listen lib decode rest (after_press ts ev d))"
proof -
  let ?p = "\<lambda>m ev. \<lparr>rkPT = pt, rkMarker = m, rkTimestamp = ts, rkPayload = DTMFEncode ev\<rparr>"
  let ?n = "\<lambda>dur. \<lparr>dvEvent = e, dvEnd = False, dvVolume = 10, dvDuration = dur\<rparr>"
  let ?x = "\<lparr>dvEvent = e, dvEnd = True, dvVolume = 10, dvDuration = 800\<rparr>"
  have v: "(10 :: 8 word) AND 0x3F = 10" by simp
  have first: "read_packet lib decode (?p True (?n 160)) d' = ([], d'\<lparr>coRfc := \<lparr>rdTimestamp = ts, rdLast = ?n 160, rdEmitted = False\<rparr>\<rparr>)"
    if "coPTs d' = coPTs d" for d'
    using that pt by (simp add: read_packet_def processPayload_def decode_encode processEvent_def v)
  have second: "read_packet lib decode (?p False (?n 320)) (d\<lparr>coRfc := \<lparr>rdTimestamp = ts, rdLast = ?n 160, rdEmitted = False\<rparr>\<rparr>)
      = ([c], d\<lparr>coRfc := \<lparr>rdTimestamp = ts, rdLast = ?n 160, rdEmitted = True\<rparr>\<rparr>)"
    using pt c by (simp add: read_packet_def processPayload_def decode_encode processEvent_def v)
  have more: "read_packet lib decode (?p False (?n dur)) (after_press ts ev d) = ([], after_press ts (?n dur) d)"
    if "dvEvent ev = e" for dur ev
    using pt that by (simp add: read_packet_def processPayload_def decode_encode processEvent_def after_press_def v)
  have last: "read_packet lib decode (?p False ?x) (after_press ts ev d) = ([], after_press ts ev d)" for ev
    using pt by (simp add: read_packet_def processPayload_def decode_encode processEvent_def after_press_def)
  have ps: "press_packets pt ts e = [?p True (?n 160), ?p False (?n 320), ?p False (?n 480), ?p False (?n 640),
      ?p False ?x, ?p False ?x, ?p False ?x]"
    by (simp add: press_packets_def RTPDTMFEncode8000_simps upt_rec numeral_3_eq_3 numeral_2_eq_2)
  have a: "d\<lparr>coRfc := \<lparr>rdTimestamp = ts, rdLast = ?n 160, rdEmitted = True\<rparr>\<rparr> = after_press ts (?n 160) d"
    by (simp add: after_press_def)
  show ?thesis
    by (rule exI [of _ "?n 640"]) (simp add: ps first second more last a)
qed

lemma after_press_PTs [simp]: "coPTs (after_press ts ev d) = coPTs d"
  by (simp add: after_press_def)

lemma digits_before_hash:
  "\<forall>x \<in> set xs. is_digit x \<and> x \<noteq> CHR ''#'' \<Longrightarrow> filter is_digit xs = xs"
  "\<forall>x \<in> set xs. is_digit x \<and> x \<noteq> CHR ''#'' \<Longrightarrow> takeWhile (\<lambda>c. c \<noteq> CHR ''#'') (xs @ ''#'') = xs"
  by (induction xs) auto

text \<open>C40: A number dialled as telephone events and ended with the hash key is read back digit for
  digit, whatever timestamps the presses have.\<close>
theorem number_read_back:
  assumes pt: "pt \<in> set (coPTs d)" and num: "\<forall>(e, ts) \<in> set presses. unat e < 10"
  shows "ReadDTMFDigits False ReaderEnded
      (listen lib decode (concat (List.map (\<lambda>(e, ts). press_packets pt ts e) presses) @ press_packets pt ts' 11) d)
    = Some (List.map (\<lambda>(e, ts). dtmf_digits ! unat e) presses)"
proof -
  have digit: "is_digit (dtmf_digits ! n) \<and> dtmf_digits ! n \<noteq> CHR ''#''" if "n < 10" for n
  proof -
    have "\<forall>n \<in> set [0..<10]. is_digit (dtmf_digits ! n) \<and> dtmf_digits ! n \<noteq> CHR ''#''" by code_simp
    with that show ?thesis by simp
  qed
  have "listen lib decode (concat (List.map (\<lambda>(e, ts). press_packets pt ts e) presses) @ press_packets pt ts' 11) d
      = List.map (\<lambda>(e, ts). dtmf_digits ! unat e) presses @ ''#''"
    using pt num
  proof (induction presses arbitrary: d)
    case Nil
    have "DTMFToRune 11 = Some (CHR ''#'')" by code_simp
    from listen_press [OF Nil(1) this, of lib decode ts' "[]"] show ?case by simp
  next
    case (Cons p presses)
    obtain e ts where p: "p = (e, ts)" by fastforce
    have e: "DTMFToRune e = Some (dtmf_digits ! unat e)" "dtmf_digits ! unat e \<noteq> CHR ''#''"
      using Cons.prems(2) p digit by (auto simp: DTMFToRune_def)
    from listen_press [OF Cons.prems(1) e(1)] Cons.IH Cons.prems e(2) show ?case
      by (simp add: p) (metis after_press_PTs)
  qed
  moreover have "filter is_digit (List.map (\<lambda>(e, ts). dtmf_digits ! unat e) presses) = List.map (\<lambda>(e, ts). dtmf_digits ! unat e) presses"
    and "takeWhile (\<lambda>c. c \<noteq> CHR ''#'') (List.map (\<lambda>(e, ts). dtmf_digits ! unat e) presses @ ''#'') = List.map (\<lambda>(e, ts). dtmf_digits ! unat e) presses"
  proof -
    have "\<forall>x \<in> set (List.map (\<lambda>(e, ts). dtmf_digits ! unat e) presses). is_digit x \<and> x \<noteq> CHR ''#''"
      using num digit by fastforce
    then show "filter is_digit (List.map (\<lambda>(e, ts). dtmf_digits ! unat e) presses) = List.map (\<lambda>(e, ts). dtmf_digits ! unat e) presses"
      and "takeWhile (\<lambda>c. c \<noteq> CHR ''#'') (List.map (\<lambda>(e, ts). dtmf_digits ! unat e) presses @ ''#'') = List.map (\<lambda>(e, ts). dtmf_digits ! unat e) presses"
      using digits_before_hash by (blast, blast)
  qed
  ultimately show ?thesis by (simp add: ReadDTMFDigits_def Let_def)
qed

section \<open>Tones are read back\<close>

fun run_blocks :: "char option list \<Rightarrow> inband \<Rightarrow> string \<times> inband" where
  "run_blocks [] d = ([], d)"
| "run_blocks (b # bs) d =
     (let (r, d1) = finish_block b d; (out, d2) = run_blocks bs d1
      in ((case r of None \<Rightarrow> out | Some c \<Rightarrow> c # out), d2))"

definition at_rest :: "inband \<Rightarrow> bool" where
  "at_rest d = (ibPending d = None \<and> ibPendingBlks d = 0 \<and> \<not> ibEmitted d)"

lemma run_blocks_append:
  "run_blocks (a @ b) d = (fst (run_blocks a d) @ fst (run_blocks b (snd (run_blocks a d))), snd (run_blocks b (snd (run_blocks a d))))"
  by (induction a arbitrary: d) (auto simp: Let_def case_prod_unfold split: option.split)

lemma run_emitted:
  assumes "ibPending d = Some c" "ibEmitted d"
  shows "fst (run_blocks (replicate n (Some c)) d) = [] \<and> ibPending (snd (run_blocks (replicate n (Some c)) d)) = Some c
    \<and> ibEmitted (snd (run_blocks (replicate n (Some c)) d))"
  using assms
proof (induction n arbitrary: d)
  case (Suc n)
  let ?d = "d\<lparr>ibGapBlks := 0, ibPendingBlks := Suc (ibPendingBlks d)\<rparr>"
  have "finish_block (Some c) d = (None, ?d)" using Suc.prems by (simp add: finish_block_def)
  then have "run_blocks (replicate (Suc n) (Some c)) d = run_blocks (replicate n (Some c)) ?d" by (simp add: case_prod_unfold)
  with Suc.IH [of ?d] Suc.prems show ?case by simp
qed simp

lemma run_gap:
  assumes "2 \<le> n"
  shows "fst (run_blocks (replicate n None) d) = [] \<and> at_rest (snd (run_blocks (replicate n None) d))"
proof -
  have rest: "at_rest d \<Longrightarrow> fst (run_blocks (replicate n None) d) = [] \<and> at_rest (snd (run_blocks (replicate n None) d))" for n d
    by (induction n arbitrary: d) (auto simp: finish_block_def at_rest_def Let_def case_prod_unfold)
  obtain m where m: "n = Suc (Suc m)" using assms by (metis add_2_eq_Suc le_Suc_ex)
  let ?d = "snd (finish_block None (snd (finish_block None d)))"
  have "at_rest ?d" "fst (finish_block None d) = None" "fst (finish_block None (snd (finish_block None d))) = None"
    by (auto simp: finish_block_def at_rest_def inbandMinGap_def Let_def)
  with rest [of ?d m] m show ?thesis by (auto simp: Let_def case_prod_unfold)
qed

text \<open>Digits dialled as tones, each lasting at least two blocks and followed by at least two blocks
  without one, are reported once each and in order.\<close>
theorem tones_read_back:
  assumes "at_rest d" and "\<forall>(c, n, g) \<in> set presses. 2 \<le> n \<and> 2 \<le> g"
  shows "fst (run_blocks (concat (List.map (\<lambda>(c, n, g). replicate n (Some c) @ replicate g None) presses)) d)
    = List.map fst presses"
  using assms
proof (induction presses arbitrary: d)
  case (Cons p presses)
  obtain c n g where p: "p = (c, n, g)" by (cases p)
  with Cons.prems obtain m where n: "n = Suc (Suc m)" and g: "2 \<le> g" by (auto dest: le_Suc_ex)
  let ?d = "d\<lparr>ibPending := Some c, ibGapBlks := 0, ibPendingBlks := 2, ibEmitted := True\<rparr>"
  let ?e = "snd (run_blocks (replicate m (Some c)) ?d)"
  have two: "run_blocks (replicate n (Some c)) d = (c # fst (run_blocks (replicate m (Some c)) ?d), ?e)"
    using Cons.prems(1) by (simp add: n finish_block_def at_rest_def inbandMinActive_def Let_def case_prod_unfold numeral_2_eq_2)
  have "fst (run_blocks (replicate m (Some c)) ?d) = []" using run_emitted [of ?d c m] by simp
  with two run_gap [OF g, of ?e] Cons.IH [of "snd (run_blocks (replicate g None) ?e)"] Cons.prems(2) p
  show ?case by (simp add: run_blocks_append)
qed simp

section \<open>Payload types after the alignment\<close>

lemma keep_new_PTs: "set (List.map cPT (keep_new kept cs)) = set (List.map cPT kept) \<union> set (List.map cPT cs)"
  by (induction kept cs rule: keep_new.induct) auto

lemma keep_new_distinct: "distinct (List.map cPT kept) \<Longrightarrow> distinct (List.map cPT (keep_new kept cs))"
  by (induction kept cs rule: keep_new.induct) auto

lemma keep_new_id: "distinct (List.map cPT (kept @ cs)) \<Longrightarrow> keep_new kept cs = kept @ cs"
  by (induction kept cs rule: keep_new.induct) auto

lemma keep_new_same: "set (List.map cPT cs) \<subseteq> set (List.map cPT kept) \<Longrightarrow> keep_new kept cs = kept"
  by (induction kept cs rule: keep_new.induct) auto

lemma keep_new_ext: "\<exists>new. keep_new kept cs = kept @ new \<and> set new \<subseteq> set cs"
proof (induction kept cs rule: keep_new.induct)
  case (2 kept c cs)
  then show ?case by (auto split: if_splits)
qed simp

text \<open>Aligning a session's codecs with the remote telephone-event keeps one codec for every
  payload type, keeps every audio payload type, offers the remote events whose payload type
  no audio codec uses, and changes nothing the second time.\<close>
theorem dtmf_alignment:
  assumes fallback: "is_te fallback"
  shows "distinct (List.map cPT (snd (patchMediaSessionDTMFCodec body fallback cs)))
    \<and> (\<forall>c \<in> set cs. \<not> is_te c \<longrightarrow> cPT c \<in> set (List.map cPT (snd (patchMediaSessionDTMFCodec body fallback cs))))
    \<and> (\<forall>r \<in> set (telephoneEventsFromSDP body). cPT r \<in> set (List.map cPT (snd (patchMediaSessionDTMFCodec body fallback cs))))
    \<and> patchMediaSessionDTMFCodec body fallback (snd (patchMediaSessionDTMFCodec body fallback cs))
        = patchMediaSessionDTMFCodec body fallback cs"
proof -
  let ?rs = "telephoneEventsFromSDP body"
  let ?A = "keep_new [] (filter (\<lambda>c. \<not> is_te c) cs)"
  let ?B = "keep_new ?A ?rs"
  let ?x = "if ?rs = [] then fallback else dtmfPrimaryCodec ?rs fallback"
  let ?C = "if cPT ?x \<in> set (List.map cPT ?B) then ?B else ?B @ [?x]"
  have C: "snd (patchMediaSessionDTMFCodec body fallback cs) = ?C" by (simp add: patchMediaSessionDTMFCodec_def Let_def)
  have rs: "\<forall>r \<in> set ?rs. is_te r" by (auto simp: telephoneEventsFromSDP_def split: option.split)
  then have x: "is_te ?x" using fallback by (cases ?rs) (auto simp: dtmfPrimaryCodec_def)
  have A: "distinct (List.map cPT ?A)" by (rule keep_new_distinct) simp
  have B: "distinct (List.map cPT ?B)" by (rule keep_new_distinct [OF A])
  have nonA: "\<forall>c \<in> set ?A. \<not> is_te c" using keep_new_ext [of "[]" "filter (\<lambda>c. \<not> is_te c) cs"] by auto
  obtain new where new: "?B = ?A @ new" "set new \<subseteq> set ?rs" using keep_new_ext by blast
  have "filter (\<lambda>c. \<not> is_te c) ?A = ?A" by (rule filter_True [OF nonA])
  moreover have "filter (\<lambda>c. \<not> is_te c) new = []" by (rule filter_False) (use new(2) rs in blast)
  ultimately have fC: "filter (\<lambda>c. \<not> is_te c) ?C = ?A" using x new(1) by simp
  have "keep_new [] ?A = ?A" using keep_new_id [of "[]" ?A] A by simp
  then have again: "snd (patchMediaSessionDTMFCodec body fallback ?C) = ?C"
    unfolding patchMediaSessionDTMFCodec_def Let_def snd_conv fC by simp
  then have same: "patchMediaSessionDTMFCodec body fallback ?C = patchMediaSessionDTMFCodec body fallback cs"
    using C by (simp add: prod_eq_iff) (simp add: patchMediaSessionDTMFCodec_def Let_def)
  have dist: "distinct (List.map cPT ?C)" using B by simp
  have PTs: "set (List.map cPT ?A) \<union> set (List.map cPT ?rs) \<subseteq> set (List.map cPT ?C)"
    using keep_new_PTs [of ?A ?rs] by auto
  have audio: "\<forall>c \<in> set cs. \<not> is_te c \<longrightarrow> cPT c \<in> set (List.map cPT ?A)"
    using keep_new_PTs [of "[]" "filter (\<lambda>c. \<not> is_te c) cs"] by auto
  have "\<forall>c \<in> set cs. \<not> is_te c \<longrightarrow> cPT c \<in> set (List.map cPT ?C)" using audio PTs by blast
  moreover have "\<forall>r \<in> set ?rs. cPT r \<in> set (List.map cPT ?C)"
  proof
    fix r assume "r \<in> set ?rs"
    then have "cPT r \<in> set (List.map cPT ?rs)" by (simp only: set_map imageI)
    with PTs show "cPT r \<in> set (List.map cPT ?C)" by blast
  qed
  ultimately show ?thesis unfolding C using same dist by (intro conjI)
qed

text \<open>Every dynamic payload type that carries no audio is read as telephone-event.\<close>
lemma dynamic_accepted:
  "isDynamicPayloadType pt \<Longrightarrow> pt \<notin> set (audioPayloadTypes session primary)
    \<Longrightarrow> pt \<in> set (buildTelephoneEventPTSetFromSDPs session bodies primary)"
proof -
  assume d: "isDynamicPayloadType pt" and a: "pt \<notin> set (audioPayloadTypes session primary)"
  have "96 \<le> unat pt" "unat pt < 128"
    using d by (auto simp: isDynamicPayloadType_def DynamicPayloadTypeMin_def DynamicPayloadTypeMax_def word_le_nat_alt)
  then have "unat pt \<in> set [96..<128]" by (simp only: set_upt atLeastLessThan_iff)
  then have "word_of_nat (unat pt) \<in> set (List.map word_of_nat [96..<128] :: 8 word list)" unfolding set_map by (rule imageI)
  moreover have "word_of_nat (unat pt) = pt" by simp
  ultimately have "pt \<in> set (List.map word_of_nat [96..<128])" by (simp only:)
  with a show ?thesis unfolding buildTelephoneEventPTSetFromSDPs_def set_append set_filter by blast
qed

section \<open>Examples\<close>

theorem press_read_once_witness:
  "fst (run_events [(RTPDTMFEncode8000 5 ! 0, True), (RTPDTMFEncode8000 5 ! 6, False)] new_rfc2833) = ''5''"
proof -
  have e: "RTPDTMFEncode8000 5 ! 0 = \<lparr>dvEvent = 5, dvEnd = False, dvVolume = 10, dvDuration = 160\<rparr>"
    "RTPDTMFEncode8000 5 ! 6 = \<lparr>dvEvent = 5, dvEnd = True, dvVolume = 10, dvDuration = 800\<rparr>"
    by (simp_all add: RTPDTMFEncode8000_simps numeral_3_eq_3)
  have "DTMFToRune 5 = Some (CHR ''5'')" by code_simp
  from press_read_once [OF this, of "[RTPDTMFEncode8000 5 ! 0]" "[RTPDTMFEncode8000 5 ! 6]" new_rfc2833]
  show ?thesis by (simp only: e) simp
qed

theorem number_read_back_witness:
  "ReadDTMFDigits False ReaderEnded
     (listen \<lparr>tnMags = (\<lambda>_. []), tnThreshold = 0\<rparr> (\<lambda>_. None)
        (press_packets 101 10 4 @ press_packets 101 20 2 @ press_packets 101 30 11)
        (newDualDTMFCollector CodecAudioUlaw [101])) = Some ''42''"
proof -
  have d: "dtmf_digits ! 4 = CHR ''4''" "dtmf_digits ! 2 = CHR ''2''" by (code_simp, code_simp)
  have "(101 :: 8 word) \<in> set (coPTs (newDualDTMFCollector CodecAudioUlaw [101]))"
    by (simp add: newDualDTMFCollector_def)
  from number_read_back [OF this, of "[(4, 10), (2, 20)]" _ _ 30] show ?thesis by (simp add: d)
qed

theorem tones_read_back_witness: "fst (run_blocks [Some CHR ''7'', Some CHR ''7'', None, None] newInbandDetector) = ''7''"
  using tones_read_back [of newInbandDetector "[(CHR ''7'', 2, 2)]"]
  by (simp add: at_rest_def newInbandDetector_def numeral_2_eq_2)

theorem dtmf_alignment_witness:
  "distinct (List.map cPT (snd (patchMediaSessionDTMFCodec (Some [CodecAudioAlaw, mk_codec ''telephone-event'' 95 20])
      CodecTelephoneEvent8000 [CodecAudioUlaw, CodecTelephoneEvent8000])))"
  using dtmf_alignment [of CodecTelephoneEvent8000] by (simp add: is_te_def CodecTelephoneEvent8000_def mk_codec_def)

end
