(* ===== verification/Invite.thy ===== *)
theory Invite
  imports Pbx Dtmf GoPath
begin

text \<open>
  Outbound INVITEs (internal/call/invite.go): which destination, transport, codecs and call-backs
  the INVITE to a contact or a trunk gets; and the prompts during which digits are read
  (internal/call/prompt_dtmf.go).
\<close>

section \<open>Dialing\<close>

text \<open>The dialers InviteOutLeg tells apart\<close>
datatype dialer = DiagoServer | ContactDialer

text \<open>The INVITE sent: where, over what, the codecs it offers, and whether later media updates of the leg
  are reported to the hold controller\<close>
record sent_invite =
  siDestination :: string
  siTransport :: string
  siOffer :: "codec list"
  siMediaUpdates :: bool

text \<open>What of the INVITE of the library is used: the transport asked for, the codecs common to the leg's media
  and the caller's description (None without an originator or its description), and whether a handler of media
  updates is given\<close>
record invite_opts =
  ioTransport :: string
  ioCommon :: "codec list option"
  ioMediaUpdate :: bool

definition is_event :: "codec \<Rightarrow> bool" where
  "is_event c = has_prefix (cName c) ''telephone-event''"

text \<open>DialogClientSession.Invite with an originator leaves one audio codec and one telephone-event in the offer,
  the first of each with a sample rate\<close>
definition originator_offer :: "codec list \<Rightarrow> codec list \<Rightarrow> codec list option" where
  "originator_offer common own =
     (let cs = (if common = [] then own else common);
          kept = (case List.find (\<lambda>c. \<not> is_event c \<and> cRate c \<noteq> 0) cs of None \<Rightarrow> [] | Some c \<Rightarrow> [c])
               @ (case List.find (\<lambda>c. is_event c \<and> cRate c \<noteq> 0) cs of None \<Rightarrow> [] | Some c \<Rightarrow> [c])
      in if kept = [] then None else Some kept)"

text \<open>InviteContact; own are the codecs of the server.\<close>
definition InviteContact :: "sip_lib \<Rightarrow> codec list \<Rightarrow> sip_uri \<Rightarrow> string \<Rightarrow> string \<Rightarrow> invite_opts \<Rightarrow> sent_invite" where
  "InviteContact lib own uri destination tr io =
     (let t1 = (if tr = [] then ioTransport io else tr);
          t2 = (if t1 = [] then (case param (uParams uri) ''transport'' of None \<Rightarrow> [] | Some t \<Rightarrow> t) else t1)
      in \<lparr>siDestination = (if destination = [] then slHostPort lib uri else destination), siTransport = t2,
          siOffer = own, siMediaUpdates = ioMediaUpdate io\<rparr>)"

text \<open>The Invite of a dialer: that of ContactDialer, and that of the library, which looks at the originator;
  None is its error.\<close>
definition dialer_invite :: "dialer \<Rightarrow> sip_lib \<Rightarrow> codec list \<Rightarrow> sip_uri \<Rightarrow> invite_opts \<Rightarrow> sent_invite option" where
  "dialer_invite d lib own uri io =
     (case d of
        ContactDialer \<Rightarrow> Some (InviteContact lib own uri (slHostPort lib uri) (ioTransport io) (io\<lparr>ioMediaUpdate := False\<rparr>))
      | DiagoServer \<Rightarrow>
          map_option (\<lambda>offer. \<lparr>siDestination = slHostPort lib uri, siTransport = ioTransport io, siOffer = offer, siMediaUpdates = False\<rparr>)
            (case ioCommon io of None \<Rightarrow> Some own | Some common \<Rightarrow> originator_offer common own))"

definition InviteOutLeg :: "dialer \<Rightarrow> sip_lib \<Rightarrow> codec list \<Rightarrow> sip_uri \<Rightarrow> connect_opts \<Rightarrow> invite_opts \<Rightarrow> sent_invite option" where
  "InviteOutLeg d lib own uri o' io =
     (if opDest o' \<noteq> [] \<and> d \<in> {ContactDialer, DiagoServer}
      then Some (InviteContact lib own uri (opDest o') (opTransport o') io)
      else dialer_invite d lib own uri io)"

text \<open>InviteExtension, for the members of hunt and paging groups\<close>
definition InviteExtension :: "dialer \<Rightarrow> sip_lib \<Rightarrow> int \<Rightarrow> codec list \<Rightarrow> registrar \<Rightarrow> string \<Rightarrow> connect_opts \<Rightarrow> invite_opts
    \<Rightarrow> sent_invite option" where
  "InviteExtension d lib now own reg e o' io =
     (case DialTarget lib now e reg of
        None \<Rightarrow> None
      | Some (uri, dest, tr) \<Rightarrow> InviteOutLeg d lib own uri (o'\<lparr>opDest := dest, opTransport := tr\<rparr>) io)"

section \<open>Prompts during dialling\<close>

text \<open>Whether the prompt's file exists, media is negotiated and a playback can be made\<close>
record prompt_env =
  peFile :: bool
  peMedia :: bool
  peControl :: bool

definition prompt_starts :: "string \<Rightarrow> prompt_env \<Rightarrow> bool" where
  "prompt_starts path e = (path \<noteq> [] \<and> peFile e \<and> peMedia e \<and> peControl e)"

text \<open>What the caller's leg sees: the digits it sends and the end of the prompt, in order.  The result
  tells of each digit whether it stopped the prompt, which Stop does once.\<close>
datatype prompt_event = Pressed char | PromptOver

fun prompt_stops :: "bool \<Rightarrow> prompt_event list \<Rightarrow> (char \<times> bool) list" where
  "prompt_stops playing [] = []"
| "prompt_stops playing (Pressed d # es) = (d, playing) # prompt_stops False es"
| "prompt_stops playing (PromptOver # es) = prompt_stops False es"

definition pressed :: "prompt_event list \<Rightarrow> string" where
  "pressed es = List.map_filter (\<lambda>e. case e of Pressed d \<Rightarrow> Some d | PromptOver \<Rightarrow> None) es"

definition PlayPromptWhileReadDigits :: "string \<Rightarrow> prompt_env \<Rightarrow> bool \<Rightarrow> collect_end \<Rightarrow> prompt_event list
    \<Rightarrow> string option \<times> (char \<times> bool) list" where
  "PlayPromptWhileReadDigits path e acceptPartial how es =
     (ReadDTMFDigits acceptPartial how (pressed es), prompt_stops (prompt_starts path e) es)"

definition PromptAndReadDigits :: "string \<Rightarrow> prompt_env \<Rightarrow> collect_end \<Rightarrow> prompt_event list \<Rightarrow> string option" where
  "PromptAndReadDigits path e how es = fst (PlayPromptWhileReadDigits path e False how es)"

section \<open>Properties\<close>

lemma originator_offer_short:
  "originator_offer common own = Some offer \<Longrightarrow> length (filter (\<lambda>c. \<not> is_event c) offer) \<le> 1 \<and> length offer \<le> 2"
proof -
  assume "originator_offer common own = Some offer"
  then obtain cs where "offer = (case List.find (\<lambda>c. \<not> is_event c \<and> cRate c \<noteq> 0) cs of None \<Rightarrow> [] | Some c \<Rightarrow> [c])
       @ (case List.find (\<lambda>c. is_event c \<and> cRate c \<noteq> 0) cs of None \<Rightarrow> [] | Some c \<Rightarrow> [c])"
    by (auto simp: originator_offer_def Let_def split: if_splits)
  moreover have "is_event c" if "List.find (\<lambda>c. is_event c \<and> cRate c \<noteq> 0) cs = Some c" for c using that by (auto simp: find_Some_iff)
  ultimately show ?thesis by (auto split: option.split)
qed

text \<open>An extension is dialled at its binding with all codecs of the server, and its phone's later media updates
  reach the hold controller.  The same call-back and codecs are lost on the way to a trunk, which has no
  destination of its own: the server's dialer offers it at most one audio codec, the caller's first, and nothing
  is ever told of a hold by the far end.\<close>
theorem trunk_invite_restricted:
  assumes "opDest o' = []" "ioCommon io = Some common" "ioMediaUpdate io"
    and ext: "bridgeToExtension env from e o' p = Connects uri oo" "slHostPort (evLib env) uri \<noteq> []"
    and trunk: "outboundTrunk pre rest o' p = ConnectsTrunk tu user pw o''"
  shows "(\<exists>si. InviteOutLeg DiagoServer (evLib env) own uri oo io = Some si
      \<and> siDestination si = slHostPort (evLib env) uri \<and> siOffer si = own \<and> siMediaUpdates si)
    \<and> (\<forall>si. InviteOutLeg DiagoServer (evLib env) own tu o'' io = Some si \<longrightarrow>
        \<not> siMediaUpdates si \<and> length (filter (\<lambda>c. \<not> is_event c) (siOffer si)) \<le> 1)"
proof
  obtain tr oo' where d: "DialTarget (evLib env) (evNow env) e (pbReg p) = Some (uri, opDest oo, tr)" "oo = oo'\<lparr>opDest := opDest oo, opTransport := tr\<rparr>"
    using ext(1) by (auto simp: bridgeToExtension_def Let_def split: option.splits if_splits prod.splits)
  then have "opDest oo = slHostPort (evLib env) uri"
    by (auto simp: DialTarget_def bindingToDialTarget_def Let_def split: list.splits)
  then show "\<exists>si. InviteOutLeg DiagoServer (evLib env) own uri oo io = Some si
      \<and> siDestination si = slHostPort (evLib env) uri \<and> siOffer si = own \<and> siMediaUpdates si"
    using ext(2) assms(3) by (auto simp: InviteOutLeg_def InviteContact_def Let_def)
  have "o'' = o'" using trunk by (auto simp: outboundTrunk_def split: trunk_call.splits)
  then show "\<forall>si. InviteOutLeg DiagoServer (evLib env) own tu o'' io = Some si \<longrightarrow>
        \<not> siMediaUpdates si \<and> length (filter (\<lambda>c. \<not> is_event c) (siOffer si)) \<le> 1"
    using assms(1,2) by (auto simp: InviteOutLeg_def dialer_invite_def dest: originator_offer_short)
qed

text \<open>The prompt does not change what is read: the digits are those of the reader alone, whatever is played,
  and the first key pressed while it plays, and no other, stops it.\<close>
theorem prompt_digits:
  "PromptAndReadDigits path e how es = ReadDTMFDigits False how (pressed es)
   \<and> List.map fst (snd (PlayPromptWhileReadDigits path e acceptPartial how es)) = pressed es
   \<and> length (filter snd (snd (PlayPromptWhileReadDigits path e acceptPartial how es))) \<le> 1
   \<and> (es \<noteq> [] \<and> es ! 0 \<noteq> PromptOver \<and> prompt_starts path e \<longleftrightarrow>
        (\<exists>d rest. snd (PlayPromptWhileReadDigits path e acceptPartial how es) = (d, True) # rest))"
proof -
  have fst: "List.map fst (prompt_stops b es) = pressed es" for b
    by (induction b es rule: prompt_stops.induct) (auto simp: pressed_def map_filter_def)
  have none: "filter snd (prompt_stops False es) = []" for es
    by (induction False es rule: prompt_stops.induct) auto
  have one: "length (filter snd (prompt_stops b es)) \<le> 1" for b
    by (induction b es rule: prompt_stops.induct) (auto simp: none)
  have first: "es \<noteq> [] \<and> es ! 0 \<noteq> PromptOver \<and> b \<longleftrightarrow> (\<exists>d rest. prompt_stops b es = (d, True) # rest)" for b
  proof (cases es)
    case (Cons x xs)
    have "prompt_stops False xs \<noteq> (d, True) # rest" for d rest using none [of xs] by (metis filter.simps(2) list.distinct(1) snd_conv)
    then show ?thesis using Cons by (cases x) auto
  qed simp
  show ?thesis by (simp add: PromptAndReadDigits_def PlayPromptWhileReadDigits_def fst first one [simplified])
qed

definition demo_opts0 :: connect_opts where
  "demo_opts0 = \<lparr>opVideo = False, opExternalIP = [], opCallerExt = ''555'', opCalleeExt = [], opDialTimeout = 0,
     opRingTimeout = 30, opHeaders = [], opDest = [], opTransport = []\<rparr>"

definition demo_io :: invite_opts where
  "demo_io = \<lparr>ioTransport = [], ioCommon = Some [mk_codec ''PCMA'' 8 20, mk_codec ''PCMU'' 0 20], ioMediaUpdate = True\<rparr>"

lemma trunk_invite_restricted_witness:
  "\<exists>uri tu si. InviteOutLeg DiagoServer demo_sip [mk_codec ''PCMU'' 0 20, mk_codec ''PCMA'' 8 20] tu demo_opts0 demo_io = Some si
     \<and> \<not> siMediaUpdates si \<and> slHostPort demo_sip uri \<noteq> []
     \<and> (\<exists>si :: sent_invite. siOffer si = [mk_codec ''PCMU'' 0 20, mk_codec ''PCMA'' 8 20] \<and> siMediaUpdates si \<and> siDestination si = slHostPort demo_sip uri)"
proof -
  let ?p = "demo_server\<lparr>pbExts := []\<rparr>"
  obtain u dest tr where b: "bindingToDialTarget demo_sip ''101'' demo_binding = (u, dest, tr)" by (metis prod_cases3)
  then obtain oo where oo: "bridgeToExtension demo_env ''555'' ''101'' demo_opts0 ?p = Connects u oo"
    using demo_registered(3) by (simp add: bridgeToExtension_def demo_server_def demo_env_def Let_def)
  have "uPort u = 70" using b by (auto simp: bindingToDialTarget_def demo_binding_def param_def Let_def)
  then have h: "slHostPort (evLib demo_env) u \<noteq> []" by (simp add: demo_env_def demo_sip_def)
  obtain tu where t: "outboundTrunk (tkPrefix demo_trunk) ''44'' demo_opts0 ?p = ConnectsTrunk tu (tkUsername demo_trunk) (tkPassword demo_trunk) demo_opts0"
    by (simp add: outboundTrunk_def Outbound_def TrunkByPrefix_def demo_server_def demo_kept_def)
  have "\<exists>si. InviteOutLeg DiagoServer demo_sip [mk_codec ''PCMU'' 0 20, mk_codec ''PCMA'' 8 20] tu demo_opts0 demo_io = Some si"
    by (simp add: InviteOutLeg_def dialer_invite_def demo_opts0_def demo_io_def originator_offer_def is_event_def mk_codec_def
        has_prefix_def)
  then obtain si where si: "InviteOutLeg DiagoServer demo_sip [mk_codec ''PCMU'' 0 20, mk_codec ''PCMA'' 8 20] tu demo_opts0 demo_io = Some si"
    by blast
  have e: "evLib demo_env = demo_sip" by (simp add: demo_env_def)
  have o: "opDest demo_opts0 = []" "ioCommon demo_io = Some [mk_codec ''PCMA'' 8 20, mk_codec ''PCMU'' 0 20]" "ioMediaUpdate demo_io"
    by (simp_all add: demo_opts0_def demo_io_def)
  note both = trunk_invite_restricted [OF o oo h t, of "[mk_codec ''PCMU'' 0 20, mk_codec ''PCMA'' 8 20]", unfolded e]
  from conjunct2 [OF both] si have "\<not> siMediaUpdates si" by blast
  moreover obtain s2 :: sent_invite where "siDestination s2 = slHostPort demo_sip u" "siOffer s2 = [mk_codec ''PCMU'' 0 20, mk_codec ''PCMA'' 8 20]"
    "siMediaUpdates s2" using conjunct1 [OF both] by blast
  ultimately show ?thesis using si h [unfolded e]
    by (intro exI [of _ u] exI [of _ tu] exI [of _ si] conjI exI [of _ s2]) assumption+
qed

end
