(* ===== verification/Runs.thy ===== *)
theory Runs
  imports Prelude
begin

text \<open>
  The contract of components that run by steps taken in any order, goroutines among them: every step
  keeps an invariant, and, where the goroutines can only finish, every step makes a measure smaller.
  What follows for whole runs is proved once here.
\<close>

section \<open>Runs that keep an invariant\<close>

locale stepping =
  fixes step :: "'s \<Rightarrow> 's \<Rightarrow> bool" and invar :: "'s \<Rightarrow> bool"
  assumes kept: "step s s' \<Longrightarrow> invar s \<Longrightarrow> invar s'"
begin

lemma run_kept: "step\<^sup>*\<^sup>* s s' \<Longrightarrow> invar s \<Longrightarrow> invar s'"
  by (induction rule: rtranclp_induct) (auto intro: kept)

end

section \<open>Runs that come to rest\<close>

locale settling = stepping step invar for step :: "'s \<Rightarrow> 's \<Rightarrow> bool" and invar :: "'s \<Rightarrow> bool" +
  fixes work :: "'s \<Rightarrow> nat"
  assumes less_work: "step s s' \<Longrightarrow> invar s \<Longrightarrow> work s' < work s"
begin

text \<open>Where no step can be taken any more\<close>
definition at_end :: "'s \<Rightarrow> bool" where
  "at_end s = (\<forall>s'. \<not> step s s')"

lemma rest_reached: "invar s \<Longrightarrow> \<exists>s'. step\<^sup>*\<^sup>* s s' \<and> at_end s' \<and> invar s'"
proof (induction "work s" arbitrary: s rule: less_induct)
  case less
  show ?case
  proof (cases "\<exists>s1. step s s1")
    case True
    then obtain s1 where s: "step s s1" by blast
    from less(1) [OF less_work [OF s less(2)] kept [OF s less(2)]] s show ?thesis
      by (meson converse_rtranclp_into_rtranclp)
  next
    case False
    then show ?thesis using less(2) by (auto simp: at_end_def)
  qed
qed

text \<open>No run is longer than the work there is.\<close>
lemma run_bounded: "(step ^^ n) s s' \<Longrightarrow> invar s \<Longrightarrow> invar s' \<and> n + work s' \<le> work s"
proof (induction n arbitrary: s')
  case (Suc n)
  then obtain s1 where s: "(step ^^ n) s s1" "step s1 s'" by auto
  with Suc.IH [OF s(1) Suc.prems(2)] kept [OF s(2)] less_work [OF s(2)] show ?case by force
qed simp

end

end
