(* ===== verification/HoldMedia.thy ===== *)
theory HoldMedia
  imports Hold Runs
begin

text \<open>
  The media of a held call (internal/call/hold_control.go and hold_dialtone.go): setting up the
  dial tone of the holder and the music of the held party, and the loops that play them, with the
  contexts that end them.  Hold has the state of the call around it; how each step of the media
  turns out is an argument here.
\<close>

section \<open>Setting up\<close>

text \<open>waitForMediaDirection: the directions seen at each poll until the time is over; the last one decides.\<close>
fun waitForMediaDirection :: "string \<Rightarrow> string list \<Rightarrow> bool" where
  "waitForMediaDirection want [] = False"
| "waitForMediaDirection want [d] = (d = want)"
| "waitForMediaDirection want (d # ds) = (d = want \<or> waitForMediaDirection want ds)"

text \<open>What the set-up of one leg meets: whether holdEnterAborted is true at each of its checks, in order, and
  the holder's or held party's session after the wait for a direction\<close>
record setup_env =
  seAborted :: "nat \<Rightarrow> bool"
  seSession :: "media_session option"
  seSettle :: bool
  seTries :: "hold_attempt list"
  seHeldTries :: "(hold_attempt \<times> bool) list"
  seFinal :: "media_session option"
  sePlayback :: playback

text \<open>The holder's leg once its hold is seen\<close>
definition note_remote_hold :: "media_session option \<Rightarrow> hold \<Rightarrow> hold" where
  "note_remote_hold s h = (if s \<noteq> None \<and> remoteHoldMode s then h\<lparr>hdPhoneHold := True, hdSawRecvonly := True\<rparr> else h)"

text \<open>startHolderDialTone on a leg; a leg that is missing plays nothing.\<close>
definition startHolderDialTone :: "bool \<Rightarrow> playback \<Rightarrow> bool" where
  "startHolderDialTone hasLeg pb = (hasLeg \<and> pb \<noteq> NoPlayback)"

definition setupHolderDialTone :: "bool \<Rightarrow> setup_env \<Rightarrow> hold \<Rightarrow> bool \<times> hold" where
  "setupHolderDialTone callerHolds e h =
     (if seAborted e 0 then (False, h)
      else let h1 = (note_remote_hold (seSession e) h)\<lparr>hdDialPending := True\<rparr> in
        if seAborted e 1 then (False, h1\<lparr>hdDialPending := False\<rparr>)
        else case enableHolderSendMedia callerHolds (seSettle e) (seTries e) h1 of
          (False, h2) \<Rightarrow> (False, h2\<lparr>hdDialPending := False\<rparr>)
        | (True, h2) \<Rightarrow>
            if seAborted e 2 \<or> seAborted e 3 then (False, h2\<lparr>hdDialPending := False\<rparr>)
            else (startHolderDialTone (holder_session callerHolds h2 \<noteq> None) (sePlayback e), h2\<lparr>hdDialPending := False\<rparr>))"

definition setupHeldPartyMOH :: "bool \<Rightarrow> setup_env \<Rightarrow> hold \<Rightarrow> bool \<times> hold" where
  "setupHeldPartyMOH callerHolds e h =
     (if seAborted e 0 then (False, h)
      else if holder_session (\<not> callerHolds) h = None then (False, h)
      else case enableHeldPartyMOHMedia callerHolds (seSettle e) (seHeldTries e) (seFinal e) h of
        (False, h1) \<Rightarrow> (False, h1)
      | (True, h1) \<Rightarrow>
          if seAborted e 1 \<or> seAborted e 2 then (False, h1)
          else (sePlayback e \<noteq> NoPlayback, h1))"

section \<open>Loops and their contexts\<close>

datatype loop_kind = DialLoop | MusicLoop

text \<open>Contexts are numbered.  mdRoot and mdMoh are holdMediaRoot and the context of mohCancel; mdPlayer says
  whether holdPlayer is set.  The loops that encode frames themselves are mdLoops: each looks at its context
  before every frame and plays until it, or the root above it, is cancelled.  Those that hand a reader to the
  library are mdDirect: they look at their context only when the reader ends, and otherwise play until the
  player is stopped.  mdStarting are the contexts under which startHeldPartyMOH is about to start music,
  outside the lock.\<close>
record hold_media =
  mdActive :: bool
  mdPlayer :: bool
  mdRoot :: "nat option"
  mdMoh :: "nat option"
  mdCancelled :: "nat list"
  mdParent :: "(nat, nat) gomap"
  mdStarting :: "nat list"
  mdLoops :: "(loop_kind \<times> nat) list"
  mdDirect :: "(loop_kind \<times> nat) list"
  mdNext :: nat

definition ctx_done :: "hold_media \<Rightarrow> nat \<Rightarrow> bool" where
  "ctx_done m c = (c \<in> set (mdCancelled m)
     \<or> (\<exists>r \<in> set_option (get (mdParent m) c). r \<in> set (mdCancelled m)))"

definition playing :: "loop_kind \<Rightarrow> hold_media \<Rightarrow> nat list" where
  "playing k m = List.map snd (filter (\<lambda>(k', c). k' = k \<and> \<not> ctx_done m c) (mdLoops m))"

definition playing_direct :: "loop_kind \<Rightarrow> hold_media \<Rightarrow> nat list" where
  "playing_direct k m = List.map snd (filter (\<lambda>(k', c). k' = k) (mdDirect m))"

definition heard :: "loop_kind \<Rightarrow> hold_media \<Rightarrow> nat list" where
  "heard k m = playing k m @ playing_direct k m"

text \<open>A loop that starts: nothing comes of it when its context is over by then.\<close>
definition start_loop :: "loop_kind \<Rightarrow> nat \<Rightarrow> playback \<Rightarrow> hold_media \<Rightarrow> hold_media" where
  "start_loop k c pb m =
     (if pb = NoPlayback then m
      else if pb \<in> {ToneDirect, MOHDirect} then (if ctx_done m c then m else m\<lparr>mdDirect := (k, c) # mdDirect m\<rparr>)
      else m\<lparr>mdLoops := (k, c) # mdLoops m\<rparr>)"

text \<open>A track that the library plays ends, and its loop looks at the context.\<close>
definition track_ends :: "nat \<Rightarrow> hold_media \<Rightarrow> hold_media" where
  "track_ends c m = (if ctx_done m c then m\<lparr>mdDirect := filter (\<lambda>(k, c'). \<not> (k = MusicLoop \<and> c' = c)) (mdDirect m)\<rparr> else m)"

definition cancel :: "nat option \<Rightarrow> hold_media \<Rightarrow> hold_media" where
  "cancel c m = (case c of None \<Rightarrow> m | Some k \<Rightarrow> m\<lparr>mdCancelled := k # mdCancelled m\<rparr>)"

text \<open>enter makes the context of the hold's media, and later the hold active or not.\<close>
definition media_begin :: "hold_media \<Rightarrow> hold_media" where
  "media_begin m = m\<lparr>mdRoot := Some (mdNext m), mdNext := Suc (mdNext m)\<rparr>"

definition media_active :: "hold_media \<Rightarrow> hold_media" where
  "media_active m = m\<lparr>mdActive := True, mdPlayer := True\<rparr>"

text \<open>stopAndWait of the entry's player, and the end of its context\<close>
definition media_failed :: "hold_media \<Rightarrow> hold_media" where
  "media_failed m = cancel (mdRoot m) (m\<lparr>mdDirect := []\<rparr>)"

definition dial_tone :: "nat \<Rightarrow> playback \<Rightarrow> hold_media \<Rightarrow> hold_media" where
  "dial_tone root pb m = start_loop DialLoop root pb m"

text \<open>startHeldPartyMOH up to the end of its critical section, and the start of the music\<close>
definition startHeldPartyMOH :: "bool \<Rightarrow> hold_media \<Rightarrow> hold_media" where
  "startHeldPartyMOH hasLeg m =
     (case mdRoot m of
        None \<Rightarrow> m
      | Some r \<Rightarrow>
          if \<not> hasLeg then m
          else (let n = mdNext m; m1 = cancel (mdMoh m) m in
                m1\<lparr>mdMoh := Some n, mdParent := put n r (mdParent m1), mdStarting := n # mdStarting m1, mdNext := Suc n\<rparr>))"

definition music_starts :: "nat \<Rightarrow> playback \<Rightarrow> hold_media \<Rightarrow> hold_media" where
  "music_starts c pb m =
     start_loop MusicLoop c pb (m\<lparr>mdStarting := remove1 c (mdStarting m)\<rparr>)"

text \<open>restartHeldPartyMOH up to the start of the music; enabled: the leg can be sent media\<close>
definition restartHeldPartyMOH :: "bool \<Rightarrow> bool \<Rightarrow> hold_media \<Rightarrow> hold_media" where
  "restartHeldPartyMOH enabled hasLeg m =
     (if \<not> mdActive m \<or> \<not> mdPlayer m \<or> \<not> enabled then m else startHeldPartyMOH hasLeg m)"

text \<open>restartHoldMedia: the dial tone is started beside the one that plays.\<close>
definition restartHoldMedia :: "bool \<Rightarrow> playback \<Rightarrow> bool \<Rightarrow> bool \<Rightarrow> hold_media \<Rightarrow> hold_media" where
  "restartHoldMedia holderEnabled pb heldEnabled hasLeg m =
     (case mdRoot m of
        None \<Rightarrow> m
      | Some r \<Rightarrow>
          if \<not> mdActive m \<or> \<not> mdPlayer m then m
          else restartHeldPartyMOH heldEnabled hasLeg (if holderEnabled then dial_tone r pb m else m))"

text \<open>leave: holdCancel ends the root, the player is stopped, then mohCancel ends the music.\<close>
definition media_leave :: "hold_media \<Rightarrow> hold_media" where
  "media_leave m =
     (if \<not> mdActive m then m
      else (cancel (mdMoh m) (cancel (mdRoot m) m))\<lparr>mdActive := False, mdPlayer := False, mdMoh := None, mdRoot := None,
             mdDirect := (if mdPlayer m then [] else mdDirect m)\<rparr>)"

inductive media_step :: "hold_media \<Rightarrow> hold_media \<Rightarrow> bool" where
  msBegin: "\<not> mdActive m \<Longrightarrow> media_step m (media_begin m)"
| msDial: "mdRoot m = Some r \<Longrightarrow> media_step m (dial_tone r pb m)"
| msMusic: "media_step m (startHeldPartyMOH hasLeg m)"
| msStarts: "c \<in> set (mdStarting m) \<Longrightarrow> media_step m (music_starts c pb m)"
| msActive: "mdRoot m \<noteq> None \<Longrightarrow> media_step m (media_active m)"
| msFailed: "media_step m (media_failed m)"
| msRestart: "media_step m (restartHeldPartyMOH enabled hasLeg m)"
| msWatchdog: "media_step m (restartHoldMedia holderEnabled pb heldEnabled hasLeg m)"
| msLeave: "media_step m (media_leave m)"
| msTrack: "media_step m (track_ends c m)"

definition no_media :: hold_media where
  "no_media = \<lparr>mdActive = False, mdPlayer = False, mdRoot = None, mdMoh = None, mdCancelled = [], mdParent = [],
     mdStarting = [], mdLoops = [], mdDirect = [], mdNext = 0\<rparr>"

inductive media_reach :: "hold_media \<Rightarrow> bool" where
  mrStart: "media_reach no_media"
| mrStep: "media_reach m \<Longrightarrow> media_step m m' \<Longrightarrow> media_reach m'"

section \<open>At most one music\<close>

text \<open>The contexts under which music plays or is about to\<close>
definition music_contexts :: "hold_media \<Rightarrow> nat list" where
  "music_contexts m = mdStarting m @ List.map snd (filter (\<lambda>(k, c). k = MusicLoop) (mdLoops m))"

definition dial_contexts :: "hold_media \<Rightarrow> nat list" where
  "dial_contexts m = List.map snd (filter (\<lambda>(k, c). k = DialLoop) (mdLoops m))"

text \<open>Contexts of music are children of a root, contexts of dial tones are roots; only the newest music is not
  cancelled.\<close>
definition media_inv :: "hold_media \<Rightarrow> bool" where
  "media_inv m =
     (distinct (music_contexts m)
      \<and> (\<forall>c \<in> set (music_contexts m). c < mdNext m \<and> (mdMoh m = Some c \<or> ctx_done m c))
      \<and> (\<forall>c \<in> set (keys (mdParent m)). c < mdNext m)
      \<and> (\<forall>c \<in> set_option (mdRoot m) \<union> set (dial_contexts m). c < mdNext m \<and> c \<notin> set (keys (mdParent m)))
      \<and> (\<forall>c \<in> set_option (mdMoh m). c \<in> set (keys (mdParent m))))"

lemma media_invD:
  assumes "media_inv m"
  shows "distinct (music_contexts m)" "c \<in> set (music_contexts m) \<Longrightarrow> c < mdNext m \<and> (mdMoh m = Some c \<or> ctx_done m c)"
    "c \<in> set (keys (mdParent m)) \<Longrightarrow> c < mdNext m"
    "mdRoot m = Some c \<or> c \<in> set (dial_contexts m) \<Longrightarrow> c < mdNext m \<and> c \<notin> set (keys (mdParent m))"
    "mdMoh m = Some c \<Longrightarrow> c \<in> set (keys (mdParent m))"
  using assms by (auto simp: media_inv_def)

lemma cancel_simps [simp]:
  "mdNext (cancel c m) = mdNext m" "mdRoot (cancel c m) = mdRoot m" "mdMoh (cancel c m) = mdMoh m" "mdLoops (cancel c m) = mdLoops m"
  "mdStarting (cancel c m) = mdStarting m" "mdParent (cancel c m) = mdParent m" "mdActive (cancel c m) = mdActive m"
  "mdPlayer (cancel c m) = mdPlayer m" "mdDirect (cancel c m) = mdDirect m" "mdCancelled (cancel c m) = (case c of None \<Rightarrow> [] | Some k \<Rightarrow> [k]) @ mdCancelled m"
  by (auto simp: cancel_def split: option.split)

lemma ctx_done_cancel: "ctx_done m c \<Longrightarrow> ctx_done (cancel k m) c"
  by (auto simp: ctx_done_def)

lemma ctx_done_same:
  "mdCancelled m' = mdCancelled m \<Longrightarrow> mdParent m' = mdParent m \<Longrightarrow> ctx_done m' c = ctx_done m c"
  by (simp add: ctx_done_def)

lemma music_same:
  "mdStarting m' = mdStarting m \<Longrightarrow> mdLoops m' = mdLoops m \<Longrightarrow>
    music_contexts m' = music_contexts m \<and> dial_contexts m' = dial_contexts m"
  by (simp add: music_contexts_def dial_contexts_def)

lemma inv_begin: "media_inv m \<Longrightarrow> media_inv (media_begin m)"
  unfolding media_inv_def media_begin_def
  by (auto simp: music_contexts_def dial_contexts_def ctx_done_def less_Suc_eq)

lemma inv_cancel: "media_inv m \<Longrightarrow> media_inv (cancel k m)"
  using music_same [of "cancel k m" m] by (auto simp: media_inv_def ctx_done_cancel)

lemma inv_flags: "media_inv m \<Longrightarrow> media_inv (m\<lparr>mdActive := a, mdPlayer := b\<rparr>)"
  by (simp add: media_inv_def music_contexts_def dial_contexts_def ctx_done_def)

lemma start_loop_simps [simp]:
  "mdNext (start_loop k c pb m) = mdNext m" "mdRoot (start_loop k c pb m) = mdRoot m" "mdMoh (start_loop k c pb m) = mdMoh m"
  "mdParent (start_loop k c pb m) = mdParent m" "mdCancelled (start_loop k c pb m) = mdCancelled m"
  "mdStarting (start_loop k c pb m) = mdStarting m" "mdActive (start_loop k c pb m) = mdActive m" "mdPlayer (start_loop k c pb m) = mdPlayer m"
  by (simp_all add: start_loop_def)

lemma inv_direct: "media_inv m \<Longrightarrow> media_inv (m\<lparr>mdDirect := ds\<rparr>)"
  by (simp add: media_inv_def music_contexts_def dial_contexts_def ctx_done_def)

lemma inv_track: "media_inv m \<Longrightarrow> media_inv (track_ends c m)"
  by (simp add: track_ends_def inv_direct)

lemma inv_dial: "media_inv m \<Longrightarrow> mdRoot m = Some r \<Longrightarrow> media_inv (dial_tone r pb m)"
  by (auto simp: media_inv_def dial_tone_def start_loop_def music_contexts_def dial_contexts_def ctx_done_def)

lemma inv_startMOH: "media_inv m \<Longrightarrow> media_inv (startHeldPartyMOH hasLeg m)"
proof (cases "mdRoot m = None \<or> \<not> hasLeg")
  case False
  assume inv: "media_inv m"
  from False obtain r where r: "mdRoot m = Some r" by auto
  let ?n = "mdNext m" and ?m' = "startHeldPartyMOH hasLeg m"
  have m': "?m' = (cancel (mdMoh m) m)\<lparr>mdMoh := Some ?n, mdParent := put ?n r (mdParent m), mdStarting := ?n # mdStarting m, mdNext := Suc ?n\<rparr>"
    using False r by (simp add: startHeldPartyMOH_def Let_def)
  have c: "music_contexts ?m' = ?n # music_contexts m" "dial_contexts ?m' = dial_contexts m" "mdNext ?m' = Suc ?n" "mdRoot ?m' = mdRoot m"
    "mdMoh ?m' = Some ?n" "set (keys (mdParent ?m')) = insert ?n (set (keys (mdParent m)))"
    unfolding m' by (simp_all add: music_contexts_def dial_contexts_def del: set_map)
  have dead: "ctx_done ?m' k" if "k \<in> set (music_contexts m)" for k
    using media_invD(2) [OF inv that] unfolding m' by (auto simp: ctx_done_def split: option.splits)
  note old = media_invD [OF inv]
  show ?thesis unfolding media_inv_def c
  proof (intro conjI ballI)
    show "distinct (?n # music_contexts m)" using old(1,2) by auto
  next
    fix k assume "k \<in> set (?n # music_contexts m)"
    then show "k < Suc ?n" "Some ?n = Some k \<or> ctx_done ?m' k" using old(2) dead by (auto simp: less_Suc_eq)
  next
    fix k assume "k \<in> insert ?n (set (keys (mdParent m)))"
    then show "k < Suc ?n" using old(3) by (auto simp: less_Suc_eq)
  next
    fix k assume "k \<in> set_option (mdRoot m) \<union> set (dial_contexts m)"
    then have "k < ?n \<and> k \<notin> set (keys (mdParent m))" using old(4) by auto
    then show "k < Suc ?n" "k \<notin> insert ?n (set (keys (mdParent m)))" by auto
  qed simp
qed (auto simp: startHeldPartyMOH_def split: option.split)

lemma inv_starts: "media_inv m \<Longrightarrow> c \<in> set (mdStarting m) \<Longrightarrow> media_inv (music_starts c pb m)"
proof -
  assume inv: "media_inv m" and c: "c \<in> set (mdStarting m)"
  let ?m' = "music_starts c pb m"
  have same: "mdNext ?m' = mdNext m" "mdRoot ?m' = mdRoot m" "mdMoh ?m' = mdMoh m" "mdParent ?m' = mdParent m"
    "dial_contexts ?m' = dial_contexts m" "ctx_done ?m' k = ctx_done m k" for k
    by (auto simp: music_starts_def start_loop_def dial_contexts_def ctx_done_def)
  have d: "distinct (mdStarting m)" using media_invD(1) [OF inv] by (simp add: music_contexts_def)
  then have sub: "set (music_contexts ?m') \<subseteq> set (music_contexts m)"
    using c by (auto simp: music_starts_def start_loop_def music_contexts_def split: if_splits)
  have "distinct (music_contexts ?m')"
    using media_invD(1) [OF inv] c d by (auto simp: music_starts_def start_loop_def music_contexts_def split: if_splits)
  then show ?thesis using inv sub by (auto simp: media_inv_def same)
qed

lemma inv_leave: "media_inv m \<Longrightarrow> media_inv (media_leave m)"
proof -
  assume "media_inv m"
  let ?m1 = "cancel (mdMoh m) (cancel (mdRoot m) m)"
  have inv: "media_inv ?m1" by (intro inv_cancel) fact
  have "ctx_done ?m1 c" if "mdMoh m = Some c" for c using that by (simp add: ctx_done_def)
  moreover have "mdMoh ?m1 = mdMoh m" by simp
  ultimately have dead: "ctx_done ?m1 c" if "c \<in> set (music_contexts ?m1)" for c
    using media_invD(2) [OF inv that] by metis
  then have "media_inv (?m1\<lparr>mdActive := False, mdPlayer := False, mdMoh := None, mdRoot := None,
      mdDirect := (if mdPlayer m then [] else mdDirect m)\<rparr>)"
    using media_invD(1,3) [OF inv] media_invD(2,4) [OF inv] dead
    by (simp add: media_inv_def music_contexts_def dial_contexts_def ctx_done_def del: cancel_simps set_map)
  then show ?thesis using \<open>media_inv m\<close> by (simp add: media_leave_def)
qed

lemma inv_restart: "media_inv m \<Longrightarrow> media_inv (restartHeldPartyMOH enabled hasLeg m)"
  by (simp add: restartHeldPartyMOH_def inv_startMOH)

lemma inv_watchdog: "media_inv m \<Longrightarrow> media_inv (restartHoldMedia holderEnabled pb heldEnabled hasLeg m)"
  by (simp add: restartHoldMedia_def inv_restart inv_dial split: option.split)

lemma media_step_inv: "media_step m m' \<Longrightarrow> media_inv m \<Longrightarrow> media_inv m'"
  by (induction rule: media_step.induct)
     (simp_all add: inv_begin inv_dial inv_startMOH inv_starts inv_restart inv_watchdog inv_leave
       media_active_def inv_flags media_failed_def inv_cancel inv_direct inv_track)

interpretation media: stepping media_step media_inv
  by unfold_locales (rule media_step_inv)

lemma media_reach_run: "media_reach m \<Longrightarrow> media_step\<^sup>*\<^sup>* no_media m"
  by (induction rule: media_reach.induct) (auto intro: rtranclp.rtrancl_into_rtrancl)

lemma media_reach_inv: "media_reach m \<Longrightarrow> media_inv m"
  by (erule media.run_kept [OF media_reach_run]) (simp add: no_media_def media_inv_def music_contexts_def dial_contexts_def)

section \<open>Properties\<close>

lemma playing_music:
  assumes "media_inv m"
  shows "set (playing MusicLoop m) \<subseteq> set_option (mdMoh m)" "distinct (playing MusicLoop m)"
proof -
  have sub: "set (playing MusicLoop m) \<subseteq> {c \<in> set (music_contexts m). \<not> ctx_done m c}"
    by (auto simp: playing_def music_contexts_def)
  then show "set (playing MusicLoop m) \<subseteq> set_option (mdMoh m)" using media_invD(2) [OF assms] by fastforce
  have "filter (\<lambda>(k, c). k = MusicLoop \<and> \<not> ctx_done m c) xs = filter (\<lambda>(k, c). \<not> ctx_done m c) (filter (\<lambda>(k, c). k = MusicLoop) xs)" for xs
    by (induction xs) auto
  then have "playing MusicLoop m = filter (\<lambda>c. \<not> ctx_done m c) (List.map snd (filter (\<lambda>(k, c). k = MusicLoop) (mdLoops m)))"
    by (simp add: playing_def filter_map o_def case_prod_beta)
  then show "distinct (playing MusicLoop m)" using media_invD(1) [OF assms] by (simp add: music_contexts_def)
qed

text \<open>C23: Whatever the order in which entries, restarts and the watchdog start and stop media, the held party hears
  one music at most of those whose frames the server encodes itself, that of the newest context; when the hold
  is left nothing of the hold is heard any more, by either party.\<close>
theorem one_music:
  assumes "media_reach m"
  shows "length (playing MusicLoop m) \<le> 1 \<and> set (playing MusicLoop m) \<subseteq> set_option (mdMoh m)
    \<and> (mdActive m \<and> mdPlayer m \<longrightarrow> heard MusicLoop (media_leave m) = [] \<and> playing_direct DialLoop (media_leave m) = []
        \<and> set_option (mdRoot m) \<inter> set (heard k (media_leave m)) = {})"
proof -
  note inv = media_reach_inv [OF assms]
  have "length (playing MusicLoop m) \<le> 1"
    using playing_music [OF inv] by (cases "mdMoh m"; cases "playing MusicLoop m"; cases "tl (playing MusicLoop m)") auto
  moreover have "playing MusicLoop (media_leave m) = []" if "mdActive m"
    using playing_music(1) [OF inv_leave [OF inv]] that by (simp add: media_leave_def)
  moreover have "playing_direct j (media_leave m) = []" if "mdActive m \<and> mdPlayer m" for j
    using that by (simp add: media_leave_def playing_direct_def)
  moreover have "set_option (mdRoot m) \<inter> set (playing k (media_leave m)) = {}" if "mdActive m"
    using that by (auto simp: media_leave_def playing_def ctx_done_def)
  ultimately show ?thesis using playing_music(1) [OF inv] by (simp add: heard_def)
qed

lemma dial_playing:
  assumes "media_inv m"
  shows "playing DialLoop m = filter (\<lambda>c. c \<notin> set (mdCancelled m)) (dial_contexts m)"
proof -
  have none: "get (mdParent m) c = None" if "c \<in> set (dial_contexts m)" for c
    using media_invD(4) [OF assms, of c] that by (metis domIff dom_map_of_conv_image_fst set_map)
  have "filter (\<lambda>(k, c). k = DialLoop \<and> \<not> ctx_done m c) xs = filter (\<lambda>(k, c). \<not> ctx_done m c) (filter (\<lambda>(k, c). k = DialLoop) xs)" for xs
    by (induction xs) auto
  then have "playing DialLoop m = filter (\<lambda>c. \<not> ctx_done m c) (dial_contexts m)"
    by (simp add: playing_def dial_contexts_def filter_map o_def case_prod_beta)
  also have "\<dots> = filter (\<lambda>c. c \<notin> set (mdCancelled m)) (dial_contexts m)"
    using none by (intro filter_cong) (simp_all add: ctx_done_def)
  finally show ?thesis .
qed

lemma restart_adds_tone:
  assumes inv: "media_inv m" and m: "mdActive m" "mdPlayer m" "mdRoot m = Some r" "r \<notin> set (mdCancelled m)" "pb \<noteq> NoPlayback"
  shows "let m' = restartHoldMedia True pb heldEnabled hasLeg m in
    media_inv m' \<and> mdActive m' \<and> mdPlayer m' \<and> mdRoot m' = Some r \<and> r \<notin> set (mdCancelled m')
    \<and> length (heard DialLoop m') = Suc (length (heard DialLoop m))"
proof -
  let ?m' = "restartHoldMedia True pb heldEnabled hasLeg m" and ?m1 = "dial_tone r pb m"
  have inv': "media_inv ?m'" by (rule inv_watchdog [OF inv])
  have "get (mdParent m) r = None"
    using media_invD(4) [OF inv, of r] m(3) by (metis domIff dom_map_of_conv_image_fst set_map)
  then have live: "\<not> ctx_done m r" using m(4) by (simp add: ctx_done_def)
  have moh: "k \<notin> set (dial_contexts m) \<and> k \<noteq> r" if "mdMoh m = Some k" for k
    using media_invD(4) [OF inv, of k] media_invD(5) [OF inv that] m(3) by auto
  have f: "mdActive ?m' = mdActive m" "mdPlayer ?m' = mdPlayer m" "mdRoot ?m' = mdRoot m" "dial_contexts ?m' = dial_contexts ?m1"
    "playing_direct DialLoop ?m' = playing_direct DialLoop ?m1"
    "set (mdCancelled ?m') \<subseteq> set (mdCancelled m) \<union> set_option (mdMoh m)" "set (mdCancelled m) \<subseteq> set (mdCancelled ?m')"
    using m by (auto simp: restartHoldMedia_def restartHeldPartyMOH_def startHeldPartyMOH_def dial_tone_def
        dial_contexts_def playing_direct_def Let_def split: option.splits if_splits)
  have r: "r \<notin> set (mdCancelled ?m')" using f(6) m(4) moh by (cases "mdMoh m") auto
  have same: "c \<notin> set (mdCancelled ?m') \<longleftrightarrow> c \<notin> set (mdCancelled m)" if "c \<in> set (dial_contexts m)" for c
    using f(6,7) moh that by (cases "mdMoh m") auto
  then have "filter (\<lambda>c. c \<notin> set (mdCancelled ?m')) (dial_contexts m) = filter (\<lambda>c. c \<notin> set (mdCancelled m)) (dial_contexts m)"
    by (intro filter_cong) auto
  moreover have "(dial_contexts ?m1 = r # dial_contexts m \<and> playing_direct DialLoop ?m1 = playing_direct DialLoop m)
      \<or> (dial_contexts ?m1 = dial_contexts m \<and> playing_direct DialLoop ?m1 = r # playing_direct DialLoop m)"
    using m(5) live by (auto simp: dial_tone_def start_loop_def dial_contexts_def playing_direct_def)
  ultimately have "length (heard DialLoop ?m') = Suc (length (heard DialLoop m))"
    using r by (auto simp: heard_def dial_playing [OF inv'] dial_playing [OF inv] f(4,5))
  then show ?thesis using inv' f m r by (simp add: Let_def)
qed

text \<open>The watchdog, which restarts the media while too few bytes were sent, starts a dial tone each time and
  stops none: after k restarts k more are playing to the holder at once.  With a generated tone for music, whose
  bytes are counted for the dial tone, it restarts three times in every hold.\<close>
theorem dial_tones_pile_up:
  assumes "media_reach m" "mdActive m" "mdPlayer m" "mdRoot m = Some r" "r \<notin> set (mdCancelled m)" "pb \<noteq> NoPlayback"
  shows "length (heard DialLoop ((restartHoldMedia True pb heldEnabled hasLeg ^^ startHoldMediaWatchdog seen) m))
      = length (heard DialLoop m) + startHoldMediaWatchdog seen
    \<and> (length seen = 3 \<and> (\<forall>(active, moh, dial) \<in> set seen. active \<and> moh = 0) \<longrightarrow> startHoldMediaWatchdog seen = 3)"
proof (intro conjI impI)
  let ?R = "restartHoldMedia True pb heldEnabled hasLeg"
  have "media_inv ((?R ^^ k) m) \<and> mdActive ((?R ^^ k) m) \<and> mdPlayer ((?R ^^ k) m) \<and> mdRoot ((?R ^^ k) m) = Some r
      \<and> r \<notin> set (mdCancelled ((?R ^^ k) m)) \<and> length (heard DialLoop ((?R ^^ k) m)) = length (heard DialLoop m) + k" for k
  proof (induction k)
    case 0
    show ?case using assms media_reach_inv by simp
  next
    case (Suc k)
    then show ?case using restart_adds_tone [of "(?R ^^ k) m" r pb heldEnabled hasLeg] assms(6) by (simp add: Let_def)
  qed
  then show "length (heard DialLoop ((?R ^^ startHoldMediaWatchdog seen) m)) = length (heard DialLoop m) + startHoldMediaWatchdog seen"
    by blast
next
  assume "length seen = 3 \<and> (\<forall>(active, moh, dial) \<in> set seen. active \<and> moh = 0)"
  moreover have "(\<forall>(active, moh, dial) \<in> set xs. active \<and> moh = 0) \<Longrightarrow> watchdog (length xs) xs = length xs" for xs :: "(bool \<times> int \<times> int) list"
    by (induction xs) (auto simp: holdMOHAudibleBytes_def)
  ultimately show "startHoldMediaWatchdog seen = 3" by (metis startHoldMediaWatchdog_def)
qed

definition demo_media :: hold_media where
  "demo_media = media_active (dial_tone 0 TonePCM (media_begin no_media))"

lemma demo_media_reach: "media_reach demo_media"
proof -
  have "media_reach (media_begin no_media)" by (rule mrStep [OF mrStart msBegin]) (simp add: no_media_def)
  then have "media_reach (dial_tone 0 TonePCM (media_begin no_media))"
    by (rule mrStep) (rule msDial, simp add: media_begin_def no_media_def)
  then show ?thesis unfolding demo_media_def
    by (rule mrStep) (rule msActive, simp add: dial_tone_def media_begin_def no_media_def)
qed

lemma dial_tones_pile_up_witness:
  "length (heard DialLoop ((restartHoldMedia True TonePCM True True ^^ startHoldMediaWatchdog [(True, 0, 320), (True, 0, 640), (True, 0, 960)]) demo_media)) = 4"
proof -
  have d: "mdActive demo_media" "mdPlayer demo_media" "mdRoot demo_media = Some 0" "0 \<notin> set (mdCancelled demo_media)"
    "length (heard DialLoop demo_media) = 1"
    by (simp_all add: demo_media_def media_active_def dial_tone_def start_loop_def media_begin_def no_media_def heard_def playing_def
        playing_direct_def ctx_done_def)
  have p: "TonePCM \<noteq> NoPlayback" by simp
  have "length [(True, 0 :: int, 320 :: int), (True, 0, 640), (True, 0, 960)] = 3
      \<and> (\<forall>(active, moh, dial) \<in> set [(True, 0 :: int, 320 :: int), (True, 0, 640), (True, 0, 960)]. active \<and> moh = 0)" by simp
  then have w: "startHoldMediaWatchdog [(True, 0, 320), (True, 0, 640), (True, 0, 960)] = 3"
    using dial_tones_pile_up [OF demo_media_reach d(1-4) p] by blast
  show ?thesis
    using dial_tones_pile_up [OF demo_media_reach d(1-4) p, where heldEnabled = True and hasLeg = True
        and seen = "[(True, 0, 320), (True, 0, 640), (True, 0, 960)]", THEN conjunct1]
    unfolding w d(5) by simp
qed

lemma one_music_witness:
  "heard MusicLoop (media_leave demo_media) = []"
  using one_music [OF demo_media_reach] by (simp add: demo_media_def media_active_def)

text \<open>Music that the library plays is not ended by a restart: it is heard beside the new one until its track is over.\<close>
lemma direct_music_doubles:
  "let m1 = music_starts 1 MOHDirect (startHeldPartyMOH True demo_media);
       m2 = music_starts 2 MOHDirect (restartHeldPartyMOH True True m1)
   in heard MusicLoop m1 = [1] \<and> heard MusicLoop m2 = [2, 1] \<and> heard MusicLoop (track_ends 1 m2) = [2]"
  by code_simp

text \<open>An entry that is aborted, and a leg that cannot be sent media, play nothing; in all cases the dial tone is no
  longer pending.\<close>
theorem setup_ends:
  "\<not> hdDialPending h \<Longrightarrow> \<not> hdDialPending (snd (setupHolderDialTone callerHolds e h))
    \<and> (fst (setupHolderDialTone callerHolds e h) \<longrightarrow> (\<forall>k < 4. \<not> seAborted e k) \<and> sePlayback e \<noteq> NoPlayback)
    \<and> (fst (setupHeldPartyMOH callerHolds e h) \<longrightarrow> (\<forall>k < 3. \<not> seAborted e k) \<and> sePlayback e \<noteq> NoPlayback
        \<and> fst (enableHeldPartyMOHMedia callerHolds (seSettle e) (seHeldTries e) (seFinal e) h))"
proof -
  have four: "(\<forall>k < 4. P k) \<longleftrightarrow> P 0 \<and> P 1 \<and> P 2 \<and> P (3 :: nat)" for P
    by (auto simp: less_Suc_eq numeral_eq_Suc)
  have three: "(\<forall>k < 3. P k) \<longleftrightarrow> P 0 \<and> P 1 \<and> P (2 :: nat)" for P
    by (auto simp: less_Suc_eq numeral_eq_Suc)
  assume "\<not> hdDialPending h"
  then show ?thesis
    by (auto simp: setupHolderDialTone_def setupHeldPartyMOH_def startHolderDialTone_def Let_def four three split: prod.splits bool.splits)
qed

lemma setup_ends_witness:
  "\<not> hdDialPending (snd (setupHolderDialTone True
      \<lparr>seAborted = (\<lambda>k. k = 1), seSession = None, seSettle = True, seTries = [], seHeldTries = [], seFinal = None, sePlayback = TonePCM\<rparr>
      (new_hold ''101'' ''102'' None None)))"
proof -
  have "\<not> hdDialPending (new_hold ''101'' ''102'' None None)" by (simp add: new_hold_def)
  from setup_ends [OF this] show ?thesis by blast
qed

end
