(* ===== verification/Startup.thy ===== *)
theory Startup
  imports Pbx
begin

text \<open>
  How the server starts: cmd/voip-server/main.go, which finds its files, opens the
  database, writes the users of the configuration into it and loads the extensions,
  and New and Run of internal/pbx/server.go, which put the switchboard together and
  start its parts.  What the operating system answers, TOML, bcrypt and the SIP
  library are arguments; the database handed over by the system has its tables.
\<close>

section \<open>Where the files are\<close>

record boot_env =
  btReadFile :: "string \<Rightarrow> string option"
  btDecode :: "string \<Rightarrow> config option"
  btGetwd :: string
  btMkdirAll :: "string \<Rightarrow> bool"
  btOpenDB :: "string \<Rightarrow> db option"
  btHash :: "string \<Rightarrow> string option"
  btListDir :: "string \<Rightarrow> (string \<times> dirent) list option option"
  btExtDecode :: "string \<Rightarrow> extension option"
  btUserAgent :: "string \<Rightarrow> bool"
  btDetected :: string
  btClient :: bool
  btNotifySender :: bool

definition config_dir :: "string \<Rightarrow> string \<Rightarrow> string" where
  "config_dir wd cfgPath = (let d = Dir cfgPath in if d = ''.'' then wd else d)"

definition in_config_dir :: "string \<Rightarrow> string \<Rightarrow> string" where
  "in_config_dir cfgDir p = (if \<not> IsAbs p then Join [cfgDir, p] else p)"

section \<open>The database\<close>

datatype boot_error = ConfigNotLoaded load_error | NoDataDir | DBNotOpened | DBNotSeeded db_error
  | ExtensionsNotLoaded ext_error | NoUserAgent | BadCodecs codec_error | BadTones

text \<open>store.Open, after the driver has opened the file and migrate has made the tables.\<close>
definition store_Open :: "boot_env \<Rightarrow> string \<Rightarrow> (boot_error, db) result" where
  "store_Open env path =
     (case btOpenDB env path of
        None \<Rightarrow> Err DBNotOpened
      | Some d \<Rightarrow> map_sum DBNotSeeded (\<lambda>x. x) (seedDefaultAdmin (btHash env) d))"

text \<open>A user whose password cannot be hashed is skipped.\<close>
fun seed_users :: "(string \<Rightarrow> string option) \<Rightarrow> web_user list \<Rightarrow> db \<Rightarrow> db" where
  "seed_users hash [] d = d"
| "seed_users hash (u # us) d =
     (case hash (wuPassword u) of
        None \<Rightarrow> seed_users hash us d
      | Some h \<Rightarrow> seed_users hash us
          (UpsertWebUser (wuName u) h (if wuRole u = [] then ''admin'' else wuRole u) d))"

section \<open>The switchboard\<close>

record sip_listener =
  lsTransport :: string
  lsBindHost :: string
  lsBindPort :: int
  lsExternalHost :: string

definition appendSIPTransports :: "sip_listener list \<Rightarrow> config \<Rightarrow> string \<Rightarrow> string \<Rightarrow> int \<Rightarrow> sip_listener list" where
  "appendSIPTransports opts cfg bindTo extHost port =
     opts @ List.map (\<lambda>tr. \<lparr>lsTransport = tr, lsBindHost = bindTo, lsBindPort = port, lsExternalHost = extHost\<rparr>)
       (SIPTransports (cServer cfg))"

record switchboard =
  swServer :: server
  swListeners :: "sip_listener list"
  swCodecs :: "codec list"
  swTones :: profile
  swMOHDir :: string

text \<open>New: the extensions, the database and the configuration are handed to every part.\<close>
definition New_listeners :: "boot_env \<Rightarrow> config \<Rightarrow> sip_listener list" where
  "New_listeners env cfg =
     (let extHost = ExternalHost (btDetected env) cfg; bindTo = SIPBindHost cfg;
          opts = appendSIPTransports [] cfg bindTo extHost (bindPort (cServer cfg))
      in if sipProxyEnabled (cNAT cfg) then appendSIPTransports opts cfg bindTo extHost (sipProxyPort (cNAT cfg))
         else opts)"

definition New_server :: "config \<Rightarrow> (string, extension) gomap \<Rightarrow> db \<Rightarrow> server" where
  "New_server cfg exts st =
     \<lparr>pbConfig = cfg, pbExts = exts, pbStore = st,
      pbReg = NewRegistrar (realm (cServer cfg)) (cServer cfg) exts,
      pbCalls = NewManager (maxCalls (cLimits cfg)), pbWorld = empty_world, pbFeatures = cFeatures cfg\<rparr>"

definition New_switchboard :: "boot_env \<Rightarrow> config \<Rightarrow> string \<Rightarrow> (string, extension) gomap \<Rightarrow> db
    \<Rightarrow> (boot_error, switchboard) result" where
  "New_switchboard env cfg cfgDir exts st =
     (if \<not> btUserAgent env (realm (cServer cfg)) then Err NoUserAgent
      else case VoiceCodecs (cCodecs cfg) of
        Inl e \<Rightarrow> Err (BadCodecs e)
      | Inr cs \<Rightarrow>
      case TonesProfile (cTones cfg) of
        None \<Rightarrow> Err BadTones
      | Some pf \<Rightarrow>
          let d = mohDir (cServer cfg); moh = (if \<not> has_prefix d ''/'' then cfgDir @ ''/'' @ d else d)
          in Ok \<lparr>swServer = New_server cfg exts st, swListeners = New_listeners env cfg, swCodecs = cs,
               swTones = pf, swMOHDir = moh\<rparr>)"

text \<open>signalClient: the address the server's own requests leave from and the name they give.\<close>
record sip_client =
  scAddr :: "(string \<times> int) option"
  scName :: "(string \<times> int) option"

definition signalClient :: "string \<Rightarrow> config \<Rightarrow> sip_client" where
  "signalClient detected cfg =
     (let bindTo = SIPBindHost cfg;
          port = (if bindPort (cServer cfg) \<le> 0 then 5060 else bindPort (cServer cfg));
          extHost = ExternalHost detected cfg
      in \<lparr>scAddr = (if bindTo \<noteq> [] then Some (bindTo, port) else None),
          scName = (if extHost \<noteq> [] \<and> extHost \<noteq> bindTo then Some (extHost, port) else None)\<rparr>)"

text \<open>Run: the background parts in the order it starts them; it then serves until the end.\<close>
datatype part = PresencePruning | RegistrarPruning | TrunkSupervisors | STUNOn string int | ServesSIP

definition Run :: "boot_env \<Rightarrow> config \<Rightarrow> part list option" where
  "Run env cfg =
     (if \<not> btClient env then None
      else if \<not> btNotifySender env then None
      else Some ([PresencePruning, RegistrarPruning, TrunkSupervisors]
        @ (if stunEnabled (cNAT cfg) then [STUNOn (STUNBindHost cfg) (stunPort (cNAT cfg))] else [])
        @ [ServesSIP]))"

section \<open>main\<close>

text \<open>The exit code of every error is 1; the switchboard is what main goes on to serve.\<close>
definition boot :: "boot_env \<Rightarrow> string \<Rightarrow> (boot_error, switchboard) result" where
  "boot env cfgPath =
     (case LoadConfig (btReadFile env) (btDecode env) cfgPath of
        Inl e \<Rightarrow> Err (ConfigNotLoaded e)
      | Inr cfg \<Rightarrow>
      let cfgDir = config_dir (btGetwd env) cfgPath;
          dbPath = in_config_dir cfgDir (cDatabasePath cfg);
          extDir = in_config_dir cfgDir (cExtensionsDir cfg) in
      if \<not> btMkdirAll env (Dir dbPath) then Err NoDataDir
      else case store_Open env dbPath of
        Inl e \<Rightarrow> Err e
      | Inr st0 \<Rightarrow>
      let st = seed_users (btHash env) (cUsers cfg) st0 in
      case LoadExtensions (btExtDecode env) (btListDir env extDir) (maxCallsPerExt (cLimits cfg)) of
        Inl e \<Rightarrow> Err (ExtensionsNotLoaded e)
      | Inr exts \<Rightarrow> New_switchboard env cfg cfgDir exts st)"

section \<open>Lemmas\<close>

text \<open>Everything a start that succeeds has got past.\<close>
lemma boot_Ok:
  assumes "boot env p = Ok sw"
  obtains cfg st0 d cs pf exts where
    "LoadConfig (btReadFile env) (btDecode env) p = Ok cfg"
    "btOpenDB env (in_config_dir (config_dir (btGetwd env) p) (cDatabasePath cfg)) = Some d"
    "seedDefaultAdmin (btHash env) d = Ok st0"
    "LoadExtensions (btExtDecode env) (btListDir env (in_config_dir (config_dir (btGetwd env) p) (cExtensionsDir cfg)))
       (maxCallsPerExt (cLimits cfg)) = Ok exts"
    "VoiceCodecs (cCodecs cfg) = Ok cs" "TonesProfile (cTones cfg) = Some pf"
    "swServer sw = New_server cfg exts (seed_users (btHash env) (cUsers cfg) st0)"
    "swListeners sw = New_listeners env cfg" "swCodecs sw = cs" "swTones sw = pf"
proof -
  from assms obtain cfg where c: "LoadConfig (btReadFile env) (btDecode env) p = Ok cfg"
    by (auto simp: boot_def split: sum.splits)
  let ?dir = "config_dir (btGetwd env) p"
  from assms c obtain st0 where s: "store_Open env (in_config_dir ?dir (cDatabasePath cfg)) = Ok st0"
    by (auto simp: boot_def Let_def split: sum.splits if_splits)
  then obtain d where d: "btOpenDB env (in_config_dir ?dir (cDatabasePath cfg)) = Some d"
      "seedDefaultAdmin (btHash env) d = Ok st0"
    by (cases "btOpenDB env (in_config_dir ?dir (cDatabasePath cfg))";
        cases "seedDefaultAdmin (btHash env) (the (btOpenDB env (in_config_dir ?dir (cDatabasePath cfg))))")
       (auto simp: store_Open_def)
  let ?exts = "LoadExtensions (btExtDecode env) (btListDir env (in_config_dir ?dir (cExtensionsDir cfg)))
       (maxCallsPerExt (cLimits cfg))"
  from assms c s obtain exts where e: "?exts = Ok exts"
      and n: "New_switchboard env cfg ?dir exts (seed_users (btHash env) (cUsers cfg) st0) = Ok sw"
    by (cases ?exts) (auto simp: boot_def Let_def split: if_splits)
  from n obtain cs pf where "VoiceCodecs (cCodecs cfg) = Ok cs" "TonesProfile (cTones cfg) = Some pf"
      "swServer sw = New_server cfg exts (seed_users (btHash env) (cUsers cfg) st0)"
      "swListeners sw = New_listeners env cfg" "swCodecs sw = cs" "swTones sw = pf"
    by (auto simp: New_switchboard_def Let_def split: if_splits sum.splits option.splits)
  with c d e show thesis by (rule that)
qed

lemma LoadConfig_Ok:
  assumes "LoadConfig rd dec p = Ok cfg"
  obtains body c where "rd p = Some body" "dec body = Some c" "Validate (setDefaults c) = Ok cfg"
  using assms by (auto simp: LoadConfig_def split: option.splits sum.splits)

lemma seed_users_keeps:
  assumes "\<And>u h r d. P d \<Longrightarrow> P (UpsertWebUser u h r d)"
  shows "P d \<Longrightarrow> P (seed_users hash us d)"
proof (induction hash us d rule: seed_users.induct)
  case (2 hash u us d)
  then show ?case by (cases "hash (wuPassword u)") (simp_all add: assms)
qed simp

lemma seed_users_inv: "db_inv d \<Longrightarrow> db_inv (seed_users hash us d)"
  by (rule seed_users_keeps) (rule UpsertWebUser_inv)

lemma find_after_none: "List.find P xs = None \<Longrightarrow> List.find P (xs @ ys) = List.find P ys"
  by (induction xs) auto

lemma find_map_key:
  "(\<forall>p. key (snd (f p)) = key (snd p)) \<Longrightarrow>
     List.find (\<lambda>p. key (snd p) = k) (List.map f xs) = map_option f (List.find (\<lambda>p. key (snd p) = k) xs)"
  by (induction xs) auto

text \<open>A user that has just been written is found with the password and role written.\<close>
lemma Upsert_found:
  obtains i where "GetWebUserByUsername n (UpsertWebUser n h r d)
     = Some (i, \<lparr>suUsername = n, suPasswordHash = h, suRole = r\<rparr>)"
proof -
  let ?rows = "tbRows (dbWebUsers d)" and ?P = "\<lambda>p. suUsername (snd p) = n"
  let ?f = "\<lambda>p. if ?P p then (fst p, (snd p)\<lparr>suPasswordHash := h, suRole := r\<rparr>) else p"
  show thesis
  proof (cases "List.find ?P ?rows")
    case None
    then have no: "\<forall>p \<in> set ?rows. suUsername (snd p) \<noteq> n" unfolding find_None_iff by blast
    then have "List.find ?P (?rows @ [(tbNext (dbWebUsers d), \<lparr>suUsername = n, suPasswordHash = h, suRole = r\<rparr>)])
        = Some (tbNext (dbWebUsers d), \<lparr>suUsername = n, suPasswordHash = h, suRole = r\<rparr>)"
      by (simp add: find_after_none None)
    with no show thesis
      by (intro that) (auto simp: GetWebUserByUsername_def UpsertWebUser_def row_find_def row_upsert_def row_insert_def)
  next
    case (Some p)
    then have p: "p \<in> set ?rows" "suUsername (snd p) = n" by (auto simp: find_Some_iff)
    have "List.find ?P (List.map ?f ?rows) = map_option ?f (Some p)"
      by (subst find_map_key) (simp_all add: Some)
    with p have "GetWebUserByUsername n (UpsertWebUser n h r d)
       = Some (fst p, \<lparr>suUsername = n, suPasswordHash = h, suRole = r\<rparr>)"
      by (cases "snd p") (auto simp: GetWebUserByUsername_def UpsertWebUser_def row_find_def row_upsert_def)
    then show thesis by (rule that)
  qed
qed

lemma LoadExtensions_ok:
  assumes "LoadExtensions dec dir m = Ok exts"
  shows "distinct (keys exts) \<and> (\<forall>p \<in> set exts. ext_ok p)"
proof (cases "\<exists>ents. dir = Some (Some ents)")
  case True
  let ?m = "if m \<le> 0 then DefaultMaxCallsPerExtension else m"
  from True assms obtain ents where "load_entries dec ?m [] ents = Ok exts"
    by (auto simp: LoadExtensions_def Let_def)
  then show ?thesis by (rule load_entries_inv) (simp_all add: DefaultMaxCallsPerExtension_def)
next
  case False
  with assms show ?thesis by (auto simp: LoadExtensions_def Let_def split: option.splits)
qed


lemma seed_users_some: "tbRows (dbWebUsers d) \<noteq> [] \<Longrightarrow> tbRows (dbWebUsers (seed_users hash us d)) \<noteq> []"
  by (rule seed_users_keeps [where P = "\<lambda>d. tbRows (dbWebUsers d) \<noteq> []"])
     (auto simp: UpsertWebUser_def row_upsert_def row_insert_def)

lemma seeded_some: "seedDefaultAdmin hash d = Ok d' \<Longrightarrow> tbRows (dbWebUsers d') \<noteq> []"
  by (auto simp: seedDefaultAdmin_def map_sum_Ok row_add_def row_insert_def split: if_splits option.splits)

lemma norm_transports_distinct: "distinct (norm_transports seen ts) \<and> set (norm_transports seen ts) \<inter> set seen = {}"
  by (induction seen ts rule: norm_transports.induct) (auto simp: Let_def)

lemma SIPTransports_ok: "distinct (SIPTransports s)" "SIPTransports s \<noteq> []"
  using norm_transports_distinct [of "[]"] by (auto simp: SIPTransports_def normalizeSIPTransports_def Let_def)

text \<open>A configuration that loads.\<close>
lemma loaded_config:
  assumes "LoadConfig rd dec p = Ok cfg"
  shows "validateNAT cfg = None" "check_codes [] (named_codes (cFeatures cfg)) = None"
    "\<exists>body c. rd p = Some body \<and> dec body = Some c \<and> cUsers cfg = cUsers (setDefaults c)"
proof -
  from LoadConfig_Ok [OF assms] obtain body c where c: "rd p = Some body" "dec body = Some c"
    "Validate (setDefaults c) = Ok cfg" by blast
  from Validate_ok [OF c(3)] show "validateNAT cfg = None" "check_codes [] (named_codes (cFeatures cfg)) = None"
    by simp_all
  have "cUsers cfg = cUsers (setDefaults c)" using Validate_ok(1) [OF c(3)] by simp
  with c show "\<exists>body c. rd p = Some body \<and> dec body = Some c \<and> cUsers cfg = cUsers (setDefaults c)" by blast
qed

lemma region_checked:
  assumes "LoadConfig rd dec p = Ok cfg"
  shows "TonesProfile (cTones cfg) \<noteq> None"
proof -
  from LoadConfig_Ok [OF assms] obtain body c where v: "Validate (setDefaults c) = Ok cfg" by blast
  then have "ParseRegion (tonesRegion (TonesApplyDefaults (cTones (setDefaults c)))) \<noteq> None"
    by (auto simp: Validate_def validateFeatures_def Let_def split: option.splits prod.splits if_splits)
  then show ?thesis
    using Validate_ok(1) [OF v] by (simp add: TonesProfile_def Let_def TonesApplyDefaults_def dflt_def split: if_splits)
qed

lemma store_never_tones: "store_Open env path \<noteq> Err BadTones"
  by (auto simp: store_Open_def map_sum_def split: option.splits sum.splits)

section \<open>What a start leaves\<close>

text \<open>A server that has started from a consistent database is consistent in all its
  parts: the database, the call counts and the registry of calls keep their invariants,
  nobody is registered and no call is active, the registrar and the switchboard have the
  same extensions, each under its own number, and there is somebody who can log in.\<close>
theorem start_consistent:
  assumes "boot env p = Ok sw" "\<forall>path d. btOpenDB env path = Some d \<longrightarrow> db_inv d"
  shows "db_inv (pbStore (swServer sw)) \<and> tbRows (dbWebUsers (pbStore (swServer sw))) \<noteq> []
    \<and> mgr_inv (pbCalls (swServer sw)) \<and> mgActive (pbCalls (swServer sw)) = 0
    \<and> reg_inv (pbWorld (swServer sw)) \<and> rgBindings (pbReg (swServer sw)) = []
    \<and> rgExts (pbReg (swServer sw)) = pbExts (swServer sw)
    \<and> distinct (keys (pbExts (swServer sw))) \<and> (\<forall>x \<in> set (pbExts (swServer sw)). ext_ok x)"
proof -
  from assms(1) obtain cfg st0 d exts where b:
    "btOpenDB env (in_config_dir (config_dir (btGetwd env) p) (cDatabasePath cfg)) = Some d"
    "seedDefaultAdmin (btHash env) d = Ok st0"
    "LoadExtensions (btExtDecode env) (btListDir env (in_config_dir (config_dir (btGetwd env) p) (cExtensionsDir cfg)))
       (maxCallsPerExt (cLimits cfg)) = Ok exts"
    "swServer sw = New_server cfg exts (seed_users (btHash env) (cUsers cfg) st0)"
    by (rule boot_Ok) (rule that)
  have "db_inv st0" using assms(2) b(1) seedDefaultAdmin_inv [OF b(2)] by blast
  moreover have "mgr_inv (NewManager n)" for n by (rule mgr_reach_inv [OF mgr_reach.start])
  moreover have "reg_inv empty_world" by (rule world_reach_inv [OF world_reach.start])
  ultimately show ?thesis
    using LoadExtensions_ok [OF b(3)] seed_users_some [OF seeded_some [OF b(2)]]
    by (simp add: b(4) New_server_def seed_users_inv NewManager_def NewRegistrar_def Let_def)
qed

text \<open>C13: The library fills the users of the configuration from a key that is literally
  called web.users, which the section the example file writes is not.  When none are read
  the defaults add the user admin with the password admin, and every start writes it into
  the database: whatever the database held, after a start admin has that password and the
  role of an administrator again, so a password changed in the web interface lasts until
  the next restart.\<close>
theorem default_admin_returns:
  assumes "boot env p = Ok sw" "btHash env ''admin'' = Some h"
    and "\<forall>body c. btReadFile env p = Some body \<longrightarrow> btDecode env body = Some c \<longrightarrow> cUsers c = []"
  shows "\<exists>i. GetWebUserByUsername ''admin'' (pbStore (swServer sw))
    = Some (i, \<lparr>suUsername = ''admin'', suPasswordHash = h, suRole = ''admin''\<rparr>)"
proof -
  from assms(1) obtain cfg st0 exts where b:
    "LoadConfig (btReadFile env) (btDecode env) p = Ok cfg"
    "swServer sw = New_server cfg exts (seed_users (btHash env) (cUsers cfg) st0)" by (rule boot_Ok) (rule that)
  from loaded_config(3) [OF b(1)] assms(3)
  have "cUsers cfg = [\<lparr>wuName = ''admin'', wuPassword = ''admin'', wuRole = ''admin''\<rparr>]"
    by (auto simp: setDefaults_def Let_def)
  then have "pbStore (swServer sw) = UpsertWebUser ''admin'' h ''admin'' st0"
    by (simp add: b(2) New_server_def assms(2))
  with Upsert_found [of "''admin''" h "''admin''" st0] show ?thesis by metis
qed

text \<open>A server that starts listens on at least one transport, on no transport and port
  twice, and never on the port of its STUN service; a start never fails in the tones,
  whose region the configuration has been checked for.\<close>
theorem start_listens:
  "(case boot env p of
      Inl e \<Rightarrow> e \<noteq> BadTones
    | Inr sw \<Rightarrow>
        swListeners sw \<noteq> [] \<and> distinct (List.map (\<lambda>l. (lsTransport l, lsBindPort l)) (swListeners sw))
        \<and> (stunEnabled (cNAT (pbConfig (swServer sw)))
            \<longrightarrow> stunPort (cNAT (pbConfig (swServer sw))) \<notin> lsBindPort ` set (swListeners sw)))"
proof (cases "boot env p")
  case (Inl e)
  have "e \<noteq> BadTones"
  proof
    assume "e = BadTones"
    with Inl obtain cfg where "LoadConfig (btReadFile env) (btDecode env) p = Ok cfg" "TonesProfile (cTones cfg) = None"
      by (auto simp: boot_def New_switchboard_def store_never_tones Let_def split: sum.splits if_splits option.splits)
    with region_checked show False by blast
  qed
  with Inl show ?thesis by simp
next
  case (Inr sw)
  from Inr obtain cfg st0 exts where b:
    "LoadConfig (btReadFile env) (btDecode env) p = Ok cfg"
    "swServer sw = New_server cfg exts (seed_users (btHash env) (cUsers cfg) st0)"
    "swListeners sw = New_listeners env cfg" by (rule boot_Ok) (rule that)
  have nat: "validateNAT cfg = None" using loaded_config(1) [OF b(1)] .
  have "stunEnabled (cNAT cfg) \<longrightarrow> stunPort (cNAT cfg) \<noteq> bindPort (cServer cfg)"
    "sipProxyEnabled (cNAT cfg) \<longrightarrow> sipProxyPort (cNAT cfg) \<noteq> bindPort (cServer cfg)
      \<and> (stunEnabled (cNAT cfg) \<longrightarrow> stunPort (cNAT cfg) \<noteq> sipProxyPort (cNAT cfg))"
    using nat by (auto simp: validateNAT_def validateSTUN_def split: if_splits option.splits)
  then show ?thesis
    using SIPTransports_ok [of "cServer cfg"]
    by (auto simp: Inr b New_listeners_def New_server_def appendSIPTransports_def Let_def o_def distinct_map inj_on_def)
qed


section \<open>A start\<close>

text \<open>An empty configuration file, and a database in which admin has another password.\<close>
definition demo_boot :: boot_env where
  "demo_boot = \<lparr>btReadFile = (\<lambda>_. Some []), btDecode = (\<lambda>_. Some empty_config), btGetwd = ''/pbx'',
     btMkdirAll = (\<lambda>_. True), btOpenDB = (\<lambda>_. Some (UpsertWebUser ''admin'' ''changed'' ''admin'' empty_db)),
     btHash = Some, btListDir = (\<lambda>_. None), btExtDecode = (\<lambda>_. None), btUserAgent = (\<lambda>_. True),
     btDetected = ''10.0.0.1'', btClient = True, btNotifySender = True\<rparr>"

definition demo_started :: switchboard where
  "demo_started = (case boot demo_boot ''config.toml'' of Inr sw \<Rightarrow> sw | Inl e \<Rightarrow> undefined)"

lemma demo_boot_Ok: "boot demo_boot ''config.toml'' = Ok demo_started"
proof -
  have "case boot demo_boot ''config.toml'' of Inr sw \<Rightarrow> True | Inl e \<Rightarrow> False" by code_simp
  then show ?thesis by (simp add: demo_started_def split: sum.splits)
qed

theorem start_consistent_witness:
  "mgActive (pbCalls (swServer demo_started)) = 0 \<and> tbRows (dbWebUsers (pbStore (swServer demo_started))) \<noteq> []"
proof -
  have "db_inv (UpsertWebUser ''admin'' ''changed'' ''admin'' empty_db)"
    by (rule UpsertWebUser_inv [OF db_reach_inv [OF db_reach.start]])
  then have "\<forall>path d. btOpenDB demo_boot path = Some d \<longrightarrow> db_inv d" by (simp add: demo_boot_def)
  from start_consistent [OF demo_boot_Ok this] show ?thesis by simp
qed

theorem default_admin_returns_witness:
  "\<exists>i. GetWebUserByUsername ''admin'' (pbStore (swServer demo_started))
    = Some (i, \<lparr>suUsername = ''admin'', suPasswordHash = ''admin'', suRole = ''admin''\<rparr>)"
  by (rule default_admin_returns [OF demo_boot_Ok]) (simp_all add: demo_boot_def empty_config_def)

theorem start_listens_witness:
  "boot demo_boot ''config.toml'' = Ok demo_started \<and> swListeners demo_started \<noteq> []"
  using start_listens [of demo_boot "''config.toml''"] demo_boot_Ok by simp

end
