(* ===== verification/Refer.thy ===== *)
theory Refer
  imports Calls Runs
begin

text \<open>
  Transfer by REFER (internal/call/bridge.go, makeTransferHandler): what happens when the caller's
  phone sends its party on to somebody else.  The library makes the dialog to the new party, calls
  the handler with it and tells the phone how it ended.
\<close>

section \<open>The handler\<close>

text \<open>Besides the worlds of Calls a transfer has goroutines that wait for the end of one dialog (the new
  party's) and hang up another (the caller's).\<close>
record refer_world =
  rwWorld :: world
  rwFollow :: "(dlg \<times> dlg) list"

text \<open>StopBridge and cancelHold of the call\<close>
definition cancel_call_media :: "active_call \<Rightarrow> active_call" where
  "cancel_call_media ac = ac\<lparr>acBridge := False, acHoldActive := False\<rparr>"

text \<open>The handler for the call r between din and peer, up to the wait it ends in.  answered: the new party
  accepts; bridged: the new bridge starts.\<close>
definition makeTransferHandler :: "nat \<Rightarrow> dlg \<Rightarrow> dlg \<Rightarrow> dlg \<Rightarrow> bool \<Rightarrow> bool \<Rightarrow> refer_world \<Rightarrow> transfer_err option \<times> refer_world" where
  "makeTransferHandler r din peer target answered bridged rw =
     (let w = rwWorld rw; w1 = w\<lparr>wHeap := upd_call r cancel_call_media (wHeap w)\<rparr> in
      if \<not> answered then (Some InviteFailed, rw\<lparr>rwWorld := w1\<rparr>)
      else
        let consult = (case get (wHeap w) r of None \<Rightarrow> None | Some ac \<Rightarrow> acConsult ac);
            w2 = w1\<lparr>wLive := hangup_opt consult (target # wLive w1)\<rparr> in
        if \<not> bridged then (Some BridgeFailed, rw\<lparr>rwWorld := w2\<rparr>)
        else (None, rw\<lparr>rwWorld := w2\<lparr>wWatch := \<lparr>wtA = peer, wtB = target, wtCall = None, wtUnreg = None\<rparr> # wWatch w2\<rparr>,
                       rwFollow := (target, din) # rwFollow rw\<rparr>))"

text \<open>The goroutine that waits for the new party\<close>
definition follow_fire :: "dlg \<times> dlg \<Rightarrow> refer_world \<Rightarrow> refer_world" where
  "follow_fire f rw =
     rw\<lparr>rwWorld := (rwWorld rw)\<lparr>wLive := hangup (snd f) (wLive (rwWorld rw))\<rparr>, rwFollow := removeAll f (rwFollow rw)\<rparr>"

section \<open>What runs afterwards\<close>

inductive refer_step :: "refer_world \<Rightarrow> refer_world \<Rightarrow> bool" where
  rsWorld: "world_step (rwWorld rw) w \<Longrightarrow> refer_step rw (rw\<lparr>rwWorld := w\<rparr>)"
| rsRefer: "refer_step rw (snd (makeTransferHandler r din peer target answered bridged rw))"
| rsFollow: "f \<in> set (rwFollow rw) \<Longrightarrow> fst f \<notin> set (wLive (rwWorld rw)) \<Longrightarrow> refer_step rw (follow_fire f rw)"

inductive_cases refer_stepE: "refer_step rw rw'"

text \<open>The goroutines that run before anything new happens\<close>
inductive settles :: "refer_world \<Rightarrow> refer_world \<Rightarrow> bool" where
  stWatch: "t \<in> set (wWatch (rwWorld rw)) \<Longrightarrow> watch_ready t (rwWorld rw) \<Longrightarrow> settles rw (rw\<lparr>rwWorld := watch_fire t (rwWorld rw)\<rparr>)"
| stFollow: "f \<in> set (rwFollow rw) \<Longrightarrow> fst f \<notin> set (wLive (rwWorld rw)) \<Longrightarrow> settles rw (follow_fire f rw)"

inductive_cases settlesE: "settles rw rw'"

lemma settles_step: "settles rw rw' \<Longrightarrow> refer_step rw rw'"
  by (induction rule: settles.induct) (auto intro: refer_step.intros world_step.watch)

text \<open>The dialogs that are alive and the goroutines only become fewer.\<close>
lemma hangup_less: "set (hangup d ls) \<subseteq> set ls" "d \<notin> set (hangup d ls)"
  by (auto simp: hangup_def)

lemma watch_fire_less: "set (wLive (watch_fire t w)) \<subseteq> set (wLive w)"
  using hangup_less(1) by (auto simp: watch_fire_def Let_def split: if_splits)

lemma settles_less:
  assumes "settles rw rw'"
  shows "set (wLive (rwWorld rw')) \<subseteq> set (wLive (rwWorld rw))"
    and "length (wWatch (rwWorld rw')) + length (rwFollow rw') < length (wWatch (rwWorld rw)) + length (rwFollow rw)"
  using assms
proof (induction rule: settles.induct)
  case (stWatch t rw)
  have "length (removeAll t (wWatch (rwWorld rw))) < length (wWatch (rwWorld rw))"
    using stWatch(1) by (rule length_removeAll_less)
  then show "set (wLive (rwWorld (rw\<lparr>rwWorld := watch_fire t (rwWorld rw)\<rparr>))) \<subseteq> set (wLive (rwWorld rw))"
    "length (wWatch (rwWorld (rw\<lparr>rwWorld := watch_fire t (rwWorld rw)\<rparr>))) + length (rwFollow (rw\<lparr>rwWorld := watch_fire t (rwWorld rw)\<rparr>))
       < length (wWatch (rwWorld rw)) + length (rwFollow rw)"
    using watch_fire_less by (simp_all add: watch_fire_def Let_def)
next
  case (stFollow f rw)
  have "length (removeAll f (rwFollow rw)) < length (rwFollow rw)" using stFollow(1) by (rule length_removeAll_less)
  then show "set (wLive (rwWorld (follow_fire f rw))) \<subseteq> set (wLive (rwWorld rw))"
    "length (wWatch (rwWorld (follow_fire f rw))) + length (rwFollow (follow_fire f rw))
       < length (wWatch (rwWorld rw)) + length (rwFollow rw)"
    using hangup_less(1) by (auto simp: follow_fire_def)
qed


section \<open>How a transfer ends\<close>

text \<open>The transferring leg is gone; the call's own goroutine t still waits, or has hung up the transferred
  party, and the goroutine n of the new call still waits, or the new party is gone.\<close>
definition ending :: "watcher \<Rightarrow> watcher \<Rightarrow> refer_world \<Rightarrow> bool" where
  "ending t n rw =
     (wtA t \<notin> set (wLive (rwWorld rw))
      \<and> (t \<in> set (wWatch (rwWorld rw)) \<or> wtB t \<notin> set (wLive (rwWorld rw)))
      \<and> (n \<in> set (wWatch (rwWorld rw)) \<or> wtB n \<notin> set (wLive (rwWorld rw))))"

lemma watch_fire_other: "u \<noteq> t \<Longrightarrow> t \<in> set (wWatch w) \<Longrightarrow> t \<in> set (wWatch (watch_fire u w))"
  by (simp add: watch_fire_def Let_def)

lemma watch_fire_hangs_up: "wtA t \<notin> set (wLive w) \<Longrightarrow> wtB t \<notin> set (wLive (watch_fire t w))"
  by (simp add: watch_fire_def Let_def hangup_def)

lemma ready_hangs_up: "watch_ready t w \<Longrightarrow> wtB t \<notin> set (wLive (watch_fire t w))"
  using watch_fire_hangs_up [of t w] watch_fire_less [of t w] by (auto simp: watch_ready_def)

lemma ending_settles:
  assumes "settles rw rw'" "ending t n rw"
  shows "ending t n rw'"
  using assms
proof (induction rule: settles.induct)
  case (stWatch u rw)
  let ?w = "rwWorld rw"
  have "x \<in> set (wWatch (watch_fire u ?w)) \<or> wtB x \<notin> set (wLive (watch_fire u ?w))"
    if "x \<in> set (wWatch ?w) \<or> wtB x \<notin> set (wLive ?w)" for x
    using that watch_fire_other [of u x ?w] ready_hangs_up [OF stWatch(2)] watch_fire_less [of u ?w] by (cases "u = x") auto
  then show ?case using stWatch(3) watch_fire_less [of u ?w] unfolding ending_def by auto
next
  case (stFollow f rw)
  then show ?case using hangup_less(1) by (auto simp: ending_def follow_fire_def)
qed

text \<open>The goroutines of a transfer settle, and keep what they still have to do.\<close>
definition goroutines :: "refer_world \<Rightarrow> nat" where
  "goroutines rw = length (wWatch (rwWorld rw)) + length (rwFollow rw)"

interpretation calm: settling settles "ending t n" goroutines for t n
  by unfold_locales (simp_all add: ending_settles goroutines_def settles_less(2))

lemma ending_over:
  assumes "ending t n rw" "wtA n = wtB t" "\<forall>rw'. \<not> settles rw rw'"
  shows "wtB t \<notin> set (wLive (rwWorld rw)) \<and> wtB n \<notin> set (wLive (rwWorld rw))"
proof -
  have no: "\<not> (x \<in> set (wWatch (rwWorld rw)) \<and> watch_ready x (rwWorld rw))" for x
    using assms(3) stWatch by blast
  have t: "wtB t \<notin> set (wLive (rwWorld rw))" using assms(1) no [of t] by (auto simp: ending_def watch_ready_def)
  with no [of n] assms(1,2) show ?thesis by (auto simp: ending_def watch_ready_def)
qed

text \<open>C9: A transfer by REFER lasts until the transferring phone hangs up, which is what it does on
  hearing that the transfer has worked: the call's own goroutine still waits for both legs of the
  call, so it hangs up the transferred party, and the goroutine of the new call then hangs up the
  new party.  Whatever the order in which the goroutines run, they come to rest, and both are gone.\<close>
theorem refer_torn_down:
  fixes r :: nat and caller callee :: string and din dout target :: dlg and w :: world and fs :: "(dlg \<times> dlg) list"
  assumes "din \<noteq> dout" "target \<noteq> din"
  defines "rw0 \<equiv> \<lparr>rwWorld = call_connected r caller callee din dout w, rwFollow = fs\<rparr>"
  defines "rw1 \<equiv> snd (makeTransferHandler r din dout target True True rw0)"
  defines "rw2 \<equiv> rw1\<lparr>rwWorld := party_bye din (rwWorld rw1)\<rparr>"
  shows "fst (makeTransferHandler r din dout target True True rw0) = None
    \<and> {din, dout, target} \<subseteq> set (wLive (rwWorld rw1)) \<and> (\<exists>rw'. settles\<^sup>*\<^sup>* rw2 rw' \<and> (\<forall>rw''. \<not> settles rw' rw''))
    \<and> (\<forall>rw'. settles\<^sup>*\<^sup>* rw2 rw' \<and> (\<forall>rw''. \<not> settles rw' rw'')
         \<longrightarrow> {din, dout, target} \<inter> set (wLive (rwWorld rw')) = {})"
proof -
  let ?t = "\<lparr>wtA = din, wtB = dout, wtCall = Some r, wtUnreg = Some din\<rparr>"
  let ?n = "\<lparr>wtA = dout, wtB = target, wtCall = None, wtUnreg = None\<rparr>"
  have one: "fst (makeTransferHandler r din dout target True True rw0) = None"
    "wLive (rwWorld rw1) = target # din # dout # wLive w" "wWatch (rwWorld rw1) = ?n # ?t # wWatch w"
    by (simp_all add: rw1_def rw0_def makeTransferHandler_def Let_def call_connected_def hangup_opt_def)
  have "ending ?t ?n rw2"
    using assms(1) one(2,3) by (simp add: ending_def rw2_def party_bye_def hangup_def)
  note run = calm.run_kept [OF _ this] and rest = calm.rest_reached [OF this, unfolded calm.at_end_def]
  have "{din, dout, target} \<inter> set (wLive (rwWorld rw')) = {}"
    if "settles\<^sup>*\<^sup>* rw2 rw'" "\<forall>rw''. \<not> settles rw' rw''" for rw'
    using ending_over [OF run [OF that(1)] _ that(2)] run [OF that(1)] by (simp add: ending_def)
  with one rest show ?thesis by auto
qed

lemma refer_torn_down_witness:
  "{''in'', ''out'', ''new''} \<subseteq> set (wLive (rwWorld (snd (makeTransferHandler 0 ''in'' ''out'' ''new'' True True
     \<lparr>rwWorld = one_call, rwFollow = []\<rparr>))))"
  using refer_torn_down [of "''in''" "''out''" "''new''" 0 "''101''" "''102''" empty_world "[]"] by (simp add: one_call_def)

end
