(* ===== verification/Fanout.thy ===== *)
theory Fanout
  imports AudioBridge
begin

text \<open>
  The audio of a page (internal/media/audiobridge/conference.go, FanoutTranscoded): the caller's
  voice is decoded once and encoded for every phone that has answered.  What the phones' sockets do
  is the sink of the writers of Pcm.
\<close>

section \<open>The loop\<close>

datatype fan_err = FanCanceled | FanRead codec_err

text \<open>Each chunk read is written to every leg, in order; the error of a write is only logged.  over: after how
  many reads the context ends, if it does.  The result has no error while the source blocks.\<close>
function fan_loop :: "('s, 'z) codec_libs_scheme \<Rightarrow> (bytes \<Rightarrow> 'w \<Rightarrow> bool \<times> 'w) \<Rightarrow> nat option
    \<Rightarrow> 's pcm_reader \<Rightarrow> ('s, 'w) pcm_writer list \<Rightarrow> fan_err option \<times> 's pcm_reader \<times> ('s, 'w) pcm_writer list" where
  "fan_loop libs sink over r ws =
     (if over = Some 0 then (Some FanCanceled, r, ws)
      else case pcm_read libs RTPBufSize r of
        None \<Rightarrow> (None, r, ws)
      | Some (Inl e, r') \<Rightarrow> (Some (FanRead e), r', ws)
      | Some (Inr b, r') \<Rightarrow>
          fan_loop libs sink (map_option (\<lambda>n. n - 1) over) r'
            (if b = [] then ws else List.map (\<lambda>w. snd (PCMWrite libs sink b w)) ws))"
  by pat_completeness auto
termination
proof (relation "inv_image (less_than <*lex*> less_than)
    (\<lambda>(libs, sink, over, r, ws). (length (prSource r), length (prScratch r)))", goal_cases)
  case (2 libs sink over r ws p res b r')
  then show ?case using pcm_read_smaller [of libs RTPBufSize r] by (auto simp: RTPBufSize_def)
qed auto

declare fan_loop.simps [simp del]

section \<open>Setting up\<close>

datatype fanout_err = SourceNotTranscodable | SourceNoReader | DestNotTranscodable | DestNoWriter | Fan fan_err

text \<open>The writers of the destinations: a destination that is nil is left out, one that cannot be encoded for
  or has no writer ends the whole page.  mkW makes the writer of a handler for the leg.\<close>
fun fan_writers :: "(handler \<Rightarrow> leg_view \<Rightarrow> ('s, 'w) pcm_writer) \<Rightarrow> leg_view option list
    \<Rightarrow> (fanout_err, ('s, 'w) pcm_writer list) result" where
  "fan_writers mkW [] = Ok []"
| "fan_writers mkW (None # ds) = fan_writers mkW ds"
| "fan_writers mkW (Some d # ds) =
     (case NegotiatedCodec (lvMedia d) of
        None \<Rightarrow> Err DestNotTranscodable
      | Some c \<Rightarrow>
          if \<not> CanTranscode c then Err DestNotTranscodable
          else if \<not> lvWriter d then Err DestNoWriter
          else (case New c of
                  Inl e \<Rightarrow> Err DestNoWriter
                | Inr h \<Rightarrow> map_sum (\<lambda>e. e) (\<lambda>ws. mkW h d # ws) (fan_writers mkW ds)))"

definition FanoutTranscoded :: "('s, 'z) codec_libs_scheme \<Rightarrow> (bytes \<Rightarrow> 'w \<Rightarrow> bool \<times> 'w) \<Rightarrow> nat option
    \<Rightarrow> (handler \<Rightarrow> 's pcm_reader) \<Rightarrow> (handler \<Rightarrow> leg_view \<Rightarrow> ('s, 'w) pcm_writer) \<Rightarrow> leg_view option \<Rightarrow> leg_view option list
    \<Rightarrow> fanout_err option \<times> ('s, 'w) pcm_writer list" where
  "FanoutTranscoded libs sink over mkR mkW src dsts =
     (case src of
        None \<Rightarrow> (None, [])
      | Some s \<Rightarrow>
          if dsts = [] then (None, [])
          else (case NegotiatedCodec (lvMedia s) of
                  None \<Rightarrow> (Some SourceNotTranscodable, [])
                | Some c \<Rightarrow>
                    if \<not> CanTranscode c then (Some SourceNotTranscodable, [])
                    else if \<not> lvReader s then (Some SourceNoReader, [])
                    else (case New c of
                            Inl e \<Rightarrow> (Some SourceNoReader, [])
                          | Inr h \<Rightarrow>
                              (case fan_writers mkW dsts of
                                 Inl e \<Rightarrow> (Some e, [])
                               | Inr ws \<Rightarrow>
                                   if ws = [] then (None, [])
                                   else (case fan_loop libs sink over (mkR h) ws of
                                           (e, _, ws') \<Rightarrow> (map_option Fan e, ws'))))))"

section \<open>Each phone alone\<close>

text \<open>What a page does to one writer does not depend on the others.\<close>
lemma fan_loop_pointwise:
  "\<exists>e r' f. \<forall>ws :: ('s, 'w) pcm_writer list. fan_loop libs sink over r ws = (e, r', List.map f ws)"
proof (induction libs sink over r "[] :: ('s, 'w) pcm_writer list" rule: fan_loop.induct)
  case (1 libs sink over r)
  have stops: ?case if "\<And>ws :: ('s, 'w) pcm_writer list. fan_loop libs sink over r ws = (e, r', ws)" for e r'
    by (rule exI [of _ e], rule exI [of _ r'], rule exI [of _ "\<lambda>w. w"]) (simp add: that)
  show ?case
  proof (cases "over = Some 0 \<or> (\<forall>b r'. pcm_read libs RTPBufSize r \<noteq> Some (Inr b, r'))")
    case True
    then consider "over = Some 0" | "over \<noteq> Some 0" "pcm_read libs RTPBufSize r = None"
      | e r' where "over \<noteq> Some 0" "pcm_read libs RTPBufSize r = Some (Inl e, r')"
      by (cases "pcm_read libs RTPBufSize r") (auto, metis sum.exhaust)
    then show ?thesis
      by cases (rule stops, simp add: fan_loop.simps)+
  next
    case False
    then obtain b r' where p: "over \<noteq> Some 0" "pcm_read libs RTPBufSize r = Some (Inr b, r')" by blast
    have "\<exists>e r1 f. \<forall>ws :: ('s, 'w) pcm_writer list.
        fan_loop libs sink (map_option (\<lambda>n. n - 1) over) r' ws = (e, r1, List.map f ws)"
      by (rule 1 [OF p(1) p(2) refl refl]) (cases "b = []", simp_all)
    then obtain e r1 f where f:
      "\<forall>ws :: ('s, 'w) pcm_writer list. fan_loop libs sink (map_option (\<lambda>n. n - 1) over) r' ws = (e, r1, List.map f ws)"
      by blast
    show ?thesis
      by (rule exI [of _ e], rule exI [of _ r1],
          rule exI [of _ "if b = [] then f else (\<lambda>w. f (snd (PCMWrite libs sink b w)))"])
         (cases "b = []", simp_all add: fan_loop.simps [of libs sink over r] p f [simplified] o_def)
  qed
qed

lemma fan_loop_relay:
  assumes "runRelay libs sink aToB r w st = (e, r', w', st')" "\<forall>x. e \<noteq> Some (Inr x)"
  shows "fan_loop libs sink None r [w]
     = (map_option (\<lambda>x. FanRead (projl x)) e, r', [w'])"
  using assms
proof (induction libs sink aToB r w st rule: runRelay.induct)
  case (1 libs sink aToB r w st)
  show ?case
  proof (cases "\<exists>b r1. pcm_read libs RTPBufSize r = Some (Inr b, r1)")
    case False
    with 1(3) show ?thesis
      by (auto simp: runRelay.simps [of libs sink aToB r] fan_loop.simps [of libs sink None r] split: option.splits sum.splits)
  next
    case True
    then obtain b r1 where p: "pcm_read libs RTPBufSize r = Some (Inr b, r1)" by blast
    show ?thesis
    proof (cases "b = []")
      case True
      with 1(3) p have "runRelay libs sink aToB r1 w st = (e, r', w', st')"
        by (simp add: runRelay.simps [of libs sink aToB r])
      from 1(1) [OF p refl refl True this 1(4)] show ?thesis
        by (simp add: fan_loop.simps [of libs sink None r] p True)
    next
      case False
      obtain n x w1 where pw: "PCMWrite libs sink b w = ((n, x), w1)" by (metis prod.collapse)
      with 1(3) p False 1(4) have "x = None"
        by (cases x) (auto simp: runRelay.simps [of libs sink aToB r] Let_def)
      with 1(3) p False pw have "runRelay libs sink aToB r1 w1 (stats_add aToB (int (length b)) st) = (e, r', w', st')"
        by (simp add: runRelay.simps [of libs sink aToB r] Let_def)
      from 1(2) [OF p refl refl False refl pw [symmetric, unfolded \<open>x = None\<close>] refl refl this 1(4)] show ?thesis
        by (simp add: fan_loop.simps [of libs sink None r] p False pw)
    qed
  qed
qed




text \<open>One phone that negotiated a codec the server cannot encode silences the page for all.\<close>
theorem page_all_or_none:
  assumes "NegotiatedCodec (lvMedia d) = Some c" "\<not> CanTranscode c" "Some d \<in> set dsts"
  shows "snd (FanoutTranscoded libs sink over mkR mkW src dsts) = []"
proof -
  have "isl (fan_writers mkW dsts)"
    using assms(3)
  proof (induction mkW dsts rule: fan_writers.induct)
    case (3 mkW d' ds)
    then show ?case
      using assms(1,2) by (cases "fan_writers mkW ds") (auto split: option.splits sum.splits)
  qed simp_all
  then obtain e where "fan_writers mkW dsts = Err e" by (cases "fan_writers mkW dsts") auto
  then show ?thesis
    by (simp add: FanoutTranscoded_def split: option.split sum.split)
qed

lemma page_all_or_none_witness:
  "snd (FanoutTranscoded demo_libs rec_sink None (\<lambda>h. demo_reader) (\<lambda>h d. demo_writer) (demo_leg ''a'')
     [demo_leg ''b'', Some (the (demo_leg ''c'')\<lparr>lvMedia := Some \<lparr>msCommon = [mk_codec ''G723'' 4 30], msCodecs = []\<rparr>\<rparr>)]) = []"
  by (rule page_all_or_none [where d = "the (demo_leg ''c'')\<lparr>lvMedia := Some \<lparr>msCommon = [mk_codec ''G723'' 4 30], msCodecs = []\<rparr>\<rparr>"
        and c = "mk_codec ''G723'' 4 30"])
     (simp_all add: NegotiatedCodec_def CodecAudioFromList_def mk_codec_def CanTranscode_def Supported_def New_def isG726_def)

end
