(* ===== verification/Answer.thy ===== *)
theory Answer
  imports Dtmf
begin

text \<open>
  The codecs a call is answered with (internal/call/answer.go) and the telephone-event types of its
  legs (internal/call/dtmf_codec.go and dtmf_sdp.go).  A session description is the list of codecs
  the library reads in it, None where it cannot be read or there is none.
\<close>

section \<open>Where telephone-events are looked for\<close>

text \<open>Bodies that are missing or empty are left out: None.\<close>
definition sdpBodiesForDTMF :: "codec list option option \<Rightarrow> codec list option option \<Rightarrow> codec list option list" where
  "sdpBodiesForDTMF invite localSDP =
     (case invite of None \<Rightarrow> [] | Some b \<Rightarrow> [b]) @ (case localSDP of None \<Rightarrow> [] | Some b \<Rightarrow> [b])"

fun te_collect :: "8 word list \<Rightarrow> codec list \<Rightarrow> codec list" where
  "te_collect seen [] = []"
| "te_collect seen (c # cs) =
     (if cPT c \<in> set seen then te_collect seen cs else c # te_collect (cPT c # seen) cs)"

definition telephoneEventsFromSDPs :: "codec list option list \<Rightarrow> codec list" where
  "telephoneEventsFromSDPs bodies = te_collect [] (concat (List.map telephoneEventsFromSDP bodies))"

text \<open>The outbound leg: the answer's description, or the offer's where there is none.  The leg is None when it,
  or its media session, is missing.\<close>
definition EnsureClientDTMFCodec :: "codec list option option \<Rightarrow> codec list option option \<Rightarrow> codec list option
    \<Rightarrow> codec \<times> codec list option" where
  "EnsureClientDTMFCodec answer offer leg =
     (case leg of
        None \<Rightarrow> (CodecTelephoneEvent8000, None)
      | Some cs \<Rightarrow>
          let body = (case answer of Some b \<Rightarrow> b | None \<Rightarrow> (case offer of Some b \<Rightarrow> b | None \<Rightarrow> None));
              (p, cs') = patchMediaSessionDTMFCodec body CodecTelephoneEvent8000 cs
          in (p, Some cs'))"

section \<open>Answering\<close>

text \<open>prepareServerAnswer: the codecs asked for, the default ones, the INVITE's description and the codecs of an early
  session; the result has the codecs of the answer and those of the session.\<close>
definition prepareServerAnswer :: "codec list \<Rightarrow> codec list \<Rightarrow> codec list option \<Rightarrow> codec list option
    \<Rightarrow> codec list \<times> codec list option" where
  "prepareServerAnswer asked dflts invite early =
     (let remotes = telephoneEventsFromSDP invite in
      (if asked \<noteq> [] then alignCodecsWithRemoteDTMF asked remotes
       else if dflts \<noteq> [] then alignCodecsWithRemoteDTMF dflts remotes
       else asked,
       map_option (\<lambda>cs. snd (patchMediaSessionDTMFCodec invite CodecTelephoneEvent8000 cs)) early))"

definition AnswerSession :: "codec list \<Rightarrow> codec list option \<Rightarrow> codec list option \<Rightarrow> codec list \<times> codec list option" where
  "AnswerSession dflts invite early = prepareServerAnswer [] dflts invite early"

section \<open>Properties\<close>

lemma te_events: "r \<in> set (telephoneEventsFromSDP body) \<Longrightarrow> is_te r"
  by (auto simp: telephoneEventsFromSDP_def split: option.splits)

lemma keep_new_from: "c \<in> set (keep_new kept cs) \<Longrightarrow> c \<in> set kept \<or> c \<in> set cs"
  by (induction kept cs rule: keep_new.induct) (auto split: if_splits)

lemma aligned_events:
  assumes "c \<in> set (keep_new (keep_new [] (filter (\<lambda>c. \<not> is_te c) cs)) rs)" "is_te c"
  shows "c \<in> set rs"
  using keep_new_from [OF assms(1)] keep_new_from [of c "[]" "filter (\<lambda>c. \<not> is_te c) cs"] assms(2) by auto

text \<open>A call whose caller offers telephone-events is answered with the caller's events only, every audio payload type
  of the default codecs, and no payload type twice; a caller who offers none gets the default codecs as they are.\<close>
theorem answer_codecs:
  assumes "dflts \<noteq> []" "fst (AnswerSession dflts invite early) = cs"
  shows "if telephoneEventsFromSDP invite = [] then cs = dflts
    else distinct (List.map cPT cs)
      \<and> (\<forall>c \<in> set cs. is_te c \<longrightarrow> c \<in> set (telephoneEventsFromSDP invite))
      \<and> (\<forall>c \<in> set dflts. \<not> is_te c \<longrightarrow> cPT c \<in> set (List.map cPT cs))
      \<and> (\<forall>r \<in> set (telephoneEventsFromSDP invite). cPT r \<in> set (List.map cPT cs))"
proof (cases "telephoneEventsFromSDP invite = []")
  case True
  with assms show ?thesis by (simp add: AnswerSession_def prepareServerAnswer_def alignCodecsWithRemoteDTMF_def)
next
  case False
  let ?A = "keep_new [] (filter (\<lambda>c. \<not> is_te c) dflts)"
  have cs: "cs = keep_new ?A (telephoneEventsFromSDP invite)"
    using assms False by (simp add: AnswerSession_def prepareServerAnswer_def alignCodecsWithRemoteDTMF_def Let_def)
  have "distinct (List.map cPT ?A)" by (rule keep_new_distinct) simp
  then have d: "distinct (List.map cPT cs)" unfolding cs by (rule keep_new_distinct)
  have pts: "set (List.map cPT cs) = set (List.map cPT (filter (\<lambda>c. \<not> is_te c) dflts)) \<union> set (List.map cPT (telephoneEventsFromSDP invite))"
    unfolding cs keep_new_PTs by simp
  have "\<forall>c \<in> set cs. is_te c \<longrightarrow> c \<in> set (telephoneEventsFromSDP invite)" using aligned_events unfolding cs by blast
  moreover have "\<forall>c \<in> set dflts. \<not> is_te c \<longrightarrow> cPT c \<in> set (List.map cPT cs)" unfolding pts by auto
  moreover have "\<forall>r \<in> set (telephoneEventsFromSDP invite). cPT r \<in> set (List.map cPT cs)" unfolding pts by auto
  ultimately show ?thesis using False d by simp
qed

theorem answer_codecs_witness:
  "cPT (mk_codec ''telephone-event'' 95 20) \<in> set (List.map cPT (fst (AnswerSession [CodecAudioUlaw, CodecTelephoneEvent8000]
     (Some [mk_codec ''telephone-event'' 95 20]) None)))"
  using answer_codecs [OF _ refl, of "[CodecAudioUlaw, CodecTelephoneEvent8000]" "Some [mk_codec ''telephone-event'' 95 20]" None]
  by (simp add: telephoneEventsFromSDP_def is_te_def mk_codec_def)

text \<open>EnsureSessionDTMFCodec reads the INVITE and then the local description, and each reading drops the events of the
  one before: with events of its own in the local description the session is left with these only, and the payload
  types of the caller's events, which it had just been given, are gone.\<close>
theorem local_events_win:
  assumes "telephoneEventsFromSDP own \<noteq> []"
    and "EnsureSessionDTMFCodec (sdpBodiesForDTMF (Some invite) (Some own)) cs = (p, cs')"
  shows "p = hd (telephoneEventsFromSDP own) \<and> (\<forall>c \<in> set cs'. is_te c \<longrightarrow> c \<in> set (telephoneEventsFromSDP own))"
proof -
  obtain p1 cs1 where one: "patchMediaSessionDTMFCodec invite CodecTelephoneEvent8000 cs = (p1, cs1)"
    by (metis prod.collapse)
  with assms(2) have two: "patchMediaSessionDTMFCodec own p1 cs1 = (p, cs')"
    by (simp add: EnsureSessionDTMFCodec_def sdpBodiesForDTMF_def split: prod.splits)
  obtain e es where e: "telephoneEventsFromSDP own = e # es" using assms(1) by (cases "telephoneEventsFromSDP own") auto
  let ?B = "keep_new (keep_new [] (filter (\<lambda>c. \<not> is_te c) cs1)) (e # es)"
  from two e have p: "p = e" "cs' = (if cPT e \<in> set (List.map cPT ?B) then ?B else ?B @ [e])"
    by (simp_all add: patchMediaSessionDTMFCodec_def Let_def dtmfPrimaryCodec_def split: if_splits)
  then have "c \<in> set (e # es)" if "c \<in> set cs'" "is_te c" for c
    using that aligned_events [of c cs1 "e # es"] by (auto split: if_splits)
  with p(1) e show ?thesis by simp
qed

theorem local_events_win_witness:
  "snd (EnsureSessionDTMFCodec (sdpBodiesForDTMF (Some (Some [mk_codec ''telephone-event'' 95 20]))
      (Some (Some [CodecTelephoneEvent8000]))) [CodecAudioUlaw]) = [CodecAudioUlaw, CodecTelephoneEvent8000]"
proof -
  obtain p cs where e: "EnsureSessionDTMFCodec (sdpBodiesForDTMF (Some (Some [mk_codec ''telephone-event'' 95 20]))
      (Some (Some [CodecTelephoneEvent8000]))) [CodecAudioUlaw] = (p, cs)" by (metis prod.collapse)
  have "p = CodecTelephoneEvent8000"
    using local_events_win [OF _ e] by (simp add: telephoneEventsFromSDP_def is_te_def CodecTelephoneEvent8000_def mk_codec_def)
  have "cs = [CodecAudioUlaw, CodecTelephoneEvent8000]" using arg_cong [OF e, of snd] by (simp only: snd_conv) (code_simp, simp)
  with e show ?thesis by simp
qed

end
