(* ===== verification/Ringback.thy ===== *)
theory Ringback
  imports Playback Dtmf
begin

text \<open>
  Tones and music that the library plays until they are stopped (internal/call: tone_playback.go,
  hold_media.go and hold.go): the ringback of a call that is set up, and the music session of a
  conference room.  A turn is one round of a playing loop.
\<close>

section \<open>Loops\<close>

text \<open>How a call of Play ends: the reader is over, the playback was stopped, which is an end of file, or an error.\<close>
datatype play_end = ReaderOver | Stopped | PlayFailed

text \<open>One round: whether the context or the call is over when the loop looks, and how Play ends otherwise\<close>
record play_turn =
  ptOver :: bool
  ptEnd :: play_end

text \<open>playToneControlled, with the bytes it counts; the result says whether the loop has returned.\<close>
fun playToneControlled :: "nat \<Rightarrow> play_turn list \<Rightarrow> bool \<times> nat" where
  "playToneControlled n [] = (False, n)"
| "playToneControlled n (t # ts) =
     (if ptOver t then (True, n)
      else if ptEnd t = PlayFailed then (True, n)
      else playToneControlled (n + 320) ts)"

text \<open>playToneLoop does the same without counting.\<close>
definition playToneLoop :: "play_turn list \<Rightarrow> bool" where
  "playToneLoop ts = fst (playToneControlled 0 ts)"

text \<open>PlayToneToServer and PlayToneToClient; None for a leg that is missing or has no playback.\<close>
definition PlayToneToLeg :: "bool \<Rightarrow> bool \<Rightarrow> play_turn list \<Rightarrow> bool option" where
  "PlayToneToLeg hasLeg created ts = (if \<not> hasLeg \<or> \<not> created then None else Some (playToneLoop ts))"

text \<open>playWavControlled: whether the track was played, and the bytes counted\<close>
definition playWavControlled :: "bool \<Rightarrow> play_turn \<Rightarrow> nat \<Rightarrow> bool \<times> nat" where
  "playWavControlled opens t n =
     (if ptOver t \<or> \<not> opens then (False, n)
      else case ptEnd t of ReaderOver \<Rightarrow> (True, n + 320) | Stopped \<Rightarrow> (True, n) | PlayFailed \<Rightarrow> (False, n))"

text \<open>The loop of startMOH over the tracks; the i-th round plays track i of the endless list.\<close>
fun music_loop :: "(nat \<Rightarrow> bool) \<Rightarrow> nat \<Rightarrow> nat \<Rightarrow> play_turn list \<Rightarrow> bool \<times> nat" where
  "music_loop opens i n [] = (False, n)"
| "music_loop opens i n (t # ts) =
     (case playWavControlled (opens i) t n of
        (True, n') \<Rightarrow> music_loop opens (i + 1) n' ts
      | (False, n') \<Rightarrow> playToneControlled n' ts)"

section \<open>Music sessions and ringback\<close>

text \<open>newMOHSession: dir and whether its tracks are found, the leg's playback, and the session it makes, with
  whether music starts\<close>
definition newMOHSession :: "string \<Rightarrow> string list option \<Rightarrow> bool option \<Rightarrow> bool option" where
  "newMOHSession dir tracks create =
     (if dir = [] \<or> create = None then None
      else case tracks of None \<Rightarrow> None | Some ts \<Rightarrow> Some (create = Some True))"

definition StartMOHServer :: "bool \<Rightarrow> string \<Rightarrow> string list option \<Rightarrow> bool option \<Rightarrow> bool option" where
  "StartMOHServer hasLeg dir tracks create = (if \<not> hasLeg then None else newMOHSession dir tracks create)"

text \<open>MOHSession.Stop: the context ends and the playback is stopped, and Stop waits for the loop.  From then on the
  loop's rounds find the context over, and the round under way ends with an end of file.\<close>
definition stop_turns :: "nat \<Rightarrow> play_turn list" where
  "stop_turns k = replicate k \<lparr>ptOver = True, ptEnd = Stopped\<rparr>"

text \<open>ensureEarlyMedia: whether early media is asked for, and the codecs of the session aligned\<close>
definition ensureEarlyMedia :: "bool \<Rightarrow> bool \<Rightarrow> bool" where
  "ensureEarlyMedia hasLeg hasMedia = (hasLeg \<and> \<not> hasMedia)"

record ringback =
  rbEarly :: bool
  rbRings :: bool
  rbReturned :: bool

definition StartRingback :: "bool \<Rightarrow> bool \<Rightarrow> bool \<Rightarrow> play_turn list \<Rightarrow> ringback" where
  "StartRingback hasLeg hasMedia created ts =
     (if \<not> hasLeg then \<lparr>rbEarly = False, rbRings = False, rbReturned = True\<rparr>
      else \<lparr>rbEarly = ensureEarlyMedia hasLeg hasMedia, rbRings = created,
            rbReturned = (\<not> created \<or> fst (playToneControlled 0 ts))\<rparr>)"

section \<open>Stopping\<close>

lemma tone_ends:
  "fst (playToneControlled n ts) \<longleftrightarrow> (\<exists>t \<in> set ts. ptOver t \<or> ptEnd t = PlayFailed)"
  by (induction n ts rule: playToneControlled.induct) auto

lemma music_ends:
  "fst (music_loop opens i n ts) \<Longrightarrow> \<exists>t \<in> set ts. ptOver t \<or> ptEnd t = PlayFailed"
proof (induction opens i n ts rule: music_loop.induct)
  case (2 opens i n t ts)
  then show ?case
    by (cases "ptEnd t") (auto simp: playWavControlled_def tone_ends split: if_splits)
qed simp

lemma music_over: "fst (music_loop opens i n (ts @ stop_turns 2))"
proof (induction ts arbitrary: i n)
  case Nil
  show ?case by (simp add: stop_turns_def numeral_2_eq_2 playWavControlled_def)
next
  case (Cons t ts)
  have "fst (playToneControlled k (ts @ stop_turns 2))" for k
    by (auto simp: tone_ends stop_turns_def numeral_2_eq_2)
  with Cons show ?case by (auto split: prod.split bool.split)
qed

text \<open>Stopping always works, and needs the context to be ended: however far a loop has come, it returns within two
  rounds of a Stop, for music and for ringback.  Stopping the playback alone would never end either: each round would
  end at once and the next begin.\<close>
theorem stop_returns:
  "fst (music_loop opens 0 0 (ts @ stop_turns 2))
   \<and> rbReturned (StartRingback hasLeg hasMedia created (ts @ stop_turns 1))
   \<and> \<not> fst (music_loop (\<lambda>i. True) 0 0 (replicate k \<lparr>ptOver = False, ptEnd = Stopped\<rparr>))
   \<and> \<not> fst (playToneControlled 0 (replicate k \<lparr>ptOver = False, ptEnd = Stopped\<rparr>))"
proof (intro conjI)
  show "fst (music_loop opens 0 0 (ts @ stop_turns 2))" by (rule music_over)
  show "rbReturned (StartRingback hasLeg hasMedia created (ts @ stop_turns 1))"
    by (auto simp: StartRingback_def tone_ends stop_turns_def)
  show "\<not> fst (music_loop (\<lambda>i. True) 0 0 (replicate k \<lparr>ptOver = False, ptEnd = Stopped\<rparr>))"
    using music_ends [of "\<lambda>i. True" 0 0 "replicate k \<lparr>ptOver = False, ptEnd = Stopped\<rparr>"] by auto
  show "\<not> fst (playToneControlled 0 (replicate k \<lparr>ptOver = False, ptEnd = Stopped\<rparr>))" by (auto simp: tone_ends)
qed

end
