(* ===== verification/Spec2Isabelle.thy ===== *)
theory Spec2Isabelle
  imports Admin HoldMusic Connect Legs Invite HoldMedia Startup Refer Fanout Answer Ringback Stun Pbx Presence
    AudioBridge Tones Hold Dtmf
begin

text \<open>
  A model of the VoIP server under src/: a SIP switchboard written in Go on the libraries diago
  and sipgo, with a registrar, bridged calls, phone hold, conferences, hunt groups, paging,
  trunks, presence, messages, and an administration server on HTTP.  The theories translate its
  packages; this one holds their map.

  How the parts interact.  cmd/voip-server/main.go reads the configuration, opens the database,
  loads the extension files and makes the switchboard (Startup).  Phones register (Registrar);
  an INVITE is dispatched on the dialled number (Router, Pbx) to a feature, an extension, a hunt
  group, a page, a conference or a trunk, under the call limits (CallManager).  A bridged call is
  set up leg by leg (Invite, Connect), its legs are prepared and joined by a relay (Legs,
  AudioBridge, Pcm), it is registered for transfer, park and hold (Calls, Refer, Hold), and
  ends when a leg does.  Presence and Message follow the registrations.  The administration
  server (Web, Admin) changes database, configuration and extension files and reloads the
  switchboard.

  Foundations
    Prelude       strings, strconv and maps of Go; results; the collections inv_intros, table_ok
    GoPath        path/filepath: Clean, Join, Dir, Base, Ext, and when a joined path stays below
    Contracts     locales kv_table and kv_listing: a locked table with one entry for each key
    Runs          locales stepping and settling: steps that keep an invariant, and come to rest
  Configuration and data
    Router        internal/router: RouteDial and the star codes
    Config        internal/config: defaults, Validate, trunks, extension files, LoadConfig
    Codecs        internal/media/codecs.go: names, table and SDP offer of the voice codecs
    Tones         internal/media/tones: regional profiles, the generator and its cadence
    Store         internal/store: tables with unique columns, every operation, db_inv
    Startup       cmd/voip-server/main.go; New, Run and signalClient of internal/pbx/server.go
  Registration and messages
    Registrar     internal/registrar: REGISTER with digests, OPTIONS, expiry, dial targets
    Presence      internal/presence: subscriptions with two indexes, SUBSCRIBE, NOTIFY
    Message       internal/message: relay, storing and delivery of messages
  Calls
    CallManager   internal/call/manager.go: admission and release
    Calls         internal/call/registry.go, park.go and the waiting goroutines of bridge.go
    Connect       internal/call/bridge.go: Connect and Join as sequences of actions
    Refer         internal/call/bridge.go: the REFER handler
    Invite        internal/call/invite.go, prompt_dtmf.go: outbound INVITEs, prompted digits
    Legs          internal/call/bridge_media.go, bridge_prepare.go: what a bridge needs of a leg
    Answer        internal/call/answer.go, dtmf_sdp.go: the codecs of an answer
    Hunt          internal/hunt, internal/paging: members called in turn, at once, or paged
    Trunk         internal/trunk: addresses, outbound calls, keepalive loops and supervisors
    Pbx           internal/pbx: what an INVITE becomes, star codes, inbound trunks, status
    Conference    internal/conference: rooms, PIN gate, capacity, music or mixer
  Hold
    Hold          internal/call/hold_control.go, hold_dialtone.go, hold_server.go
    HoldMedia     the set-up and restarts of hold media, and the loops that play
    HoldMusic     internal/call/hold_pcm_playback.go: frames written by the server itself
    Playback      internal/call/wav_playback.go, mp3_prompt.go, prompt.go, tone_playback.go
    Ringback      loops the library plays: ringback, music sessions
  Media
    Pcm           internal/media/pcmcodec, wav_normalize.go: handlers, readers, writers
    AudioBridge   internal/media/audiobridge: relays, jitter buffer, mixer
    Fanout        internal/media/audiobridge/conference.go: the audio of a page
    Dtmf          internal/call/dtmf*.go, moh.go: telephone-events, tones, payload types
    Video         internal/media/sdp_video.go, video_relay.go: descriptions and their relay
    Stun          internal/nat/stun.go
  Administration
    Backup        internal/backup: export, checks and restore of an archive
    Sessions      internal/web/auth/session.go: login cookies
    Pages         internal/web/ui.go, forms.go, server.go, status.go: pages as pieces of HTML
    Phonebook     internal/web/phonebook.go
    Web           internal/web/server.go: every route with its handler and effect
    Admin         what requests do to the rest of the server

  State and steps.  Data shared by pointer (calls, subscriptions) lives in a heap of numbered
  cells.  What runs under a lock is one step; components with several goroutines have an
  inductive step relation (world_step, hold_step, media_step, room_step, hunt_step, mixer_step,
  presence_step, reg_step, keeper_step, db_step, settles) and their invariants hold of every
  reachable state, whatever the order of the steps.  A handler that blocks for the length of a
  call ends in a value that says what it blocks in.  Errors are values of a sum or option type,
  one constructor for each return of the code.  Durations of the registrar are the 64-bit
  integers of Go, samples and RTP fields words of their width, the other numbers integers, as
  the code does not reach their bounds.

  What the lemmas show.  Safety: who may place calls, register, administer and subscribe, what a
  hang-up ends, what a restored archive can touch.  Invariants: call counts, registry, hold
  state, rooms, bindings, subscriptions, keepalive loops, database.  Functional behaviour of
  REGISTER, the switchboard, the administration forms, messages, the start of a bridge.
  Equivalence of hold music and of a page with the two-party relay; refinement of the jitter
  buffer to a queue, of the message table to a pending list and of subscriptions to one set;
  round trips of archives, digits, files and descriptions.  Several theorems state what the code
  does where it does something else than meant: a simultaneous hunt or a transfer that is torn
  down, a busy tone without an end, dial tones that pile up, a default administrator that
  returns at every start, a bridge started twice, any caller taken for a trunk.

  Termination and bounds.  Recursion is structural or has a measure (sort passes, tracks of hold
  music, reads of a relay).  The copying of a reader to a leg may not return: copy_loop is a
  partial function whose value None is exactly that.  Loops that wait for the outside (relays,
  waits for audio, hold music, ringback) take the list of what they meet at each turn, and a
  list that ends leaves them running; no fuel is used.  The number of retries and polls is the
  code's: 20 polls and 8 re-INVITEs for the holder, 3 checks of the watchdog.

  Parameters.  Code that is not under src/ is an argument: sipgo's parsing and transactions
  (sip_lib), digests (digest_lib), bcrypt, HMAC, SHA-256, TOML, JSON, tar, SQLite as a store of
  rows, the codec libraries (codec_libs), MP3 and WAV headers, the clock, random numbers, the
  order of a map iteration, and what phones answer.  Of the vendored diago under
  src/third_party the functions the server relies on are translated: session descriptions,
  codecs, telephone-events, the offer to an originator, RestorePrimaryCodec.

  Not modelled.  The style sheets and the frame of the pages (internal/web/theme.go and
  templates.go: constants without behaviour); the rest of the vendored libraries; sockets,
  logging, signal handling and shutdown; scheduling below the granularity of critical sections
  and channel operations; the float arithmetic of resampling and of the Goertzel filter beyond
  the rationals it approximates; failures of the database and of the disk other than names in
  the way; white space and letter case outside ASCII.
\<close>

end
